(* ===== verification/Prelude.thy ===== *)
theory Prelude
  imports Main "HOL-Library.Char_ord" "HOL-Library.List_Lexorder" "HOL-Library.Sublist"
begin

text \<open>
  The vocabulary every component of the development shares: byte strings, the outcome of a
  Go statement sequence, state passing with outcomes, and the collections of
  simplification rules the component proofs use.

  A Go \<open>string\<close> and a Go \<open>[]byte\<close> are both byte sequences; here both are
  lists of \<open>char\<close> (one \<open>char\<close> is one byte), so the conversions
  \<open>string(data)\<close> and \<open>[]byte(s)\<close> are the identity.
\<close>

section \<open>Collections of rules\<close>

named_theorems prog_simps \<open>unfolding of the state-passing combinators\<close>
named_theorems fs_simps \<open>lookup after an update of the file system\<close>
named_theorems frame_intros \<open>a stage keeps a part of the world\<close>

section \<open>Byte strings\<close>

type_synonym bytes = string

section \<open>Outcomes\<close>

text \<open>
  How a call ends: it returns a value, it calls \<open>log.Fatal\<close> (the process exits with
  status 1 and runs no deferred function), or it panics (\<open>net/http\<close> recovers a panic
  of a handler: the connection is dropped and the server keeps running).
\<close>

datatype 'a outcome = Ret 'a | Fatal string | Panic string

fun is_Ret :: "'a outcome \<Rightarrow> bool" where
  "is_Ret (Ret _) = True"
| "is_Ret _ = False"

fun is_Fatal :: "'a outcome \<Rightarrow> bool" where
  "is_Fatal (Fatal _) = True"
| "is_Fatal _ = False"

fun is_Panic :: "'a outcome \<Rightarrow> bool" where
  "is_Panic (Panic _) = True"
| "is_Panic _ = False"

section \<open>State passing\<close>

type_synonym ('w, 'a) prog = "'w \<Rightarrow> 'a outcome \<times> 'w"

definition ret :: "'a \<Rightarrow> ('w, 'a) prog" where
  "ret a = (\<lambda>w. (Ret a, w))"

definition fatal :: "string \<Rightarrow> ('w, 'a) prog" where
  "fatal msg = (\<lambda>w. (Fatal msg, w))"

definition panic :: "string \<Rightarrow> ('w, 'a) prog" where
  "panic msg = (\<lambda>w. (Panic msg, w))"

text \<open>Sequencing: the rest of the block runs only after a normal return.\<close>

definition andThen :: "('w, 'a) prog \<Rightarrow> ('a \<Rightarrow> ('w, 'b) prog) \<Rightarrow> ('w, 'b) prog" where
  "andThen m f = (\<lambda>w. case m w of
      (Ret a, w') \<Rightarrow> f a w'
    | (Fatal msg, w') \<Rightarrow> (Fatal msg, w')
    | (Panic msg, w') \<Rightarrow> (Panic msg, w'))"

definition modify :: "('w \<Rightarrow> 'w) \<Rightarrow> ('w, unit) prog" where
  "modify g = (\<lambda>w. (Ret (), g w))"

definition reads :: "('w \<Rightarrow> 'a) \<Rightarrow> ('w, 'a) prog" where
  "reads g = (\<lambda>w. (Ret (g w), w))"

lemma ret_apply [simp, prog_simps]: "ret a w = (Ret a, w)"
  by (simp add: ret_def)

lemma fatal_apply [simp, prog_simps]: "fatal e w = (Fatal e, w)"
  by (simp add: fatal_def)

lemma panic_apply [simp, prog_simps]: "panic e w = (Panic e, w)"
  by (simp add: panic_def)

lemma modify_apply [simp, prog_simps]: "modify g w = (Ret (), g w)"
  by (simp add: modify_def)

lemma reads_apply [simp, prog_simps]: "reads g w = (Ret (g w), w)"
  by (simp add: reads_def)

lemma andThen_Ret [simp]: "m w = (Ret a, w') \<Longrightarrow> andThen m f w = f a w'"
  by (simp add: andThen_def)

lemma andThen_Fatal [simp]: "m w = (Fatal e, w') \<Longrightarrow> andThen m f w = (Fatal e, w')"
  by (simp add: andThen_def)

lemma andThen_Panic [simp]: "m w = (Panic e, w') \<Longrightarrow> andThen m f w = (Panic e, w')"
  by (simp add: andThen_def)

lemma andThen_ret [simp]: "andThen (ret a) f = f a"
  by (rule ext) simp

lemma andThen_modify [simp]: "andThen (modify g) f w = f () (g w)"
  by simp

lemma andThen_reads [simp]: "andThen (reads g) f w = f (g w) w"
  by simp

lemma andThen_assoc: "andThen (andThen m f) g = andThen m (\<lambda>a. andThen (f a) g)"
  by (rule ext) (simp add: andThen_def split: prod.splits outcome.splits)

text \<open>What a returning sequence says of its parts.\<close>

lemma andThen_RetE:
  assumes "andThen m f w = (Ret b, w')"
  obtains a w1 where "m w = (Ret a, w1)" and "f a w1 = (Ret b, w')"
  using assms by (auto simp: andThen_def split: prod.splits outcome.splits)

lemma andThen_cases:
  obtains (ret) a w1 where "m w = (Ret a, w1)" and "andThen m f w = f a w1"
  | (fatal) e w1 where "m w = (Fatal e, w1)" and "andThen m f w = (Fatal e, w1)"
  | (panic) e w1 where "m w = (Panic e, w1)" and "andThen m f w = (Panic e, w1)"
  by (cases "m w"; cases "fst (m w)") auto

subsection \<open>Relating the state before and after\<close>

text \<open>
  \<open>keeps R m\<close>: whatever the outcome, the state after \<open>m\<close> is related to the
  state before by \<open>R\<close>. With a reflexive and transitive \<open>R\<close> it passes through
  sequencing, which is how the frame properties of the handler are proved.
\<close>

definition keeps :: "('w \<Rightarrow> 'w \<Rightarrow> bool) \<Rightarrow> ('w, 'a) prog \<Rightarrow> bool" where
  "keeps R m \<longleftrightarrow> (\<forall>w. R w (snd (m w)))"

lemma keepsI: "(\<And>w. R w (snd (m w))) \<Longrightarrow> keeps R m"
  by (simp add: keeps_def)

lemma keepsD: "keeps R m \<Longrightarrow> m w = (r, w') \<Longrightarrow> R w w'"
  by (metis keeps_def snd_conv)

lemma keeps_ret [frame_intros]: "(\<And>w. R w w) \<Longrightarrow> keeps R (ret a)"
  by (simp add: keeps_def)

lemma keeps_fatal [frame_intros]: "(\<And>w. R w w) \<Longrightarrow> keeps R (fatal a)"
  by (simp add: keeps_def)

lemma keeps_panic [frame_intros]: "(\<And>w. R w w) \<Longrightarrow> keeps R (panic a)"
  by (simp add: keeps_def)

lemma keeps_reads [frame_intros]: "(\<And>w. R w w) \<Longrightarrow> keeps R (reads g)"
  by (simp add: keeps_def)

lemma keeps_modify [frame_intros]: "(\<And>w. R w (g w)) \<Longrightarrow> keeps R (modify g)"
  by (simp add: keeps_def)

lemma keeps_andThen:
  assumes trans: "\<And>a b c. R a b \<Longrightarrow> R b c \<Longrightarrow> R a c"
    and "keeps R m" and "\<And>a. keeps R (f a)"
  shows "keeps R (andThen m f)"
proof (rule keepsI)
  fix w
  show "R w (snd (andThen m f w))"
    using assms by (cases rule: andThen_cases [of m w f]) (auto simp: keeps_def intro: trans, (metis snd_conv)+)
qed

section \<open>Lists\<close>

lemma take_append_exact [simp]: "length xs = n \<Longrightarrow> take n (xs @ ys) = xs"
  by simp

lemma drop_append_exact [simp]: "length xs = n \<Longrightarrow> drop n (xs @ ys) = ys"
  by simp

text \<open>The first index at which a property holds, as Go's index functions return it.\<close>

fun find_index :: "('a \<Rightarrow> bool) \<Rightarrow> 'a list \<Rightarrow> nat option" where
  "find_index p [] = None"
| "find_index p (x # xs) = (if p x then Some 0 else map_option Suc (find_index p xs))"

lemma find_index_Some:
  "find_index p xs = Some i \<Longrightarrow> i < length xs \<and> p (xs ! i) \<and> (\<forall>j < i. \<not> p (xs ! j))"
  by (induction xs arbitrary: i) (auto split: if_splits simp: less_Suc_eq_0_disj)

lemma find_index_None_iff: "find_index p xs = None \<longleftrightarrow> (\<forall>x \<in> set xs. \<not> p x)"
  by (induction xs) auto

lemma find_index_takeWhile:
  "find_index p xs = Some i \<Longrightarrow> take i xs = takeWhile (\<lambda>x. \<not> p x) xs"
  by (induction xs arbitrary: i) (auto split: if_splits)

section \<open>Bytes as numbers\<close>

abbreviation ord :: "char \<Rightarrow> nat" where
  "ord c \<equiv> of_char c"

lemma of_char_eq_nat_iff [simp]: "(of_char c = (of_char d :: nat)) \<longleftrightarrow> c = d"
  by (metis char_of_char)

end
