(* ===== verification/GoStrings.thy ===== *)
theory GoStrings
  imports Prelude
begin

text \<open>
  The functions of Go's standard library on strings that \<open>src/Web/main.go\<close> calls:
  \<open>strings.Index\<close>, \<open>strings.Trim\<close>, \<open>strings.Split\<close>,
  \<open>strings.TrimSuffix\<close>, \<open>path.Ext\<close>, slicing, \<open>strconv.Atoi\<close>,
  \<open>strconv.Itoa\<close> and the time layout of \<open>createDateDir\<close>.
\<close>

section \<open>Searching and cutting\<close>

text \<open>\<open>strings.Index(s, sep)\<close> for a separator of one byte; \<open>None\<close> is -1.\<close>

definition indexByte :: "string \<Rightarrow> char \<Rightarrow> nat option" where
  "indexByte s c = find_index (\<lambda>x. x = c) s"

text \<open>\<open>s[0:n]\<close> with \<open>n = strings.Index(...)\<close>: the slice panics for -1.\<close>

definition slice_to :: "string \<Rightarrow> nat option \<Rightarrow> string option" where
  "slice_to s n = (case n of None \<Rightarrow> None | Some k \<Rightarrow> if k \<le> length s then Some (take k s) else None)"

text \<open>\<open>strings.Trim(s, " ")\<close>: all leading and trailing blanks.\<close>

definition trimSpaces :: "string \<Rightarrow> string" where
  "trimSpaces s =
     rev (dropWhile (\<lambda>c. c = CHR '' '') (rev (dropWhile (\<lambda>c. c = CHR '' '') s)))"

text \<open>\<open>strings.Split(s, sep)\<close> for a separator of one byte: never empty.\<close>

fun splitOn :: "char \<Rightarrow> string \<Rightarrow> string list" where
  "splitOn d [] = [[]]"
| "splitOn d (c # cs) =
     (if c = d then [] # splitOn d cs
      else (case splitOn d cs of [] \<Rightarrow> [[c]] | w # ws \<Rightarrow> (c # w) # ws))"

definition hasSuffix :: "string \<Rightarrow> string \<Rightarrow> bool" where
  "hasSuffix s suf = (length suf \<le> length s \<and> drop (length s - length suf) s = suf)"

definition hasPrefix :: "string \<Rightarrow> string \<Rightarrow> bool" where
  "hasPrefix s pre = (take (length pre) s = pre)"

definition trimSuffix :: "string \<Rightarrow> string \<Rightarrow> string" where
  "trimSuffix s suf = (if hasSuffix s suf then take (length s - length suf) s else s)"

text \<open>
  \<open>path.Ext(p)\<close>: from the last dot of the last path element, empty if it has none.
  The source scans from the end and stops at a slash.
\<close>

fun ext_rev :: "string \<Rightarrow> string \<Rightarrow> string" where
  "ext_rev [] acc = []"
| "ext_rev (c # cs) acc =
     (if c = CHR ''/'' then []
      else if c = CHR ''.'' then c # acc
      else ext_rev cs (c # acc))"

definition pathExt :: "string \<Rightarrow> string" where
  "pathExt p = ext_rev (rev p) []"

lemma splitOn_nonempty [simp]: "splitOn d s \<noteq> []"
  by (induction s) (auto split: list.splits)

lemma hasSuffix_iff: "hasSuffix s suf \<longleftrightarrow> (\<exists>p. s = p @ suf)"
  by (auto simp: hasSuffix_def intro!: exI [of _ "take (length s - length suf) s"])
     (metis append_take_drop_id)

lemma trimSuffix_append [simp]: "trimSuffix (p @ suf) suf = p"
  by (simp add: trimSuffix_def hasSuffix_def)

lemma trimSuffix_back: "hasSuffix s suf \<Longrightarrow> trimSuffix s suf @ suf = s"
  by (auto simp: hasSuffix_iff)

lemma ext_rev_dot:
  "ext_rev cs acc \<noteq> [] \<Longrightarrow> CHR ''.'' \<in> set (takeWhile (\<lambda>c. c \<noteq> CHR ''/'') cs)"
  by (induction cs arbitrary: acc) (auto split: if_splits)

text \<open>An extension of \<open>dir/name\<close> comes from a dot of \<open>name\<close>.\<close>

lemma takeWhile_append_stop: "P x = False \<Longrightarrow> takeWhile P (xs @ x # ys) = takeWhile P xs"
  by (induction xs) auto

lemma pathExt_dot:
  assumes "pathExt (dir @ ''/'' @ name) \<noteq> []"
  shows "CHR ''.'' \<in> set name"
proof -
  have "CHR ''.'' \<in> set (takeWhile (\<lambda>c. c \<noteq> CHR ''/'') (rev name @ CHR ''/'' # rev dir))"
    using ext_rev_dot [OF assms [unfolded pathExt_def]] by simp
  then have "CHR ''.'' \<in> set (takeWhile (\<lambda>c. c \<noteq> CHR ''/'') (rev name))"
    by (subst (asm) takeWhile_append_stop) simp_all
  then show ?thesis by (auto dest: set_takeWhileD)
qed

lemma slice_index_Some:
  assumes "CHR ''.'' \<in> set name"
  shows "\<exists>t. slice_to name (indexByte name (CHR ''.'')) = Some t"
proof (cases "indexByte name (CHR ''.'')")
  case None
  with assms show ?thesis by (auto simp: indexByte_def find_index_None_iff)
next
  case (Some i)
  then have "i < length name"
    by (auto simp: indexByte_def dest: find_index_Some)
  with Some show ?thesis by (simp add: slice_to_def)
qed

section \<open>Decimal numbers\<close>

definition digit :: "nat \<Rightarrow> char" where
  "digit d = char_of (48 + d)"

definition is_digit :: "char \<Rightarrow> bool" where
  "is_digit c = (48 \<le> (of_char c :: nat) \<and> (of_char c :: nat) \<le> 57)"

definition digit_val :: "char \<Rightarrow> nat" where
  "digit_val c = of_char c - 48"

text \<open>\<open>strconv.Itoa\<close> on a non-negative number.\<close>

fun dec :: "nat \<Rightarrow> string" where
  "dec n = (if n < 10 then [digit n] else dec (n div 10) @ [digit (n mod 10)])"

declare dec.simps [simp del]

fun undec :: "nat \<Rightarrow> string \<Rightarrow> nat" where
  "undec acc [] = acc"
| "undec acc (c # cs) = undec (10 * acc + digit_val c) cs"

lemma digit_props [simp]:
  "d < 10 \<Longrightarrow> is_digit (digit d)" "d < 10 \<Longrightarrow> digit_val (digit d) = d"
  by (simp_all add: is_digit_def digit_val_def digit_def)

lemma undec_append: "undec acc (xs @ ys) = undec (undec acc xs) ys"
  by (induction xs arbitrary: acc) auto

lemma undec_dec: "undec 0 (dec n) = n"
proof (induction n rule: dec.induct)
  case (1 n)
  show ?case
  proof (cases "n < 10")
    case True
    then show ?thesis by (subst dec.simps) simp
  next
    case False
    with 1 show ?thesis by (subst dec.simps) (simp add: undec_append)
  qed
qed

lemma dec_digits: "list_all is_digit (dec n)"
proof (induction n rule: dec.induct)
  case (1 n)
  then show ?case by (subst dec.simps) simp
qed

lemma dec_nonempty [simp]: "dec n \<noteq> []"
  by (subst dec.simps) simp

lemma dec_inj: "dec m = dec n \<Longrightarrow> m = n"
  by (metis undec_dec)

text \<open>
  \<open>strconv.Atoi\<close> on a 64-bit platform, as the value it returns when its error is
  ignored (\<open>m2["id"], _ = strconv.Atoi(id)\<close>): 0 for a syntax error, the nearest
  bound for a number out of range.
\<close>

definition maxInt :: int where "maxInt = 9223372036854775807"
definition minInt :: int where "minInt = - 9223372036854775808"

definition clampInt :: "int \<Rightarrow> int" where
  "clampInt v = (if v > maxInt then maxInt else if v < minInt then minInt else v)"

definition Atoi :: "string \<Rightarrow> int" where
  "Atoi s =
     (let neg = (case s of c # _ \<Rightarrow> c = CHR ''-'' | [] \<Rightarrow> False);
          ds = (case s of c # cs \<Rightarrow> if c = CHR ''-'' \<or> c = CHR ''+'' then cs else s | [] \<Rightarrow> [])
      in if ds = [] \<or> \<not> list_all is_digit ds then 0
         else clampInt (if neg then - int (undec 0 ds) else int (undec 0 ds)))"

text \<open>\<open>strconv.Itoa\<close>.\<close>

definition Itoa :: "int \<Rightarrow> string" where
  "Itoa v = (if v < 0 then CHR ''-'' # dec (nat (- v)) else dec (nat v))"

lemma dec_head_digit: "dec n = c # cs \<Longrightarrow> c \<noteq> CHR ''-'' \<and> c \<noteq> CHR ''+''"
  using dec_digits [of n] by (auto simp: is_digit_def)

lemma Atoi_Itoa: "minInt \<le> v \<Longrightarrow> v \<le> maxInt \<Longrightarrow> Atoi (Itoa v) = v"
proof (cases "v < 0")
  case True
  assume "minInt \<le> v" "v \<le> maxInt"
  with True show ?thesis
    by (simp add: Itoa_def Atoi_def dec_digits undec_dec clampInt_def)
next
  case False
  assume *: "minInt \<le> v" "v \<le> maxInt"
  obtain c cs where d: "dec (nat v) = c # cs"
    by (cases "dec (nat v)") auto
  with dec_head_digit [OF d] False * dec_digits [of "nat v"] undec_dec [of "nat v"]
  show ?thesis by (simp add: Itoa_def Atoi_def clampInt_def del: undec.simps)
qed

lemma Atoi_bounds: "minInt \<le> Atoi s \<and> Atoi s \<le> maxInt"
  by (simp add: Atoi_def clampInt_def Let_def minInt_def maxInt_def)

section \<open>The time layout 20060102150405\<close>

text \<open>
  The clock reading \<open>createDateDir\<close> formats, with the fields of Go's
  \<open>time.Time\<close> the layout prints, and the year in four digits.
\<close>

datatype datetime = DateTime (year: nat) (month: nat) (day: nat) (hour: nat) (minute: nat) (second: nat)

fun valid_datetime :: "datetime \<Rightarrow> bool" where
  "valid_datetime (DateTime y mo d h mi s) =
     (y < 10000 \<and> 1 \<le> mo \<and> mo \<le> 12 \<and> 1 \<le> d \<and> d \<le> 31 \<and> h < 24 \<and> mi < 60 \<and> s < 60)"

definition dig2 :: "nat \<Rightarrow> string" where
  "dig2 n = [digit (n div 10 mod 10), digit (n mod 10)]"

definition dig4 :: "nat \<Rightarrow> string" where
  "dig4 n = dig2 (n div 100) @ dig2 (n mod 100)"

fun formatDate :: "datetime \<Rightarrow> string" where
  "formatDate (DateTime y mo d h mi s) =
     dig4 y @ dig2 mo @ dig2 d @ dig2 h @ dig2 mi @ dig2 s"

text \<open>Clock readings are ordered as the calendar orders them.\<close>

fun datetime_key :: "datetime \<Rightarrow> nat list" where
  "datetime_key (DateTime y mo d h mi s) = [y, mo, d, h, mi, s]"

lemma datetime_key_inj: "datetime_key a = datetime_key b \<Longrightarrow> a = b"
  by (cases a; cases b) simp

instantiation datetime :: linorder
begin

definition less_eq_datetime :: "datetime \<Rightarrow> datetime \<Rightarrow> bool" where
  "less_eq_datetime a b = (datetime_key a \<le> datetime_key b)"

definition less_datetime :: "datetime \<Rightarrow> datetime \<Rightarrow> bool" where
  "less_datetime a b = (datetime_key a < datetime_key b)"

instance
proof
  fix a b c :: datetime
  show "(a < b) = (a \<le> b \<and> \<not> b \<le> a)"
    unfolding less_datetime_def less_eq_datetime_def by (rule less_le_not_le)
  show "a \<le> a"
    unfolding less_eq_datetime_def by (rule order_refl)
  show "a \<le> b \<Longrightarrow> b \<le> c \<Longrightarrow> a \<le> c"
    unfolding less_eq_datetime_def by (rule order_trans)
  show "a \<le> b \<Longrightarrow> b \<le> a \<Longrightarrow> a = b"
    unfolding less_eq_datetime_def
    by (rule datetime_key_inj, rule order_antisym)
  show "a \<le> b \<or> b \<le> a"
    unfolding less_eq_datetime_def by (rule linear)
qed

end

text \<open>
  The names are as long as the layout and sort as their clock readings do; two readings
  give one name only when they agree to the second.
\<close>

lemma less_append_same_length:
  "length xs = length ys \<Longrightarrow>
   (xs @ us < ys @ vs) \<longleftrightarrow> xs < ys \<or> xs = ys \<and> us < (vs :: 'a :: linorder list)"
  by (induction xs ys rule: list_induct2) auto

lemma digit_less_iff: "a < 10 \<Longrightarrow> b < 10 \<Longrightarrow> digit a < digit b \<longleftrightarrow> a < b"
  by (simp add: digit_def less_char_def)

lemma digit_eq_iff: "a < 10 \<Longrightarrow> b < 10 \<Longrightarrow> digit a = digit b \<longleftrightarrow> a = b"
  using digit_less_iff by (metis less_irrefl linorder_neqE)

lemma length_dig2 [simp]: "length (dig2 n) = 2"
  by (simp add: dig2_def)

lemma length_dig4 [simp]: "length (dig4 n) = 4"
  by (simp add: dig4_def)

lemma lex_div_mod:
  assumes "0 < (k :: nat)"
  shows "(m div k < n div k \<or> m div k = n div k \<and> m mod k < n mod k) \<longleftrightarrow> m < n"
proof (cases "m div k = n div k")
  case True
  then have "m = n div k * k + m mod k" and "n = n div k * k + n mod k"
    using div_mult_mod_eq [of m k] div_mult_mod_eq [of n k] by simp_all
  then have "m < n \<longleftrightarrow> m mod k < n mod k" by linarith
  with True show ?thesis by simp
next
  case False
  then have "m div k < n div k \<longleftrightarrow> m < n"
    using div_le_mono [of m n k] div_le_mono [of n m k] by linarith
  with False show ?thesis by simp
qed

lemma dig2_less_iff: "m < 100 \<Longrightarrow> n < 100 \<Longrightarrow> dig2 m < dig2 n \<longleftrightarrow> m < n"
proof -
  assume "m < 100" "n < 100"
  then have "m div 10 < 10" "n div 10 < 10" by auto
  then show ?thesis
    using lex_div_mod [of 10 m n] by (simp add: dig2_def digit_less_iff digit_eq_iff)
qed

lemma dig2_eq_iff: "m < 100 \<Longrightarrow> n < 100 \<Longrightarrow> dig2 m = dig2 n \<longleftrightarrow> m = n"
  using dig2_less_iff by (metis less_irrefl linorder_neqE)

lemma dig4_less_iff: "m < 10000 \<Longrightarrow> n < 10000 \<Longrightarrow> dig4 m < dig4 n \<longleftrightarrow> m < n"
proof -
  assume "m < 10000" "n < 10000"
  then have "m div 100 < 100" "n div 100 < 100" by auto
  then show ?thesis
    using lex_div_mod [of 100 m n]
    by (simp add: dig4_def less_append_same_length dig2_less_iff dig2_eq_iff)
qed

lemma dig4_eq_iff: "m < 10000 \<Longrightarrow> n < 10000 \<Longrightarrow> dig4 m = dig4 n \<longleftrightarrow> m = n"
  using dig4_less_iff by (metis less_irrefl linorder_neqE)

lemma length_formatDate: "length (formatDate t) = 14"
  by (cases t) simp

lemma formatDate_less_iff:
  "valid_datetime s \<Longrightarrow> valid_datetime t \<Longrightarrow> formatDate s < formatDate t \<longleftrightarrow> s < t"
  by (cases s; cases t)
     (simp add: less_datetime_def less_append_same_length dig2_less_iff dig4_less_iff
        dig2_eq_iff dig4_eq_iff)

lemma formatDate_inj:
  "valid_datetime s \<Longrightarrow> valid_datetime t \<Longrightarrow> formatDate s = formatDate t \<Longrightarrow> s = t"
  using formatDate_less_iff by (metis less_irrefl linorder_neqE)

lemma dig2_digits: "set (dig2 n) \<subseteq> Collect is_digit"
  by (simp add: dig2_def)

lemma formatDate_digits: "set (formatDate t) \<subseteq> Collect is_digit"
  using dig2_digits by (cases t) (simp add: dig4_def)

section \<open>Letters\<close>

text \<open>Case mapping is that of ASCII texts.\<close>

definition is_lower :: "char \<Rightarrow> bool" where
  "is_lower c = (97 \<le> ord c \<and> ord c \<le> 122)"

definition is_upper :: "char \<Rightarrow> bool" where
  "is_upper c = (65 \<le> ord c \<and> ord c \<le> 90)"

definition upperByte :: "char \<Rightarrow> char" where
  "upperByte c = (if is_lower c then char_of (ord c - 32) else c)"

definition lowerByte :: "char \<Rightarrow> char" where
  "lowerByte c = (if is_upper c then char_of (ord c + 32) else c)"

definition toUpper :: "string \<Rightarrow> string" where
  "toUpper s = map upperByte s"

definition toLower :: "string \<Rightarrow> string" where
  "toLower s = map lowerByte s"

lemma of_char_upperByte: "is_lower c \<Longrightarrow> ord (upperByte c) = ord c - 32"
proof -
  assume l: "is_lower c"
  then have "ord c - 32 < 256" by (auto simp: is_lower_def)
  with l show ?thesis by (simp add: upperByte_def del: less_diff_conv2)
qed

lemma of_char_lowerByte: "is_upper c \<Longrightarrow> ord (lowerByte c) = ord c + 32"
proof -
  assume u: "is_upper c"
  then have "ord c + 32 < 256" by (auto simp: is_upper_def)
  with u show ?thesis by (simp add: lowerByte_def del: less_diff_conv)
qed

lemma upperByte_upper: "is_lower c \<Longrightarrow> is_upper (upperByte c)"
  using of_char_upperByte [of c] by (auto simp: is_lower_def is_upper_def)

lemma lowerByte_lower: "is_upper c \<Longrightarrow> is_lower (lowerByte c)"
  using of_char_lowerByte [of c] by (auto simp: is_lower_def is_upper_def)

end
