(* ===== verification/FileSystem.thy ===== *)
theory FileSystem
  imports GoStrings "HOL-Library.AList"
begin

text \<open>
  The part of the operating system \<open>src/Web/main.go\<close> works on: a tree of directories and
  files, and the calls of \<open>os\<close>, \<open>io/ioutil\<close> and \<open>path/filepath\<close> the
  source makes. A file system is an association list from absolute paths (lists of names) to
  nodes; the root directory is always there. Paths are texts and are resolved as the kernel
  does: component by component, through directories only.

  Not modelled: permissions, symbolic links, name length limits and a full disk.
\<close>

section \<open>Nodes and errors\<close>

type_synonym path = "string list"

datatype node = Dir | File bytes

datatype oserror = ENOENT | ENOTDIR | EISDIR | EEXIST | EINVAL

text \<open>\<open>os.IsNotExist\<close> is true of \<open>ENOENT\<close> only.\<close>

definition IsNotExist :: "oserror option \<Rightarrow> bool" where
  "IsNotExist e = (e = Some ENOENT)"

type_synonym fs = "(path \<times> node) list"

definition node_at :: "fs \<Rightarrow> path \<Rightarrow> node option" where
  "node_at f p = (if p = [] then Some Dir else map_of f p)"

definition set_node :: "path \<Rightarrow> node \<Rightarrow> fs \<Rightarrow> fs" where
  "set_node p n f = (if p = [] then f else AList.update p n f)"

definition is_dir :: "fs \<Rightarrow> path \<Rightarrow> bool" where
  "is_dir f p = (node_at f p = Some Dir)"

lemma node_at_Nil [simp]: "node_at f [] = Some Dir"
  by (simp add: node_at_def)

lemma node_at_set_same [fs_simps]: "p \<noteq> [] \<Longrightarrow> node_at (set_node p n f) p = Some n"
  by (simp add: node_at_def set_node_def update_conv)

lemma node_at_set_other [fs_simps]: "q \<noteq> p \<Longrightarrow> node_at (set_node p n f) q = node_at f q"
  by (simp add: node_at_def set_node_def update_conv)

lemma node_at_set: "p \<noteq> [] \<Longrightarrow> node_at (set_node p n f) q = (if q = p then Some n else node_at f q)"
  by (simp add: fs_simps)

section \<open>Resolving a path\<close>

text \<open>
  The container starts the server in \<open>/go/application\<close> (\<open>WORKDIR\<close> of
  \<open>src/Web/Dockerfile\<close> on the \<open>golang\<close> image). A path is refused when it holds a NUL
  byte; \<open>.\<close> and empty components stay, \<open>..\<close> goes to the parent (the root's
  parent is the root). A component is looked up in an existing directory only; an empty last
  component is one, so a text that ends in a slash only names a directory.
\<close>

definition cwd :: path where "cwd = [''go'', ''application'']"

definition step_to :: "path \<Rightarrow> string \<Rightarrow> path" where
  "step_to p c = (if c = '''' \<or> c = ''.'' then p else if c = ''..'' then butlast p else p @ [c])"

fun walk :: "fs \<Rightarrow> path \<Rightarrow> string list \<Rightarrow> oserror + path" where
  "walk f p [] = Inr p"
| "walk f p (c # cs) =
     (case node_at f p of
        None \<Rightarrow> Inl ENOENT
      | Some (File _) \<Rightarrow> Inl ENOTDIR
      | Some Dir \<Rightarrow> walk f (step_to p c) cs)"

definition resolve :: "fs \<Rightarrow> string \<Rightarrow> oserror + path" where
  "resolve f s =
     (if CHR 0x00 \<in> set s then Inl EINVAL
      else if s = '''' then Inl ENOENT
      else case splitOn (CHR ''/'') s of
          [] \<Rightarrow> Inl ENOENT
        | c # cs \<Rightarrow> if c = '''' then walk f [] cs else walk f cwd (c # cs))"



section \<open>The calls\<close>

text \<open>\<open>os.Lstat\<close> and \<open>os.Stat\<close>: the error, \<open>None\<close> for success.\<close>

definition Lstat :: "fs \<Rightarrow> string \<Rightarrow> oserror option" where
  "Lstat f s =
     (case resolve f s of
        Inl e \<Rightarrow> Some e
      | Inr p \<Rightarrow> (case node_at f p of
            None \<Rightarrow> Some ENOENT
          | Some _ \<Rightarrow> None))"

text \<open>\<open>ioutil.ReadFile\<close>: opening a directory succeeds, reading it does not.\<close>

definition ReadFile :: "fs \<Rightarrow> string \<Rightarrow> oserror + bytes" where
  "ReadFile f s =
     (case resolve f s of
        Inl e \<Rightarrow> Inl e
      | Inr p \<Rightarrow> (case node_at f p of
            None \<Rightarrow> Inl ENOENT
          | Some Dir \<Rightarrow> Inl EISDIR
          | Some (File b) \<Rightarrow> Inr b))"

text \<open>\<open>ioutil.ReadDir\<close>: the entries sorted by name, with the kind of each.\<close>

definition children :: "fs \<Rightarrow> path \<Rightarrow> string list" where
  "children f p =
     sort (remdups (map last (filter (\<lambda>q. q \<noteq> [] \<and> butlast q = p) (map fst f))))"

definition ReadDir :: "fs \<Rightarrow> string \<Rightarrow> oserror + (string \<times> bool) list" where
  "ReadDir f s =
     (case resolve f s of
        Inl e \<Rightarrow> Inl e
      | Inr p \<Rightarrow> (case node_at f p of
            None \<Rightarrow> Inl ENOENT
          | Some (File _) \<Rightarrow> Inl ENOTDIR
          | Some Dir \<Rightarrow> Inr (map (\<lambda>n. (n, is_dir f (p @ [n]))) (children f p))))"

text \<open>\<open>os.Mkdir\<close>: the parent has to be a directory.\<close>

definition Mkdir :: "fs \<Rightarrow> string \<Rightarrow> oserror option \<times> fs" where
  "Mkdir f s =
     (case resolve f s of
        Inl e \<Rightarrow> (Some e, f)
      | Inr p \<Rightarrow> (case node_at f p of
            Some _ \<Rightarrow> (Some EEXIST, f)
          | None \<Rightarrow> (None, set_node p Dir f)))"

text \<open>
  \<open>os.OpenFile(s, os.O_WRONLY|os.O_CREATE, 0666)\<close>: an existing file is opened as it is,
  a missing one is created empty. The result is the path written to.
\<close>

definition OpenWrite :: "fs \<Rightarrow> string \<Rightarrow> (oserror + path) \<times> fs" where
  "OpenWrite f s =
     (case resolve f s of
        Inl e \<Rightarrow> (Inl e, f)
      | Inr p \<Rightarrow> (case node_at f p of
            Some Dir \<Rightarrow> (Inl EISDIR, f)
          | Some (File _) \<Rightarrow> (Inr p, f)
          | None \<Rightarrow> (Inr p, set_node p (File []) f)))"

text \<open>
  Writing a freshly opened file from its start: without \<open>O_TRUNC\<close> the bytes of the old
  content beyond the new ones stay.
\<close>

definition overwrite :: "bytes \<Rightarrow> bytes \<Rightarrow> bytes" where
  "overwrite old new = new @ drop (length new) old"

definition WriteAt :: "fs \<Rightarrow> path \<Rightarrow> bytes \<Rightarrow> fs" where
  "WriteAt f p data =
     (case node_at f p of
        Some (File old) \<Rightarrow> set_node p (File (overwrite old data)) f
      | _ \<Rightarrow> f)"

text \<open>
  \<open>os.RemoveAll\<close>: the whole tree goes, a missing one is no error. A path that ends in
  \<open>.\<close> is refused.
\<close>

definition remove_tree :: "path \<Rightarrow> fs \<Rightarrow> fs" where
  "remove_tree p f = filter (\<lambda>(q, _). \<not> prefix p q) f"

definition RemoveAll :: "fs \<Rightarrow> string \<Rightarrow> fs" where
  "RemoveAll f s =
     (if last (splitOn (CHR ''/'') s) = ''.'' then f
      else case resolve f s of Inl e \<Rightarrow> f | Inr p \<Rightarrow> if p = [] then f else remove_tree p f)"

text \<open>
  \<open>os.Rename\<close> of a directory; its error is never looked at. Go refuses a target that
  is a directory before it asks the kernel, which refuses one that is a file, whose parent is
  missing, or that lies below the source. Slashes at the end of the target count for nothing,
  because the source is a directory.
\<close>

definition move_tree :: "path \<Rightarrow> path \<Rightarrow> fs \<Rightarrow> fs" where
  "move_tree p q f =
     map (\<lambda>(r, n). if prefix p r then (q @ drop (length p) r, n) else (r, n)) f"

definition noSlashes :: "string \<Rightarrow> string" where
  "noSlashes t = rev (dropWhile (\<lambda>c. c = CHR ''/'') (rev t))"

definition RenameDir :: "fs \<Rightarrow> string \<Rightarrow> string \<Rightarrow> fs" where
  "RenameDir f s t =
     (case (resolve f s, resolve f (noSlashes t)) of
        (Inr p, Inr q) \<Rightarrow>
          if p \<noteq> [] \<and> is_dir f p \<and> node_at f q = None \<and> is_dir f (butlast q) \<and> \<not> prefix p q
          then move_tree p q f else f
      | _ \<Rightarrow> f)"

section \<open>Resolution of the paths the server builds\<close>

lemma splitOn_no_sep [simp]: "d \<notin> set a \<Longrightarrow> splitOn d a = [a]"
  by (induction a) auto

lemma splitOn_append [simp]: "d \<notin> set a \<Longrightarrow> splitOn d (a @ d # b) = a # splitOn d b"
  by (induction a) auto

definition plain_name :: "string \<Rightarrow> bool" where
  "plain_name n \<longleftrightarrow> n \<noteq> '''' \<and> n \<noteq> ''.'' \<and> n \<noteq> ''..'' \<and> CHR ''/'' \<notin> set n \<and> CHR 0x00 \<notin> set n"

lemma step_to_plain [simp]: "plain_name n \<Longrightarrow> step_to p n = p @ [n]"
  by (simp add: plain_name_def step_to_def)

lemma step_to_here [simp]: "step_to p '''' = p" "step_to p ''.'' = p"
  by (simp_all add: step_to_def)

lemma resolve_in_dir:
  assumes "plain_name d" and "is_dir f cwd" and "CHR 0x00 \<notin> set rest"
  shows "resolve f (d @ ''/'' @ rest) = walk f (cwd @ [d]) (splitOn (CHR ''/'') rest)"
  using assms by (simp add: resolve_def plain_name_def is_dir_def step_to_def)

lemma resolve_name:
  "plain_name d \<Longrightarrow> is_dir f cwd \<Longrightarrow> resolve f d = Inr (cwd @ [d])"
  by (simp add: resolve_def plain_name_def is_dir_def step_to_def)

lemma resolve_member:
  "plain_name d \<Longrightarrow> plain_name n \<Longrightarrow> is_dir f cwd \<Longrightarrow> is_dir f (cwd @ [d]) \<Longrightarrow>
   resolve f (d @ ''/'' @ n) = Inr (cwd @ [d, n])"
  by (subst resolve_in_dir) (simp_all add: plain_name_def is_dir_def step_to_def)

lemma resolve_dir_slash:
  "plain_name d \<Longrightarrow> is_dir f cwd \<Longrightarrow> is_dir f (cwd @ [d]) \<Longrightarrow> resolve f (d @ ''/'') = Inr (cwd @ [d])"
  using resolve_in_dir [of d f "[]"] by (simp add: is_dir_def)

text \<open>Without a \<open>..\<close> a walk only goes down.\<close>

lemma walk_down: "walk f p cs = Inr q \<Longrightarrow> ''..'' \<notin> set cs \<Longrightarrow> prefix p q"
proof (induction cs arbitrary: p)
  case (Cons c cs)
  then have "walk f (step_to p c) cs = Inr q" by (auto split: option.splits node.splits)
  with Cons have "prefix (step_to p c) q" by simp
  with Cons.prems(2) show ?case by (auto simp: step_to_def prefix_def split: if_splits)
qed simp

section \<open>What a call leaves alone\<close>

definition same_outside :: "path \<Rightarrow> fs \<Rightarrow> fs \<Rightarrow> bool" where
  "same_outside d f g \<longleftrightarrow> (\<forall>q. \<not> prefix d q \<longrightarrow> node_at g q = node_at f q)"

lemma same_outside_refl [simp, intro]: "same_outside d f f"
  by (simp add: same_outside_def)

lemma same_outside_trans: "same_outside d f g \<Longrightarrow> same_outside d g h \<Longrightarrow> same_outside d f h"
  by (simp add: same_outside_def)

lemma same_outside_set: "prefix d p \<Longrightarrow> same_outside d f (set_node p n f)"
  by (auto simp: same_outside_def fs_simps)

lemma node_at_remove_tree:
  "node_at (remove_tree p f) q = (if q \<noteq> [] \<and> prefix p q then None else node_at f q)"
proof -
  have "map_of (remove_tree p f) q = (if prefix p q then None else map_of f q)"
    by (induction f) (auto simp: remove_tree_def)
  then show ?thesis by (auto simp: node_at_def)
qed

lemma same_outside_remove: "same_outside p f (remove_tree p f)"
  by (simp add: same_outside_def node_at_remove_tree)

section \<open>Reading after writing\<close>

lemma node_at_WriteAt_same:
  "node_at f p = Some (File old) \<Longrightarrow> node_at (WriteAt f p b) p = Some (File (overwrite old b))"
  by (cases "p = []") (simp_all add: WriteAt_def fs_simps)

lemma node_at_WriteAt_other: "q \<noteq> p \<Longrightarrow> node_at (WriteAt f p b) q = node_at f q"
  by (simp add: WriteAt_def fs_simps split: option.splits node.splits)

lemma overwrite_Nil [simp]: "overwrite [] b = b"
  by (simp add: overwrite_def)

lemma overwrite_longer [simp]: "length old \<le> length b \<Longrightarrow> overwrite old b = b"
  by (simp add: overwrite_def)

lemma OpenWrite_cases:
  obtains (failed) e where "OpenWrite f s = (Inl e, f)"
  | (existing) p old where "resolve f s = Inr p" and "node_at f p = Some (File old)"
      and "OpenWrite f s = (Inr p, f)"
  | (created) p where "resolve f s = Inr p" and "node_at f p = None" and "p \<noteq> []"
      and "OpenWrite f s = (Inr p, set_node p (File []) f)"
proof (cases "resolve f s")
  case (Inl e)
  then show thesis using failed by (simp add: OpenWrite_def)
next
  case (Inr p)
  consider "node_at f p = Some Dir" | old where "node_at f p = Some (File old)" | "node_at f p = None"
    by (metis node.exhaust option.exhaust)
  then show thesis
  proof cases
    case 1 then show thesis using failed Inr by (simp add: OpenWrite_def)
  next
    case 2 then show thesis using existing Inr by (simp add: OpenWrite_def)
  next
    case 3
    then have "p \<noteq> []" by auto
    with 3 show thesis using created Inr by (simp add: OpenWrite_def)
  qed
qed

end
