(* ===== verification/GoJson.thy ===== *)
theory GoJson
  imports GoStrings
begin

text \<open>
  \<open>json.Marshal\<close> as \<open>src/Web/main.go\<close> uses it: on \<open>jsonResult\<close> for
  every answer, and on the map that is the body of the RPC request. The string encoder is
  that of \<open>encoding/json\<close> with HTML escaping on, which is the default of
  \<open>Marshal\<close>; it works on bytes and has to recognise well-formed UTF-8.
\<close>

section \<open>UTF-8\<close>

definition byte_in :: "nat \<Rightarrow> nat \<Rightarrow> char \<Rightarrow> bool" where
  "byte_in lo hi c = (lo \<le> (of_char c :: nat) \<and> (of_char c :: nat) \<le> hi)"

text \<open>
  The size of the well-formed sequence at the head of a string, 0 for none: the cases of
  \<open>utf8.DecodeRuneInString\<close>, whose \<open>(RuneError, 1)\<close> is the 0 here.
\<close>

fun utf8_size :: "bytes \<Rightarrow> nat" where
  "utf8_size [] = 0"
| "utf8_size (a # s) =
     (if byte_in 0 0x7F a then 1
      else if byte_in 0xC2 0xDF a then
        (case s of b # _ \<Rightarrow> if byte_in 0x80 0xBF b then 2 else 0 | _ \<Rightarrow> 0)
      else if byte_in 0xE0 0xEF a then
        (case s of b # c # _ \<Rightarrow>
           if byte_in (if a = CHR 0xE0 then 0xA0 else 0x80) (if a = CHR 0xED then 0x9F else 0xBF) b
              \<and> byte_in 0x80 0xBF c then 3 else 0
         | _ \<Rightarrow> 0)
      else if byte_in 0xF0 0xF4 a then
        (case s of b # c # d # _ \<Rightarrow>
           if byte_in (if a = CHR 0xF0 then 0x90 else 0x80) (if a = CHR 0xF4 then 0x8F else 0xBF) b
              \<and> byte_in 0x80 0xBF c \<and> byte_in 0x80 0xBF d then 4 else 0
         | _ \<Rightarrow> 0)
      else 0)"

lemma utf8_size_le: "utf8_size s \<le> length s"
  by (cases s) (auto split: list.splits)

section \<open>Strings\<close>

definition hexDigit :: "nat \<Rightarrow> char" where
  "hexDigit n = ''0123456789abcdef'' ! n"

text \<open>The characters the encoder copies: \<open>htmlSafeSet\<close> of \<open>encoding/json\<close>.\<close>

definition htmlSafe :: "char \<Rightarrow> bool" where
  "htmlSafe c = (byte_in 0x20 0x7F c \<and> c \<notin> {CHR 0x22, CHR ''&'', CHR ''<'', CHR ''>'', CHR 0x5C})"

definition escapeByte :: "char \<Rightarrow> string" where
  "escapeByte c =
     (if c = CHR 0x5C \<or> c = CHR 0x22 then [CHR 0x5C, c]
      else if c = CHR 0x0A then [CHR 0x5C, CHR ''n'']
      else if c = CHR 0x0D then [CHR 0x5C, CHR ''r'']
      else if c = CHR 0x09 then [CHR 0x5C, CHR ''t'']
      else [CHR 0x5C] @ ''u00'' @ [hexDigit (of_char c div 16), hexDigit (of_char c mod 16)])"

text \<open>
  One step of \<open>encodeState.string\<close>: what is written for the sequence at the head of
  the string, and how many bytes it takes. U+2028 and U+2029 are escaped, an ill-formed
  byte becomes the replacement character.
\<close>

definition encodeRune :: "bytes \<Rightarrow> string \<times> nat" where
  "encodeRune s =
     (case s of [] \<Rightarrow> ([], 0)
      | c # _ \<Rightarrow>
        if byte_in 0 0x7F c then (if htmlSafe c then ([c], 1) else (escapeByte c, 1))
        else if utf8_size s = 0 then (CHR 0x5C # ''ufffd'', 1)
        else if take 3 s = [CHR 0xE2, CHR 0x80, CHR 0xA8] then (CHR 0x5C # ''u2028'', 3)
        else if take 3 s = [CHR 0xE2, CHR 0x80, CHR 0xA9] then (CHR 0x5C # ''u2029'', 3)
        else (take (utf8_size s) s, utf8_size s))"

lemma encodeRune_pos: "s \<noteq> [] \<Longrightarrow> 0 < snd (encodeRune s)"
  by (cases s) (auto simp: encodeRune_def)

function escapeString :: "bytes \<Rightarrow> string" where
  "escapeString s =
     (if s = [] then [] else fst (encodeRune s) @ escapeString (drop (snd (encodeRune s)) s))"
  by pat_completeness auto
termination
  by (relation "measure length") (auto simp: encodeRune_pos)

declare escapeString.simps [simp del]

definition jsonString :: "bytes \<Rightarrow> string" where
  "jsonString s = [CHR 0x22] @ escapeString s @ [CHR 0x22]"

lemma escapeString_Nil [simp]: "escapeString [] = []"
  by (simp add: escapeString.simps)

lemma escapeString_Cons:
  "escapeString (c # s) =
     fst (encodeRune (c # s)) @ escapeString (drop (snd (encodeRune (c # s))) (c # s))"
  by (subst escapeString.simps) simp

section \<open>The documents\<close>

text \<open>\<open>jsonResult\<close> of \<open>main.go\<close>, the form of every answer.\<close>

record jsonResult =
  Code :: int
  Msg :: string

definition marshalResult :: "jsonResult \<Rightarrow> string" where
  "marshalResult r =
     ''{'' @ jsonString ''Code'' @ '':'' @ Itoa (Code r) @ '','' @
     jsonString ''Msg'' @ '':'' @ jsonString (Msg r) @ ''}''"

text \<open>
  The RPC request of \<open>getContractState\<close>; \<open>Marshal\<close> writes the keys of a map in
  sorted order.
\<close>

definition marshalRpc :: "string \<Rightarrow> string" where
  "marshalRpc contract =
     ''{'' @ jsonString ''id'' @ '':1,'' @
     jsonString ''jsonrpc'' @ '':'' @ jsonString ''2.0'' @ '','' @
     jsonString ''method'' @ '':'' @ jsonString ''getcontractstate'' @ '','' @
     jsonString ''params'' @ '':['' @ jsonString contract @ '']}''"

section \<open>The encoder is safe\<close>

text \<open>
  Whatever the bytes, the encoded text holds no raw quote (a quote only follows a
  backslash), no control character and none of the characters HTML gives a meaning.
\<close>

definition plainByte :: "char \<Rightarrow> bool" where
  "plainByte c = ((of_char c :: nat) \<ge> 0x20 \<and> c \<notin> {CHR ''&'', CHR ''<'', CHR ''>''})"

lemma hexDigit_all: "list_all (\<lambda>n. plainByte (hexDigit n)) [0..<16]"
  by code_simp

lemma hexDigit_plain [simp]: "n < 16 \<Longrightarrow> plainByte (hexDigit n)"
  using hexDigit_all by (simp add: list_all_iff)

lemma byte_high_plain: "\<not> byte_in 0 0x7F c \<Longrightarrow> plainByte c"
  by (auto simp: byte_in_def plainByte_def)

lemma of_char_div16 [simp]: "of_char (c :: char) div 16 < (16 :: nat)"
  by (simp add: less_mult_imp_div_less)

lemma escapeByte_plain: "list_all plainByte (escapeByte c)"
  by (simp add: escapeByte_def) (simp add: plainByte_def)

lemma byte_in_high: "byte_in 0 0x7F c \<Longrightarrow> byte_in lo hi c \<Longrightarrow> lo \<le> 0x7F"
  by (auto simp: byte_in_def)

lemma htmlSafe_plain: "htmlSafe c \<Longrightarrow> plainByte c"
  by (simp add: htmlSafe_def plainByte_def byte_in_def)

lemma utf8_tail_high:
  "utf8_size s = n \<Longrightarrow> \<not> byte_in 0 0x7F (hd s) \<Longrightarrow> s \<noteq> [] \<Longrightarrow>
   list_all (\<lambda>c. \<not> byte_in 0 0x7F c) (take n s)"
  by (cases s) (auto split: list.splits if_splits dest: byte_in_high)

lemma replacement_plain:
  "list_all plainByte (CHR 0x5C # ''ufffd'')" "list_all plainByte (CHR 0x5C # ''u2028'')"
  "list_all plainByte (CHR 0x5C # ''u2029'')"
  by code_simp+

lemma encodeRune_plain: "list_all plainByte (fst (encodeRune s))"
proof (cases s)
  case Nil
  then show ?thesis by (simp add: encodeRune_def)
next
  case (Cons c cs)
  show ?thesis
  proof (cases "byte_in 0 0x7F c")
    case True
    with Cons show ?thesis
      by (cases "htmlSafe c") (simp_all add: encodeRune_def escapeByte_plain htmlSafe_plain)
  next
    case False
    with Cons have "list_all (\<lambda>c. \<not> byte_in 0 0x7F c) (take (utf8_size s) s)"
      by (intro utf8_tail_high) simp_all
    then have "list_all plainByte (take (utf8_size s) s)"
      by (rule list.pred_mono_strong) (rule byte_high_plain)
    with Cons False replacement_plain show ?thesis
      by (simp add: encodeRune_def del: list.pred_inject utf8_size.simps take_Suc_Cons)
  qed
qed

lemma escapeString_plain: "list_all plainByte (escapeString s)"
proof (induction s rule: escapeString.induct)
  case (1 s)
  then show ?case
    by (subst escapeString.simps) (simp add: encodeRune_plain)
qed

lemma list_all_append_plain: "list_all plainByte (a @ b) \<longleftrightarrow> list_all plainByte a \<and> list_all plainByte b"
  by simp

lemma jsonString_plain: "list_all plainByte (jsonString s)"
  using escapeString_plain [of s] by (simp add: jsonString_def plainByte_def)

lemma digits_plain: "list_all plainByte (dec n)"
  using dec_digits [of n]
  by (rule list.pred_mono_strong) (auto simp: is_digit_def plainByte_def)

lemma Itoa_plain: "list_all plainByte (Itoa v)"
  by (simp add: Itoa_def digits_plain plainByte_def)

text \<open>
  Whatever the message is -- answer 4 repeats a text of the RPC node, the request a text
  of the uploader -- the documents the server writes hold no control character and no
  character of HTML.
\<close>

theorem documents_plain:
  "list_all plainByte (marshalResult r) \<and> list_all plainByte (marshalRpc contract)"
  unfolding marshalResult_def marshalRpc_def
  by (simp only: list_all_append_plain jsonString_plain Itoa_plain)
     (simp add: plainByte_def)

end
