(* ===== verification/Utf8.thy ===== *)
theory Utf8
  imports GoJson
begin

text \<open>
  \<open>unicode/utf8\<close> as \<open>gjson\<close> and \<open>match\<close> use it. A rune is a number; what is no rune, or
  no well-formed sequence, is \<open>RuneError\<close>, and an ill-formed byte has size 1.
\<close>

definition RuneError :: nat where
  "RuneError = 0xFFFD"

definition MaxRune :: nat where
  "MaxRune = 0x10FFFF"

definition isSurrogate :: "nat \<Rightarrow> bool" where
  "isSurrogate r = (0xD800 \<le> r \<and> r < 0xE000)"

text \<open>\<open>utf8.EncodeRune\<close> replaces what is no rune by U+FFFD.\<close>

definition utf8_encode :: "nat \<Rightarrow> string" where
  "utf8_encode r0 =
     (let r = (if 0x10FFFF < r0 \<or> isSurrogate r0 then 0xFFFD else r0) in
      if r < 0x80 then [char_of r]
      else if r < 0x800 then [char_of (0xC0 + r div 64), char_of (0x80 + r mod 64)]
      else if r < 0x10000 then
        [char_of (0xE0 + r div 4096), char_of (0x80 + r div 64 mod 64), char_of (0x80 + r mod 64)]
      else
        [char_of (0xF0 + r div 262144), char_of (0x80 + r div 4096 mod 64),
         char_of (0x80 + r div 64 mod 64), char_of (0x80 + r mod 64)])"

text \<open>\<open>utf8.DecodeRuneInString\<close>: the rune at the head of a text and its size.\<close>

definition runeValue :: "bytes \<Rightarrow> nat" where
  "runeValue s =
     (case s of
        [a] \<Rightarrow> ord a
      | [a, b] \<Rightarrow> ord a mod 32 * 64 + ord b mod 64
      | [a, b, c] \<Rightarrow> ord a mod 16 * 4096 + ord b mod 64 * 64 + ord c mod 64
      | [a, b, c, d] \<Rightarrow> ord a mod 8 * 262144 + ord b mod 64 * 4096 + ord c mod 64 * 64 + ord d mod 64
      | _ \<Rightarrow> RuneError)"

definition decodeRune :: "bytes \<Rightarrow> nat \<times> nat" where
  "decodeRune s =
     (if s = [] then (RuneError, 0)
      else if utf8_size s = 0 then (RuneError, 1)
      else (runeValue (take (utf8_size s) s), utf8_size s))"

text \<open>
  \<open>utf8.DecodeLastRuneInString\<close>: from the last byte back to the first byte that can start a
  sequence, at most four; what starts there must end where the text ends.
\<close>

definition runeStart :: "char \<Rightarrow> bool" where
  "runeStart c = (ord c div 64 \<noteq> 2)"

fun lastStart :: "bytes \<Rightarrow> nat \<Rightarrow> nat \<Rightarrow> nat" where
  "lastStart s 0 start = start"
| "lastStart s (Suc n) start =
     (if start = 0 then 0
      else if runeStart (s ! (start - 1)) then start - 1
      else lastStart s n (start - 1))"

definition decodeLastRune :: "bytes \<Rightarrow> nat \<times> nat" where
  "decodeLastRune s =
     (if s = [] then (RuneError, 0)
      else if ord (last s) < 0x80 then (ord (last s), 1)
      else
        let start = lastStart s 3 (length s - 1); (r, size) = decodeRune (drop start s)
        in if start + size \<noteq> length s then (RuneError, 1) else (r, size))"

lemma decodeRune_Nil [simp]: "decodeRune [] = (RuneError, 0)"
  by (simp add: decodeRune_def)

lemma decodeRune_size: "s \<noteq> [] \<Longrightarrow> 0 < snd (decodeRune s) \<and> snd (decodeRune s) \<le> length s"
  using utf8_size_le [of s] by (cases s) (auto simp: decodeRune_def)

lemma lastStart_le: "lastStart s n start \<le> start"
  by (induction s n start rule: lastStart.induct) (auto intro: le_trans)

lemma decodeLastRune_size:
  assumes "s \<noteq> []"
  shows "0 < snd (decodeLastRune s) \<and> snd (decodeLastRune s) \<le> length s"
proof -
  let ?start = "lastStart s 3 (length s - 1)"
  have "?start < length s" using lastStart_le [of s 3 "length s - 1"] assms by (cases s) auto
  then have "0 < snd (decodeRune (drop ?start s))" by (simp add: decodeRune_size)
  then show ?thesis using assms
    by (cases s) (auto simp: decodeLastRune_def Let_def simp del: lastStart.simps split: prod.splits)
qed

text \<open>On ASCII a rune is a byte, from both ends.\<close>

definition ascii :: "bytes \<Rightarrow> bool" where
  "ascii s = list_all (\<lambda>c. ord c < 0x80) s"

lemma decodeRune_ascii [simp]: "ord c < 0x80 \<Longrightarrow> decodeRune (c # s) = (ord c, 1)"
  by (simp add: decodeRune_def byte_in_def runeValue_def)

lemma decodeLastRune_ascii [simp]: "ord c < 0x80 \<Longrightarrow> decodeLastRune (s @ [c]) = (ord c, 1)"
  by (simp add: decodeLastRune_def)

end
