(* ===== verification/Match.thy ===== *)
theory Match
  imports Utf8
begin

text \<open>
  The wildcard matcher of \<open>gjson\<close>, \<open>tidwall/match\<close> 1.1.1
  (\<open>src/pkg/mod/github.com/tidwall/match@v1.1.1/match.go\<close>): a star stands for any text, a
  question mark for one character, a backslash takes the next character as it is.
\<close>

section \<open>Trimming the end of the pattern\<close>

datatype result = rNoMatch | rMatch | rStop

text \<open>Whether the last character of a pattern, before which \<open>front\<close> stands, is escaped: an odd
  number of backslashes ends \<open>front\<close>.\<close>

definition escapedAfter :: "string \<Rightarrow> bool" where
  "escapedAfter front = odd (length (takeWhile (\<lambda>c. c = CHR 0x5C) (rev front)))"

text \<open>
  \<open>matchTrimSuffix\<close>: one character off the ends of the text and the pattern at a time, until an
  unescaped star, a difference, or the star the pattern begins with.
\<close>

definition lastOf :: "string \<Rightarrow> nat \<times> nat \<times> bool" where
  "lastOf pat =
     (let (pc, ps) = decodeLastRune pat; esc = escapedAfter (take (length pat - ps) pat)
      in (pc, if esc then ps + 1 else ps, esc))"

function matchTrimSuffix :: "string \<Rightarrow> string \<Rightarrow> string \<times> string \<times> bool" where
  "matchTrimSuffix str pat =
     (if str \<noteq> [] \<and> 1 < length pat then
        (let (pc, ps, esc) = lastOf pat in
         if pc = ord (CHR ''*'') \<and> \<not> esc then (str, pat, True)
         else
           let (sc, ss) = decodeLastRune str in
           if \<not> ((pc = ord (CHR ''?'') \<and> \<not> esc) \<or> pc = sc) then (str, pat, False)
           else matchTrimSuffix (take (length str - ss) str) (take (length pat - ps) pat))
      else (str, pat, True))"
  by pat_completeness auto
termination
proof (relation "measure (\<lambda>(str, pat). length str)", goal_cases)
  case (2 str pat x pc y ps esc z sc ss)
  then have "str \<noteq> []" "ss = snd (decodeLastRune str)" by (auto dest: sym)
  with decodeLastRune_size [of str] show ?case by simp
qed simp

declare matchTrimSuffix.simps [simp del]

lemma matchTrimSuffix_le:
  "length (fst (matchTrimSuffix str pat)) \<le> length str \<and> length (fst (snd (matchTrimSuffix str pat))) \<le> length pat"
proof (induction str pat rule: matchTrimSuffix.induct)
  case (1 str pat)
  obtain pc ps esc where l: "lastOf pat = (pc, ps, esc)" by (cases "lastOf pat") auto
  obtain sc ss where s: "decodeLastRune str = (sc, ss)" by (cases "decodeLastRune str") auto
  show ?case
  proof (cases "str \<noteq> [] \<and> 1 < length pat \<and> \<not> (pc = ord (CHR ''*'') \<and> \<not> esc) \<and>
      ((pc = ord (CHR ''?'') \<and> \<not> esc) \<or> pc = sc)")
    case True
    have "matchTrimSuffix str pat = matchTrimSuffix (take (length str - ss) str) (take (length pat - ps) pat)"
      by (subst matchTrimSuffix.simps) (use True l s in auto)
    with 1 [OF _ refl l [symmetric] refl _ refl s [symmetric]] True show ?thesis by fastforce
  next
    case False
    have "matchTrimSuffix str pat = (str, pat, True) \<or> matchTrimSuffix str pat = (str, pat, False)"
      by (subst (1 2) matchTrimSuffix.simps) (use False l s in auto)
    then show ?thesis by auto
  qed
qed


section \<open>Matching\<close>

text \<open>Repeated stars count as one.\<close>

fun dropStars :: "string \<Rightarrow> string" where
  "dropStars (a # b # s) = (if b = CHR ''*'' then dropStars (b # s) else a # b # s)"
| "dropStars s = s"

lemma dropStars_le: "length (dropStars s) \<le> length s"
  by (induction s rule: dropStars.induct) auto

definition headRune :: "string \<Rightarrow> nat \<times> nat" where
  "headRune str = (if str = [] then (0, 0) else decodeRune str)"

lemma headRune_size: "str \<noteq> [] \<Longrightarrow> 0 < snd (headRune str)"
  by (simp add: headRune_def decodeRune_size)

text \<open>
  \<open>match\<close> with its loop. The counter of the code, shared by the recursive calls, is passed and
  returned; with \<open>maxcomp = -1\<close> it is not used.
\<close>

function match :: "string \<Rightarrow> string \<Rightarrow> int \<Rightarrow> int \<Rightarrow> int \<Rightarrow> result \<times> int"
  and matchLoop :: "string \<Rightarrow> string \<Rightarrow> int \<Rightarrow> int \<Rightarrow> int \<Rightarrow> result \<times> int" where
  "match str pat slen counter maxcomp =
     (if maxcomp > -1 then
        if counter > slen * maxcomp then (rStop, counter)
        else matchLoop str pat slen (counter + 1) maxcomp
      else matchLoop str pat slen counter maxcomp)"
| "matchLoop str pat slen counter maxcomp =
     (if pat = [] then (if str = [] then rMatch else rNoMatch, counter)
      else
        let (pc, ps) = decodeRune pat; (sc, ss) = headRune str in
        if pc = ord (CHR ''?'') then
          if ss = 0 then (rNoMatch, counter)
          else matchLoop (drop ss str) (drop ps pat) slen counter maxcomp
        else if pc = ord (CHR ''*'') then
          if length (dropStars pat) = 1 then (rMatch, counter)
          else
            let (str2, pat2, ok) = matchTrimSuffix str (dropStars pat) in
            if \<not> ok then (rNoMatch, counter)
            else if length pat2 = 1 then (rMatch, counter)
            else
              let (r, counter2) = match str2 (tl pat2) slen counter maxcomp in
              if r \<noteq> rNoMatch then (r, counter2)
              else if str2 = [] then (rNoMatch, counter2)
              else matchLoop (drop ss str2) pat2 slen counter2 maxcomp
        else if ss = 0 then (rNoMatch, counter)
        else if pc = 0x5C then
          let (pc2, ps2) = decodeRune (drop ps pat) in
          if ps2 = 0 then (rNoMatch, counter)
          else if sc \<noteq> pc2 then (rNoMatch, counter)
          else matchLoop (drop ss str) (drop ps2 (drop ps pat)) slen counter maxcomp
        else if sc \<noteq> pc then (rNoMatch, counter)
        else matchLoop (drop ss str) (drop ps pat) slen counter maxcomp)"
  by pat_completeness auto

lemma trimmed_shorter:
  assumes "(str2, pat2, ok) = matchTrimSuffix str (dropStars pat)" and "pat \<noteq> []"
  shows "length str2 \<le> length str" and "length pat2 \<le> length pat" and "length (tl pat2) < length pat"
proof -
  show str2: "length str2 \<le> length str" and pat2: "length pat2 \<le> length pat"
    using matchTrimSuffix_le [of str "dropStars pat"] dropStars_le [of pat] assms(1) [symmetric] by simp_all
  show "length (tl pat2) < length pat" using pat2 assms(2) by (cases pat2) auto
qed

lemma headRune_shorter: "(sc, ss) = headRune str \<Longrightarrow> 0 < ss \<Longrightarrow> length (drop ss str) < length str"
  by (cases "str = []") (auto simp: headRune_def)

termination match
proof (relation "measure (\<lambda>x. case x of
      Inl (str, pat, slen, counter, maxcomp) \<Rightarrow> 2 * (length str + length pat) + 1
    | Inr (str, pat, slen, counter, maxcomp) \<Rightarrow> 2 * (length str + length pat))", goal_cases)
  case (4 str pat slen counter maxcomp x pc ps y sc ss)
  then show ?case using headRune_shorter [of sc ss str] by simp
next
  case (5 str pat slen counter maxcomp x pc ps y sc ss z str2 u pat2 ok)
  then have "(str2, pat2, ok) = matchTrimSuffix str (dropStars pat)" by simp
  from trimmed_shorter [OF this 5(1)] show ?case by simp
next
  case (6 str pat slen counter maxcomp x pc ps y sc ss z str2 u pat2 ok v r counter2)
  then have "(str2, pat2, ok) = matchTrimSuffix str (dropStars pat)" by simp
  note t = trimmed_shorter [OF this 6(1)]
  from t(1) 6 have "str \<noteq> []" by auto
  with headRune_size [of str] 6 have "0 < ss" by (auto dest: sym)
  with 6 have "length str2 - ss < length str2" by simp
  with t(1,2) show ?case by simp
next
  case (7 str pat slen counter maxcomp x pc ps y sc ss z pc2 ps2)
  then show ?case using headRune_shorter [of sc ss str] by simp
next
  case (8 str pat slen counter maxcomp x pc ps y sc ss)
  then show ?case using headRune_shorter [of sc ss str] by simp
qed auto


declare match.simps [simp del] matchLoop.simps [simp del]

definition Match :: "string \<Rightarrow> string \<Rightarrow> bool" where
  "Match str pattern = (if pattern = ''*'' then True else fst (match str pattern 0 0 (-1)) = rMatch)"

text \<open>\<open>MatchLimit\<close>: whether the text matches, and whether the search was given up.\<close>

definition MatchLimit :: "string \<Rightarrow> string \<Rightarrow> int \<Rightarrow> bool \<times> bool" where
  "MatchLimit str pattern maxcomp =
     (if pattern = ''*'' then (True, False)
      else
        let r = fst (match str pattern (int (length str)) 0 maxcomp) in
        if r = rStop then (False, True) else (r = rMatch, False))"

definition IsPattern :: "string \<Rightarrow> bool" where
  "IsPattern str = list_ex (\<lambda>c. c = CHR ''*'' \<or> c = CHR ''?'') str"

text \<open>
  \<open>Allowable\<close>: the least and the greatest text a pattern can stand for, read up to the first
  star; after a star the greatest is the text before it with its last rune one up. Backslashes are
  not taken for escapes here.
\<close>

fun allowableBounds :: "string \<Rightarrow> string \<times> string \<times> bool" where
  "allowableBounds [] = ([], [], False)"
| "allowableBounds (c # s) =
     (if c = CHR ''*'' then ([], [], True)
      else
        case allowableBounds s of (lo, hi, wild) \<Rightarrow>
          if c = CHR ''?'' then (CHR 0x00 # lo, [CHR 0xF4, CHR 0x8F, CHR 0xBF, CHR 0xBF] @ hi, wild)
          else (c # lo, c # hi, wild))"

definition runeUp :: "string \<Rightarrow> string" where
  "runeUp hi =
     (let (r, n) = decodeLastRune hi in
      if r \<noteq> RuneError \<and> r < MaxRune then
        take (length hi - n) hi @ (if r + 1 > 0x7F then utf8_encode (r + 1) else [char_of (r + 1)])
      else hi)"

definition Allowable :: "string \<Rightarrow> string \<times> string" where
  "Allowable pattern =
     (if pattern = [] \<or> hd pattern = CHR ''*'' then ([], [])
      else case allowableBounds pattern of (lo, hi, wild) \<Rightarrow> (lo, if wild then runeUp hi else hi))"

text \<open>\<open>matchLimit\<close> of \<open>gjson.go\<close>.\<close>

definition matchLimit :: "string \<Rightarrow> string \<Rightarrow> bool" where
  "matchLimit str pattern = fst (MatchLimit str pattern 10000)"

section \<open>What a pattern stands for\<close>

datatype tok = Lit char | One | Many

text \<open>The characters of a pattern; a backslash at the end takes nothing, and is no pattern.\<close>

fun parsePattern :: "string \<Rightarrow> tok list option" where
  "parsePattern [] = Some []"
| "parsePattern (c # s) =
     (if c = CHR ''*'' then map_option ((#) Many) (parsePattern s)
      else if c = CHR ''?'' then map_option ((#) One) (parsePattern s)
      else if c = CHR 0x5C then
        (case s of [] \<Rightarrow> None | d # t \<Rightarrow> map_option ((#) (Lit d)) (parsePattern t))
      else map_option ((#) (Lit c)) (parsePattern s))"

fun denotes :: "tok list \<Rightarrow> string \<Rightarrow> bool" where
  "denotes [] s = (s = [])"
| "denotes (Lit c # p) s = (case s of [] \<Rightarrow> False | d # t \<Rightarrow> d = c \<and> denotes p t)"
| "denotes (One # p) s = (case s of [] \<Rightarrow> False | d # t \<Rightarrow> denotes p t)"
| "denotes (Many # p) s = (denotes p s \<or> (case s of [] \<Rightarrow> False | d # t \<Rightarrow> denotes (Many # p) t))"

lemma denotes_Lit: "denotes (Lit c # p) s \<longleftrightarrow> (\<exists>t. s = c # t \<and> denotes p t)"
  by (cases s) auto

lemma denotes_One: "denotes (One # p) s \<longleftrightarrow> (\<exists>d t. s = d # t \<and> denotes p t)"
  by (cases s) auto

lemma denotes_Many: "denotes (Many # p) s \<longleftrightarrow> (\<exists>u v. s = u @ v \<and> denotes p v)"
proof (induction s)
  case (Cons d t)
  have "denotes (Many # p) (d # t) \<longleftrightarrow> denotes p (d # t) \<or> denotes (Many # p) t" by simp
  also have "\<dots> \<longleftrightarrow> denotes p (d # t) \<or> (\<exists>u v. t = u @ v \<and> denotes p v)" by (simp only: Cons)
  also have "\<dots> \<longleftrightarrow> (\<exists>u v. d # t = u @ v \<and> denotes p v)"
    by (metis append_Cons append_Nil neq_Nil_conv list.inject)
  finally show ?case .
qed simp

lemma denotes_append: "denotes (p @ q) s \<longleftrightarrow> (\<exists>u v. s = u @ v \<and> denotes p u \<and> denotes q v)"
proof (induction p arbitrary: s)
  case (Cons t p)
  show ?case
  proof (cases t)
    case Many
    then show ?thesis
      unfolding append_Cons Many denotes_Many Cons by (metis append.assoc)
  next
    case (Lit c)
    then show ?thesis unfolding append_Cons Lit denotes_Lit Cons by (metis append_Cons)
  next
    case One
    then show ?thesis unfolding append_Cons One denotes_One Cons by (metis append_Cons)
  qed
qed simp

lemma denotes_snoc:
  "denotes (p @ [Lit c]) s \<longleftrightarrow> (\<exists>t. s = t @ [c] \<and> denotes p t)"
  "denotes (p @ [One]) s \<longleftrightarrow> (\<exists>t d. s = t @ [d] \<and> denotes p t)"
  unfolding denotes_append denotes_Lit denotes_One by auto

lemma denotes_Many_snoc:
  "denotes (Many # p @ [Lit c]) s \<longleftrightarrow> (\<exists>t. s = t @ [c] \<and> denotes (Many # p) t)"
  "denotes (Many # p @ [One]) s \<longleftrightarrow> (\<exists>t d. s = t @ [d] \<and> denotes (Many # p) t)"
  using denotes_snoc [of "Many # p"] by simp_all

section \<open>Reading a pattern from its end\<close>

lemma escapedAfter_Nil [simp]: "\<not> escapedAfter []"
  by (simp add: escapedAfter_def)

lemma all_slashes: "\<forall>x \<in> set s. x = CHR 0x5C \<Longrightarrow> takeWhile (\<lambda>c. c = CHR 0x5C) (rev s) = rev s"
  by (simp add: takeWhile_eq_all_conv)

lemma escapedAfter_Cons: "c \<noteq> CHR 0x5C \<Longrightarrow> escapedAfter (c # s) = escapedAfter s"
  by (auto simp: escapedAfter_def takeWhile_append all_slashes)

lemma escapedAfter_pair: "escapedAfter (CHR 0x5C # d # s) = escapedAfter s"
  by (auto simp: escapedAfter_def takeWhile_append all_slashes)

lemma escapedAfter_slash [simp]: "escapedAfter [CHR 0x5C]"
  by (simp add: escapedAfter_def)

definition tokOf :: "char \<Rightarrow> tok" where
  "tokOf c = (if c = CHR ''*'' then Many else if c = CHR ''?'' then One else Lit c)"

text \<open>The last character of a pattern, and the pattern before it.\<close>

lemma parsePattern_snoc:
  "parsePattern (x @ [c]) = Some p \<Longrightarrow>
     (if escapedAfter x then \<exists>y q. x = y @ [CHR 0x5C] \<and> parsePattern y = Some q \<and> p = q @ [Lit c]
      else \<exists>q. parsePattern x = Some q \<and> p = q @ [tokOf c])"
proof (induction x arbitrary: p rule: parsePattern.induct)
  case 1
  then show ?case by (auto simp: tokOf_def split: if_splits)
next
  case (2 a x)
  show ?case
  proof (cases "a = CHR 0x5C")
    case True
    show ?thesis
    proof (cases x)
      case Nil
      then show ?thesis using 2(5) True by auto
    next
      case (Cons d t)
      obtain p' where p: "parsePattern (t @ [c]) = Some p'" "p = Lit d # p'"
        using 2(5) True Cons by auto
      from 2(3) [OF _ _ True Cons p(1)] True show ?thesis
        by (auto simp: Cons p(2) escapedAfter_pair split: if_splits)
    qed
  next
    case False
    then obtain p' where p: "parsePattern (x @ [c]) = Some p'" "p = tokOf a # p'"
      using 2(5) by (auto simp: tokOf_def split: if_splits)
    have "if escapedAfter x then \<exists>y q. x = y @ [CHR 0x5C] \<and> parsePattern y = Some q \<and> p' = q @ [Lit c]
        else \<exists>q. parsePattern x = Some q \<and> p' = q @ [tokOf c]"
      using 2 False p(1) by (cases "a = CHR ''*''"; cases "a = CHR ''?''") auto
    then show ?thesis using False
      by (auto simp: p(2) escapedAfter_Cons tokOf_def split: if_splits)
  qed
qed

section \<open>The matcher decides what the pattern stands for\<close>

lemma ascii_simps [simp]:
  "ascii []" "ascii (c # s) = (ord c < 0x80 \<and> ascii s)" "ascii (s @ t) = (ascii s \<and> ascii t)"
  by (simp_all add: ascii_def)

lemma lastOf_ascii:
  assumes "ord c < 0x80"
  shows "lastOf (CHR ''*'' # z @ [c]) = (ord c, if escapedAfter z then 2 else 1, escapedAfter z)"
proof -
  have "decodeLastRune ((CHR ''*'' # z) @ [c]) = (ord c, 1)" by (rule decodeLastRune_ascii [OF assms])
  moreover have "escapedAfter (CHR ''*'' # z) = escapedAfter z" by (rule escapedAfter_Cons) simp
  ultimately show ?thesis by (simp add: lastOf_def Let_def)
qed

lemma matchTrimSuffix_round:
  assumes "str \<noteq> []" and "1 < length pat" and "lastOf pat = (pc, ps, esc)" and "decodeLastRune str = (sc, ss)"
  shows "matchTrimSuffix str pat =
     (if pc = ord (CHR ''*'') \<and> \<not> esc then (str, pat, True)
      else if \<not> ((pc = ord (CHR ''?'') \<and> \<not> esc) \<or> pc = sc) then (str, pat, False)
      else matchTrimSuffix (take (length str - ss) str) (take (length pat - ps) pat))"
  by (subst matchTrimSuffix.simps) (use assms in simp)

text \<open>One round of \<open>matchTrimSuffix\<close> on ASCII.\<close>

lemma matchTrimSuffix_snoc:
  assumes "ord c < 0x80" and "ord d < 0x80"
  shows "matchTrimSuffix (t @ [d]) (CHR ''*'' # z @ [c]) =
     (if escapedAfter z then
        if c \<noteq> d then (t @ [d], CHR ''*'' # z @ [c], False) else matchTrimSuffix t (CHR ''*'' # butlast z)
      else if c = CHR ''*'' then (t @ [d], CHR ''*'' # z @ [c], True)
      else if c \<noteq> CHR ''?'' \<and> c \<noteq> d then (t @ [d], CHR ''*'' # z @ [c], False)
      else matchTrimSuffix t (CHR ''*'' # z))"
proof -
  let ?str = "t @ [d]" and ?pat = "CHR ''*'' # z @ [c]"
  have star: "(ord c = ord (CHR ''*'')) = (c = CHR ''*'')" "(ord c = ord (CHR ''?'')) = (c = CHR ''?'')" "(ord c = ord d) = (c = d)"
    by (rule of_char_eq_nat_iff)+
  have "1 < length ?pat" "?str \<noteq> []" by simp_all
  note step = matchTrimSuffix_round [OF this(2,1) lastOf_ascii [OF assms(1)] decodeLastRune_ascii [OF assms(2)], unfolded star]
  show ?thesis
  proof (cases "escapedAfter z")
    case True
    then have "take (length (CHR ''*'' # z @ [e]) - 2) (CHR ''*'' # z @ [e]) = CHR ''*'' # butlast z" for e
      by (cases z rule: rev_cases) auto
    with step True show ?thesis by simp
  next
    case False
    have "take (length ?pat - 1) ?pat = CHR ''*'' # z" by simp
    with step False show ?thesis by auto
  qed
qed

lemma matchTrimSuffix_stop [simp]:
  "matchTrimSuffix [] pat = ([], pat, True)" "matchTrimSuffix str [c] = (str, [c], True)"
  by (simp_all add: matchTrimSuffix.simps)


text \<open>What is left after trimming stands for the same texts.\<close>

definition trimmedTo :: "tok list \<Rightarrow> string \<Rightarrow> string \<times> string \<times> bool \<Rightarrow> bool" where
  "trimmedTo p str res =
     (case res of (str', pat', ok) \<Rightarrow>
        if ok then \<exists>x p'. pat' = CHR ''*'' # x \<and> ascii x \<and> ascii str' \<and> parsePattern x = Some p'
             \<and> (denotes (Many # p) str \<longleftrightarrow> denotes (Many # p') str')
        else \<not> denotes (Many # p) str)"

lemma trimmed_same:
  "ascii str \<Longrightarrow> ascii x \<Longrightarrow> parsePattern x = Some p \<Longrightarrow> trimmedTo p str (matchTrimSuffix str (CHR ''*'' # x))"
proof (induction str arbitrary: x p rule: rev_induct)
  case (snoc d t)
  show ?case
  proof (cases x rule: rev_cases)
    case Nil
    then show ?thesis using snoc by (auto simp: trimmedTo_def)
  next
    case (snoc z c)
    have dc: "ord c < 0x80" "ord d < 0x80" "ascii t" "ascii z" using snoc.prems snoc by simp_all
    note step = matchTrimSuffix_snoc [OF dc(1,2), of t z]
    note last = parsePattern_snoc [of z c p]
    show ?thesis
    proof (cases "escapedAfter z")
      case True
      with last snoc snoc.prems obtain y q where y: "z = y @ [CHR 0x5C]" "parsePattern y = Some q" "p = q @ [Lit c]"
        by auto
      have "trimmedTo q t (matchTrimSuffix t (CHR ''*'' # y))"
        using y dc by (intro snoc.IH) simp_all
      then show ?thesis
        using step True snoc y denotes_Many_snoc(1) [of q c "t @ [d]"] by (auto simp: trimmedTo_def)
    next
      case False
      with last snoc snoc.prems obtain q where q: "parsePattern z = Some q" "p = q @ [tokOf c]" by auto
      have IH: "trimmedTo q t (matchTrimSuffix t (CHR ''*'' # z))"
        using q dc by (intro snoc.IH) simp_all
      consider "c = CHR ''*''" | "c = CHR ''?''" | "c \<noteq> CHR ''*''" "c \<noteq> CHR ''?''" by blast
      then show ?thesis
      proof cases
        case 1
        then show ?thesis using step False snoc snoc.prems by (simp add: trimmedTo_def)
      next
        case 2
        then show ?thesis using step False snoc q IH denotes_Many_snoc(2) [of q "t @ [d]"]
          by (auto simp: trimmedTo_def tokOf_def)
      next
        case 3
        then show ?thesis using step False snoc q IH denotes_Many_snoc(1) [of q c "t @ [d]"]
          by (auto simp: trimmedTo_def tokOf_def)
      qed
    qed
  qed
qed (simp add: trimmedTo_def)

lemma dropStars_same:
  "parsePattern x = Some p \<Longrightarrow> ascii x \<Longrightarrow>
     \<exists>y q. dropStars (CHR ''*'' # x) = CHR ''*'' # y \<and> ascii y \<and> parsePattern y = Some q
       \<and> (\<forall>s. denotes (Many # p) s \<longleftrightarrow> denotes (Many # q) s)"
proof (induction x arbitrary: p)
  case (Cons c x)
  show ?case
  proof (cases "c = CHR ''*''")
    case True
    with Cons.prems obtain p' where p': "parsePattern x = Some p'" "p = Many # p'" by auto
    have "denotes (Many # p) s \<longleftrightarrow> denotes (Many # p') s" for s
      unfolding p'(2) denotes_Many by (metis append.assoc append_Nil)
    with Cons.IH [OF p'(1)] Cons.prems True show ?thesis by auto
  qed (use Cons.prems in \<open>auto simp: denotes_Many\<close>)
qed (auto simp: denotes_Many)

lemma headRune_ascii: "headRune [] = (0, 0)" "ord d < 0x80 \<Longrightarrow> headRune (d # t) = (ord d, 1)"
  by (simp_all add: headRune_def)

text \<open>The rounds of the loop on ASCII, one for each kind of character.\<close>

lemma special_codes:
  "(ord c = ord (CHR ''?'')) = (c = CHR ''?'')" "(ord c = ord (CHR ''*'')) = (c = CHR ''*'')" "(ord c = 0x5C) = (c = CHR 0x5C)"
proof -
  have "(0x5C :: nat) = ord (CHR 0x5C)" by simp
  then show "(ord c = 0x5C) = (c = CHR 0x5C)" by (simp only: of_char_eq_nat_iff)
qed (rule of_char_eq_nat_iff)+

lemma matchLoop_Nil: "matchLoop str [] slen k m = (if str = [] then rMatch else rNoMatch, k)"
  by (simp add: matchLoop.simps)

lemma matchLoop_round:
  assumes "pat \<noteq> []" and "decodeRune pat = (pc, ps)" and "headRune str = (sc, ss)"
  shows "matchLoop str pat slen k m =
     (if pc = ord (CHR ''?'') then
        if ss = 0 then (rNoMatch, k) else matchLoop (drop ss str) (drop ps pat) slen k m
      else if pc = ord (CHR ''*'') then
        if length (dropStars pat) = 1 then (rMatch, k)
        else
          case matchTrimSuffix str (dropStars pat) of (str2, pat2, ok) \<Rightarrow>
            if \<not> ok then (rNoMatch, k)
            else if length pat2 = 1 then (rMatch, k)
            else
              case match str2 (tl pat2) slen k m of (r, k2) \<Rightarrow>
                if r \<noteq> rNoMatch then (r, k2)
                else if str2 = [] then (rNoMatch, k2)
                else matchLoop (drop ss str2) pat2 slen k2 m
      else if ss = 0 then (rNoMatch, k)
      else if pc = 0x5C then
        case decodeRune (drop ps pat) of (pc2, ps2) \<Rightarrow>
          if ps2 = 0 then (rNoMatch, k)
          else if sc \<noteq> pc2 then (rNoMatch, k)
          else matchLoop (drop ss str) (drop ps2 (drop ps pat)) slen k m
      else if sc \<noteq> pc then (rNoMatch, k)
      else matchLoop (drop ss str) (drop ps pat) slen k m)"
  by (subst matchLoop.simps) (simp only: assms Let_def prod.case if_False refl not_True_eq_False simp_thms)

lemma matchLoop_no_text:
  assumes "c \<noteq> CHR ''*''" and "ord c < 0x80"
  shows "matchLoop [] (c # x) slen k m = (rNoMatch, k)"
proof -
  note r = matchLoop_round [OF list.distinct(2) decodeRune_ascii [OF assms(2)] headRune_ascii(1), unfolded special_codes]
  show ?thesis by (subst r) (use assms(1) in simp)
qed

lemma matchLoop_plain:
  assumes "c \<noteq> CHR ''*''" and "c \<noteq> CHR 0x5C" and "ord c < 0x80" and "ord d < 0x80"
  shows "matchLoop (d # t) (c # x) slen k m =
     (if c = CHR ''?'' \<or> d = c then matchLoop t x slen k m else (rNoMatch, k))"
proof -
  note r = matchLoop_round [OF list.distinct(2) decodeRune_ascii [OF assms(3)] headRune_ascii(2) [OF assms(4)],
      unfolded special_codes of_char_eq_nat_iff]
  show ?thesis by (subst r) (use assms(1,2) in \<open>simp only: drop_Suc list.sel One_nat_def drop_0 if_False if_True, simp\<close>)
qed

lemma matchLoop_escape:
  assumes "ord c < 0x80" and "ord d < 0x80"
  shows "matchLoop (d # t) (CHR 0x5C # c # x) slen k m =
     (if d = c then matchLoop t x slen k m else (rNoMatch, k))"
proof -
  have "ord (CHR 0x5C) < 0x80" by simp
  note r = matchLoop_round [OF list.distinct(2) decodeRune_ascii [OF this] headRune_ascii(2) [OF assms(2)],
      unfolded special_codes]
  have e: "decodeRune (drop 1 (CHR 0x5C # c # x)) = (ord c, 1)" using assms(1) by simp
  show ?thesis by (subst r) (simp only: e prod.case, simp)
qed

lemma matchLoop_star:
  assumes "ascii str"
  shows "matchLoop str (CHR ''*'' # x) slen k m =
     (if length (dropStars (CHR ''*'' # x)) = 1 then (rMatch, k)
      else
        case matchTrimSuffix str (dropStars (CHR ''*'' # x)) of (str2, pat2, ok) \<Rightarrow>
          if \<not> ok then (rNoMatch, k)
          else if length pat2 = 1 then (rMatch, k)
          else
            case match str2 (tl pat2) slen k m of (r, k2) \<Rightarrow>
              if r \<noteq> rNoMatch then (r, k2)
              else if str2 = [] then (rNoMatch, k2)
              else matchLoop (tl str2) pat2 slen k2 m)"
proof -
  have pat: "decodeRune (CHR ''*'' # x) = (ord (CHR ''*''), 1)" by (rule decodeRune_ascii) simp
  obtain str2 pat2 ok where t: "matchTrimSuffix str (dropStars (CHR ''*'' # x)) = (str2, pat2, ok)"
    by (cases "matchTrimSuffix str (dropStars (CHR ''*'' # x))") auto
  obtain sc ss where s: "headRune str = (sc, ss)" by (cases "headRune str") auto
  have "str2 \<noteq> [] \<Longrightarrow> str \<noteq> []"
    using matchTrimSuffix_le [of str "dropStars (CHR ''*'' # x)"] t by auto
  then have "str2 \<noteq> [] \<Longrightarrow> drop ss str2 = tl str2"
    using assms s by (cases str) (auto simp: headRune_ascii drop_Suc)
  note this [simp]
  show ?thesis
    by (subst matchLoop_round [OF list.distinct(2) pat s, unfolded special_codes]) (simp add: t cong: if_cong)
qed

definition decided :: "bool \<Rightarrow> int \<Rightarrow> result \<Rightarrow> bool" where
  "decided b m r = (if r = rStop then m > -1 else r = (if b then rMatch else rNoMatch))"

lemma match_decided:
  assumes "\<And>k. decided b m (fst (matchLoop str pat slen k m))"
  shows "decided b m (fst (match str pat slen k m))"
  using assms by (cases "m > -1"; cases "k > slen * m") (simp_all add: match.simps, simp add: decided_def)

lemma matchLoop_decides:
  "ascii str \<Longrightarrow> ascii pat \<Longrightarrow> parsePattern pat = Some p \<Longrightarrow> decided (denotes p str) m (fst (matchLoop str pat slen k m))"
proof (induction "length str + length pat" arbitrary: str pat p k rule: less_induct)
  case less
  show ?case
  proof (cases pat)
    case Nil
    then show ?thesis using less.prems by (simp add: matchLoop_Nil decided_def)
  next
    case (Cons c x)
    then have c: "ord c < 0x80" "ascii x" using less.prems by simp_all
    show ?thesis
    proof (cases "c = CHR ''*''")
      case False
      show ?thesis
      proof (cases str)
        case Nil
        with less.prems(3) Cons False show ?thesis
          by (auto simp: matchLoop_no_text [OF False c(1)] decided_def split: if_splits list.splits)
      next
        case str: (Cons d t)
        then have d: "ord d < 0x80" "ascii t" using less.prems by simp_all
        have IH: "decided (denotes q t) m (fst (matchLoop t y slen k m))"
          if "parsePattern y = Some q" "ascii y" "length y \<le> length x" for y q
          using that d str Cons by (intro less.hyps) simp_all
        show ?thesis
        proof (cases "c = CHR 0x5C")
          case True
          with less.prems(3) Cons obtain e y q where x: "x = e # y" "parsePattern y = Some q" "p = Lit e # q"
            by (auto split: list.splits)
          with c have e: "ord e < 0x80" "ascii y" by simp_all
          show ?thesis
            using matchLoop_escape [OF e(1) d(1), of t y slen k m] IH [OF x(2) e(2)] x
            by (auto simp: str Cons True decided_def split: if_splits)
        next
          case slash: False
          with less.prems(3) Cons False obtain q where q: "parsePattern x = Some q" "p = tokOf c # q"
            by (auto simp: tokOf_def split: if_splits)
          show ?thesis
            using matchLoop_plain [OF False slash c(1) d(1), of t x slen k m] IH [OF q(1) c(2)] False
            by (auto simp: str Cons q(2) tokOf_def decided_def split: if_splits)
        qed
      qed
    next
      case True
      with less.prems(3) Cons obtain p1 where p1: "parsePattern x = Some p1" "p = Many # p1" by auto
      obtain y q where y: "dropStars pat = CHR ''*'' # y" "ascii y" "parsePattern y = Some q"
        "\<And>s. denotes p s \<longleftrightarrow> denotes (Many # q) s"
        using dropStars_same [OF p1(1) c(2)] True Cons p1(2) by auto
      obtain str2 pat2 ok where t: "matchTrimSuffix str (CHR ''*'' # y) = (str2, pat2, ok)"
        by (cases "matchTrimSuffix str (CHR ''*'' # y)") auto
      have len: "length str2 \<le> length str" "length pat2 \<le> length pat"
        using matchTrimSuffix_le [of str "CHR ''*'' # y"] t dropStars_le [of pat] y(1) by simp_all
      have trimmed: "trimmedTo q str (str2, pat2, ok)" using trimmed_same [OF less.prems(1) y(2,3)] t by simp
      note star = matchLoop_star [OF less.prems(1), of x slen k m, folded True Cons, unfolded y(1) t prod.case]
      show ?thesis
      proof (cases "ok \<and> y \<noteq> []")
        case False
        show ?thesis
        proof (cases "y = []")
          case True
          then have "denotes p str" using y(3,4) by (auto simp: denotes_Many simp del: denotes.simps(4))
          then show ?thesis using star True by (simp add: decided_def)
        next
          case no: False
          then have "\<not> denotes p str" using False trimmed y(4) by (simp add: trimmedTo_def del: denotes.simps(4))
          then show ?thesis using star no False by (simp add: decided_def)
        qed
      next
        case ok: True
        then obtain z r where z: "pat2 = CHR ''*'' # z" "ascii z" "ascii str2" "parsePattern z = Some r"
          "denotes p str \<longleftrightarrow> denotes (Many # r) str2"
          using trimmed y(4) by (auto simp: trimmedTo_def simp del: denotes.simps(4))
        have inner: "decided (denotes r str2) m (fst (match str2 z slen k m))"
        proof -
          have "decided (denotes r str2) m (fst (matchLoop str2 z slen k' m))" for k'
            using z len by (intro less.hyps) simp_all
          then show ?thesis by (rule match_decided)
        qed
        have again: "decided (denotes (Many # r) (tl str2)) m (fst (matchLoop (tl str2) pat2 slen k2 m))"
          if "str2 \<noteq> []" for k2
          using that z len by (intro less.hyps) (cases str2, auto)+
        obtain res k2 where m: "match str2 z slen k m = (res, k2)" by fastforce
        show ?thesis
        proof (cases "z = []")
          case True
          then show ?thesis using star ok z
            by (auto simp: decided_def denotes_Many simp del: denotes.simps(4))
        next
          case False
          then have "fst (matchLoop str pat slen k m) =
              (if res \<noteq> rNoMatch then res else if str2 = [] then rNoMatch else fst (matchLoop (tl str2) pat2 slen k2 m))"
            using star ok z(1) m by simp
          then show ?thesis
            using inner again [of k2] m z(5) by (cases str2) (auto simp: decided_def split: if_splits)
        qed
      qed
    qed
  qed
qed

section \<open>The effort of a search\<close>

text \<open>\<open>match\<close> stops above the limit, and every call counts one: the counter passes it by one at most.\<close>

lemma matchLoop_effort:
  assumes "m > -1"
  shows "k \<le> slen * m + 1 \<Longrightarrow> snd (matchLoop str pat slen k m) \<le> slen * m + 1"
proof (induction "length str + length pat" arbitrary: str pat k rule: less_induct)
  case less
  show ?case
  proof (cases "pat = []")
    case True
    then show ?thesis using less.prems by (simp add: matchLoop_Nil)
  next
    case False
    obtain pc ps where pat: "decodeRune pat = (pc, ps)" by fastforce
    obtain sc ss where str: "headRune str = (sc, ss)" by fastforce
    have ps: "0 < ps" using decodeRune_size [OF False] pat by simp
    have loop: "snd (matchLoop s x slen k' m) \<le> slen * m + 1"
      if "length s \<le> length str" "length x < length pat \<or> length s < length str \<and> length x \<le> length pat" "k' \<le> slen * m + 1" for s x k'
      using that by (intro less.hyps) auto
    have call: "snd (match s x slen k' m) \<le> slen * m + 1"
      if "length s \<le> length str" "length x < length pat" "k' \<le> slen * m + 1" for s x k'
      using that assms loop [of s x "k' + 1"] by (simp add: match.simps)
    obtain str2 pat2 ok where t: "matchTrimSuffix str (dropStars pat) = (str2, pat2, ok)"
      by (cases "matchTrimSuffix str (dropStars pat)") auto
    note trim = trimmed_shorter [OF t [symmetric] False]
    obtain r k2 where m: "match str2 (tl pat2) slen k m = (r, k2)" by fastforce
    have k2: "k2 \<le> slen * m + 1" using call [OF trim(1,3) less.prems] m by simp
    have pos: "0 < ss" if "str2 \<noteq> []"
    proof -
      have "str \<noteq> []" using that trim(1) by auto
      with headRune_size [of str] str show ?thesis by simp
    qed
    have wild: "snd (matchLoop (drop ss str2) pat2 slen k2 m) \<le> slen * m + 1" if "str2 \<noteq> []"
    proof -
      from pos [OF that] that have "length str2 - ss < length str2" by simp
      with trim k2 show ?thesis by (intro loop) (simp_all, linarith?)
    qed
    have plain: "snd (matchLoop (drop ss str) (drop n pat) slen k m) \<le> slen * m + 1" if "0 < n" for n
      using that False less.prems by (intro loop) auto
    have "snd (matchLoop (drop ss str) (drop n (drop ps pat)) slen k m) \<le> slen * m + 1" for n
      using plain [of "n + ps"] ps by simp
    then show ?thesis
      using plain [OF ps] wild pos k2 less.prems
      by (subst matchLoop_round [OF False pat str]) (auto simp: t m split: prod.splits)
  qed
qed

text \<open>
  C26. The matcher decides the pattern: on ASCII, with a pattern that has no lone backslash at its
  end, \<open>Match\<close> is the textbook meaning of stars, question marks and escapes, and so is
  \<open>MatchLimit\<close> unless it gives up.
\<close>

theorem match_decides:
  assumes "ascii str" and "ascii pattern" and "parsePattern pattern = Some p"
  shows "Match str pattern = denotes p str
     \<and> fst (MatchLimit str pattern maxcomp) = (denotes p str \<and> \<not> snd (MatchLimit str pattern maxcomp))"
proof (cases "pattern = ''*''")
  case True
  with assms(3) have "denotes p str" by (auto simp: denotes_Many simp del: denotes.simps(4))
  with True show ?thesis by (simp add: Match_def MatchLimit_def)
next
  case False
  have d: "decided (denotes p str) m (fst (match str pattern n 0 m))" for n m
    by (rule match_decided [OF matchLoop_decides [OF assms]])
  show ?thesis
    using False d [of "-1" 0] d [of maxcomp "int (length str)"]
    by (auto simp: Match_def MatchLimit_def Let_def decided_def split: if_splits)
qed

theorem match_decides_witness:
  "Match ''user:7:name'' ''user:*:n?me'' \<and> \<not> Match ''user:7:nam'' ''user:*:n?me''"
proof -
  have "parsePattern ''user:*:n?me'' = Some (map Lit ''user:'' @ [Many] @ map Lit '':n'' @ [One] @ map Lit ''me'')"
    "ascii ''user:7:name''" "ascii ''user:7:nam''" "ascii ''user:*:n?me''"
    by code_simp+
  note m = match_decides [OF this(2,4,1)] match_decides [OF this(3,4,1)]
  have "denotes (map Lit ''user:'' @ [Many] @ map Lit '':n'' @ [One] @ map Lit ''me'') ''user:7:name''"
    "\<not> denotes (map Lit ''user:'' @ [Many] @ map Lit '':n'' @ [One] @ map Lit ''me'') ''user:7:nam''"
    by code_simp+
  with m show ?thesis by blast
qed

text \<open>
  The effort of a limited search is bounded, whatever the text and the pattern: the counter of
  calls ends at most one above the limit times the length of the text.
\<close>

theorem match_effort_bounded:
  "snd (match str pattern (int (length str)) 0 (int n)) \<le> int (length str) * int n + 1"
  using matchLoop_effort [of "int n" 1 "int (length str)" str pattern]
  by (simp add: match.simps)

end
