(* ===== verification/Gjson.thy ===== *)
theory Gjson
  imports Match "HOL-Library.Word"
begin

text \<open>
  The JSON reader of the RPC reply, \<open>tidwall/gjson\<close> 1.9.4
  (\<open>src/pkg/mod/github.com/tidwall/gjson@v1.9.4/gjson.go\<close>): a scanner that walks the text
  along a path of keys and never builds a tree.

  Here is \<open>Get\<close> on paths of keys and array indices (\<open>plainPath\<close> below), the only ones
  \<open>src/Web/main.go\<close> uses, and on JSON lines, which two dots at the start ask for. The whole
  path language is in \<open>GjsonGet\<close>, and \<open>full_get_plain\<close> there shows that on these paths it is
  this reader. Positions are indices into the text, as in the code. Of a \<open>Result\<close> the fields
  \<open>Type\<close>, \<open>Raw\<close> and \<open>Str\<close> are kept; \<open>Index\<close> and
  \<open>Indexes\<close> are never read by the program, and \<open>Num\<close> is the number
  \<open>Raw\<close> denotes.
\<close>

datatype jtype = JNull | JFalse | JNumber | JString | JTrue | JJSON

record Result =
  rType :: jtype
  rRaw :: string
  rStr :: string

definition emptyResult :: Result where
  "emptyResult = \<lparr>rType = JNull, rRaw = '''', rStr = ''''\<rparr>"

definition Exists :: "Result \<Rightarrow> bool" where
  "Exists t = (rType t \<noteq> JNull \<or> rRaw t \<noteq> '''')"

text \<open>
  \<open>Result.String()\<close>. A number is its own text when it is an integer literal; otherwise
  \<open>strconv.FormatFloat\<close> prints its value, which is the parameter \<open>fmt\<close> of the
  model (a function of the literal).
\<close>

definition resultString :: "(string \<Rightarrow> string) \<Rightarrow> Result \<Rightarrow> string" where
  "resultString fmt t =
     (case rType t of
        JNull \<Rightarrow> ''''
      | JFalse \<Rightarrow> ''false''
      | JNumber \<Rightarrow>
          (let digits = (if take 1 (rRaw t) = ''-'' then tl (rRaw t) else rRaw t)
           in if rRaw t \<noteq> '''' \<and> list_all is_digit digits then rRaw t else fmt (rRaw t))
      | JString \<Rightarrow> rStr t
      | JJSON \<Rightarrow> rRaw t
      | JTrue \<Rightarrow> ''true'')"

section \<open>Scanning\<close>

definition slice :: "string \<Rightarrow> nat \<Rightarrow> nat \<Rightarrow> string" where
  "slice json a b = take (b - a) (drop a json)"

text \<open>The first index from \<open>i\<close> on whose byte satisfies \<open>p\<close>, or the length.\<close>

function scanTo :: "(char \<Rightarrow> bool) \<Rightarrow> string \<Rightarrow> nat \<Rightarrow> nat" where
  "scanTo p json i = (if i < length json \<and> \<not> p (json ! i) then scanTo p json (Suc i) else i)"
  by pat_completeness auto
termination
  by (relation "measure (\<lambda>(p, json, i). length json - i)") auto

declare scanTo.simps [simp del]

text \<open>Backslashes at \<open>j\<close>, \<open>j - 1\<close>, \<dots> down to \<open>lo\<close>, exclusive.\<close>

fun countBack :: "string \<Rightarrow> nat \<Rightarrow> nat \<Rightarrow> nat" where
  "countBack json lo 0 = 0"
| "countBack json lo (Suc j) =
     (if lo < Suc j \<and> json ! Suc j = CHR 0x5C then Suc (countBack json lo j) else 0)"

definition escapedQuote :: "string \<Rightarrow> nat \<Rightarrow> nat \<Rightarrow> bool" where
  "escapedQuote json lo i = (json ! (i - 1) = CHR 0x5C \<and> even (countBack json lo (i - 2)))"

text \<open>The closing quote, from \<open>i\<close> on, of a string that has an escape before \<open>i\<close>.\<close>

definition quoteFrom :: "string \<Rightarrow> nat \<Rightarrow> nat \<Rightarrow> nat" where
  "quoteFrom json lo i =
     (let go = (\<lambda>k. json ! k = CHR 0x22 \<and> \<not> escapedQuote json lo k)
      in case find_index go [i..<length json] of None \<Rightarrow> length json | Some k \<Rightarrow> i + k)"

text \<open>
  \<open>parseString\<close>: \<open>i\<close> is the index after the opening quote. The results are the next
  index, the raw text with its quotes, whether it has escapes, and whether it is closed.
\<close>

definition parseString :: "string \<Rightarrow> nat \<Rightarrow> nat \<times> string \<times> bool \<times> bool" where
  "parseString json s =
     (let i = scanTo (\<lambda>c. c = CHR 0x22 \<or> c = CHR 0x5C) json s in
      if i < length json \<and> json ! i = CHR 0x22
      then (i + 1, slice json (s - 1) (i + 1), False, True)
      else if i < length json then
        (let k = quoteFrom json 0 (i + 1) in
         if k < length json then (k + 1, slice json (s - 1) (k + 1), True, True)
         else (k, drop (s - 1) json, False, False))
      else (i, drop (s - 1) json, False, False))"

definition parseNumber :: "string \<Rightarrow> nat \<Rightarrow> nat \<times> string" where
  "parseNumber json s =
     (let i = scanTo (\<lambda>c. ord c \<le> 32 \<or> c \<in> {CHR '','', CHR '']'', CHR ''}''}) json (s + 1)
      in (i, slice json s i))"

definition parseLiteral :: "string \<Rightarrow> nat \<Rightarrow> nat \<times> string" where
  "parseLiteral json s =
     (let i = scanTo (\<lambda>c. ord c < 97 \<or> 122 < ord c) json (s + 1)
      in (i, slice json s i))"

text \<open>
  \<open>parseSquash\<close>: the raw text of an object or array, from its opening bracket to the
  bracket that closes it; brackets of any kind count, strings are skipped. An unclosed string
  leaves the index one beyond the text, as the loop of the code does.
\<close>

function squashLoop :: "string \<Rightarrow> nat \<Rightarrow> nat \<Rightarrow> nat \<Rightarrow> nat \<times> string" where
  "squashLoop json s i depth =
     (if i < length json then
        (if json ! i = CHR 0x22 then squashLoop json s (Suc (quoteFrom json i (Suc i))) depth
         else if json ! i \<in> {CHR ''{'', CHR ''['', CHR ''(''} then squashLoop json s (Suc i) (Suc depth)
         else if json ! i \<in> {CHR ''}'', CHR '']'', CHR '')''} then
           (if depth = 1 then (Suc i, slice json s (Suc i)) else squashLoop json s (Suc i) (depth - 1))
         else squashLoop json s (Suc i) depth)
      else (i, drop s json))"
  by pat_completeness auto

lemma find_index_upt_ge: "find_index p [i..<n] = Some k \<Longrightarrow> i + k < n"
  by (auto dest: find_index_Some)

lemma quoteFrom_ge: "i \<le> length json \<Longrightarrow> i \<le> quoteFrom json lo i"
  by (auto simp: quoteFrom_def Let_def split: option.splits)

lemma quoteFrom_progress:
  "i < length json \<Longrightarrow> length json - Suc (quoteFrom json lo (Suc i)) < length json - i"
  using quoteFrom_ge [of "Suc i" json lo] by simp

termination squashLoop
  by (relation "measure (\<lambda>(json, s, i, depth). length json - i)")
     (auto simp: quoteFrom_progress)

declare squashLoop.simps [simp del]

definition parseSquash :: "string \<Rightarrow> nat \<Rightarrow> nat \<times> string" where
  "parseSquash json i = squashLoop json i (Suc i) 1"

section \<open>Escapes\<close>

definition is_hex :: "char \<Rightarrow> bool" where
  "is_hex c = (is_digit c \<or> (97 \<le> ord c \<and> ord c \<le> 102) \<or> (65 \<le> ord c \<and> ord c \<le> 70))"

definition hex_val :: "char \<Rightarrow> nat" where
  "hex_val c = (if is_digit c then ord c - 48 else if 97 \<le> ord c then ord c - 87 else ord c - 55)"

text \<open>\<open>runeit\<close>: the value of four hex digits; the error of \<open>ParseUint\<close> is dropped, its value is 0.\<close>

definition runeit :: "string \<Rightarrow> nat" where
  "runeit s =
     (if list_all is_hex (take 4 s) then foldl (\<lambda>n c. 16 * n + hex_val c) 0 (take 4 s) else 0)"

text \<open>\<open>utf16.DecodeRune\<close>.\<close>

definition decodeSurrogates :: "nat \<Rightarrow> nat \<Rightarrow> nat" where
  "decodeSurrogates r1 r2 =
     (if 0xD800 \<le> r1 \<and> r1 < 0xDC00 \<and> 0xDC00 \<le> r2 \<and> r2 < 0xE000
      then (r1 - 0xD800) * 1024 + (r2 - 0xDC00) + 0x10000 else 0xFFFD)"

text \<open>The escapes of one letter.\<close>

definition simpleEscape :: "char \<Rightarrow> char option" where
  "simpleEscape e =
     (if e = CHR 0x5C \<or> e = CHR ''/'' \<or> e = CHR 0x22 then Some e
      else if e = CHR ''b'' then Some (CHR 0x08)
      else if e = CHR ''f'' then Some (CHR 0x0C)
      else if e = CHR ''n'' then Some (CHR 0x0A)
      else if e = CHR ''r'' then Some (CHR 0x0D)
      else if e = CHR ''t'' then Some (CHR 0x09)
      else None)"

text \<open>
  The rune of a \<open>\u\<close> escape whose digits start the text, with the text after it: a
  surrogate takes a second escape with it when one follows.
\<close>

definition unicodeEscape :: "string \<Rightarrow> nat \<times> string" where
  "unicodeEscape rest =
     (let r = runeit rest; more = drop 4 rest in
      if isSurrogate r \<and> 6 \<le> length more \<and> more ! 0 = CHR 0x5C \<and> more ! 1 = CHR ''u''
      then (decodeSurrogates r (runeit (drop 2 more)), drop 6 more)
      else (r, more))"

text \<open>\<open>unescape\<close>: it stops, with what it has, at a control byte and at a bad escape.\<close>

function unescape :: "string \<Rightarrow> string" where
  "unescape [] = []"
| "unescape (c # cs) =
     (if ord c < 32 then []
      else if c = CHR 0x5C then
        (case cs of
           [] \<Rightarrow> []
         | e # rest \<Rightarrow>
             (case simpleEscape e of
                Some d \<Rightarrow> d # unescape rest
              | None \<Rightarrow>
                  if e = CHR ''u'' \<and> 4 \<le> length rest
                  then utf8_encode (fst (unicodeEscape rest)) @ unescape (snd (unicodeEscape rest))
                  else []))
      else c # unescape cs)"
  by pat_completeness auto
termination
  by (relation "measure length") (auto simp: unicodeEscape_def Let_def)

lemma unescape_plain: "list_all (\<lambda>c. 32 \<le> ord c \<and> c \<noteq> CHR 0x5C) s \<Longrightarrow> unescape s = s"
  by (induction s) auto

section \<open>Paths\<close>

definition isDotPiperChar :: "char \<Rightarrow> bool" where
  "isDotPiperChar c = (c = CHR ''@'' \<or> c = CHR ''['' \<or> c = CHR ''{'')"

record objectPathResult =
  oPart :: string
  oPath :: string
  oPipe :: string
  oPiped :: bool
  oWild :: bool
  oMore :: bool

definition noPath :: objectPathResult where
  "noPath = \<lparr>oPart = '''', oPath = '''', oPipe = '''', oPiped = False, oWild = False, oMore = False\<rparr>"

definition dotPiped :: "string \<Rightarrow> bool" where
  "dotPiped rest = (case rest of [] \<Rightarrow> False | c # _ \<Rightarrow> isDotPiperChar c)"

text \<open>
  The escape mode of \<open>parseObjectPath\<close>: \<open>part\<close> is the part so far. A dot sets
  \<open>more\<close> here even when a modifier follows.
\<close>

fun escapedPath :: "string \<Rightarrow> bool \<Rightarrow> string \<Rightarrow> objectPathResult" where
  "escapedPath part wild [] = noPath\<lparr>oPart := part, oWild := wild\<rparr>"
| "escapedPath part wild (c # cs) =
     (if c = CHR 0x5C then
        (case cs of
           [] \<Rightarrow> noPath\<lparr>oPart := part, oWild := wild\<rparr>
         | e # rest \<Rightarrow> escapedPath (part @ [e]) wild rest)
      else if c = CHR ''.'' then
        (if dotPiped cs
         then noPath\<lparr>oPart := part, oWild := wild, oPipe := cs, oPiped := True, oMore := True\<rparr>
         else noPath\<lparr>oPart := part, oWild := wild, oPath := cs, oMore := True\<rparr>)
      else if c = CHR ''|'' then
        noPath\<lparr>oPart := part, oWild := wild, oPipe := cs, oPiped := True\<rparr>
      else escapedPath (part @ [c]) (wild \<or> c = CHR ''*'' \<or> c = CHR ''?'') cs)"

fun objectPathFrom :: "string \<Rightarrow> bool \<Rightarrow> string \<Rightarrow> objectPathResult" where
  "objectPathFrom part wild [] = noPath\<lparr>oPart := part, oWild := wild\<rparr>"
| "objectPathFrom part wild (c # cs) =
     (if c = CHR ''|'' then
        noPath\<lparr>oPart := part, oWild := wild, oPipe := cs, oPiped := True\<rparr>
      else if c = CHR ''.'' then
        (if dotPiped cs
         then noPath\<lparr>oPart := part, oWild := wild, oPipe := cs, oPiped := True\<rparr>
         else noPath\<lparr>oPart := part, oWild := wild, oPath := cs, oMore := True\<rparr>)
      else if c = CHR ''*'' \<or> c = CHR ''?'' then objectPathFrom (part @ [c]) True cs
      else if c = CHR 0x5C then
        (case cs of
           [] \<Rightarrow> noPath\<lparr>oPart := part, oWild := wild\<rparr>
         | e # rest \<Rightarrow> escapedPath (part @ [e]) wild rest)
      else objectPathFrom (part @ [c]) wild cs)"

definition parseObjectPath :: "string \<Rightarrow> objectPathResult" where
  "parseObjectPath path = objectPathFrom '''' False path"

text \<open>\<open>parseArrayPath\<close> on a path without \<open>#\<close>: part, rest, more, pipe.\<close>

record arrayPathResult =
  aPart :: string
  aPath :: string
  aPipe :: string
  aPiped :: bool
  aMore :: bool

fun arrayPathFrom :: "string \<Rightarrow> string \<Rightarrow> arrayPathResult" where
  "arrayPathFrom part [] =
     \<lparr>aPart = part, aPath = '''', aPipe = '''', aPiped = False, aMore = False\<rparr>"
| "arrayPathFrom part (c # cs) =
     (if c = CHR ''|'' then
        \<lparr>aPart = part, aPath = '''', aPipe = cs, aPiped = True, aMore = False\<rparr>
      else if c = CHR ''.'' then
        (if dotPiped cs
         then \<lparr>aPart = part, aPath = '''', aPipe = cs, aPiped = True, aMore = False\<rparr>
         else \<lparr>aPart = part, aPath = cs, aPipe = '''', aPiped = False, aMore = True\<rparr>)
      else arrayPathFrom (part @ [c]) cs)"

definition parseArrayPath :: "string \<Rightarrow> arrayPathResult" where
  "parseArrayPath path = arrayPathFrom '''' path"

text \<open>\<open>parseUint\<close>: digits only, modulo \<open>2 ^ 64\<close>.\<close>

definition parseUint :: "string \<Rightarrow> 64 word option" where
  "parseUint s =
     (if s = '''' \<or> \<not> list_all is_digit s then None
      else Some (foldl (\<lambda>n c. n * 10 + of_nat (ord c - 48)) 0 s))"

text \<open>\<open>partidx\<close> of \<open>parseArray\<close>: \<open>int(n)\<close>, or -1 for a part that is no number.\<close>

definition partIndex :: "string \<Rightarrow> int" where
  "partIndex s = (case parseUint s of None \<Rightarrow> -1 | Some n \<Rightarrow> sint n)"

section \<open>Objects and arrays\<close>

record parseContext =
  cValue :: Result
  cPipe :: string
  cPiped :: bool

definition startContext :: parseContext where
  "startContext = \<lparr>cValue = emptyResult, cPipe = '''', cPiped = False\<rparr>"

definition setPipe :: "bool \<Rightarrow> bool \<Rightarrow> string \<Rightarrow> parseContext \<Rightarrow> parseContext" where
  "setPipe deeper piped pipe c = (if \<not> deeper \<and> piped then c\<lparr>cPipe := pipe, cPiped := True\<rparr> else c)"

definition setString :: "string \<Rightarrow> bool \<Rightarrow> parseContext \<Rightarrow> parseContext" where
  "setString val vesc c =
     (let body = slice val 1 (length val - 1)
      in c\<lparr>cValue := \<lparr>rType = JString, rRaw = val, rStr = (if vesc then unescape body else body)\<rparr>\<rparr>)"

definition setRaw :: "jtype \<Rightarrow> string \<Rightarrow> parseContext \<Rightarrow> parseContext" where
  "setRaw t val c = c\<lparr>cValue := (cValue c)\<lparr>rType := t, rRaw := val\<rparr>\<rparr>"

text \<open>A literal sets the type for \<open>t\<close> and \<open>f\<close> only.\<close>

definition setLiteral :: "char \<Rightarrow> string \<Rightarrow> parseContext \<Rightarrow> parseContext" where
  "setLiteral vc val c =
     (let t = (if vc = CHR ''t'' then JTrue else if vc = CHR ''f'' then JFalse else rType (cValue c))
      in setRaw t val c)"

text \<open>
  The search for the next key of an object: the first quote or closing brace. A key is the
  text between its quotes; an unclosed one ends the search.
\<close>

datatype keyScan = NoKey nat | ObjectEnd nat | KeyAt nat string bool

definition scanKey :: "string \<Rightarrow> nat \<Rightarrow> keyScan" where
  "scanKey json i =
     (let j = scanTo (\<lambda>c. c = CHR 0x22 \<or> c = CHR ''}'') json i in
      if length json \<le> j then NoKey j
      else if json ! j = CHR ''}'' then ObjectEnd (Suc j)
      else (case parseString json (Suc j) of
              (k, raw, kesc, ok) \<Rightarrow>
                if ok then KeyAt k (slice raw 1 (length raw - 1)) kesc else NoKey k))"

definition isNumStart :: "char \<Rightarrow> bool" where
  "isNumStart c = (c = CHR ''-'' \<or> is_digit c)"

definition isLitStart :: "char \<Rightarrow> bool" where
  "isLitStart c = (c = CHR ''t'' \<or> c = CHR ''f'' \<or> c = CHR ''n'')"

definition isValueStart :: "char \<Rightarrow> bool" where
  "isValueStart c =
     (c = CHR 0x22 \<or> c = CHR ''{'' \<or> c = CHR ''['' \<or> isNumStart c \<or> isLitStart c)"

text \<open>
  The value at \<open>k\<close>, where a value starts: the index after it and the context that holds
  it, or \<open>Broken\<close> for a string that is not closed. A container is read as raw text.
\<close>

datatype valueScan = Broken nat | ValueTo nat parseContext

definition scanValue :: "string \<Rightarrow> nat \<Rightarrow> parseContext \<Rightarrow> valueScan" where
  "scanValue json k c =
     (if json ! k = CHR 0x22 then
        (case parseString json (Suc k) of
           (m, val, vesc, ok) \<Rightarrow> if ok then ValueTo m (setString val vesc c) else Broken m)
      else if json ! k = CHR ''{'' \<or> json ! k = CHR ''['' then
        (case parseSquash json k of (m, val) \<Rightarrow> ValueTo m (setRaw JJSON val c))
      else if isNumStart (json ! k) then
        (case parseNumber json k of (m, val) \<Rightarrow> ValueTo m (setRaw JNumber val c))
      else
        (case parseLiteral json k of (m, val) \<Rightarrow> ValueTo m (setLiteral (json ! k) val c)))"

text \<open>
  The two loops of the code are mutually recursive. A frame says in which of them, with
  its parsed path and, for an array, the number of elements passed; one round of a loop
  returns, goes on in its frame from an index, or enters the container that starts at an
  index.
\<close>

datatype frame = InObject objectPathResult | InArray arrayPathResult nat

datatype round = Return nat bool parseContext | Continue nat frame | Enter nat string frame

definition valueRound :: "string \<Rightarrow> nat \<Rightarrow> bool \<Rightarrow> bool \<Rightarrow> string \<Rightarrow> frame \<Rightarrow> parseContext \<Rightarrow> round" where
  "valueRound json k pmatch hit rest next c =
     (if (json ! k = CHR ''{'' \<or> json ! k = CHR ''['') \<and> pmatch \<and> \<not> hit then Enter k rest next
      else case scanValue json k c of
          Broken m \<Rightarrow> Return m False c
        | ValueTo m d \<Rightarrow> if hit then Return m True d else Continue m next)"

text \<open>
  A round of \<open>parseObject\<close>: a key, then its value. \<open>glob\<close> is \<open>matchLimit\<close>, which
  compares a part that has a wildcard.
\<close>

definition objectRound :: "(string \<Rightarrow> string \<Rightarrow> bool) \<Rightarrow> string \<Rightarrow> objectPathResult \<Rightarrow> nat \<Rightarrow> parseContext \<Rightarrow> round" where
  "objectRound glob json rp i c =
     (if length json \<le> i then Return i False c
      else case scanKey json i of
        NoKey j \<Rightarrow> Return j False c
      | ObjectEnd j \<Rightarrow> Return j False c
      | KeyAt j key0 kesc \<Rightarrow>
          (let key = (if kesc then unescape key0 else key0);
               pmatch = (if oWild rp then glob key (oPart rp) else oPart rp = key);
               hit = (pmatch \<and> \<not> oMore rp);
               k = scanTo isValueStart json j
           in if length json \<le> k then Return k False c
              else valueRound json k pmatch hit (oPath rp) (InObject rp) c))"

text \<open>A round of \<open>parseArray\<close>: an element. The end of the text counts as a bracket.\<close>

definition arrayRound :: "string \<Rightarrow> arrayPathResult \<Rightarrow> nat \<Rightarrow> nat \<Rightarrow> parseContext \<Rightarrow> round" where
  "arrayRound json rp h i c =
     (if length json < i then Return i False c
      else
        (let pmatch = (partIndex (aPart rp) = int h);
             hit = (pmatch \<and> \<not> aMore rp);
             k = scanTo (\<lambda>x. isValueStart x \<or> x = CHR '']'') json i
         in if length json \<le> k \<or> json ! k = CHR '']'' then Return (Suc k) False c
            else valueRound json k pmatch hit (aPath rp) (InArray rp (Suc h)) c))"

text \<open>What \<open>parseObject\<close> and \<open>parseArray\<close> do before their loops: the path is parsed and the pipe is set.\<close>

definition enterAt :: "char \<Rightarrow> string \<Rightarrow> parseContext \<Rightarrow> frame \<times> parseContext" where
  "enterAt b path c =
     (if b = CHR ''{''
      then (let r = parseObjectPath path in (InObject r, setPipe (oMore r) (oPiped r) (oPipe r) c))
      else (let r = parseArrayPath path in (InArray r 0, setPipe (aMore r) (aPiped r) (aPipe r) c)))"

definition oneRound :: "(string \<Rightarrow> string \<Rightarrow> bool) \<Rightarrow> string \<Rightarrow> frame \<Rightarrow> nat \<Rightarrow> parseContext \<Rightarrow> round" where
  "oneRound glob json fr i c =
     (case fr of
        InObject rp \<Rightarrow> objectRound glob json rp i c
      | InArray rp h \<Rightarrow> arrayRound json rp h i c)"

text \<open>
  The loops and the calls between them. The fuel bounds the rounds in sequence; that
  \<open>length json - i + 2\<close> is enough is \<open>parseLoop_returns\<close> below, \<open>None\<close> is only its
  exhaustion.
\<close>

primrec parseLoop :: "nat \<Rightarrow> (string \<Rightarrow> string \<Rightarrow> bool) \<Rightarrow> string \<Rightarrow> frame \<Rightarrow> nat \<Rightarrow> parseContext
      \<Rightarrow> (nat \<times> bool \<times> parseContext) option" where
  "parseLoop 0 glob json fr i c = None"
| "parseLoop (Suc n) glob json fr i c =
     (case oneRound glob json fr i c of
        Return j found d \<Rightarrow> Some (j, found, d)
      | Continue j fr' \<Rightarrow> parseLoop n glob json fr' j c
      | Enter k rest fr' \<Rightarrow>
          (case enterAt (json ! k) rest c of
             (inner, c') \<Rightarrow>
               (case parseLoop n glob json inner (Suc k) c' of
                  None \<Rightarrow> None
                | Some (j, found, d) \<Rightarrow>
                    if found then Some (j, True, d) else parseLoop n glob json fr' j d)))"

definition firstBracket :: "string \<Rightarrow> nat" where
  "firstBracket json = scanTo (\<lambda>c. c = CHR ''{'' \<or> c = CHR ''['') json 0"

text \<open>
  \<open>Get\<close> on a plain path: the first bracket of the text decides how it is read, except that a path
  that starts with two dots reads the lines of the text as the elements of an array.
\<close>

definition searchFrom :: "(string \<Rightarrow> string \<Rightarrow> bool) \<Rightarrow> string \<Rightarrow> char \<Rightarrow> string \<Rightarrow> nat \<Rightarrow> Result" where
  "searchFrom glob json b path i =
     (case enterAt b path startContext of
        (fr, c) \<Rightarrow>
          (case parseLoop (length json + 2) glob json fr i c of
             Some (_, _, d) \<Rightarrow> cValue d
           | None \<Rightarrow> emptyResult))"

definition Get :: "(string \<Rightarrow> string \<Rightarrow> bool) \<Rightarrow> string \<Rightarrow> string \<Rightarrow> Result" where
  "Get glob json path =
     (if take 2 path = ''..'' then searchFrom glob json (CHR ''['') (drop 2 path) 0
      else
        let k = firstBracket json in
        if length json \<le> k then emptyResult else searchFrom glob json (json ! k) path (Suc k))"

definition plainPath :: "string \<Rightarrow> bool" where
  "plainPath path =
     list_all (\<lambda>c. c \<notin> {CHR ''@'', CHR ''['', CHR ''{'', CHR ''|'', CHR ''#'', CHR 0x5C, CHR ''*'', CHR ''?''}) path"

section \<open>The fuel is enough\<close>

lemma scanTo_ge: "i \<le> scanTo p json i"
proof (induction p json i rule: scanTo.induct)
  case (1 p json i)
  then show ?case by (subst scanTo.simps) (auto intro: Suc_leD)
qed

lemma scanTo_hit: "scanTo p json i < length json \<Longrightarrow> p (json ! scanTo p json i)"
proof (induction p json i rule: scanTo.induct)
  case (1 p json i)
  then show ?case
    by (cases "i < length json \<and> \<not> p (json ! i)") (auto simp: scanTo.simps [of p json i])
qed

lemma parseString_ge: "parseString json s = (i, raw, esc, ok) \<Longrightarrow> s \<le> i"
  using scanTo_ge [of s "\<lambda>c. c = CHR 0x22 \<or> c = CHR 0x5C" json]
    quoteFrom_ge [of "Suc (scanTo (\<lambda>c. c = CHR 0x22 \<or> c = CHR 0x5C) json s)" json 0]
  by (auto simp: parseString_def Let_def split: if_splits)

lemma squashLoop_ge: "i \<le> fst (squashLoop json s i depth)"
proof (induction json s i depth rule: squashLoop.induct)
  case (1 json s i depth)
  have q: "i < length json \<Longrightarrow> Suc i \<le> quoteFrom json i (Suc i)"
    using quoteFrom_ge [of "Suc i" json i] by simp
  show ?case
    using 1 q by (subst squashLoop.simps) (auto simp del: squashLoop.simps dest: Suc_leD le_SucI)
qed

lemma parseSquash_gt: "parseSquash json k = (m, val) \<Longrightarrow> k < m"
  using squashLoop_ge [of "Suc k" json k 1] by (simp add: parseSquash_def)

lemma scanValue_gt: "scanValue json k c = ValueTo m d \<Longrightarrow> k < m"
  using scanTo_ge [of "k + 1" _ json]
  by (auto simp: scanValue_def parseNumber_def parseLiteral_def Let_def Suc_le_eq
      dest!: parseString_ge parseSquash_gt split: if_splits prod.splits)

lemma scanValue_Broken_ge: "scanValue json k c = Broken m \<Longrightarrow> k \<le> m"
  by (auto simp: scanValue_def dest!: parseString_ge split: if_splits prod.splits)

lemma scanKey_ge:
  "scanKey json i = NoKey j \<Longrightarrow> i \<le> j" "scanKey json i = ObjectEnd j \<Longrightarrow> i \<le> j"
  "scanKey json i = KeyAt j key esc \<Longrightarrow> i \<le> j"
  using scanTo_ge [of i "\<lambda>c. c = CHR 0x22 \<or> c = CHR ''}''" json]
  by (auto simp: scanKey_def Let_def dest!: parseString_ge split: if_splits prod.splits)

text \<open>Where a round leaves the index, for both loops.\<close>

definition progress :: "string \<Rightarrow> nat \<Rightarrow> round \<Rightarrow> bool" where
  "progress json i r =
     (case r of
        Return j found d \<Rightarrow> i \<le> j
      | Continue j fr \<Rightarrow> i < j \<and> i \<le> length json
      | Enter k path fr \<Rightarrow> i \<le> k \<and> k < length json)"

lemma valueRound_progress:
  "i \<le> k \<Longrightarrow> k < length json \<Longrightarrow> progress json i (valueRound json k pmatch hit rest fr c)"
  using scanValue_gt [of json k c] scanValue_Broken_ge [of json k c]
  by (auto simp: valueRound_def progress_def split: valueScan.splits dest: less_imp_le)

lemma oneRound_progress: "progress json i (oneRound glob json fr i c)"
proof (cases fr)
  case (InObject rp)
  show ?thesis
  proof (cases "scanKey json i")
    case (KeyAt j key esc)
    then have "i \<le> scanTo isValueStart json j"
      using scanKey_ge(3) scanTo_ge order_trans by blast
    with InObject KeyAt valueRound_progress show ?thesis
      by (auto simp: oneRound_def objectRound_def Let_def progress_def [of json i "Return _ _ _"])
  qed (use InObject scanKey_ge in \<open>auto simp: oneRound_def objectRound_def progress_def\<close>)
next
  case (InArray rp h)
  have "i \<le> scanTo (\<lambda>x. isValueStart x \<or> x = CHR '']'') json i" by (rule scanTo_ge)
  with InArray valueRound_progress show ?thesis
    by (auto simp: oneRound_def arrayRound_def Let_def progress_def [of json i "Return _ _ _"])
qed

lemma parseLoop_ge: "parseLoop n glob json fr i c = Some (j, found, d) \<Longrightarrow> i \<le> j"
proof (induction n arbitrary: fr i c j found d)
  case (Suc n)
  from Suc.prems oneRound_progress [of json i glob fr c] show ?case
    by (auto simp: progress_def split: round.splits option.splits prod.splits if_splits
        dest!: Suc.IH)
qed simp

lemma parseLoop_returns:
  "0 < n \<Longrightarrow> length json + 2 \<le> n + i \<Longrightarrow> \<exists>res. parseLoop n glob json fr i c = Some res"
proof (induction n arbitrary: fr i c)
  case (Suc n)
  show ?case
  proof (cases "oneRound glob json fr i c")
    case (Continue j fr')
    with oneRound_progress [of json i glob fr c] have "i < j" "i \<le> length json"
      by (simp_all add: progress_def)
    with Suc.prems Suc.IH [of j fr' c] Continue show ?thesis by simp
  next
    case (Enter k path fr')
    with oneRound_progress [of json i glob fr c] have k: "i \<le> k" "k < length json"
      by (simp_all add: progress_def)
    obtain inner c' where e: "enterAt (json ! k) path c = (inner, c')" by fastforce
    from Suc.prems k have n: "0 < n" "length json + 2 \<le> n + Suc k" by simp_all
    then obtain j found d where r: "parseLoop n glob json inner (Suc k) c' = Some (j, found, d)"
      using Suc.IH [of "Suc k" inner c'] by auto
    then have "Suc k \<le> j" by (rule parseLoop_ge)
    with n Suc.IH [of j fr' d] have "\<exists>res. parseLoop n glob json fr' j d = Some res" by simp
    with Enter e r show ?thesis by (cases found) auto
  qed simp_all
qed simp

lemma searchFrom_total:
  assumes "enterAt b path startContext = (fr, c)"
  shows "\<exists>j found d. parseLoop (length json + 2) glob json fr i c = Some (j, found, d)
      \<and> searchFrom glob json b path i = cValue d"
  using parseLoop_returns [of "length json + 2" json i glob fr c] assms
  by (auto simp: searchFrom_def)

section \<open>Plain paths\<close>

text \<open>The frames a plain path leads to: no wildcard, no pipe, and a plain path for the rest.\<close>

fun plainFrame :: "frame \<Rightarrow> bool" where
  "plainFrame (InObject r) = (\<not> oWild r \<and> \<not> oPiped r \<and> plainPath (oPath r))"
| "plainFrame (InArray r h) = (\<not> aPiped r \<and> plainPath (aPath r))"

lemma plainPath_Nil [simp]: "plainPath ''''"
  by (simp add: plainPath_def)

lemma plainPath_Cons:
  "plainPath (c # cs) \<longleftrightarrow>
     c \<notin> {CHR ''@'', CHR ''['', CHR ''{'', CHR ''|'', CHR ''#'', CHR 0x5C, CHR ''*'', CHR ''?''} \<and> plainPath cs"
  by (simp add: plainPath_def)

lemma plainPath_dot: "plainPath path \<Longrightarrow> \<not> dotPiped path"
  by (cases path) (auto simp: plainPath_Cons dotPiped_def isDotPiperChar_def)

lemma plain_objectPath: "plainPath path \<Longrightarrow> plainFrame (InObject (objectPathFrom part False path))"
proof (induction path arbitrary: part)
  case (Cons c cs)
  then have c: "c \<noteq> CHR ''|''" "c \<noteq> CHR 0x5C" "c \<noteq> CHR ''*''" "c \<noteq> CHR ''?''" "plainPath cs"
    by (simp_all add: plainPath_Cons)
  with plainPath_dot [OF c(5)] Cons.IH show ?case
    by (cases "c = CHR ''.''") (simp_all add: noPath_def)
qed (simp add: noPath_def)

lemma plain_arrayPath: "plainPath path \<Longrightarrow> plainFrame (InArray (arrayPathFrom part path) h)"
proof (induction path arbitrary: part)
  case (Cons c cs)
  then have c: "c \<noteq> CHR ''|''" "plainPath cs"
    by (simp_all add: plainPath_Cons)
  with plainPath_dot [OF c(2)] Cons.IH show ?case
    by (cases "c = CHR ''.''") simp_all
qed simp

lemma enterAt_plain: "plainPath path \<Longrightarrow> enterAt b path c = (fr, d) \<Longrightarrow> plainFrame fr \<and> cPiped d = cPiped c"
  using plain_objectPath [of path "''''"] plain_arrayPath [of path "''''" 0]
  by (auto simp: enterAt_def parseObjectPath_def parseArrayPath_def Let_def setPipe_def split: if_splits)

text \<open>A round stays in plain frames, keeps the pipe, and never asks for a wildcard match.\<close>

fun plainRound :: "bool \<Rightarrow> round \<Rightarrow> bool" where
  "plainRound p (Return j found d) = (cPiped d = p)"
| "plainRound p (Continue j fr) = plainFrame fr"
| "plainRound p (Enter k rest fr) = (plainPath rest \<and> plainFrame fr)"

lemma scanValue_pipe: "scanValue json k c = ValueTo m d \<Longrightarrow> cPiped d = cPiped c"
  by (auto simp: scanValue_def setString_def setRaw_def setLiteral_def Let_def split: if_splits prod.splits)

lemma valueRound_plain:
  "plainPath rest \<Longrightarrow> plainFrame fr \<Longrightarrow> plainRound (cPiped c) (valueRound json k pmatch hit rest fr c)"
  by (auto simp: valueRound_def dest: scanValue_pipe split: valueScan.splits)

lemma oneRound_plain:
  "plainFrame fr \<Longrightarrow> plainRound (cPiped c) (oneRound glob json fr i c)"
  by (cases fr) (auto simp: oneRound_def objectRound_def arrayRound_def Let_def valueRound_plain split: keyScan.splits)

lemma oneRound_glob:
  "plainFrame fr \<Longrightarrow> oneRound glob json fr i c = oneRound glob' json fr i c"
  by (cases fr) (simp_all add: oneRound_def objectRound_def Let_def split: keyScan.splits)

lemma parseLoop_plain:
  "plainFrame fr \<Longrightarrow> parseLoop n glob json fr i c = parseLoop n glob' json fr i c
     \<and> (\<forall>j found d. parseLoop n glob json fr i c = Some (j, found, d) \<longrightarrow> cPiped d = cPiped c)"
proof (induction n arbitrary: fr i c)
  case (Suc n)
  note g = oneRound_glob [OF Suc.prems, of glob json i c glob'] and p = oneRound_plain [OF Suc.prems, of c glob json i]
  show ?case
  proof (cases "oneRound glob json fr i c")
    case (Return j found d)
    from g Return have "oneRound glob' json fr i c = Return j found d" by simp
    moreover from p Return have "cPiped d = cPiped c" by simp
    ultimately
    show ?thesis using Return by simp
  next
    case (Continue j fr')
    from g Continue have "oneRound glob' json fr i c = Continue j fr'" by simp
    moreover from p Continue have "plainFrame fr'" by simp
    ultimately show ?thesis using Continue Suc.IH [of fr' j c] by simp
  next
    case (Enter k rest fr')
    obtain inner c' where e: "enterAt (json ! k) rest c = (inner, c')" by fastforce
    from Enter p have pl: "plainPath rest" "plainFrame fr'" by simp_all
    from enterAt_plain [OF pl(1) e] have i: "plainFrame inner" "cPiped c' = cPiped c" by simp_all
    have inner: "parseLoop n glob json inner (Suc k) c' = parseLoop n glob' json inner (Suc k) c'"
      using Suc.IH [OF i(1), of "Suc k" c'] by simp
    show ?thesis
    proof (cases "parseLoop n glob json inner (Suc k) c'")
      case None
      from g Enter have "oneRound glob' json fr i c = Enter k rest fr'" by simp
      with None inner Enter e show ?thesis by simp
    next
      case (Some res)
      obtain j found d where res: "res = (j, found, d)" by (cases res)
      then have d: "cPiped d = cPiped c" using Some Suc.IH [OF i(1), of "Suc k" c'] i(2) by simp
      have after: "parseLoop n glob json fr' j d = parseLoop n glob' json fr' j d"
        "parseLoop n glob json fr' j d = Some (j', found', d') \<Longrightarrow> cPiped d' = cPiped d" for j' found' d'
        using Suc.IH [OF pl(2), of j d] by simp_all
      from g Enter have r: "oneRound glob json fr i c = Enter k rest fr'"
        "oneRound glob' json fr i c = Enter k rest fr'" by simp_all
      have "parseLoop n glob json inner (Suc k) c' = Some (j, found, d)"
        "parseLoop n glob' json inner (Suc k) c' = Some (j, found, d)"
        using inner Some res by simp_all
      then have eq: "parseLoop (Suc n) gl json fr i c =
          (if found then Some (j, True, d) else parseLoop n gl json fr' j d)" if "gl \<in> {glob, glob'}" for gl
        using that e by (auto simp: r)
      show ?thesis
        using eq [of glob] eq [of glob'] d after(1) after(2) by (cases found) auto
    qed
  qed
qed simp

section \<open>Properties\<close>

text \<open>
  The scan ends: for every text, well-formed JSON or not, and wherever it starts, the number of
  rounds is below the length of the text plus two, so a search returns the value of a finished scan.
\<close>

theorem get_finishes:
  assumes "enterAt b path startContext = (fr, c)"
  shows "\<exists>j found d. parseLoop (length json + 2) glob json fr i c = Some (j, found, d)
      \<and> searchFrom glob json b path i = cValue d"
  using assms by (rule searchFrom_total)

text \<open>
  On a path of keys and indices, as the server's are, the scan never compares a wildcard
  and never sets a pipe: the reader's result does not depend on them.
\<close>

lemma plainPath_drop: "plainPath path \<Longrightarrow> plainPath (drop n path)"
  by (auto simp: plainPath_def list_all_iff dest: in_set_dropD)

theorem get_plain_path:
  assumes "plainPath path"
  shows "Get glob json path = Get glob' json path
    \<and> (\<forall>n b fr c i j found d. enterAt b path startContext = (fr, c) \<longrightarrow>
        parseLoop n glob json fr j c = Some (i, found, d) \<longrightarrow> \<not> cPiped d)"
proof
  have e: "plainFrame fr \<and> \<not> cPiped c" if "enterAt b p startContext = (fr, c)" "plainPath p" for b p fr c
    using enterAt_plain [OF that(2,1)] by (simp add: startContext_def)
  have "searchFrom glob json b p i = searchFrom glob' json b p i" if "plainPath p" for b p i
  proof (cases "enterAt b p startContext")
    case (Pair fr c)
    with e that have "plainFrame fr" by blast
    from parseLoop_plain [OF this, of "length json + 2" glob json i c glob'] Pair
    show ?thesis by (simp only: searchFrom_def prod.case)
  qed
  then show "Get glob json path = Get glob' json path"
    using assms plainPath_drop [OF assms] by (simp add: Get_def Let_def)
  show "\<forall>n b fr c i j found d. enterAt b path startContext = (fr, c) \<longrightarrow>
        parseLoop n glob json fr j c = Some (i, found, d) \<longrightarrow> \<not> cPiped d"
    using e assms parseLoop_plain by metis
qed

subsection \<open>Witnesses\<close>

theorem get_finishes_witness:
  "\<exists>j found d. parseLoop (length ''{ [1]}'' + 2) (\<lambda>_ _. False) ''{ [1]}'' (InObject (parseObjectPath ''id'')) 1 startContext
      = Some (j, found, d) \<and> searchFrom (\<lambda>_ _. False) ''{ [1]}'' (CHR ''{'') ''id'' 1 = cValue d"
proof -
  have "enterAt (CHR ''{'') ''id'' startContext = (InObject (parseObjectPath ''id''), startContext)"
    by code_simp
  from get_finishes [OF this, of "''{ [1]}''" "\<lambda>_ _. False" 1] show ?thesis .
qed

theorem get_plain_path_witness:
  "Get (\<lambda>_ _. True) ''[7]'' ''result.nef.script'' = Get (\<lambda>_ _. False) ''[7]'' ''result.nef.script''"
proof -
  have "plainPath ''result.nef.script''" by code_simp
  from get_plain_path [OF this] show ?thesis by blast
qed

end
