(* ===== verification/World.thy ===== *)
theory World
  imports FileSystem GoJson Gjson
begin

text \<open>
  What the handler of \<open>src/Web/main.go\<close> reads and changes: the answer it writes, the
  file system, the two collections of the databases, the two dictionaries \<open>m1\<close> and
  \<open>m2\<close>, and the record of the calls that leave the process. What other programs do -- the
  compilers, the RPC node, the MongoDB server, the YAML decoder, the printing of a
  floating-point number -- is a parameter, gathered in \<open>env\<close>.
\<close>

section \<open>The answer\<close>

record response =
  rsHeaders :: "(string \<times> string list) list"
  rsStatus :: nat
  rsBody :: bytes

definition noResponse :: response where
  "noResponse = \<lparr>rsHeaders = [], rsStatus = 0, rsBody = []\<rparr>"

text \<open>
  \<open>w.Header().Set\<close> and \<open>Add\<close> on names in canonical form, \<open>w.WriteHeader\<close>, which only
  counts the first time, and \<open>w.Write\<close>, which sends status 200 when none was sent.
\<close>

definition headerValues :: "string \<Rightarrow> response \<Rightarrow> string list" where
  "headerValues k r = (case map_of (rsHeaders r) k of None \<Rightarrow> [] | Some vs \<Rightarrow> vs)"

definition headerSet :: "string \<Rightarrow> string \<Rightarrow> response \<Rightarrow> response" where
  "headerSet k v r = r\<lparr>rsHeaders := AList.update k [v] (rsHeaders r)\<rparr>"

definition headerAdd :: "string \<Rightarrow> string \<Rightarrow> response \<Rightarrow> response" where
  "headerAdd k v r = r\<lparr>rsHeaders := AList.update k (headerValues k r @ [v]) (rsHeaders r)\<rparr>"

definition writeHeader :: "nat \<Rightarrow> response \<Rightarrow> response" where
  "writeHeader code r = (if rsStatus r = 0 then r\<lparr>rsStatus := code\<rparr> else r)"

definition writeBody :: "bytes \<Rightarrow> response \<Rightarrow> response" where
  "writeBody b r =
     r\<lparr>rsStatus := (if rsStatus r = 0 then 200 else rsStatus r), rsBody := rsBody r @ b\<rparr>"

text \<open>\<open>http.Error\<close>.\<close>

definition httpError :: "string \<Rightarrow> nat \<Rightarrow> response \<Rightarrow> response" where
  "httpError msg code r =
     writeBody (msg @ [CHR 0x0A]) (writeHeader code
       (headerSet ''X-Content-Type-Options'' ''nosniff''
          (headerSet ''Content-Type'' ''text/plain; charset=utf-8'' r)))"

lemma headerValues_simps [simp]:
  "headerValues k (headerSet k' v r) = (if k = k' then [v] else headerValues k r)"
  "headerValues k (headerAdd k' v r) = (if k = k' then headerValues k r @ [v] else headerValues k r)"
  "headerValues k (writeBody b r) = headerValues k r" "headerValues k (writeHeader c r) = headerValues k r"
  by (simp_all add: headerValues_def headerSet_def headerAdd_def writeBody_def writeHeader_def update_conv)

lemma headerValues_noResponse [simp]: "headerValues k noResponse = []"
  by (simp add: headerValues_def noResponse_def)

lemma status_simps [simp]:
  "rsStatus (headerSet k v r) = rsStatus r" "rsStatus (headerAdd k v r) = rsStatus r"
  "rsBody (headerSet k v r) = rsBody r" "rsBody (headerAdd k v r) = rsBody r"
  "rsBody (writeHeader c r) = rsBody r"
  by (simp_all add: headerSet_def headerAdd_def writeHeader_def)

text \<open>Every coded answer of the source: a content type and a marshalled \<open>jsonResult\<close>.\<close>

definition answer :: "int \<Rightarrow> string \<Rightarrow> response \<Rightarrow> response" where
  "answer code msg r =
     writeBody (marshalResult \<lparr>Code = code, Msg = msg\<rparr>) (headerSet ''Content-Type'' ''application/json'' r)"

section \<open>Dictionaries\<close>

text \<open>A Go map, read with the zero value for a missing key.\<close>

type_synonym dict1 = "string \<rightharpoonup> string"
type_synonym dict2 = "string \<rightharpoonup> int"

definition getContract :: "dict1 \<Rightarrow> string" where
  "getContract m = (case m ''Contract'' of None \<Rightarrow> '''' | Some v \<Rightarrow> v)"

definition getVersion :: "dict1 \<Rightarrow> string" where
  "getVersion m = (case m ''Version'' of None \<Rightarrow> '''' | Some v \<Rightarrow> v)"

definition getUpdateCounter :: "dict2 \<Rightarrow> int" where
  "getUpdateCounter m = (case m ''updateCounter'' of None \<Rightarrow> 0 | Some v \<Rightarrow> v)"

definition getId :: "dict2 \<Rightarrow> int" where
  "getId m = (case m ''id'' of None \<Rightarrow> 0 | Some v \<Rightarrow> v)"

definition getCompileCommand :: "dict1 \<Rightarrow> string" where
  "getCompileCommand m = (case m ''CompileCommand'' of None \<Rightarrow> '''' | Some v \<Rightarrow> v)"

definition getJavaPackage :: "dict1 \<Rightarrow> string" where
  "getJavaPackage m = (case m ''JavaPackage'' of None \<Rightarrow> '''' | Some v \<Rightarrow> v)"

definition getFilename :: "dict1 \<Rightarrow> string" where
  "getFilename m = (case m ''Filename'' of None \<Rightarrow> '''' | Some v \<Rightarrow> v)"

section \<open>The databases\<close>

record insertVerifiedContract =
  vHash :: string
  vId :: int
  vUpdatecounter :: int

record insertContractSourceCode =
  sHash :: string
  sUpdatecounter :: int
  sFileName :: string
  sCode :: bytes

text \<open>
  The collections \<open>VerifyContractModel\<close> and \<open>ContractSourceCode\<close> of one
  database, in the order of insertion. A database is reached by the URI of the server and
  its name.
\<close>

record db =
  verified :: "insertVerifiedContract list"
  sources :: "insertContractSourceCode list"

definition emptyDb :: db where
  "emptyDb = \<lparr>verified = [], sources = []\<rparr>"

type_synonym dbkey = "string \<times> string"
type_synonym mongo = "dbkey \<Rightarrow> db"

text \<open>The filter of \<open>FindOne\<close>: hash and update counter.\<close>

definition matchesFilter :: "string \<Rightarrow> int \<Rightarrow> insertVerifiedContract \<Rightarrow> bool" where
  "matchesFilter h u v = (vHash v = h \<and> vUpdatecounter v = u)"

definition hasVerified :: "string \<Rightarrow> int \<Rightarrow> db \<Rightarrow> bool" where
  "hasVerified h u d = list_ex (matchesFilter h u) (verified d)"

definition addVerified :: "insertVerifiedContract \<Rightarrow> db \<Rightarrow> db" where
  "addVerified v d = d\<lparr>verified := verified d @ [v]\<rparr>"

definition addSource :: "insertContractSourceCode \<Rightarrow> db \<Rightarrow> db" where
  "addSource s d = d\<lparr>sources := sources d @ [s]\<rparr>"

text \<open>
  The contract of a collection with a lookup by key: the lookup sees exactly the documents
  of the log, an insertion appends. A client that inserts only after a lookup that found
  nothing keeps the keys distinct.
\<close>

locale keyed_log =
  fixes log :: "'s \<Rightarrow> 'v list" and key :: "'v \<Rightarrow> 'k" and has :: "'k \<Rightarrow> 's \<Rightarrow> bool" and add :: "'v \<Rightarrow> 's \<Rightarrow> 's"
  assumes has_iff: "has x s \<longleftrightarrow> x \<in> key ` set (log s)"
    and log_add: "log (add v s) = log s @ [v]"
begin

lemma has_add: "has x (add v s) \<longleftrightarrow> x = key v \<or> has x s"
  by (auto simp: has_iff log_add)

lemma distinct_add: "distinct (map key (log s)) \<Longrightarrow> \<not> has (key v) s \<Longrightarrow> distinct (map key (log (add v s)))"
  by (simp add: has_iff log_add)

lemma duplicate_add: "has (key v) s \<Longrightarrow> \<not> distinct (map key (log (add v s)))"
  by (auto simp: has_iff log_add)

end

definition vKey :: "insertVerifiedContract \<Rightarrow> string \<times> int" where
  "vKey v = (vHash v, vUpdatecounter v)"

interpretation contracts: keyed_log verified vKey "\<lambda>(h, u). hasVerified h u" addVerified
  by unfold_locales
     (auto simp: hasVerified_def matchesFilter_def vKey_def list_ex_iff addVerified_def image_iff)

section \<open>Configuration\<close>

record dbConfig =
  Host :: string
  Port :: string
  User :: string
  Pass :: string
  Database :: string
  DBName :: string

record Config =
  Database_main :: dbConfig
  Database_test :: dbConfig
  Database_testmagnet :: dbConfig

section \<open>Commands\<close>

record command =
  cmdName :: string
  cmdArgs :: "string list"
  cmdDir :: string

text \<open>
  How running a command ends, as \<open>execCommand\<close> observes it: the pipe for its output
  cannot be made, it does not start, reading its output fails, or its output ends. The exit
  status is never asked for. The file system is the one at that moment.
\<close>

datatype cmdResult = PipeFails string | StartFails | ReadFails string fs | Finished bytes fs

section \<open>The environment of a request\<close>

text \<open>
  \<open>env_post url body\<close> is the body of the reply (what \<open>ReadAll\<close> got of it), or
  \<open>None\<close> when \<open>http.Post\<close> fails; \<open>env_yaml\<close> decodes the configuration file;
  \<open>env_connect\<close> and \<open>env_ping\<close> say whether the MongoDB server of a URI is reached;
  \<open>env_find\<close> whether \<open>FindOne\<close> reaches it; \<open>env_insertVerified\<close> and
  \<open>env_insertSource\<close> whether the insertion of a document succeeds; \<open>env_formatFloat\<close> is
  \<open>strconv.FormatFloat\<close> after \<open>strconv.ParseFloat\<close> for the JSON reader.
\<close>

record env =
  env_now :: datetime
  env_RUNTIME :: string
  env_run :: "command \<Rightarrow> fs \<Rightarrow> cmdResult"
  env_post :: "string \<Rightarrow> bytes \<Rightarrow> bytes option"
  env_yaml :: "bytes \<Rightarrow> Config option"
  env_connect :: "string \<Rightarrow> bool"
  env_ping :: "string \<Rightarrow> bool"
  env_find :: "dbkey \<Rightarrow> bool"
  env_insertVerified :: "insertVerifiedContract \<Rightarrow> bool"
  env_insertSource :: "insertContractSourceCode \<Rightarrow> bool"
  env_formatFloat :: "string \<Rightarrow> string"

section \<open>The world of a request\<close>

text \<open>The calls that leave the process, in order.\<close>

datatype call = Ran command | Posted string bytes

record world =
  wfs :: fs
  wdb :: mongo
  wresp :: response
  wcalls :: "call list"

definition onFs :: "(fs \<Rightarrow> fs) \<Rightarrow> world \<Rightarrow> world" where
  "onFs g w = w\<lparr>wfs := g (wfs w)\<rparr>"

definition onResp :: "(response \<Rightarrow> response) \<Rightarrow> world \<Rightarrow> world" where
  "onResp g w = w\<lparr>wresp := g (wresp w)\<rparr>"

definition onDb :: "dbkey \<Rightarrow> (db \<Rightarrow> db) \<Rightarrow> world \<Rightarrow> world" where
  "onDb k g w = w\<lparr>wdb := (wdb w)(k := g (wdb w k))\<rparr>"

definition called :: "call \<Rightarrow> world \<Rightarrow> world" where
  "called c w = w\<lparr>wcalls := wcalls w @ [c]\<rparr>"

lemma on_simps [simp]:
  "wfs (onFs g w) = g (wfs w)" "wdb (onFs g w) = wdb w" "wresp (onFs g w) = wresp w"
  "wcalls (onFs g w) = wcalls w"
  "wfs (onResp h w) = wfs w" "wdb (onResp h w) = wdb w" "wresp (onResp h w) = h (wresp w)"
  "wcalls (onResp h w) = wcalls w"
  "wfs (onDb k d w) = wfs w" "wresp (onDb k d w) = wresp w" "wcalls (onDb k d w) = wcalls w"
  "wdb (onDb k d w) = (wdb w)(k := d (wdb w k))"
  "wfs (called c w) = wfs w" "wdb (called c w) = wdb w" "wresp (called c w) = wresp w"
  "wcalls (called c w) = wcalls w @ [c]"
  by (simp_all add: onFs_def onResp_def onDb_def called_def)

section \<open>An environment and a container for the witnesses\<close>

text \<open>
  A clock reading, a container with the configuration file, and an environment in which no
  program writes a file and the RPC node is down.
\<close>

definition sample_time :: datetime where
  "sample_time = DateTime 2022 1 31 8 30 5"

definition sample_env :: env where
  "sample_env =
     \<lparr>env_now = sample_time, env_RUNTIME = ''testnet'', env_run = (\<lambda>_ f. Finished [] f),
      env_post = (\<lambda>_ _. None), env_yaml = (\<lambda>_. None), env_connect = (\<lambda>_. True), env_ping = (\<lambda>_. True),
      env_find = (\<lambda>_. True), env_insertVerified = (\<lambda>_. True), env_insertSource = (\<lambda>_. True),
      env_formatFloat = (\<lambda>_. [])\<rparr>"

definition sample_fs :: fs where
  "sample_fs = [([''go''], Dir), ([''go'', ''application''], Dir),
     ([''go'', ''application'', ''config.yml''], File ''database_main:'')]"

definition sample_folder :: string where
  "sample_folder = ''20220131083005''"

definition sample_fs_up :: fs where
  "sample_fs_up = ([''go'', ''application'', sample_folder], Dir) # sample_fs"

definition sample_world :: world where
  "sample_world = \<lparr>wfs = sample_fs, wdb = (\<lambda>_. emptyDb), wresp = noResponse, wcalls = []\<rparr>"

lemma sample_folder_eq [simp]: "formatDate (env_now sample_env) = sample_folder"
  unfolding sample_env_def env.simps by code_simp

lemma sample_folder_plain [simp]: "plain_name sample_folder"
  by code_simp

lemma sample_fs_dirs [simp]:
  "is_dir sample_fs cwd" "is_dir sample_fs_up cwd" "is_dir sample_fs_up (cwd @ [sample_folder])"
  by code_simp+

end
