(* ===== verification/Upload.thy ===== *)
theory Upload
  imports World
begin

text \<open>
  The first part of \<open>multipleFile\<close> of \<open>src/Web/main.go\<close>: the folder of the upload
  (\<open>createDateDir\<close>) and the loop over the parts of the multipart body.
\<close>

section \<open>The folder\<close>

text \<open>
  \<open>filepath.Join("./", name)\<close> is the name itself, so the path and the name of the folder
  are the same text. A folder that is there is used as it is.
\<close>

definition createDateDir :: "env \<Rightarrow> (world, string \<times> string) prog" where
  "createDateDir e = (\<lambda>w.
     let folderName = formatDate (env_now e); folderPath = folderName
     in (Ret (folderPath, folderName),
         if IsNotExist (Lstat (wfs w) folderPath)
         then onFs (\<lambda>f. snd (Mkdir f folderPath)) w else w))"

section \<open>The parts\<close>

text \<open>
  A part: its form name, its file name (empty for a form field) and the bytes that can be
  read of it. The body ends in the end marker or in an error of \<open>NextPart\<close>.
\<close>

record part =
  FormName :: string
  FileName :: string
  Data :: bytes

datatype request = NotMultipart string | Multipart "part list" bool

definition formKeys :: "string list" where
  "formKeys = [''Contract'', ''Version'', ''CompileCommand'', ''JavaPackage'']"

definition receiveField :: "part \<Rightarrow> dict1 \<Rightarrow> dict1" where
  "receiveField p m1 = (if FormName p \<in> set formKeys then m1(FormName p \<mapsto> Data p) else m1)"

text \<open>
  The project name: up to the first dot of a file with one of three extensions. The slice
  of the code panics when there is no dot.
\<close>

definition projectName :: "string \<Rightarrow> part \<Rightarrow> dict1 \<Rightarrow> dict1 outcome" where
  "projectName pathFile p m1 =
     (let ext = pathExt (pathFile @ ''/'' @ FileName p) in
      if ext = ''.csproj'' \<or> ext = ''.py'' \<or> ext = ''.java'' then
        (case slice_to (FileName p) (indexByte (FileName p) (CHR ''.'')) of
           None \<Rightarrow> Panic ''slice bounds out of range''
         | Some tmp \<Rightarrow> Ret (m1(''Filename'' \<mapsto> tmp)))
      else Ret m1)"

text \<open>An upload that cannot be opened is skipped: copying to a nil file is an error nobody looks at.\<close>

definition storeUpload :: "string \<Rightarrow> part \<Rightarrow> fs \<Rightarrow> fs" where
  "storeUpload pathFile p f =
     (case OpenWrite f (pathFile @ ''/'' @ FileName p) of
        (Inl e, f') \<Rightarrow> f'
      | (Inr dst, f') \<Rightarrow> WriteAt f' dst (Data p))"

definition receivePart :: "string \<Rightarrow> part \<Rightarrow> dict1 \<Rightarrow> (world, dict1) prog" where
  "receivePart pathFile p m1 = (\<lambda>w.
     if FileName p = '''' then (Ret (receiveField p m1), w)
     else (projectName pathFile p m1, onFs (storeUpload pathFile p) w))"

text \<open>The loop; after an error \<open>part\<close> is nil, and its methods panic.\<close>

primrec receiveParts :: "string \<Rightarrow> part list \<Rightarrow> bool \<Rightarrow> dict1 \<Rightarrow> (world, dict1) prog" where
  "receiveParts pathFile [] eof m1 =
     (if eof then ret m1 else panic ''invalid memory address or nil pointer dereference'')"
| "receiveParts pathFile (p # ps) eof m1 =
     andThen (receivePart pathFile p m1) (receiveParts pathFile ps eof)"

section \<open>The folder name\<close>

lemma digit_not_special:
  "is_digit c \<Longrightarrow> c \<noteq> CHR ''/'' \<and> c \<noteq> CHR ''.'' \<and> c \<noteq> CHR 0x00 \<and> c \<noteq> CHR 0x0A"
  by (auto simp: is_digit_def)

lemma formatDate_plain: "plain_name (formatDate t)"
proof -
  have d: "c \<in> set (formatDate t) \<Longrightarrow> is_digit c" for c
    using formatDate_digits by auto
  have "formatDate t \<noteq> ''''" using length_formatDate [of t] by auto
  moreover have "formatDate t \<noteq> ''.''" "formatDate t \<noteq> ''..''"
    using length_formatDate [of t] by auto
  ultimately show ?thesis
    using d digit_not_special by (auto simp: plain_name_def)
qed

text \<open>The folder of a request, as an absolute path.\<close>

definition uploadDir :: "env \<Rightarrow> path" where
  "uploadDir e = cwd @ [formatDate (env_now e)]"

lemma createDateDir_result:
  "createDateDir e w = (Ret (formatDate (env_now e), formatDate (env_now e)), snd (createDateDir e w))"
  by (simp add: createDateDir_def Let_def)

lemma resolve_folder:
  "is_dir f cwd \<Longrightarrow> resolve f (formatDate t) = Inr (cwd @ [formatDate t])"
  by (rule resolve_name [OF formatDate_plain])

lemma cwd_not_Nil [simp]: "cwd \<noteq> []"
  by (simp add: cwd_def)

text \<open>
  In a working directory that exists the folder exists afterwards, as a directory when its
  name was free or a directory before; only the folder is new.
\<close>

lemma createDateDir_world:
  assumes "is_dir (wfs w) cwd"
  shows "snd (createDateDir e w) =
     (if node_at (wfs w) (uploadDir e) = None then onFs (set_node (uploadDir e) Dir) w else w)"
  using assms
  by (simp add: createDateDir_def Let_def Lstat_def Mkdir_def IsNotExist_def resolve_folder
      uploadDir_def onFs_def split: option.splits)

section \<open>Receiving parts\<close>

text \<open>The slice of the project name is always in bounds, so receiving a part never panics.\<close>

lemma projectName_Ret: "\<exists>m. projectName pathFile p m1 = Ret m"
proof -
  let ?ext = "pathExt (pathFile @ ''/'' @ FileName p)"
  show ?thesis
  proof (cases "?ext = []")
    case False
    from slice_index_Some [OF pathExt_dot [OF False]]
    show ?thesis by (auto simp: projectName_def Let_def)
  qed (simp add: projectName_def)
qed

text \<open>What the loop computes, as two pure functions: the dictionary and the file system.\<close>

definition dictAfter :: "string \<Rightarrow> part \<Rightarrow> dict1 \<Rightarrow> dict1" where
  "dictAfter pathFile p m1 =
     (if FileName p = '''' then receiveField p m1
      else case projectName pathFile p m1 of Ret m \<Rightarrow> m | _ \<Rightarrow> m1)"

definition fsAfter :: "string \<Rightarrow> part \<Rightarrow> fs \<Rightarrow> fs" where
  "fsAfter pathFile p f = (if FileName p = '''' then f else storeUpload pathFile p f)"

definition receivedDict :: "string \<Rightarrow> part list \<Rightarrow> dict1" where
  "receivedDict pathFile ps = fold (dictAfter pathFile) ps Map.empty"

definition receivedFs :: "string \<Rightarrow> part list \<Rightarrow> fs \<Rightarrow> fs" where
  "receivedFs pathFile ps f = fold (fsAfter pathFile) ps f"

lemma receivePart_eq:
  "receivePart pathFile p m1 w = (Ret (dictAfter pathFile p m1), onFs (fsAfter pathFile p) w)"
  using projectName_Ret [of pathFile p m1]
  by (auto simp: receivePart_def dictAfter_def fsAfter_def onFs_def)

lemma receiveParts_fold:
  "receiveParts pathFile ps eof m1 w =
     (if eof then Ret (fold (dictAfter pathFile) ps m1)
      else Panic ''invalid memory address or nil pointer dereference'',
      onFs (fold (fsAfter pathFile) ps) w)"
proof (induction ps arbitrary: m1 w)
  case (Cons p ps)
  have "onFs (fold (fsAfter pathFile) ps) (onFs (fsAfter pathFile p) w) =
      onFs (fold (fsAfter pathFile) (p # ps)) w"
    by (simp add: onFs_def)
  with Cons show ?case by (simp add: receivePart_eq)
qed (simp add: onFs_def)

lemma receiveParts_eq:
  "receiveParts pathFile ps eof Map.empty w =
     (if eof then Ret (receivedDict pathFile ps)
      else Panic ''invalid memory address or nil pointer dereference'',
      onFs (receivedFs pathFile ps) w)"
  by (simp add: receiveParts_fold receivedDict_def receivedFs_def [abs_def])

section \<open>Where uploads are written\<close>

lemma resolve_below_folder:
  assumes d: "plain_name d" and up: "''..'' \<notin> set (splitOn (CHR ''/'') n)"
    and r: "resolve f (d @ ''/'' @ n) = Inr q"
  shows "prefix (cwd @ [d]) q"
proof -
  have nul: "CHR 0x00 \<notin> set n" and dir: "is_dir f cwd"
    using r d by (auto simp: resolve_def plain_name_def is_dir_def split: if_splits option.splits node.splits)
  from resolve_in_dir [OF d dir nul] r
  have "walk f (cwd @ [d]) (splitOn (CHR ''/'') n) = Inr q" by simp
  with up show ?thesis by (rule walk_down [rotated])
qed

lemma same_outside_write:
  "prefix d p \<Longrightarrow> same_outside d f (WriteAt f p b)"
  by (auto simp: WriteAt_def same_outside_set split: option.splits node.splits)

lemma storeUpload_confined:
  assumes "plain_name d" and "''..'' \<notin> set (splitOn (CHR ''/'') (FileName p))"
  shows "same_outside (cwd @ [d]) f (storeUpload d p f)"
proof (cases rule: OpenWrite_cases [of f "d @ ''/'' @ FileName p"])
  case (failed err)
  then show ?thesis by (simp add: storeUpload_def)
next
  case (existing q old)
  with resolve_below_folder [OF assms existing(1)] show ?thesis
    by (simp add: storeUpload_def same_outside_write)
next
  case (created q)
  with resolve_below_folder [OF assms created(1)] show ?thesis
    by (auto simp: storeUpload_def intro: same_outside_trans same_outside_set same_outside_write)
qed

lemma receivedFs_confined:
  assumes "plain_name d" and "\<forall>p \<in> set ps. ''..'' \<notin> set (splitOn (CHR ''/'') (FileName p))"
  shows "same_outside (cwd @ [d]) f (receivedFs d ps f)"
  using assms(2)
proof (induction ps arbitrary: f)
  case (Cons p ps)
  have "same_outside (cwd @ [d]) f (fsAfter d p f)"
    using Cons.prems assms(1) by (simp add: fsAfter_def storeUpload_confined)
  moreover have "same_outside (cwd @ [d]) (fsAfter d p f) (receivedFs d ps (fsAfter d p f))"
    using Cons by simp
  ultimately show ?case
    unfolding receivedFs_def by (auto intro: same_outside_trans)
qed (simp add: receivedFs_def)

text \<open>What a write leaves in the file it goes to.\<close>

definition oldContent :: "fs \<Rightarrow> path \<Rightarrow> bytes" where
  "oldContent f p = (case node_at f p of Some (File b) \<Rightarrow> b | _ \<Rightarrow> [])"

lemma storeUpload_at:
  assumes "resolve f (d @ ''/'' @ FileName p) = Inr q" and "node_at f q \<noteq> Some Dir"
  shows "node_at (storeUpload d p f) q = Some (File (overwrite (oldContent f q) (Data p)))"
    and "r \<noteq> q \<Longrightarrow> node_at (storeUpload d p f) r = node_at f r"
proof -
  from assms have q: "q \<noteq> []" by auto
  show "node_at (storeUpload d p f) q = Some (File (overwrite (oldContent f q) (Data p)))"
  proof (cases "node_at f q")
    case None
    with assms q show ?thesis
      by (simp add: storeUpload_def OpenWrite_def oldContent_def node_at_set node_at_WriteAt_same [where old = "[]"])
  next
    case (Some n)
    with assms obtain old where "node_at f q = Some (File old)" by (cases n) auto
    with assms q show ?thesis
      by (simp add: storeUpload_def OpenWrite_def oldContent_def node_at_WriteAt_same)
  qed
  show "r \<noteq> q \<Longrightarrow> node_at (storeUpload d p f) r = node_at f r"
    using assms q
    by (auto simp: storeUpload_def OpenWrite_def node_at_set node_at_WriteAt_other
        split: option.splits node.splits)
qed

text \<open>One level up is the working directory of the server.\<close>

lemma resolve_parent:
  assumes "plain_name d" "plain_name n" "is_dir f cwd" "is_dir f (cwd @ [d])"
  shows "resolve f (d @ ''/../'' @ n) = Inr (cwd @ [n])"
proof -
  have "splitOn (CHR ''/'') (''../'' @ n) = [''..'', n]"
    using assms(2) by (simp add: plain_name_def)
  moreover have "step_to (cwd @ [d]) ''..'' = cwd" by (simp add: step_to_def)
  ultimately show ?thesis
    using assms resolve_in_dir [of d f "''../'' @ n"]
    by (simp add: plain_name_def is_dir_def step_to_def)
qed

section \<open>Properties\<close>

text \<open>
  C16. Confinement: when no file name of the request has a \<open>..\<close> component, receiving the
  parts changes nothing outside the folder of the request.
\<close>

theorem upload_confined:
  assumes "\<forall>p \<in> set ps. ''..'' \<notin> set (splitOn (CHR ''/'') (FileName p))"
  shows "same_outside (uploadDir e) f (receivedFs (formatDate (env_now e)) ps f)"
  unfolding uploadDir_def using formatDate_plain assms by (rule receivedFs_confined)

text \<open>
  C38. The file name of a part is used as it was sent: with one that goes up, the request
  writes a file of the working directory of the server itself, and the bytes of the old file
  beyond the sent ones stay because it is not truncated.
\<close>

theorem upload_escapes:
  assumes "is_dir f cwd" and "is_dir f (uploadDir e)" and "plain_name n"
    and "node_at f (cwd @ [n]) = Some (File old)" and "FileName p = ''../'' @ n"
  shows "node_at (receivedFs (formatDate (env_now e)) [p] f) (cwd @ [n]) =
           Some (File (Data p @ drop (length (Data p)) old))"
proof -
  have r: "resolve f (formatDate (env_now e) @ ''/'' @ FileName p) = Inr (cwd @ [n])"
    using resolve_parent [OF formatDate_plain assms(3,1)] assms(2,5)
    by (simp add: uploadDir_def)
  from storeUpload_at(1) [OF r] assms(4,5) show ?thesis
    by (simp add: receivedFs_def fsAfter_def oldContent_def overwrite_def)
qed

text \<open>
  An uploaded file with a plain name is in the folder with the bytes that were sent: a
  new file is those bytes, and any other file keeps what it was.
\<close>

theorem upload_stored:
  assumes "is_dir f cwd" and "is_dir f (uploadDir e)" and "plain_name (FileName p)"
    and "node_at f (uploadDir e @ [FileName p]) = None"
  shows "node_at (receivedFs (formatDate (env_now e)) [p] f) q =
           (if q = uploadDir e @ [FileName p] then Some (File (Data p)) else node_at f q)"
proof -
  have r: "resolve f (formatDate (env_now e) @ ''/'' @ FileName p) = Inr (uploadDir e @ [FileName p])"
    using resolve_member [OF formatDate_plain assms(3,1)] assms(2)
    by (simp add: uploadDir_def)
  have n: "FileName p \<noteq> ''''" using assms(3) by (simp add: plain_name_def)
  show ?thesis
    using storeUpload_at(1) [OF r] storeUpload_at(2) [OF r, of q] assms(4) n
    by (simp add: receivedFs_def fsAfter_def oldContent_def)
qed

text \<open>
  Two requests whose clocks differ work in different folders, and the names sort as
  the clocks do; within one second they share the folder.
\<close>

theorem folder_names_ordered:
  assumes "valid_datetime (env_now d)" and "valid_datetime (env_now e)"
  shows "(env_now d < env_now e \<longleftrightarrow> formatDate (env_now d) < formatDate (env_now e))
    \<and> (uploadDir d = uploadDir e \<longleftrightarrow> env_now d = env_now e)"
  using formatDate_less_iff [OF assms] formatDate_inj [OF assms] by (auto simp: uploadDir_def)

subsection \<open>Witnesses\<close>

definition sample_upload :: "string \<Rightarrow> part" where
  "sample_upload n = \<lparr>FormName = ''file'', FileName = n, Data = ''new''\<rparr>"

lemma sample_uploadDir [simp]: "uploadDir sample_env = cwd @ [sample_folder]"
  by (simp add: uploadDir_def)

theorem upload_confined_witness:
  "same_outside (uploadDir sample_env) sample_fs_up
     (receivedFs (formatDate (env_now sample_env)) [sample_upload ''a/token.py''] sample_fs_up)"
  by (rule upload_confined) code_simp

theorem upload_escapes_witness:
  "node_at (receivedFs (formatDate (env_now sample_env)) [sample_upload ''../config.yml''] sample_fs_up)
     (cwd @ [''config.yml'']) = Some (File ''newabase_main:'')"
proof -
  have "node_at sample_fs_up (cwd @ [''config.yml'']) = Some (File ''database_main:'')" by code_simp
  moreover have "plain_name ''config.yml''" by code_simp
  ultimately show ?thesis
    using upload_escapes [of sample_fs_up sample_env "''config.yml''" "''database_main:''"
        "sample_upload ''../config.yml''"]
    by (simp add: sample_upload_def)
qed

theorem upload_stored_witness:
  "node_at (receivedFs (formatDate (env_now sample_env)) [sample_upload ''token.py''] sample_fs_up)
     (uploadDir sample_env @ [''token.py'']) = Some (File ''new'')"
proof -
  have "node_at sample_fs_up (uploadDir sample_env @ [''token.py'']) = None"
    unfolding sample_uploadDir by code_simp
  moreover have "plain_name ''token.py''" by code_simp
  ultimately show ?thesis
    using upload_stored [of sample_fs_up sample_env "sample_upload ''token.py''"]
    by (simp add: sample_upload_def)
qed

theorem folder_names_ordered_witness:
  "formatDate (env_now sample_env) < formatDate (env_now (sample_env\<lparr>env_now := DateTime 2022 1 31 8 30 6\<rparr>))"
proof -
  have "valid_datetime (env_now sample_env)"
    "valid_datetime (env_now (sample_env\<lparr>env_now := DateTime 2022 1 31 8 30 6\<rparr>))"
    "env_now sample_env < env_now (sample_env\<lparr>env_now := DateTime 2022 1 31 8 30 6\<rparr>)"
    by (simp_all add: sample_env_def sample_time_def less_datetime_def)
  then show ?thesis using folder_names_ordered by blast
qed

end
