(* ===== verification/Sha256.thy ===== *)
theory Sha256
  imports Prelude "HOL-Library.Word"
begin

unbundle bit_operations_syntax

text \<open>
  Little-endian and big-endian numbers of \<open>encoding/binary\<close>, and the hash
  \<open>crypto/sha256\<close> (FIPS 180-4) that the checksum of a contract file is made of.
\<close>

section \<open>Numbers as bytes\<close>

fun le_put :: "nat \<Rightarrow> nat \<Rightarrow> bytes" where
  "le_put 0 v = []"
| "le_put (Suc n) v = char_of (v mod 256) # le_put n (v div 256)"

fun le_get :: "bytes \<Rightarrow> nat" where
  "le_get [] = 0"
| "le_get (c # cs) = of_char c + 256 * le_get cs"

definition be_put :: "nat \<Rightarrow> nat \<Rightarrow> bytes" where
  "be_put n v = rev (le_put n v)"

definition be_get :: "bytes \<Rightarrow> nat" where
  "be_get bs = le_get (rev bs)"

lemma length_le_put [simp]: "length (le_put n v) = n"
  by (induction n arbitrary: v) auto

lemma length_be_put [simp]: "length (be_put n v) = n"
  by (simp add: be_put_def)

lemma le_get_put: "le_get (le_put n v) = v mod 256 ^ n"
proof (induction n arbitrary: v)
  case (Suc n)
  then show ?case by (simp add: mod_mult2_eq)
qed simp

lemma le_get_bound: "le_get bs < 256 ^ length bs"
proof (induction bs)
  case (Cons c cs)
  have "of_char c + 256 * le_get cs < 256 * Suc (le_get cs)" by simp
  also have "\<dots> \<le> 256 * 256 ^ length cs"
    using Cons by (simp only: mult_le_mono2 Suc_le_eq)
  finally show ?case by simp
qed simp

lemma le_put_get: "le_put (length bs) (le_get bs) = bs"
proof (induction bs)
  case (Cons c cs)
  have "(of_char c + 256 * le_get cs) mod 256 = (of_char c :: nat)"
    and "(of_char c + 256 * le_get cs) div 256 = le_get cs"
    by simp_all
  with Cons show ?case by simp
qed simp

lemma be_get_put: "be_get (be_put n v) = v mod 256 ^ n"
  by (simp add: be_get_def be_put_def le_get_put)

section \<open>SHA-256\<close>

type_synonym w32 = "32 word"

definition rotr :: "nat \<Rightarrow> w32 \<Rightarrow> w32" where
  "rotr n x = (drop_bit n x) OR (push_bit (32 - n) x)"

text \<open>
  The constants, eight words of 32 bits to a number, the first word in the highest bits.
\<close>

definition eightWords :: "int \<Rightarrow> w32 list" where
  "eightWords v = map (\<lambda>i. of_int (v div 2 ^ (224 - 32 * i))) [0..<8]"

definition sha_K :: "w32 list" where
  "sha_K = concat (map eightWords [0x428a2f9871374491b5c0fbcfe9b5dba53956c25b59f111f1923f82a4ab1c5ed5,
    0xd807aa9812835b01243185be550c7dc372be5d7480deb1fe9bdc06a7c19bf174,
    0xe49b69c1efbe47860fc19dc6240ca1cc2de92c6f4a7484aa5cb0a9dc76f988da,
    0x983e5152a831c66db00327c8bf597fc7c6e00bf3d5a7914706ca635114292967,
    0x27b70a852e1b21384d2c6dfc53380d13650a7354766a0abb81c2c92e92722c85,
    0xa2bfe8a1a81a664bc24b8b70c76c51a3d192e819d6990624f40e3585106aa070,
    0x19a4c1161e376c082748774c34b0bcb5391c0cb34ed8aa4a5b9cca4f682e6ff3,
    0x748f82ee78a5636f84c878148cc7020890befffaa4506cebbef9a3f7c67178f2])"

definition sha_H0 :: "w32 list" where
  "sha_H0 = eightWords 0x6a09e667bb67ae853c6ef372a54ff53a510e527f9b05688c1f83d9ab5be0cd19"

text \<open>Padding: a one bit, zeros, and the length in bits (modulo \<open>2 ^ 64\<close>), to whole blocks of 64 bytes.\<close>

definition sha_pad :: "bytes \<Rightarrow> bytes" where
  "sha_pad m =
     (let n = length m; z = (119 - n mod 64) mod 64
      in m @ [CHR 0x80] @ replicate z (CHR 0x00) @ be_put 8 (8 * n))"

fun chunks :: "nat \<Rightarrow> 'a list \<Rightarrow> 'a list list" where
  "chunks n [] = []"
| "chunks n (x # xs) = (x # take (n - 1) xs) # chunks n (drop (n - 1) xs)"

text \<open>Big-endian 32-bit words of a block, and back.\<close>

definition be_word :: "bytes \<Rightarrow> w32" where
  "be_word q = foldl (\<lambda>acc c. push_bit 8 acc OR of_char c) 0 q"

definition be_bytes :: "w32 \<Rightarrow> bytes" where
  "be_bytes w = map (\<lambda>k. char_of (uint (drop_bit k w AND 255))) [24, 16, 8, 0]"

definition sha_words :: "bytes \<Rightarrow> w32 list" where
  "sha_words block = map be_word (chunks 4 block)"

text \<open>The message schedule, kept newest first while it grows.\<close>

fun sha_extend :: "nat \<Rightarrow> w32 list \<Rightarrow> w32 list" where
  "sha_extend 0 ws = ws"
| "sha_extend (Suc n) ws =
     (let w2 = ws ! 1; w7 = ws ! 6; w15 = ws ! 14; w16 = ws ! 15;
          s0 = rotr 7 w15 XOR rotr 18 w15 XOR drop_bit 3 w15;
          s1 = rotr 17 w2 XOR rotr 19 w2 XOR drop_bit 10 w2
      in sha_extend n ((w16 + s0 + w7 + s1) # ws))"

definition sha_schedule :: "w32 list \<Rightarrow> w32 list" where
  "sha_schedule ws = rev (sha_extend 48 (rev ws))"

type_synonym sha_state = "w32 \<times> w32 \<times> w32 \<times> w32 \<times> w32 \<times> w32 \<times> w32 \<times> w32"

fun sha_round :: "sha_state \<Rightarrow> w32 \<times> w32 \<Rightarrow> sha_state" where
  "sha_round (a, b, c, d, e, f, g, h) (k, w) =
     (let S1 = rotr 6 e XOR rotr 11 e XOR rotr 25 e;
          ch = (e AND f) XOR (NOT e AND g);
          t1 = h + S1 + ch + k + w;
          S0 = rotr 2 a XOR rotr 13 a XOR rotr 22 a;
          maj = (a AND b) XOR (a AND c) XOR (b AND c);
          t2 = S0 + maj
      in (t1 + t2, a, b, c, d + t1, e, f, g))"

fun sha_block :: "w32 list \<Rightarrow> bytes \<Rightarrow> w32 list" where
  "sha_block hs block =
     (case foldl sha_round
             (hs ! 0, hs ! 1, hs ! 2, hs ! 3, hs ! 4, hs ! 5, hs ! 6, hs ! 7)
             (zip sha_K (sha_schedule (sha_words block)))
      of (a, b, c, d, e, f, g, h) \<Rightarrow>
        [hs ! 0 + a, hs ! 1 + b, hs ! 2 + c, hs ! 3 + d,
         hs ! 4 + e, hs ! 5 + f, hs ! 6 + g, hs ! 7 + h])"

definition sha256 :: "bytes \<Rightarrow> bytes" where
  "sha256 m = concat (map be_bytes (foldl sha_block sha_H0 (chunks 64 (sha_pad m))))"

lemma length_foldl_sha_block: "length hs = 8 \<Longrightarrow> length (foldl sha_block hs bs) = 8"
  by (induction bs arbitrary: hs) (auto split: prod.splits)

lemma length_sha256 [simp]: "length (sha256 m) = 32"
proof -
  have "length (foldl sha_block sha_H0 (chunks 64 (sha_pad m))) = 8"
    by (rule length_foldl_sha_block) (simp add: sha_H0_def eightWords_def)
  then show ?thesis
    by (simp add: sha256_def length_concat comp_def sum_list_triv be_bytes_def)
qed

end
