(* ===== verification/NeoIO.thy ===== *)
theory NeoIO
  imports Sha256 GoStrings
begin

text \<open>
  The binary reader and writer of neo-go, \<open>pkg/io\<close> of
  \<open>src/pkg/mod/github.com/nspcc-dev/neo-go@v0.98.0\<close>, over a byte buffer: the only
  source and sink \<open>nef.FileFromBytes\<close> and \<open>nef.File.Bytes\<close> use. Both carry an
  error field; once it is set, reads return zero values and writes do nothing. The scratch
  array \<open>uv\<close> is not part of the state: every operation overwrites the part it reads.
\<close>

section \<open>Reader\<close>

record binReader =
  rbuf :: bytes
  rErr :: "string option"

definition MaxArraySize :: nat where "MaxArraySize = 0x1000000"

definition newBinReaderFromBuf :: "bytes \<Rightarrow> binReader" where
  "newBinReaderFromBuf b = \<lparr>rbuf = b, rErr = None\<rparr>"

text \<open>\<open>Len\<close> on a reader over a buffer.\<close>

definition readerLen :: "binReader \<Rightarrow> nat" where
  "readerLen r = length (rbuf r)"

text \<open>
  \<open>ReadBytes\<close> into a zeroed buffer of \<open>n\<close> bytes. \<open>io.ReadFull\<close> fills what
  there is; an empty target never fails.
\<close>

definition readBytes :: "nat \<Rightarrow> binReader \<Rightarrow> bytes \<times> binReader" where
  "readBytes n r =
     (if rErr r \<noteq> None then (replicate n (CHR 0x00), r)
      else if n \<le> length (rbuf r) then (take n (rbuf r), r\<lparr>rbuf := drop n (rbuf r)\<rparr>)
      else (rbuf r @ replicate (n - length (rbuf r)) (CHR 0x00),
            r\<lparr>rbuf := [], rErr := Some (if rbuf r = [] then ''EOF'' else ''unexpected EOF'')\<rparr>))"

definition readUintLE :: "nat \<Rightarrow> binReader \<Rightarrow> 'a::len word \<times> binReader" where
  "readUintLE n r =
     (let (b, r1) = readBytes n r
      in if rErr r1 \<noteq> None then (0, r1) else (of_nat (le_get b), r1))"

definition readU64LE :: "binReader \<Rightarrow> 64 word \<times> binReader" where
  "readU64LE = readUintLE 8"

definition readU32LE :: "binReader \<Rightarrow> 32 word \<times> binReader" where
  "readU32LE = readUintLE 4"

definition readU16LE :: "binReader \<Rightarrow> 16 word \<times> binReader" where
  "readU16LE = readUintLE 2"

definition readU16BE :: "binReader \<Rightarrow> 16 word \<times> binReader" where
  "readU16BE r =
     (let (b, r1) = readBytes 2 r
      in if rErr r1 \<noteq> None then (0, r1) else (of_nat (be_get b), r1))"

definition readB :: "binReader \<Rightarrow> 8 word \<times> binReader" where
  "readB r =
     (let (b, r1) = readBytes 1 r
      in if rErr r1 \<noteq> None then (0, r1) else (of_nat (le_get b), r1))"

definition readBool :: "binReader \<Rightarrow> bool \<times> binReader" where
  "readBool r = (let (b, r1) = readB r in (b \<noteq> 0, r1))"

definition readVarUint :: "binReader \<Rightarrow> 64 word \<times> binReader" where
  "readVarUint r =
     (if rErr r \<noteq> None then (0, r)
      else let (b, r1) = readB r in
        if b = 0xfd then (let (v, r2) = readU16LE r1 in (ucast v, r2))
        else if b = 0xfe then (let (v, r2) = readU32LE r1 in (ucast v, r2))
        else if b = 0xff then readU64LE r1
        else (ucast b, r1))"

definition readVarBytes :: "nat \<Rightarrow> binReader \<Rightarrow> bytes \<times> binReader" where
  "readVarBytes ms r =
     (let (n, r1) = readVarUint r in
      if unat n > ms
      then ([], r1\<lparr>rErr := Some (''byte-slice is too big ('' @ dec (unat n) @ '')'')\<rparr>)
      else readBytes (unat n) r1)"

definition readString :: "nat \<Rightarrow> binReader \<Rightarrow> string \<times> binReader" where
  "readString ms r = readVarBytes ms r"

text \<open>
  \<open>ReadArray\<close>: the loop calls the element's decoder for every index, also after an
  error; the slice is left as it was when the error was there before or the length is too
  large.
\<close>

fun readElems :: "(binReader \<Rightarrow> 'a \<times> binReader) \<Rightarrow> nat \<Rightarrow> binReader \<Rightarrow> 'a list \<times> binReader" where
  "readElems d 0 r = ([], r)"
| "readElems d (Suc n) r =
     (let (x, r1) = d r; (xs, r2) = readElems d n r1 in (x # xs, r2))"

definition readArray :: "(binReader \<Rightarrow> 'a \<times> binReader) \<Rightarrow> nat \<Rightarrow> 'a list \<Rightarrow> binReader \<Rightarrow> 'a list \<times> binReader" where
  "readArray d ms old r =
     (if rErr r \<noteq> None then (old, r)
      else let (lu, r1) = readVarUint r in
        if unat lu > ms
        then (old, r1\<lparr>rErr := Some (''array is too big ('' @ dec (unat lu) @ '')'')\<rparr>)
        else readElems d (unat lu) r1)"

section \<open>Writer\<close>

record binWriter =
  wbuf :: bytes
  wErr :: "string option"

definition newBufBinWriter :: binWriter where
  "newBufBinWriter = \<lparr>wbuf = [], wErr = None\<rparr>"

definition writeBytes :: "bytes \<Rightarrow> binWriter \<Rightarrow> binWriter" where
  "writeBytes b w = (if wErr w \<noteq> None then w else w\<lparr>wbuf := wbuf w @ b\<rparr>)"

definition writeU64LE :: "64 word \<Rightarrow> binWriter \<Rightarrow> binWriter" where
  "writeU64LE v = writeBytes (le_put 8 (unat v))"

definition writeU32LE :: "32 word \<Rightarrow> binWriter \<Rightarrow> binWriter" where
  "writeU32LE v = writeBytes (le_put 4 (unat v))"

definition writeU16LE :: "16 word \<Rightarrow> binWriter \<Rightarrow> binWriter" where
  "writeU16LE v = writeBytes (le_put 2 (unat v))"

definition writeU16BE :: "16 word \<Rightarrow> binWriter \<Rightarrow> binWriter" where
  "writeU16BE v = writeBytes (be_put 2 (unat v))"

definition writeB :: "8 word \<Rightarrow> binWriter \<Rightarrow> binWriter" where
  "writeB v = writeBytes (le_put 1 (unat v))"

definition writeBool :: "bool \<Rightarrow> binWriter \<Rightarrow> binWriter" where
  "writeBool b = writeB (if b then 1 else 0)"

text \<open>\<open>PutVarUint\<close>: what it puts into the buffer, its length is the count it returns.\<close>

definition putVarUint :: "64 word \<Rightarrow> bytes" where
  "putVarUint v =
     (if v < 0xfd then le_put 1 (unat v)
      else if v < 0xFFFF then CHR 0xFD # le_put 2 (unat v)
      else if v < 0xFFFFFFFF then CHR 0xFE # le_put 4 (unat v)
      else CHR 0xFF # le_put 8 (unat v))"

definition writeVarUint :: "64 word \<Rightarrow> binWriter \<Rightarrow> binWriter" where
  "writeVarUint v w = (if wErr w \<noteq> None then w else writeBytes (putVarUint v) w)"

definition writeVarBytes :: "bytes \<Rightarrow> binWriter \<Rightarrow> binWriter" where
  "writeVarBytes b w = writeBytes b (writeVarUint (of_nat (length b)) w)"

definition writeString :: "string \<Rightarrow> binWriter \<Rightarrow> binWriter" where
  "writeString s w =
     (let w1 = writeVarUint (of_nat (length s)) w
      in if wErr w1 \<noteq> None then w1 else w1\<lparr>wbuf := wbuf w1 @ s\<rparr>)"

definition writeArray :: "('a \<Rightarrow> binWriter \<Rightarrow> binWriter) \<Rightarrow> 'a list \<Rightarrow> binWriter \<Rightarrow> binWriter" where
  "writeArray e xs w =
     (if wErr w \<noteq> None then w
      else fold e xs (writeVarUint (of_nat (length xs)) w))"

text \<open>\<open>BufBinWriter\<close>: \<open>Bytes\<close> hands the buffer out once, \<open>Reset\<close> reopens it.\<close>

definition bufBytes :: "binWriter \<Rightarrow> bytes \<times> binWriter" where
  "bufBytes w =
     (if wErr w \<noteq> None then ([], w)
      else (wbuf w, w\<lparr>wErr := Some ''buffer already drained''\<rparr>))"

definition bufReset :: "binWriter \<Rightarrow> binWriter" where
  "bufReset w = w\<lparr>wbuf := [], wErr := None\<rparr>"

definition bufLen :: "binWriter \<Rightarrow> nat" where
  "bufLen w = length (wbuf w)"

section \<open>Sizes\<close>

definition getVarIntSize :: "int \<Rightarrow> nat" where
  "getVarIntSize v = (if v < 0xFD then 1 else if v \<le> 0xFFFF then 3 else 5)"

section \<open>The two contracts of the package\<close>

text \<open>
  The comment on \<open>Serializable\<close> asks every decoder to be safe on a reader whose error
  is set: the error stays and nothing is consumed. A decoder moreover only consumes from the
  front of the buffer.
\<close>

locale safe_decoder =
  fixes d :: "binReader \<Rightarrow> 'a \<times> binReader"
  assumes err_kept: "rErr r \<noteq> None \<Longrightarrow> d r = (x, r') \<Longrightarrow> rErr r' \<noteq> None \<and> rbuf r' = rbuf r"
    and consumes: "d r = (x, r') \<Longrightarrow> suffix (rbuf r') (rbuf r)"
begin

lemma ok_before: "d r = (x, r') \<Longrightarrow> rErr r' = None \<Longrightarrow> rErr r = None"
  using err_kept by blast

lemma elems_err_kept:
  "rErr r \<noteq> None \<Longrightarrow> readElems d n r = (xs, r') \<Longrightarrow> rErr r' \<noteq> None \<and> rbuf r' = rbuf r"
proof (induction n arbitrary: r xs)
  case (Suc n)
  from Suc.prems(2) obtain x r1 ys where "d r = (x, r1)" and "readElems d n r1 = (ys, r')"
    by (auto simp: Let_def split: prod.splits)
  with Suc err_kept show ?case by metis
qed simp

lemma elems_consumes: "readElems d n r = (xs, r') \<Longrightarrow> suffix (rbuf r') (rbuf r)"
proof (induction n arbitrary: r xs)
  case (Suc n)
  from Suc.prems obtain x r1 ys where "d r = (x, r1)" and "readElems d n r1 = (ys, r')"
    by (auto simp: Let_def split: prod.splits)
  with Suc.IH consumes show ?case by (metis suffix_order.trans)
qed simp

lemma elems_ok_before: "readElems d n r = (xs, r') \<Longrightarrow> rErr r' = None \<Longrightarrow> rErr r = None"
  using elems_err_kept by blast

lemma elems_length: "readElems d n r = (xs, r') \<Longrightarrow> length xs = n"
  by (induction n arbitrary: r xs) (auto simp: Let_def split: prod.splits)

text \<open>What holds of every element an error-free decoder returns holds of the array.\<close>

lemma elems_all:
  assumes "\<And>r x r'. d r = (x, r') \<Longrightarrow> rErr r' = None \<Longrightarrow> P x"
  shows "readElems d n r = (xs, r') \<Longrightarrow> rErr r' = None \<Longrightarrow> list_all P xs"
proof (induction n arbitrary: r xs)
  case (Suc n)
  from Suc.prems(1) obtain x r1 ys where d: "d r = (x, r1)" and e: "readElems d n r1 = (ys, r')"
    and xs: "xs = x # ys"
    by (auto simp: Let_def split: prod.splits)
  from e Suc.prems(2) have "rErr r1 = None" by (rule elems_ok_before)
  with d have "P x" by (rule assms)
  with Suc.IH [OF e Suc.prems(2)] xs show ?case by simp
qed simp

end

text \<open>
  An encoder and a decoder that fit: the encoder appends the bytes of a valid value, and the
  decoder reads them back and leaves the rest.
\<close>

locale codec =
  fixes e :: "'a \<Rightarrow> binWriter \<Rightarrow> binWriter"
    and d :: "binReader \<Rightarrow> 'a \<times> binReader"
    and bytes_of :: "'a \<Rightarrow> bytes"
    and valid :: "'a \<Rightarrow> bool"
  assumes enc_appends: "valid x \<Longrightarrow> wErr w = None \<Longrightarrow> e x w = w\<lparr>wbuf := wbuf w @ bytes_of x\<rparr>"
    and dec_enc: "valid x \<Longrightarrow> rErr r = None \<Longrightarrow> rbuf r = bytes_of x @ rest \<Longrightarrow>
      d r = (x, r\<lparr>rbuf := rest\<rparr>)"
begin

lemma fold_enc:
  "list_all valid xs \<Longrightarrow> wErr w = None \<Longrightarrow>
   fold e xs w = w\<lparr>wbuf := wbuf w @ concat (map bytes_of xs)\<rparr>"
  by (induction xs arbitrary: w) (auto simp: enc_appends)

lemma elems_dec:
  "list_all valid xs \<Longrightarrow> rErr r = None \<Longrightarrow> rbuf r = concat (map bytes_of xs) @ rest \<Longrightarrow>
   readElems d (length xs) r = (xs, r\<lparr>rbuf := rest\<rparr>)"
proof (induction xs arbitrary: r)
  case (Cons x xs)
  then have "d r = (x, r\<lparr>rbuf := concat (map bytes_of xs) @ rest\<rparr>)"
    by (intro dec_enc) simp_all
  with Cons show ?case by simp
qed simp

end

section \<open>The primitive decoders keep the contracts\<close>

lemma readBytes_ok:
  "rErr r = None \<Longrightarrow> rbuf r = b @ rest \<Longrightarrow> length b = n \<Longrightarrow>
   readBytes n r = (b, r\<lparr>rbuf := rest\<rparr>)"
  by (simp add: readBytes_def)

lemma length_readBytes: "readBytes n r = (b, r') \<Longrightarrow> length b = n"
  by (auto simp: readBytes_def split: if_splits)

interpretation safe_bytes: safe_decoder "readBytes n" for n
  by unfold_locales (auto simp: readBytes_def suffix_drop split: if_splits)

lemma safe_uintLE: "safe_decoder (readUintLE n :: binReader \<Rightarrow> 'a::len word \<times> binReader)"
proof
  fix r r' and x :: "'a word"
  obtain b r1 where b: "readBytes n r = (b, r1)" by (cases "readBytes n r")
  assume d: "readUintLE n r = (x, r')"
  with b have "r' = r1" by (auto simp: readUintLE_def split: if_splits)
  then show "suffix (rbuf r') (rbuf r)" using safe_bytes.consumes [OF b] by simp
  show "rErr r' \<noteq> None \<and> rbuf r' = rbuf r" if "rErr r \<noteq> None"
    using safe_bytes.err_kept [OF that b] \<open>r' = r1\<close> by simp
qed

interpretation safe_u64: safe_decoder readU64LE
  unfolding readU64LE_def by (rule safe_uintLE)

interpretation safe_u32: safe_decoder readU32LE
  unfolding readU32LE_def by (rule safe_uintLE)

interpretation safe_u16: safe_decoder readU16LE
  unfolding readU16LE_def by (rule safe_uintLE)

lemma readB_readUintLE: "readB = readUintLE 1"
  by (rule ext) (simp add: readB_def readUintLE_def)

interpretation safe_byte: safe_decoder readB
  unfolding readB_readUintLE by (rule safe_uintLE)

interpretation safe_bool: safe_decoder readBool
proof
  fix r x r' assume "readBool r = (x, r')"
  then obtain b where b: "readB r = (b, r')"
    by (auto simp: readBool_def Let_def split: prod.splits)
  show "suffix (rbuf r') (rbuf r)" by (rule safe_byte.consumes [OF b])
  show "rErr r' \<noteq> None \<and> rbuf r' = rbuf r" if "rErr r \<noteq> None"
    by (rule safe_byte.err_kept [OF that b])
qed

lemma readVarUint_cases:
  assumes "readVarUint r = (n, r')" and "rErr r = None"
  obtains (byte) b where "readB r = (b, r')"
  | (word16) b r1 v where "readB r = (b, r1)" and "readU16LE r1 = (v, r')"
  | (word32) b r1 v where "readB r = (b, r1)" and "readU32LE r1 = (v, r')"
  | (word64) b r1 v where "readB r = (b, r1)" and "readU64LE r1 = (v, r')"
  using assms by (auto simp: readVarUint_def Let_def split: prod.splits if_splits)

interpretation safe_varuint: safe_decoder readVarUint
proof
  fix r x r'
  assume d: "readVarUint r = (x, r')"
  show "rErr r' \<noteq> None \<and> rbuf r' = rbuf r" if "rErr r \<noteq> None"
    using d that by (auto simp: readVarUint_def)
  show "suffix (rbuf r') (rbuf r)"
  proof (cases "rErr r")
    case None
    with d show ?thesis
      by (cases rule: readVarUint_cases)
         (meson suffix_order.trans safe_byte.consumes safe_u16.consumes safe_u32.consumes
            safe_u64.consumes)+
  next
    case (Some e)
    with d show ?thesis by (auto simp: readVarUint_def)
  qed
qed

lemma readVarUint_err [simp]: "rErr r \<noteq> None \<Longrightarrow> readVarUint r = (0, r)"
  by (simp add: readVarUint_def)

interpretation safe_varbytes: safe_decoder "readVarBytes ms" for ms
proof
  fix r x r'
  obtain n r1 where n: "readVarUint r = (n, r1)" by (cases "readVarUint r")
  assume d: "readVarBytes ms r = (x, r')"
  show "rErr r' \<noteq> None \<and> rbuf r' = rbuf r" if "rErr r \<noteq> None"
    using d that by (auto simp: readVarBytes_def readBytes_def)
  show "suffix (rbuf r') (rbuf r)"
  proof (cases "unat n > ms")
    case True
    with d n safe_varuint.consumes [OF n] show ?thesis by (auto simp: readVarBytes_def)
  next
    case False
    with d n have "readBytes (unat n) r1 = (x, r')" by (simp add: readVarBytes_def)
    then show ?thesis
      by (rule suffix_order.trans [OF safe_bytes.consumes safe_varuint.consumes [OF n]])
  qed
qed

lemma readVarBytes_bound: "readVarBytes ms r = (b, r') \<Longrightarrow> length b \<le> ms"
  by (auto simp: readVarBytes_def Let_def split: prod.splits if_splits dest: length_readBytes)

section \<open>The primitive encoders fit their decoders\<close>

lemma of_nat_le_get_put: "8 * n = LENGTH('a) \<Longrightarrow> of_nat (le_get (le_put n (unat v))) = (v :: 'a::len word)"
proof -
  assume n: "8 * n = LENGTH('a)"
  have "(256 :: nat) ^ n = 2 ^ LENGTH('a)"
    by (simp add: n [symmetric] power_mult)
  then show ?thesis by (simp add: le_get_put)
qed

lemma readUintLE_ok:
  assumes "8 * n = LENGTH('a)" and "rErr r = None" and "rbuf r = le_put n (unat v) @ rest"
  shows "readUintLE n r = (v :: 'a::len word, r\<lparr>rbuf := rest\<rparr>)"
  using assms readBytes_ok [of r "le_put n (unat v)" rest n]
  by (simp add: readUintLE_def of_nat_le_get_put)

interpretation u64: codec writeU64LE readU64LE "\<lambda>v. le_put 8 (unat v)" "\<lambda>_. True"
  by unfold_locales (simp_all add: writeU64LE_def writeBytes_def readU64LE_def readUintLE_ok)

interpretation u32: codec writeU32LE readU32LE "\<lambda>v. le_put 4 (unat v)" "\<lambda>_. True"
  by unfold_locales (simp_all add: writeU32LE_def writeBytes_def readU32LE_def readUintLE_ok)

interpretation u16: codec writeU16LE readU16LE "\<lambda>v. le_put 2 (unat v)" "\<lambda>_. True"
  by unfold_locales (simp_all add: writeU16LE_def writeBytes_def readU16LE_def readUintLE_ok)

interpretation u8: codec writeB readB "\<lambda>v. le_put 1 (unat v)" "\<lambda>_. True"
  by unfold_locales (simp_all add: writeB_def writeBytes_def readB_readUintLE readUintLE_ok
      del: le_put.simps One_nat_def)

interpretation flag: codec writeBool readBool "\<lambda>b. le_put 1 (if b then 1 else 0)" "\<lambda>_. True"
proof
  fix x w show "wErr w = None \<Longrightarrow> writeBool x w = w\<lparr>wbuf := wbuf w @ le_put 1 (if x then 1 else 0)\<rparr>"
    by (simp add: writeBool_def u8.enc_appends)
next
  fix x rest and r :: binReader
  assume "rErr r = None" "rbuf r = le_put 1 (if x then 1 else 0) @ rest"
  then have "readB r = (if x then 1 else 0, r\<lparr>rbuf := rest\<rparr>)"
    by (intro u8.dec_enc) simp_all
  then show "readBool r = (x, r\<lparr>rbuf := rest\<rparr>)" by (simp add: readBool_def)
qed

interpretation fixed: codec writeBytes "readBytes n" "\<lambda>b. b" "\<lambda>b. length b = n" for n
  by unfold_locales (simp_all add: writeBytes_def readBytes_ok)

lemma unat_ucast_small: "unat v < 2 ^ LENGTH('b) \<Longrightarrow> unat (ucast (v :: 'a::len word) :: 'b::len word) = unat v"
  by (simp add: unsigned_ucast_eq take_bit_nat_eq_self)

lemma unat_eqI: "unat a = unat b \<Longrightarrow> a = (b :: 'a::len word)"
  by (simp add: word_unat_eq_iff)

lemma readB_byte:
  "rErr r = None \<Longrightarrow> rbuf r = c # rest \<Longrightarrow> readB r = (of_nat (of_char c), r\<lparr>rbuf := rest\<rparr>)"
  by (simp add: readB_def readBytes_def)

interpretation varuint: codec writeVarUint readVarUint putVarUint "\<lambda>_. True"
proof
  fix v w show "wErr w = None \<Longrightarrow> writeVarUint v w = w\<lparr>wbuf := wbuf w @ putVarUint v\<rparr>"
    by (simp add: writeVarUint_def writeBytes_def)
next
  fix v :: "64 word" and r :: binReader and rest
  assume r: "rErr r = None" "rbuf r = putVarUint v @ rest"
  consider (b) "v < 0xfd" | (s) "\<not> v < 0xfd" "v < 0xFFFF" | (l) "\<not> v < 0xfd" "\<not> v < 0xFFFF" "v < 0xFFFFFFFF"
    | (q) "\<not> v < 0xfd" "\<not> v < 0xFFFF" "\<not> v < 0xFFFFFFFF" by blast
  then show "readVarUint r = (v, r\<lparr>rbuf := rest\<rparr>)"
  proof cases
    case b
    then have n: "unat v < 253" by (simp add: word_less_nat_alt)
    let ?b = "ucast v :: 8 word"
    from n have u: "unat ?b = unat v" by (intro unat_ucast_small) simp
    from r b have "readB r = (?b, r\<lparr>rbuf := rest\<rparr>)"
      by (intro u8.dec_enc) (simp_all add: putVarUint_def u)
    moreover from n u have "?b \<noteq> 0xfd" "?b \<noteq> 0xfe" "?b \<noteq> 0xff" by auto
    moreover have "ucast ?b = v" using n u by (intro unat_eqI) (simp add: unat_ucast_small)
    ultimately show ?thesis using r by (simp add: readVarUint_def)
  next
    case s
    then have n: "unat v < 65535" by (simp add: word_less_nat_alt)
    let ?b = "ucast v :: 16 word"
    from n have u: "unat ?b = unat v" by (intro unat_ucast_small) simp
    from r s have "readB r = (0xfd, r\<lparr>rbuf := le_put 2 (unat v) @ rest\<rparr>)"
      using readB_byte [of r "CHR 0xFD" "le_put 2 (unat v) @ rest"]
      by (simp add: putVarUint_def del: le_put.simps)
    moreover from r have "readU16LE (r\<lparr>rbuf := le_put 2 (unat v) @ rest\<rparr>) = (?b, r\<lparr>rbuf := rest\<rparr>)"
      by (subst u16.dec_enc [where x = ?b]) (simp_all add: u)
    moreover have "ucast ?b = v" using n u by (intro unat_eqI) (simp add: unat_ucast_small)
    ultimately show ?thesis using r by (simp add: readVarUint_def)
  next
    case l
    then have n: "unat v < 4294967295" by (simp add: word_less_nat_alt)
    let ?b = "ucast v :: 32 word"
    from n have u: "unat ?b = unat v" by (intro unat_ucast_small) simp
    from r l have "readB r = (0xfe, r\<lparr>rbuf := le_put 4 (unat v) @ rest\<rparr>)"
      using readB_byte [of r "CHR 0xFE" "le_put 4 (unat v) @ rest"]
      by (simp add: putVarUint_def del: le_put.simps)
    moreover from r have "readU32LE (r\<lparr>rbuf := le_put 4 (unat v) @ rest\<rparr>) = (?b, r\<lparr>rbuf := rest\<rparr>)"
      by (subst u32.dec_enc [where x = ?b]) (simp_all add: u)
    moreover have "ucast ?b = v" using n u by (intro unat_eqI) (simp add: unat_ucast_small)
    ultimately show ?thesis using r by (simp add: readVarUint_def)
  next
    case q
    from r q have "readB r = (0xff, r\<lparr>rbuf := le_put 8 (unat v) @ rest\<rparr>)"
      using readB_byte [of r "CHR 0xFF" "le_put 8 (unat v) @ rest"]
      by (simp add: putVarUint_def del: le_put.simps)
    moreover from r have "readU64LE (r\<lparr>rbuf := le_put 8 (unat v) @ rest\<rparr>) = (v, r\<lparr>rbuf := rest\<rparr>)"
      by (subst u64.dec_enc [where x = v]) simp_all
    ultimately show ?thesis using r by (simp add: readVarUint_def)
  qed
qed

definition varBytes :: "bytes \<Rightarrow> bytes" where
  "varBytes b = putVarUint (of_nat (length b)) @ b"

lemma unat_of_nat_small: "n < 2 ^ LENGTH('a) \<Longrightarrow> unat (of_nat n :: 'a::len word) = n"
  by (simp add: unat_of_nat take_bit_nat_eq_self)

interpretation varbytes: codec writeVarBytes "readVarBytes ms" varBytes "\<lambda>b. length b \<le> ms \<and> ms < 2 ^ 64" for ms
proof
  fix b w show "wErr w = None \<Longrightarrow> writeVarBytes b w = w\<lparr>wbuf := wbuf w @ varBytes b\<rparr>"
    by (simp add: writeVarBytes_def varuint.enc_appends writeBytes_def varBytes_def)
next
  fix b rest and r :: binReader
  assume b: "length b \<le> ms \<and> ms < 2 ^ 64" and r: "rErr r = None" "rbuf r = varBytes b @ rest"
  from r have "readVarUint r = (of_nat (length b), r\<lparr>rbuf := b @ rest\<rparr>)"
    by (intro varuint.dec_enc) (simp_all add: varBytes_def)
  with b r show "readVarBytes ms r = (b, r\<lparr>rbuf := rest\<rparr>)"
    by (simp add: readVarBytes_def unat_of_nat_small readBytes_ok)
qed

lemma writeString_writeVarBytes: "writeString = writeVarBytes"
  by (rule ext, rule ext)
     (simp add: writeString_def writeVarBytes_def writeVarUint_def writeBytes_def Let_def)

lemma readString_readVarBytes: "readString = readVarBytes"
  by (rule ext, rule ext) (simp add: readString_def)

text \<open>
  The size function agrees with what the writer produces except at the upper end of each
  range: \<open>PutVarUint\<close> compares with \<open><\<close> where \<open>getVarIntSize\<close> compares with
  \<open>\<le>\<close>, and has a fourth case.
\<close>

lemma length_putVarUint:
  "length (putVarUint v) = getVarIntSize (uint v) \<longleftrightarrow> v \<noteq> 0xFFFF \<and> v < 0xFFFFFFFF"
  by (auto simp: putVarUint_def getVarIntSize_def word_less_def word_uint_eq_iff simp del: le_put.simps)

text \<open>
  The size function of the library disagrees with its writer at the upper end of each
  range: \<open>PutVarUint\<close> writes 5 bytes for 65535 and 9 from \<open>2 ^ 32 - 1\<close> on, where
  \<open>getVarIntSize\<close> counts 3 and 5.
\<close>

theorem varuint_size_disagrees:
  "length (putVarUint v) = getVarIntSize (uint v) \<longleftrightarrow> v \<noteq> 0xFFFF \<and> v < 0xFFFFFFFF"
  by (rule length_putVarUint)

end
