(* ===== verification/NefFile.thy ===== *)
theory NefFile
  imports NeoIO
begin

unbundle bit_operations_syntax

text \<open>
  Compiled contracts: \<open>pkg/smartcontract/nef\<close>, \<open>pkg/crypto/hash\<close> and the call
  flags of neo-go 0.98.0. \<open>execCommand\<close> hands the file the compiler wrote to
  \<open>nef.FileFromBytes\<close> and goes on with its script.
\<close>

section \<open>Hashes\<close>

definition hashSha256 :: "bytes \<Rightarrow> bytes" where
  "hashSha256 data = sha256 data"

definition DoubleSha256 :: "bytes \<Rightarrow> bytes" where
  "DoubleSha256 data = (let h1 = hashSha256 data in hashSha256 h1)"

definition Checksum :: "bytes \<Rightarrow> bytes" where
  "Checksum data = take 4 (DoubleSha256 data)"

section \<open>Method tokens\<close>

definition callflagAll :: "8 word" where "callflagAll = 0x0F"
definition maxMethodLength :: nat where "maxMethodLength = 32"

record methodToken =
  mtHash :: bytes
  mtMethod :: string
  mtParamCount :: "16 word"
  mtHasReturn :: bool
  mtCallFlag :: "8 word"

definition tokenEncode :: "methodToken \<Rightarrow> binWriter \<Rightarrow> binWriter" where
  "tokenEncode t w =
     writeB (mtCallFlag t) (writeBool (mtHasReturn t) (writeU16LE (mtParamCount t)
       (writeString (mtMethod t) (writeBytes (mtHash t) w))))"

text \<open>
  The decoder works on a zero token. After a bad name it returns at once, so the
  remaining fields keep their zero values.
\<close>

definition tokenDecode :: "binReader \<Rightarrow> methodToken \<times> binReader" where
  "tokenDecode r =
     (let (hash, r1) = readBytes 20 r;
          (mname, r2) = readString maxMethodLength r1
      in if rErr r2 = None \<and> hasPrefix mname ''_'' then
           (\<lparr>mtHash = hash, mtMethod = mname, mtParamCount = 0, mtHasReturn = False, mtCallFlag = 0\<rparr>,
            r2\<lparr>rErr := Some (''method name should'' @ [CHR 0x27] @ ''t start with '' @ [CHR 0x27, CHR ''_'', CHR 0x27])\<rparr>)
         else
           let (pc, r3) = readU16LE r2;
               (ret, r4) = readBool r3;
               (cf, r5) = readB r4;
               t = \<lparr>mtHash = hash, mtMethod = mname, mtParamCount = pc, mtHasReturn = ret, mtCallFlag = cf\<rparr>
           in if rErr r5 = None \<and> cf AND NOT callflagAll \<noteq> 0
              then (t, r5\<lparr>rErr := Some ''invalid call flag''\<rparr>)
              else (t, r5))"

section \<open>The file\<close>

definition nefMagic :: "32 word" where "nefMagic = 0x3346454E"
definition MaxScriptLength :: nat where "MaxScriptLength = 512 * 1024"
definition MaxSourceURLLength :: nat where "MaxSourceURLLength = 256"
definition compilerFieldSize :: nat where "compilerFieldSize = 64"

record nefFile =
  nfMagic :: "32 word"
  nfCompiler :: string
  nfSource :: string
  nfTokens :: "methodToken list"
  nfScript :: bytes
  nfChecksum :: "32 word"

definition headerEncode :: "nefFile \<Rightarrow> binWriter \<Rightarrow> binWriter" where
  "headerEncode f w =
     (let w1 = writeU32LE (nfMagic f) w in
      if length (nfCompiler f) > compilerFieldSize
      then w1\<lparr>wErr := Some ''invalid compiler name length''\<rparr>
      else writeBytes (nfCompiler f @ replicate (compilerFieldSize - length (nfCompiler f)) (CHR 0x00)) w1)"

text \<open>
  \<open>TrimRightFunc\<close> removes the trailing NUL bytes. With a wrong magic number the header
  returns early and the compiler stays empty.
\<close>

definition headerDecode :: "binReader \<Rightarrow> (32 word \<times> string) \<times> binReader" where
  "headerDecode r =
     (let (magic, r1) = readU32LE r in
      if magic \<noteq> nefMagic then ((magic, ''''), r1\<lparr>rErr := Some ''invalid Magic''\<rparr>)
      else let (buf, r2) = readBytes compilerFieldSize r1
        in ((magic, rev (dropWhile (\<lambda>c. c = CHR 0x00) (rev buf))), r2))"

definition nefEncode :: "nefFile \<Rightarrow> binWriter \<Rightarrow> binWriter" where
  "nefEncode f w =
     (let w1 = headerEncode f w in
      if length (nfSource f) > MaxSourceURLLength
      then w1\<lparr>wErr := Some ''source url too long''\<rparr>
      else writeU32LE (nfChecksum f) (writeVarBytes (nfScript f) (writeU16LE 0
             (writeArray tokenEncode (nfTokens f) (writeB 0 (writeString (nfSource f) w1))))))"

definition nefBytes :: "nefFile \<Rightarrow> string + bytes" where
  "nefBytes f =
     (let w = nefEncode f newBufBinWriter in
      case wErr w of Some e \<Rightarrow> Inl e | None \<Rightarrow> Inr (fst (bufBytes w)))"

text \<open>\<open>CalculateChecksum\<close> panics when the file cannot be serialised.\<close>

definition calculateChecksum :: "nefFile \<Rightarrow> (32 word) outcome" where
  "calculateChecksum f =
     (case nefBytes f of
        Inl e \<Rightarrow> Panic e
      | Inr bb \<Rightarrow> Ret (of_nat (le_get (Checksum (take (length bb - 4) bb)))))"

text \<open>\<open>NewFile\<close>; the compiler name carries the version of neo-go, which the build sets.\<close>

definition newFile :: "string \<Rightarrow> bytes \<Rightarrow> (string + nefFile) outcome" where
  "newFile version script =
     (let f = \<lparr>nfMagic = nefMagic, nfCompiler = ''neo-go-'' @ version, nfSource = '''',
               nfTokens = [], nfScript = script, nfChecksum = 0\<rparr>
      in if length (nfCompiler f) > compilerFieldSize then Ret (Inl ''too long compiler field'')
         else case calculateChecksum f of
             Ret c \<Rightarrow> Ret (Inr (f\<lparr>nfChecksum := c\<rparr>))
           | Fatal e \<Rightarrow> Fatal e
           | Panic e \<Rightarrow> Panic e)"

text \<open>
  \<open>File.DecodeBinary\<close> on a zero file. The checksum is computed on every path that gets
  there, with the error set or not; it is compared only without one. The result is the
  reader's error and the file.
\<close>

definition nefDecode :: "binReader \<Rightarrow> (nefFile \<times> binReader) outcome" where
  "nefDecode r =
     (let ((magic, compiler), r1) = headerDecode r;
          (source, r2) = readString MaxSourceURLLength r1;
          (reservedB, r3) = readB r2;
          f3 = \<lparr>nfMagic = magic, nfCompiler = compiler, nfSource = source,
                nfTokens = [], nfScript = [], nfChecksum = 0\<rparr>
      in if rErr r3 = None \<and> reservedB \<noteq> 0
         then Ret (f3, r3\<lparr>rErr := Some ''reserved bytes must be 0''\<rparr>)
         else let (tokens, r4) = readArray tokenDecode MaxArraySize [] r3;
                  (reserved, r5) = readU16LE r4;
                  f5 = f3\<lparr>nfTokens := tokens\<rparr>
           in if rErr r5 = None \<and> reserved \<noteq> 0
              then Ret (f5, r5\<lparr>rErr := Some ''reserved bytes must be 0''\<rparr>)
              else let (script, r6) = readVarBytes MaxScriptLength r5;
                       f6 = f5\<lparr>nfScript := script\<rparr>
                in if rErr r6 = None \<and> script = []
                   then Ret (f6, r6\<lparr>rErr := Some ''empty script''\<rparr>)
                   else let (cs, r7) = readU32LE r6;
                            f7 = f6\<lparr>nfChecksum := cs\<rparr>
                     in case calculateChecksum f7 of
                          Ret checksum \<Rightarrow>
                            if rErr r7 = None \<and> checksum \<noteq> cs
                            then Ret (f7, r7\<lparr>rErr := Some ''checksum verification failure''\<rparr>)
                            else Ret (f7, r7)
                        | Fatal e \<Rightarrow> Fatal e
                        | Panic e \<Rightarrow> Panic e)"

definition FileFromBytes :: "bytes \<Rightarrow> (string + nefFile) outcome" where
  "FileFromBytes source =
     (case nefDecode (newBinReaderFromBuf source) of
        Ret (f, r) \<Rightarrow> (case rErr r of Some e \<Rightarrow> Ret (Inl e) | None \<Rightarrow> Ret (Inr f))
      | Fatal e \<Rightarrow> Fatal e
      | Panic e \<Rightarrow> Panic e)"

section \<open>Layout and well-formedness\<close>

text \<open>The image of a file in the layout of the table in \<open>nef.go\<close>.\<close>

definition tokenImage :: "methodToken \<Rightarrow> bytes" where
  "tokenImage t =
     mtHash t @ varBytes (mtMethod t) @ le_put 2 (unat (mtParamCount t)) @
     le_put 1 (if mtHasReturn t then 1 else 0) @ le_put 1 (unat (mtCallFlag t))"

definition padTo :: "nat \<Rightarrow> bytes \<Rightarrow> bytes" where
  "padTo n b = b @ replicate (n - length b) (CHR 0x00)"

definition nefBody :: "nefFile \<Rightarrow> bytes" where
  "nefBody f =
     le_put 4 (unat (nfMagic f)) @ padTo compilerFieldSize (nfCompiler f) @
     varBytes (nfSource f) @ le_put 1 0 @
     putVarUint (of_nat (length (nfTokens f))) @ concat (map tokenImage (nfTokens f)) @
     le_put 2 0 @ varBytes (nfScript f)"

definition nefImage :: "nefFile \<Rightarrow> bytes" where
  "nefImage f = nefBody f @ le_put 4 (unat (nfChecksum f))"

definition bodyChecksum :: "nefFile \<Rightarrow> 32 word" where
  "bodyChecksum f = of_nat (le_get (Checksum (nefBody f)))"

definition wf_token :: "methodToken \<Rightarrow> bool" where
  "wf_token t \<longleftrightarrow> length (mtHash t) = 20 \<and> length (mtMethod t) \<le> maxMethodLength \<and>
     \<not> hasPrefix (mtMethod t) ''_'' \<and> mtCallFlag t AND NOT callflagAll = 0"

definition serializable :: "nefFile \<Rightarrow> bool" where
  "serializable f \<longleftrightarrow> length (nfCompiler f) \<le> compilerFieldSize \<and> length (nfSource f) \<le> MaxSourceURLLength"

definition wf_nef :: "nefFile \<Rightarrow> bool" where
  "wf_nef f \<longleftrightarrow> serializable f \<and> nfMagic f = nefMagic \<and>
     (nfCompiler f = [] \<or> last (nfCompiler f) \<noteq> CHR 0x00) \<and>
     length (nfTokens f) \<le> MaxArraySize \<and> list_all wf_token (nfTokens f) \<and>
     nfScript f \<noteq> [] \<and> length (nfScript f) \<le> MaxScriptLength \<and>
     nfChecksum f = bodyChecksum f"

lemmas nef_limits = MaxArraySize_def MaxScriptLength_def MaxSourceURLLength_def
  compilerFieldSize_def maxMethodLength_def

section \<open>Tokens keep both contracts\<close>

lemma writeVarBytes_appends:
  "wErr w = None \<Longrightarrow> writeVarBytes b w = w\<lparr>wbuf := wbuf w @ varBytes b\<rparr>"
  by (simp add: writeVarBytes_def varuint.enc_appends writeBytes_def varBytes_def)

lemma tokenEncode_appends:
  "wErr w = None \<Longrightarrow> tokenEncode t w = w\<lparr>wbuf := wbuf w @ tokenImage t\<rparr>"
  by (simp add: tokenEncode_def tokenImage_def writeBytes_def writeString_writeVarBytes
      writeVarBytes_appends u16.enc_appends flag.enc_appends u8.enc_appends
      del: le_put.simps One_nat_def)

lemma fold_tokenEncode:
  "wErr w = None \<Longrightarrow> fold tokenEncode ts w = w\<lparr>wbuf := wbuf w @ concat (map tokenImage ts)\<rparr>"
  by (induction ts arbitrary: w) (auto simp: tokenEncode_appends)

lemma tokenDecode_cases:
  assumes "tokenDecode r = (t, r')"
  obtains (bad_name) hash r1 mname r2
    where "readBytes 20 r = (hash, r1)" and "readVarBytes maxMethodLength r1 = (mname, r2)"
      and "rErr r2 = None" and "rErr r' \<noteq> None" and "rbuf r' = rbuf r2"
  | (fields) hash r1 mname r2 pc r3 ret r4 cf r5
    where "readBytes 20 r = (hash, r1)" and "readVarBytes maxMethodLength r1 = (mname, r2)"
      and "readU16LE r2 = (pc, r3)" and "readBool r3 = (ret, r4)" and "readB r4 = (cf, r5)"
      and "rErr r2 = None \<Longrightarrow> \<not> hasPrefix mname ''_''"
      and "t = \<lparr>mtHash = hash, mtMethod = mname, mtParamCount = pc, mtHasReturn = ret, mtCallFlag = cf\<rparr>"
      and "rbuf r' = rbuf r5" and "rErr r' = None \<longleftrightarrow> rErr r5 = None \<and> cf AND NOT callflagAll = 0"
proof -
  obtain hash r1 where a: "readBytes 20 r = (hash, r1)" by (cases "readBytes 20 r")
  obtain mname r2 where b: "readVarBytes maxMethodLength r1 = (mname, r2)"
    by (cases "readVarBytes maxMethodLength r1")
  obtain pc r3 where c: "readU16LE r2 = (pc, r3)" by (cases "readU16LE r2")
  obtain ret r4 where d: "readBool r3 = (ret, r4)" by (cases "readBool r3")
  obtain cf r5 where e: "readB r4 = (cf, r5)" by (cases "readB r4")
  note eqs = tokenDecode_def readString_readVarBytes a b c d e
  show thesis
  proof (cases "rErr r2 = None \<and> hasPrefix mname ''_''")
    case True
    with assms have "rErr r' \<noteq> None" and "rbuf r' = rbuf r2" by (auto simp: eqs)
    with True bad_name [OF a b] show thesis by blast
  next
    case False
    with assms fields [OF a b c d e] show thesis by (auto simp: eqs Let_def split: if_splits)
  qed
qed

interpretation token: safe_decoder tokenDecode
proof
  fix r t r' assume d: "tokenDecode r = (t, r')"
  show "suffix (rbuf r') (rbuf r)"
    using d
  proof (cases rule: tokenDecode_cases)
    case bad_name
    then show ?thesis
      using suffix_order.trans [OF safe_varbytes.consumes safe_bytes.consumes] by auto
  next
    case fields
    note mname = suffix_order.trans [OF safe_varbytes.consumes [OF fields(2)] safe_bytes.consumes [OF fields(1)]]
    note count = suffix_order.trans [OF safe_u16.consumes [OF fields(3)] mname]
    note flags = suffix_order.trans [OF safe_bool.consumes [OF fields(4)] count]
    show ?thesis unfolding fields(8)
      by (rule suffix_order.trans [OF safe_byte.consumes [OF fields(5)] flags])
  qed
  show "rErr r' \<noteq> None \<and> rbuf r' = rbuf r" if "rErr r \<noteq> None"
    using d
  proof (cases rule: tokenDecode_cases)
    case bad_name
    then show ?thesis
      using safe_bytes.err_kept [OF that bad_name(1)] safe_varbytes.err_kept [OF _ bad_name(2)] by simp
  next
    case fields
    from safe_bytes.err_kept [OF that fields(1)] safe_varbytes.err_kept [OF _ fields(2)]
      safe_u16.err_kept [OF _ fields(3)] safe_bool.err_kept [OF _ fields(4)]
      safe_byte.err_kept [OF _ fields(5)] fields(8,9)
    show ?thesis by simp
  qed
qed

lemma tokenDecode_wf: "tokenDecode r = (t, r') \<Longrightarrow> rErr r' = None \<Longrightarrow> wf_token t"
proof (erule tokenDecode_cases)
  fix hash r1 mname r2 pc r3 ret r4 cf r5
  assume ok: "rErr r' = None" and a: "readBytes 20 r = (hash, r1)"
    and b: "readVarBytes maxMethodLength r1 = (mname, r2)" and c: "readU16LE r2 = (pc, r3)"
    and d: "readBool r3 = (ret, r4)" and e: "readB r4 = (cf, r5)"
    and np: "rErr r2 = None \<Longrightarrow> \<not> hasPrefix mname ''_''"
    and t: "t = \<lparr>mtHash = hash, mtMethod = mname, mtParamCount = pc, mtHasReturn = ret, mtCallFlag = cf\<rparr>"
    and g: "rErr r' = None \<longleftrightarrow> rErr r5 = None \<and> cf AND NOT callflagAll = 0"
  from ok g have ok5: "rErr r5 = None" and cf: "cf AND NOT callflagAll = 0" by auto
  have "rErr r2 = None"
    using ok5 safe_byte.ok_before [OF e] safe_bool.ok_before [OF d] safe_u16.ok_before [OF c] by simp
  then show "wf_token t"
    using np t cf length_readBytes [OF a] readVarBytes_bound [OF b] by (simp add: wf_token_def)
qed simp

interpretation token: codec tokenEncode tokenDecode tokenImage wf_token
proof
  fix t w show "wErr w = None \<Longrightarrow> tokenEncode t w = w\<lparr>wbuf := wbuf w @ tokenImage t\<rparr>"
    by (rule tokenEncode_appends)
next
  fix t rest and r :: binReader
  assume wf: "wf_token t" and r: "rErr r = None" "rbuf r = tokenImage t @ rest"
  define cf where "cf = le_put 1 (unat (mtCallFlag t)) @ rest"
  define fl where "fl = le_put 1 (if mtHasReturn t then 1 else 0) @ cf"
  define pc where "pc = le_put 2 (unat (mtParamCount t)) @ fl"
  define me where "me = varBytes (mtMethod t) @ pc"
  have 1: "readBytes 20 r = (mtHash t, r\<lparr>rbuf := me\<rparr>)"
    using wf r by (intro fixed.dec_enc)
      (simp_all add: wf_token_def tokenImage_def me_def pc_def fl_def cf_def)
  have 2: "readVarBytes maxMethodLength (r\<lparr>rbuf := me\<rparr>) = (mtMethod t, r\<lparr>rbuf := pc\<rparr>)"
    using wf r by (subst varbytes.dec_enc [where x = "mtMethod t" and rest = pc])
      (simp_all add: wf_token_def nef_limits me_def)
  have 3: "readU16LE (r\<lparr>rbuf := pc\<rparr>) = (mtParamCount t, r\<lparr>rbuf := fl\<rparr>)"
    using r by (subst u16.dec_enc [where x = "mtParamCount t" and rest = fl]) (simp_all add: pc_def)
  have 4: "readBool (r\<lparr>rbuf := fl\<rparr>) = (mtHasReturn t, r\<lparr>rbuf := cf\<rparr>)"
    using r by (subst flag.dec_enc [where x = "mtHasReturn t" and rest = cf]) (simp_all add: fl_def)
  have 5: "readB (r\<lparr>rbuf := cf\<rparr>) = (mtCallFlag t, r\<lparr>rbuf := rest\<rparr>)"
    using r by (subst u8.dec_enc [where x = "mtCallFlag t" and rest = rest]) (simp_all add: cf_def)
  show "tokenDecode r = (t, r\<lparr>rbuf := rest\<rparr>)"
    using wf r
    by (simp add: tokenDecode_def readString_readVarBytes 1 2 3 4 5 wf_token_def
        del: le_put.simps One_nat_def)
qed

section \<open>Serialising\<close>

lemma headerEncode_appends:
  "length (nfCompiler f) \<le> compilerFieldSize \<Longrightarrow> wErr w = None \<Longrightarrow>
   headerEncode f w = w\<lparr>wbuf := wbuf w @ le_put 4 (unat (nfMagic f)) @ padTo compilerFieldSize (nfCompiler f)\<rparr>"
  by (simp add: headerEncode_def u32.enc_appends writeBytes_def padTo_def del: le_put.simps)

lemma writeArray_tokens:
  "wErr w = None \<Longrightarrow> writeArray tokenEncode ts w =
     w\<lparr>wbuf := wbuf w @ putVarUint (of_nat (length ts)) @ concat (map tokenImage ts)\<rparr>"
  by (simp add: writeArray_def varuint.enc_appends fold_tokenEncode)

lemma nefEncode_appends:
  assumes "serializable f" and "wErr w = None"
  shows "nefEncode f w = w\<lparr>wbuf := wbuf w @ nefImage f\<rparr>"
  using assms
  by (simp add: nefEncode_def serializable_def headerEncode_appends writeString_writeVarBytes
      writeVarBytes_appends u8.enc_appends u16.enc_appends u32.enc_appends writeArray_tokens
      nefImage_def nefBody_def del: le_put.simps One_nat_def)

lemma nefBytes_ok: "serializable f \<Longrightarrow> nefBytes f = Inr (nefImage f)"
  by (simp add: nefBytes_def nefEncode_appends newBufBinWriter_def bufBytes_def)

text \<open>An error of the header or of the source field survives to the end.\<close>

lemma writes_keep_error:
  assumes "wErr w \<noteq> None"
  shows "writeBytes b w = w" "writeU32LE v w = w" "writeU16LE h w = w" "writeB c w = w"
    "writeVarBytes b w = w" "writeString b w = w" "writeArray tokenEncode ts w = w"
  using assms
  by (auto simp: writeBytes_def writeU32LE_def writeU16LE_def writeB_def writeVarBytes_def
      writeVarUint_def writeString_def writeArray_def Let_def)

lemma nefBytes_error: "\<not> serializable f \<Longrightarrow> \<exists>e. nefBytes f = Inl e"
  by (auto simp: nefBytes_def nefEncode_def headerEncode_def serializable_def writes_keep_error Let_def)

lemma length_nefImage: "length (nefImage f) = length (nefBody f) + 4"
  by (simp add: nefImage_def)

lemma take_nefImage: "take (length (nefBody f)) (nefImage f) = nefBody f"
  by (simp add: nefImage_def)

lemma calculateChecksum_ok: "serializable f \<Longrightarrow> calculateChecksum f = Ret (bodyChecksum f)"
  by (simp add: calculateChecksum_def nefBytes_ok length_nefImage take_nefImage bodyChecksum_def)

lemma calculateChecksum_panics: "\<not> serializable f \<Longrightarrow> \<exists>e. calculateChecksum f = Panic e"
  using nefBytes_error [of f] by (auto simp: calculateChecksum_def)

section \<open>Parsing\<close>

lemma trimmed_length: "length (rev (dropWhile P (rev buf))) \<le> length buf"
  by (metis length_dropWhile_le length_rev)

lemma trimmed_last: "rev (dropWhile P (rev buf)) = [] \<or> \<not> P (last (rev (dropWhile P (rev buf))))"
  using hd_dropWhile [of P "rev buf"] by (cases "dropWhile P (rev buf) = []") (simp_all add: last_rev)

lemma headerDecode_props:
  assumes "headerDecode r = ((magic, compiler), r')"
  shows "length compiler \<le> compilerFieldSize"
    and "compiler = [] \<or> last compiler \<noteq> CHR 0x00"
    and "rErr r' = None \<Longrightarrow> magic = nefMagic \<and> rErr r = None"
proof -
  obtain m r1 where a: "readU32LE r = (m, r1)" by (cases "readU32LE r")
  obtain buf r2 where b: "readBytes compilerFieldSize r1 = (buf, r2)"
    by (cases "readBytes compilerFieldSize r1")
  note len = length_readBytes [OF b]
  have *: "(m \<noteq> nefMagic \<and> compiler = [] \<and> rErr r' \<noteq> None) \<or>
    (m = nefMagic \<and> magic = m \<and> compiler = rev (dropWhile (\<lambda>c. c = CHR 0x00) (rev buf)) \<and> r' = r2)"
  proof (cases "m = nefMagic")
    case True
    with assms a b have "magic = m \<and> compiler = rev (dropWhile (\<lambda>c. c = CHR 0x00) (rev buf)) \<and> r' = r2"
      unfolding headerDecode_def by simp
    with True show ?thesis by blast
  next
    case False
    with assms a b have "compiler = [] \<and> r' = r1\<lparr>rErr := Some ''invalid Magic''\<rparr>"
      unfolding headerDecode_def by simp
    with False show ?thesis by simp
  qed
  show "length compiler \<le> compilerFieldSize"
    using * len trimmed_length [of _ buf] by auto
  show "compiler = [] \<or> last compiler \<noteq> CHR 0x00"
    using * trimmed_last [of "\<lambda>c. c = CHR 0x00" buf] by blast
  show "magic = nefMagic \<and> rErr r = None" if "rErr r' = None"
    using * that safe_bytes.ok_before [OF b] safe_u32.ok_before [OF a] by auto
qed

lemma readArray_tokens:
  assumes "readArray tokenDecode ms [] r = (ts, r')"
  shows "length ts \<le> ms \<and> (rErr r' = None \<longrightarrow> list_all wf_token ts \<and> rErr r = None)"
proof (cases "rErr r")
  case None
  obtain lu r1 where lu: "readVarUint r = (lu, r1)" by (cases "readVarUint r")
  show ?thesis
  proof (cases "unat lu > ms")
    case True
    with assms None lu show ?thesis by (auto simp: readArray_def)
  next
    case False
    with assms None lu have e: "readElems tokenDecode (unat lu) r1 = (ts, r')"
      by (simp add: readArray_def)
    have "list_all wf_token ts" if "rErr r' = None"
      by (rule token.elems_all [where P = wf_token, OF _ e that]) (rule tokenDecode_wf)
    with False None show ?thesis by (simp add: token.elems_length [OF e])
  qed
next
  case (Some e)
  with assms show ?thesis by (auto simp: readArray_def)
qed

text \<open>
  The four ways a parse ends: one of the three early returns, or the whole file with its
  checksum computed.
\<close>

lemma nefDecode_cases:
  fixes r :: binReader
  obtains (reserved_byte) f r' where "nefDecode r = Ret (f, r')" and "rErr r' \<noteq> None"
  | (whole) f r7 where "serializable f" and "length (nfTokens f) \<le> MaxArraySize"
      and "nfCompiler f = [] \<or> last (nfCompiler f) \<noteq> CHR 0x00"
      and "length (nfScript f) \<le> MaxScriptLength"
      and "rErr r7 = None \<Longrightarrow> nfMagic f = nefMagic \<and> list_all wf_token (nfTokens f) \<and> nfScript f \<noteq> []"
      and "nefDecode r =
        (if rErr r7 = None \<and> bodyChecksum f \<noteq> nfChecksum f
         then Ret (f, r7\<lparr>rErr := Some ''checksum verification failure''\<rparr>) else Ret (f, r7))"
proof -
  obtain magic compiler r1 where a: "headerDecode r = ((magic, compiler), r1)"
    by (cases "headerDecode r") auto
  obtain source r2 where b: "readVarBytes MaxSourceURLLength r1 = (source, r2)"
    by (cases "readVarBytes MaxSourceURLLength r1")
  obtain rb r3 where c: "readB r2 = (rb, r3)" by (cases "readB r2")
  obtain tokens r4 where d: "readArray tokenDecode MaxArraySize [] r3 = (tokens, r4)"
    by (cases "readArray tokenDecode MaxArraySize [] r3")
  obtain rs r5 where e: "readU16LE r4 = (rs, r5)" by (cases "readU16LE r4")
  obtain script r6 where s: "readVarBytes MaxScriptLength r5 = (script, r6)"
    by (cases "readVarBytes MaxScriptLength r5")
  obtain cs r7 where h: "readU32LE r6 = (cs, r7)" by (cases "readU32LE r6")
  let ?f = "\<lparr>nfMagic = magic, nfCompiler = compiler, nfSource = source, nfTokens = tokens,
             nfScript = script, nfChecksum = cs\<rparr>"
  have ser: "serializable ?f"
    using headerDecode_props(1) [OF a] readVarBytes_bound [OF b] by (simp add: serializable_def)
  have toks: "length tokens \<le> MaxArraySize \<and> (rErr r4 = None \<longrightarrow> list_all wf_token tokens \<and> rErr r3 = None)"
    by (rule readArray_tokens [OF d])
  note eqs = nefDecode_def readString_readVarBytes a b c d e s h
  note step = eqs Let_def prod.case if_True if_False nefFile.update_convs
  consider (e1) "rErr r3 = None \<and> rb \<noteq> 0"
    | (e2) "\<not> (rErr r3 = None \<and> rb \<noteq> 0)" "rErr r5 = None \<and> rs \<noteq> 0"
    | (e3) "\<not> (rErr r3 = None \<and> rb \<noteq> 0)" "\<not> (rErr r5 = None \<and> rs \<noteq> 0)" "rErr r6 = None \<and> script = []"
    | (late) "\<not> (rErr r3 = None \<and> rb \<noteq> 0)" "\<not> (rErr r5 = None \<and> rs \<noteq> 0)" "\<not> (rErr r6 = None \<and> script = [])"
    by blast
  then show thesis
  proof cases
    case e1
    then show thesis by (intro reserved_byte) (simp only: step simp_thms, simp)
  next
    case e2
    then show thesis by (intro reserved_byte) (simp only: step simp_thms, simp)
  next
    case e3
    then show thesis by (intro reserved_byte) (simp only: step simp_thms, simp)
  next
    case late
    have ok: "nfMagic ?f = nefMagic \<and> list_all wf_token (nfTokens ?f) \<and> nfScript ?f \<noteq> []"
      if r7: "rErr r7 = None"
    proof -
      have r6: "rErr r6 = None" by (rule safe_u32.ok_before [OF h r7])
      have r5: "rErr r5 = None" by (rule safe_varbytes.ok_before [OF s r6])
      have r4: "rErr r4 = None" by (rule safe_u16.ok_before [OF e r5])
      with toks have "rErr r3 = None" and tk: "list_all wf_token tokens" by auto
      then have "rErr r1 = None"
        using safe_byte.ok_before [OF c] safe_varbytes.ok_before [OF b] by simp
      then show ?thesis using headerDecode_props(3) [OF a] tk late(3) r6 by simp
    qed
    from late have "nefDecode r = (if rErr r7 = None \<and> bodyChecksum ?f \<noteq> cs
         then Ret (?f, r7\<lparr>rErr := Some ''checksum verification failure''\<rparr>) else Ret (?f, r7))"
      by (simp only: step calculateChecksum_ok [OF ser] outcome.case)
    with ser toks ok headerDecode_props(2) [OF a] readVarBytes_bound [OF s]
    show thesis by (intro whole [of ?f r7]) simp_all
  qed
qed

section \<open>Reading back what was written\<close>

lemma padTo_trim:
  assumes "b = [] \<or> last b \<noteq> CHR 0x00"
  shows "rev (dropWhile (\<lambda>c. c = CHR 0x00) (rev (padTo n b))) = b"
proof -
  have "dropWhile (\<lambda>c. c = CHR 0x00) (rev (padTo n b)) = dropWhile (\<lambda>c. c = CHR 0x00) (rev b)"
    by (simp add: padTo_def dropWhile_append1 dropWhile_append)
  also have "\<dots> = rev b"
    using assms by (cases b rule: rev_cases) auto
  finally show ?thesis by simp
qed

lemma length_padTo: "length b \<le> n \<Longrightarrow> length (padTo n b) = n"
  by (simp add: padTo_def)

lemma headerDecode_image:
  assumes "wf_nef f" and "rErr r = None"
    and "rbuf r = le_put 4 (unat (nfMagic f)) @ padTo compilerFieldSize (nfCompiler f) @ rest"
  shows "headerDecode r = ((nfMagic f, nfCompiler f), r\<lparr>rbuf := rest\<rparr>)"
proof -
  have 1: "readU32LE r = (nfMagic f, r\<lparr>rbuf := padTo compilerFieldSize (nfCompiler f) @ rest\<rparr>)"
    using assms by (intro u32.dec_enc) simp_all
  have 2: "readBytes compilerFieldSize (r\<lparr>rbuf := padTo compilerFieldSize (nfCompiler f) @ rest\<rparr>) =
      (padTo compilerFieldSize (nfCompiler f), r\<lparr>rbuf := rest\<rparr>)"
    using assms by (subst fixed.dec_enc [where x = "padTo compilerFieldSize (nfCompiler f)" and rest = rest])
      (simp_all add: length_padTo wf_nef_def serializable_def)
  show ?thesis
    using assms by (simp add: headerDecode_def 1 2 padTo_trim wf_nef_def)
qed

lemma readArray_image:
  assumes "list_all wf_token ts" and "length ts \<le> ms" and "ms < 2 ^ 64" and "rErr r = None"
    and "rbuf r = putVarUint (of_nat (length ts)) @ concat (map tokenImage ts) @ rest"
  shows "readArray tokenDecode ms old r = (ts, r\<lparr>rbuf := rest\<rparr>)"
proof -
  have 1: "readVarUint r = (of_nat (length ts), r\<lparr>rbuf := concat (map tokenImage ts) @ rest\<rparr>)"
    using assms by (intro varuint.dec_enc) simp_all
  have 2: "readElems tokenDecode (length ts) (r\<lparr>rbuf := concat (map tokenImage ts) @ rest\<rparr>) =
      (ts, r\<lparr>rbuf := rest\<rparr>)"
    using assms by (subst token.elems_dec [where xs = ts and rest = rest]) simp_all
  show ?thesis
    using assms by (simp add: readArray_def 1 2 unat_of_nat_small)
qed

lemma nefDecode_image:
  assumes wf: "wf_nef f"
  shows "nefDecode \<lparr>rbuf = nefImage f @ rest, rErr = None\<rparr> = Ret (f, \<lparr>rbuf = rest, rErr = None\<rparr>)"
proof -
  let ?r = "\<lambda>b. \<lparr>rbuf = b, rErr = None\<rparr> :: binReader"
  define b6 where "b6 = le_put 4 (unat (nfChecksum f)) @ rest"
  define b5 where "b5 = varBytes (nfScript f) @ b6"
  define b4 where "b4 = le_put 2 (unat (0 :: 16 word)) @ b5"
  define b3 where "b3 = putVarUint (of_nat (length (nfTokens f))) @ concat (map tokenImage (nfTokens f)) @ b4"
  define b2 where "b2 = le_put 1 (unat (0 :: 8 word)) @ b3"
  define b1 where "b1 = varBytes (nfSource f) @ b2"
  have img: "nefImage f @ rest = le_put 4 (unat (nfMagic f)) @ padTo compilerFieldSize (nfCompiler f) @ b1"
    by (simp add: nefImage_def nefBody_def b1_def b2_def b3_def b4_def b5_def b6_def
        del: le_put.simps One_nat_def)
  have 1: "headerDecode (?r (nefImage f @ rest)) = ((nfMagic f, nfCompiler f), ?r b1)"
    using wf by (subst headerDecode_image [where rest = b1]) (simp_all add: img)
  have 2: "readVarBytes MaxSourceURLLength (?r b1) = (nfSource f, ?r b2)"
    using wf by (subst varbytes.dec_enc [where x = "nfSource f" and rest = b2])
      (simp_all add: b1_def wf_nef_def serializable_def nef_limits)
  have 3: "readB (?r b2) = (0, ?r b3)"
    by (subst u8.dec_enc [where x = 0 and rest = b3]) (simp_all add: b2_def del: le_put.simps One_nat_def)
  have 4: "readArray tokenDecode MaxArraySize [] (?r b3) = (nfTokens f, ?r b4)"
    using wf by (subst readArray_image [where rest = b4]) (simp_all add: b3_def wf_nef_def nef_limits)
  have 5: "readU16LE (?r b4) = (0, ?r b5)"
    by (subst u16.dec_enc [where x = 0 and rest = b5]) (simp_all add: b4_def del: le_put.simps)
  have 6: "readVarBytes MaxScriptLength (?r b5) = (nfScript f, ?r b6)"
    using wf by (subst varbytes.dec_enc [where x = "nfScript f" and rest = b6])
      (simp_all add: b5_def wf_nef_def nef_limits)
  have 7: "readU32LE (?r b6) = (nfChecksum f, ?r rest)"
    by (subst u32.dec_enc [where x = "nfChecksum f" and rest = rest]) (simp_all add: b6_def)
  have "serializable f" and "nfScript f \<noteq> []" and "bodyChecksum f = nfChecksum f"
    using wf by (simp_all add: wf_nef_def)
  moreover have "\<lparr>nfMagic = nfMagic f, nfCompiler = nfCompiler f, nfSource = nfSource f,
    nfTokens = nfTokens f, nfScript = nfScript f, nfChecksum = nfChecksum f\<rparr> = f"
    by simp
  ultimately show ?thesis
    by (simp only: nefDecode_def readString_readVarBytes 1 2 3 4 5 6 7 calculateChecksum_ok Let_def
        prod.case nefFile.update_convs outcome.case) simp
qed

section \<open>The properties of the format\<close>

lemma FileFromBytes_image: "wf_nef f \<Longrightarrow> FileFromBytes (nefImage f @ rest) = Ret (Inr f)"
  by (simp add: FileFromBytes_def newBinReaderFromBuf_def nefDecode_image)

lemma FileFromBytes_wf: "FileFromBytes bs = Ret (Inr f) \<Longrightarrow> wf_nef f"
proof -
  assume "FileFromBytes bs = Ret (Inr f)"
  then obtain r where d: "nefDecode (newBinReaderFromBuf bs) = Ret (f, r)" and "rErr r = None"
    by (auto simp: FileFromBytes_def split: outcome.splits option.splits)
  then show ?thesis
    by (cases "newBinReaderFromBuf bs" rule: nefDecode_cases)
       (auto simp: wf_nef_def split: if_splits)
qed

lemma FileFromBytes_cases:
  obtains (rejected) e where "FileFromBytes bs = Ret (Inl e)"
  | (accepted) f where "FileFromBytes bs = Ret (Inr f)"
proof -
  obtain f r where "nefDecode (newBinReaderFromBuf bs) = Ret (f, r)"
    by (cases "newBinReaderFromBuf bs" rule: nefDecode_cases) (auto split: if_splits)
  then show thesis
    using rejected accepted by (cases "rErr r") (simp_all add: FileFromBytes_def)
qed

text \<open>
  C18. Round trip: a well-formed contract file, serialised, is parsed back to itself, whatever
  bytes follow it (the parser does not look at them).
\<close>

theorem nef_roundtrip:
  "wf_nef f \<Longrightarrow> \<exists>bs. nefBytes f = Inr bs \<and> FileFromBytes (bs @ rest) = Ret (Inr f)"
  using FileFromBytes_image by (simp add: nefBytes_ok wf_nef_def)

text \<open>
  C19. Soundness of the parser: a file it accepts has the magic number, all its limits, valid
  method tokens, a script, and the checksum of its own serialisation.
\<close>

theorem nef_parse_wf: "FileFromBytes bs = Ret (Inr f) \<Longrightarrow> wf_nef f"
  by (rule FileFromBytes_wf)

text \<open>
  The parser is total: whatever the compiler wrote, \<open>FileFromBytes\<close> returns a file or
  an error; the panic of \<open>CalculateChecksum\<close> is out of reach.
\<close>

theorem nef_parse_returns: "\<exists>res. FileFromBytes bs = Ret res"
  by (cases bs rule: FileFromBytes_cases) auto

text \<open>A file for the witnesses: one method token and a one-byte script.\<close>

definition sample_token :: methodToken where
  "sample_token = \<lparr>mtHash = replicate 20 (CHR ''h''), mtMethod = ''transfer'', mtParamCount = 4,
     mtHasReturn = True, mtCallFlag = 15\<rparr>"

definition sample_unsigned :: nefFile where
  "sample_unsigned = \<lparr>nfMagic = nefMagic, nfCompiler = ''neo3-boa'', nfSource = ''src'',
     nfTokens = [sample_token], nfScript = ''@'', nfChecksum = 0\<rparr>"

definition sample_nef :: nefFile where
  "sample_nef = sample_unsigned\<lparr>nfChecksum := bodyChecksum sample_unsigned\<rparr>"

lemma wf_sample_token: "wf_token sample_token"
  by (simp add: wf_token_def sample_token_def maxMethodLength_def hasPrefix_def callflagAll_def)

lemma wf_sample_nef: "wf_nef sample_nef"
  by (simp add: wf_nef_def sample_nef_def bodyChecksum_def nefBody_def wf_sample_token)
     (simp add: sample_unsigned_def serializable_def nef_limits wf_sample_token)

theorem nef_roundtrip_witness:
  "wf_nef sample_nef \<and>
   (\<exists>bs. nefBytes sample_nef = Inr bs \<and> FileFromBytes (bs @ ''trailing'') = Ret (Inr sample_nef))"
  using wf_sample_nef nef_roundtrip [OF wf_sample_nef, of "''trailing''"] by blast

lemma sample_nef_parses: "FileFromBytes (nefImage sample_nef) = Ret (Inr sample_nef)"
  using FileFromBytes_image [OF wf_sample_nef, of "[]"] by simp

theorem nef_parse_wf_witness: "\<exists>bs. FileFromBytes bs = Ret (Inr sample_nef) \<and> wf_nef sample_nef"
  using sample_nef_parses nef_parse_wf [OF sample_nef_parses] by blast

end
