(* ===== verification/Base64.thy ===== *)
theory Base64
  imports Prelude
begin

text \<open>
  \<open>base64.StdEncoding.EncodeToString\<close>, the form in which \<open>execCommand\<close>
  returns the compiled script and the RPC node the deployed one. The decoder is the
  specification side: it is total on the encoder's image, so the encoding is injective and
  comparing the two texts compares the scripts.
\<close>

definition b64_alphabet :: string where
  "b64_alphabet = ''ABCDEFGHIJKLMNOPQRSTUVWXYZabcdefghijklmnopqrstuvwxyz0123456789+/''"

definition b64_char :: "nat \<Rightarrow> char" where
  "b64_char i = b64_alphabet ! i"

fun b64encode :: "bytes \<Rightarrow> string" where
  "b64encode [] = []"
| "b64encode [a] =
     (let x = of_char a in
      [b64_char (x div 4), b64_char (x mod 4 * 16), CHR ''='', CHR ''=''])"
| "b64encode [a, b] =
     (let x = of_char a; y = of_char b in
      [b64_char (x div 4), b64_char (x mod 4 * 16 + y div 16), b64_char (y mod 16 * 4), CHR ''=''])"
| "b64encode (a # b # c # rest) =
     (let x = of_char a; y = of_char b; z = of_char c in
      [b64_char (x div 4), b64_char (x mod 4 * 16 + y div 16),
       b64_char (y mod 16 * 4 + z div 64), b64_char (z mod 64)]) @ b64encode rest"

section \<open>The decoder\<close>

definition b64_val :: "char \<Rightarrow> nat option" where
  "b64_val c = find_index (\<lambda>x. x = c) b64_alphabet"

fun b64decode :: "string \<Rightarrow> bytes option" where
  "b64decode [] = Some []"
| "b64decode [p, q, r, s] =
     (case (b64_val p, b64_val q, b64_val r, b64_val s) of
        (Some i, Some j, Some k, Some l) \<Rightarrow>
          Some [char_of (i * 4 + j div 16), char_of (j mod 16 * 16 + k div 4),
                char_of (k mod 4 * 64 + l)]
      | (Some i, Some j, Some k, None) \<Rightarrow>
          (if s = CHR ''='' then Some [char_of (i * 4 + j div 16), char_of (j mod 16 * 16 + k div 4)]
           else None)
      | (Some i, Some j, None, None) \<Rightarrow>
          (if r = CHR ''='' \<and> s = CHR ''='' then Some [char_of (i * 4 + j div 16)] else None)
      | _ \<Rightarrow> None)"
| "b64decode (p # q # r # s # rest) =
     (case (b64_val p, b64_val q, b64_val r, b64_val s, b64decode rest) of
        (Some i, Some j, Some k, Some l, Some out) \<Rightarrow>
          Some ([char_of (i * 4 + j div 16), char_of (j mod 16 * 16 + k div 4),
                 char_of (k mod 4 * 64 + l)] @ out)
      | _ \<Rightarrow> None)"
| "b64decode _ = None"

lemma b64_val_char_all: "list_all (\<lambda>i. b64_val (b64_char i) = Some i) [0..<64]"
  by code_simp

lemma b64_val_char [simp]: "i < 64 \<Longrightarrow> b64_val (b64_char i) = Some i"
  using b64_val_char_all by (simp add: list_all_iff)

lemma b64_val_pad [simp]: "b64_val (CHR ''='') = None"
  by code_simp

text \<open>Splitting three bytes into four six-bit groups loses nothing.\<close>

lemma byte_quotients [simp]:
  "of_char (c :: char) div 4 < (64 :: nat)" "of_char c div 16 < (16 :: nat)"
  "of_char c div 64 < (4 :: nat)"
  by (simp_all add: less_mult_imp_div_less)

lemma byte_quotients_again [simp]:
  "of_char (c :: char) div 16 div 16 = (0 :: nat)" "of_char c div 64 div 4 = (0 :: nat)"
  "of_char c div 16 mod 16 = (of_char c div 16 :: nat)"
  "of_char c div 64 mod 4 = (of_char c div 64 :: nat)"
  by (simp_all add: div_mult2_eq [symmetric] del: div_mult2_eq)

lemma sixbit_bounds [simp]:
  fixes x y :: nat
  shows "x mod 4 * 16 < 64" "x mod 16 * 4 < 64"
    "y < 16 \<Longrightarrow> x mod 4 * 16 + y < 64" "y < 4 \<Longrightarrow> x mod 16 * 4 + y < 64"
  using mod_less_divisor [of 4 x] mod_less_divisor [of 16 x] by linarith+

lemma b64decode_encode: "b64decode (b64encode s) = Some s"
proof (induction s rule: b64encode.induct)
  case (4 a b c rest)
  show ?case
  proof (cases "b64encode rest")
    case Nil
    with 4 show ?thesis by (cases rest rule: b64encode.cases) (simp_all add: Let_def)
  next
    case (Cons d ds)
    with 4 show ?thesis by (simp add: Let_def)
  qed
qed (simp_all add: Let_def)

lemma b64encode_inj: "b64encode s = b64encode t \<Longrightarrow> s = t"
  by (metis b64decode_encode option.inject)

lemma b64encode_length: "length (b64encode s) = 4 * ((length s + 2) div 3)"
proof (induction s rule: b64encode.induct)
  case (4 a b c rest)
  have "(length (a # b # c # rest) + 2) div 3 = Suc ((length rest + 2) div 3)"
    by simp
  with 4 show ?case by (simp add: Let_def)
qed (simp_all add: Let_def)

lemma b64encode_eq_Nil_iff [simp]: "b64encode s = [] \<longleftrightarrow> s = []"
  by (cases s rule: b64encode.cases) (simp_all add: Let_def)

section \<open>Sentinels\<close>

text \<open>
  \<open>execCommand\<close> returns either a script in Base64 or one of the one-digit texts
  that stand for its errors; its caller tells them apart by comparing strings. The contract
  this needs of an encoding: no value is encoded as a text of one byte, and different values
  have different texts.
\<close>

locale sentinel_encoding =
  fixes enc :: "'a \<Rightarrow> string"
  assumes enc_inj: "enc x = enc y \<Longrightarrow> x = y"
    and enc_not_single: "length (enc x) \<noteq> 1"
begin

lemma enc_ne_sentinel: "enc x \<noteq> [c]"
  using enc_not_single [of x] by auto

lemma enc_eq_iff: "enc x = enc y \<longleftrightarrow> x = y"
  by (auto dest: enc_inj)

lemma not_sentinel: "enc x \<noteq> ''0'' \<and> enc x \<noteq> ''1'' \<and> enc x \<noteq> ''2''"
  by (simp add: enc_ne_sentinel)

end

interpretation b64: sentinel_encoding b64encode
proof unfold_locales
  fix x y :: bytes
  show "b64encode x = b64encode y \<Longrightarrow> x = y" by (rule b64encode_inj)
  show "length (b64encode x) \<noteq> 1" by (simp add: b64encode_length)
qed

text \<open>
  The text of a script is read back to the script, four characters for each three bytes
  begun; so equal texts are equal scripts, and no script has a text of one character.
\<close>

theorem base64_roundtrip:
  "b64decode (b64encode s) = Some s \<and> length (b64encode s) = 4 * ((length s + 2) div 3)
   \<and> (b64encode s = b64encode t \<longleftrightarrow> s = t) \<and> b64encode s \<noteq> [c]"
  using b64decode_encode b64encode_length b64.enc_eq_iff b64.enc_ne_sentinel by auto

end
