(* ===== verification/Compiler.thy ===== *)
theory Compiler
  imports World NefFile Base64
begin

text \<open>
  \<open>execCommand\<close> of \<open>src/Web/main.go\<close> and its helper \<open>GetNameBySuffix\<close>: the choice
  of the compiler, its run in the upload folder, the search for the \<open>.nef\<close> file it leaves,
  and the script of that file in Base64.
\<close>

section \<open>The choice of the compiler\<close>

text \<open>The versions of \<open>neo3-boa\<close> with the argument of \<open>pythonExec.sh\<close> for each.\<close>

definition boaEnvs :: "(string \<times> string) list" where
  "boaEnvs =
     [(''neo3-boa 0.11.4'', ''boa114''), (''neo3-boa 0.11.3'', ''boa113''),
      (''neo3-boa 0.11.2'', ''boa112''), (''neo3-boa 0.11.1'', ''boa111''),
      (''neo3-boa 0.11.0'', ''boa110''), (''neo3-boa 0.10.1'', ''boa101''),
      (''neo3-boa 0.10.0'', ''boa100''), (''neo3-boa 0.9.0'', ''boa090''),
      (''neo3-boa 0.8.3'', ''boa083''), (''neo3-boa 0.8.2'', ''boa082''),
      (''neo3-boa 0.8.1'', ''boa081''), (''neo3-boa 0.8.0'', ''boa080''),
      (''neo3-boa 0.7.0'', ''boa070''), (''neo3-boa 0.3.0'', ''boa030''),
      (''neo3-boa 0.0.3'', ''boa003''), (''neo3-boa 0.0.0'', ''boa000'')]"

text \<open>The versions of the C\# compiler with the program and the arguments before the flag.\<close>

definition csharpTools :: "(string \<times> string \<times> string list) list" where
  "csharpTools =
     [(''Neo.Compiler.CSharp 3.0.0'', ''/go/application/c/nccs'', []),
      (''Neo.Compiler.CSharp 3.0.2'', ''/go/application/b/nccs'', []),
      (''Neo.Compiler.CSharp 3.0.3'', ''/go/application/a/nccs'', []),
      (''Neo.Compiler.CSharp 3.1.0'', ''dotnet'', [''/go/application/compiler2/3.1/net6.0/nccs.dll'']),
      (''Neo.Compiler.CSharp 3.3.0'', ''dotnet'', [''/go/application/compiler2/3.3/net6.0/nccs.dll'']),
      (''Neo.Compiler.CSharp 3.4.0'', ''dotnet'', [''/go/application/compiler2/3.4/net6.0/nccs.dll''])]"

text \<open>
  The ladder of \<open>execCommand\<close>: the program and its arguments, \<open>None\<close> for a version it
  does not know. A C\# version with another \<open>CompileCommand\<close> keeps the \<open>echo\<close> the
  variable was initialised with.
\<close>

definition selectCommand :: "dict1 \<Rightarrow> string \<Rightarrow> (string \<times> string list) option" where
  "selectCommand m folderName =
     (case map_of boaEnvs (getVersion m) of
        Some venv \<Rightarrow> Some (''/bin/sh'', [''/go/application/pythonExec.sh'', venv])
      | None \<Rightarrow>
          if getVersion m = ''neow3j'' then
            Some (''/bin/sh'', [''-c'', ''/go/application/javaExec.sh '' @ getJavaPackage m @ '' '' @ folderName])
          else if getVersion m = ''neo-go'' then
            Some (''/bin/sh'', [''-c'', ''/go/application/goExec.sh''])
          else (case map_of csharpTools (getVersion m) of
              None \<Rightarrow> None
            | Some (tool, args) \<Rightarrow>
                if getCompileCommand m = ''nccs --no-optimize'' then Some (tool, args @ [''--no-optimize''])
                else if getCompileCommand m = ''nccs'' then Some (tool, args)
                else Some (''echo'', [])))"

definition workDir :: "dict1 \<Rightarrow> string \<Rightarrow> string" where
  "workDir m pathFile = (if getVersion m \<noteq> ''neow3j'' then pathFile @ ''/'' else ''./'')"

text \<open>What \<open>fmt.Println\<close> calls the family of the compiler: the version up to its first blank.\<close>

definition family :: "dict1 \<Rightarrow> string" where
  "family m = hd (splitOn (CHR '' '') (trimSpaces (getVersion m)))"

section \<open>GetNameBySuffix\<close>

text \<open>
  The suffix is compiled as a regular expression anchored at the end: its dot stands for any
  character but a newline, its letters for themselves. \<open>TrimSuffix\<close> reads it literally.
\<close>

definition suffixByte :: "char \<Rightarrow> char \<Rightarrow> bool" where
  "suffixByte p c = (if p = CHR ''.'' then c \<noteq> CHR 0x0A else c = p)"

definition matchesTail :: "string \<Rightarrow> string \<Rightarrow> bool" where
  "matchesTail pat name =
     (length pat \<le> length name \<and> list_all2 suffixByte pat (drop (length name - length pat) name))"

definition GetNameBySuffix :: "fs \<Rightarrow> string \<Rightarrow> string \<Rightarrow> string \<times> bool" where
  "GetNameBySuffix f path suf =
     (case ReadDir f path of
        Inl e \<Rightarrow> ('''', False)
      | Inr fileList \<Rightarrow>
          (case find (matchesTail suf) (map fst fileList) of
             None \<Rightarrow> ('''', False)
           | Some name \<Rightarrow> (trimSuffix name suf, True)))"

section \<open>The .nef file\<close>

definition javaBuildDir :: string where
  "javaBuildDir = ''./javacontractgradle/build/neow3j/''"

text \<open>The Java branch takes the first entry with the extension, and keeps its name in the dictionary.\<close>

definition javaNef :: "fs \<Rightarrow> dict1 \<Rightarrow> dict1" where
  "javaNef f m =
     (case ReadDir f javaBuildDir of
        Inl e \<Rightarrow> m
      | Inr files \<Rightarrow>
          (case find (\<lambda>n. pathExt (''./'' @ n) = ''.nef'') (map fst files) of
             None \<Rightarrow> m
           | Some n \<Rightarrow> m(''Filename'' \<mapsto> n)))"

definition boaNef :: "fs \<Rightarrow> string \<Rightarrow> string" where
  "boaNef f pathFile = pathFile @ ''/'' @ fst (GetNameBySuffix f (pathFile @ ''/'') ''.nef'') @ ''.nef''"

definition csharpNef :: "fs \<Rightarrow> string \<Rightarrow> string" where
  "csharpNef f pathFile =
     pathFile @ ''/bin/sc/'' @ fst (GetNameBySuffix f (pathFile @ ''/bin/sc/'') ''.nef'') @ ''.nef''"

text \<open>The path whose existence is asked for, with the dictionary afterwards.\<close>

definition checkedNef :: "fs \<Rightarrow> string \<Rightarrow> dict1 \<Rightarrow> string \<times> dict1" where
  "checkedNef f pathFile m =
     (if family m = ''neo3-boa'' then (boaNef f pathFile, m)
      else if getVersion m = ''neo-go'' then (pathFile @ ''/out.nef'', m)
      else if getVersion m = ''neow3j'' then (javaBuildDir @ getFilename (javaNef f m), javaNef f m)
      else (csharpNef f pathFile, m))"

text \<open>The path that is read.\<close>

definition loadedNef :: "fs \<Rightarrow> string \<Rightarrow> dict1 \<Rightarrow> string" where
  "loadedNef f pathFile m =
     (if family m = ''neo3-boa'' then boaNef f pathFile
      else if getVersion m = ''neow3j'' then javaBuildDir @ getFilename m
      else csharpNef f pathFile)"

text \<open>Reading a file and decoding it: an error of either ends the server.\<close>

definition loadScript :: "fs \<Rightarrow> string \<Rightarrow> string outcome" where
  "loadScript f s =
     (case ReadFile f s of
        Inl e \<Rightarrow> Fatal ''read error''
      | Inr bs \<Rightarrow>
          (case FileFromBytes bs of
             Ret (Inr nef) \<Rightarrow> Ret (b64encode (nfScript nef))
           | Ret (Inl e) \<Rightarrow> Fatal ''error''
           | Fatal e \<Rightarrow> Fatal e
           | Panic e \<Rightarrow> Panic e))"

definition verifyNef :: "fs \<Rightarrow> string \<Rightarrow> string outcome" where
  "verifyNef f name = loadScript f (''./'' @ name @ ''.nef'')"

section \<open>execCommand\<close>

definition msgNoCompiler :: string where
  "msgNoCompiler = ''Compiler version doesn'' @ [CHR 0x27] @ ''t exist, please choose Neo.Compiler.CSharp 3.0.0/Neo.Compiler.CSharp 3.0.2/Neo.Compiler.CSharp 3.0.3 version''"

definition msgCmdFailed :: string where
  "msgCmdFailed = ''Cmd execution failed ''"

definition msgNoNef :: string where
  "msgNoNef = ''.nef file doesn'' @ [CHR 0x27] @ ''t exist ''"

text \<open>An answer after which the upload folder is removed.\<close>

definition failAndClean :: "int \<Rightarrow> string \<Rightarrow> string \<Rightarrow> world \<Rightarrow> world" where
  "failAndClean code msg pathFile w =
     onFs (\<lambda>f. RemoveAll f pathFile) (onResp (answer code msg) w)"

text \<open>Running the compiler to the end of its output; \<open>False\<close> when it did not start.\<close>

definition runCompiler :: "env \<Rightarrow> string \<Rightarrow> command \<Rightarrow> (world, bool) prog" where
  "runCompiler e pathFile cmd = (\<lambda>w.
     case env_run e cmd (wfs w) of
       PipeFails err \<Rightarrow> (Fatal err, w)
     | StartFails \<Rightarrow> (Ret False, failAndClean 1 msgCmdFailed pathFile w)
     | ReadFails err f \<Rightarrow> (Fatal err, called (Ran cmd) (onFs (\<lambda>_. f) w))
     | Finished out f \<Rightarrow> (Ret True, called (Ran cmd) (onFs (\<lambda>_. f) w)))"

text \<open>From the end of the compiler's output on: the check, and the load or answer 2.\<close>

definition takeNef :: "string \<Rightarrow> dict1 \<Rightarrow> (world, string \<times> dict1) prog" where
  "takeNef pathFile m = (\<lambda>w.
     case checkedNef (wfs w) pathFile m of
       (checked, m') \<Rightarrow>
         if \<not> IsNotExist (Lstat (wfs w) checked) then
           (case loadScript (wfs w) (loadedNef (wfs w) pathFile m') of
              Ret script \<Rightarrow> (Ret (script, m'), w)
            | Fatal err \<Rightarrow> (Fatal err, w)
            | Panic err \<Rightarrow> (Panic err, w))
         else (Ret (''2'', m'), onResp (answer 2 msgNoNef) w))"

definition execCommand :: "env \<Rightarrow> string \<Rightarrow> string \<Rightarrow> dict1 \<Rightarrow> (world, string \<times> dict1) prog" where
  "execCommand e pathFile folderName m =
     (case selectCommand m folderName of
        None \<Rightarrow> andThen (modify (failAndClean 0 msgNoCompiler pathFile)) (\<lambda>_. ret (''0'', m))
      | Some (name, args) \<Rightarrow>
          andThen (runCompiler e pathFile \<lparr>cmdName = name, cmdArgs = args, cmdDir = workDir m pathFile\<rparr>)
            (\<lambda>started. if started then takeNef pathFile m else ret (''1'', m)))"

section \<open>The outcomes of the parts\<close>

lemma loadScript_cases:
  obtains (loaded) bs nef where "ReadFile f s = Inr bs" and "FileFromBytes bs = Ret (Inr nef)"
      and "loadScript f s = Ret (b64encode (nfScript nef))"
  | (unreadable) err where "ReadFile f s = Inl err" and "loadScript f s = Fatal ''read error''"
  | (rejected) bs err where "ReadFile f s = Inr bs" and "FileFromBytes bs = Ret (Inl err)"
      and "loadScript f s = Fatal ''error''"
proof (cases "ReadFile f s")
  case (Inl err)
  then show thesis using unreadable by (simp add: loadScript_def)
next
  case (Inr bs)
  then show thesis
    using loaded rejected by (cases bs rule: FileFromBytes_cases) (simp_all add: loadScript_def)
qed

lemma takeNef_cases:
  obtains (missing) "IsNotExist (Lstat (wfs w) (fst (checkedNef (wfs w) d m)))"
      and "takeNef d m w = (Ret (''2'', snd (checkedNef (wfs w) d m)), onResp (answer 2 msgNoNef) w)"
  | (loaded) bs nef where "\<not> IsNotExist (Lstat (wfs w) (fst (checkedNef (wfs w) d m)))"
      and "ReadFile (wfs w) (loadedNef (wfs w) d (snd (checkedNef (wfs w) d m))) = Inr bs"
      and "FileFromBytes bs = Ret (Inr nef)"
      and "takeNef d m w = (Ret (b64encode (nfScript nef), snd (checkedNef (wfs w) d m)), w)"
  | (died) err where "\<not> IsNotExist (Lstat (wfs w) (fst (checkedNef (wfs w) d m)))"
      and "loadScript (wfs w) (loadedNef (wfs w) d (snd (checkedNef (wfs w) d m))) = Fatal err"
      and "takeNef d m w = (Fatal err, w)"
proof (cases "checkedNef (wfs w) d m")
  case (Pair c m')
  show thesis
  proof (cases "IsNotExist (Lstat (wfs w) c)")
    case True
    with Pair show thesis using missing by (simp add: takeNef_def)
  next
    case False
    show thesis
      by (cases rule: loadScript_cases [of "wfs w" "loadedNef (wfs w) d m'"];
          use Pair False in \<open>auto simp: takeNef_def intro: loaded died\<close>)
  qed
qed

text \<open>The command the ladder builds, and the world in which its output has ended.\<close>

definition theCommand :: "string \<Rightarrow> dict1 \<Rightarrow> string \<times> string list \<Rightarrow> command" where
  "theCommand d m sel = \<lparr>cmdName = fst sel, cmdArgs = snd sel, cmdDir = workDir m d\<rparr>"

definition afterRun :: "command \<Rightarrow> fs \<Rightarrow> world \<Rightarrow> world" where
  "afterRun cmd f w = called (Ran cmd) (onFs (\<lambda>_. f) w)"

lemma afterRun_simps [simp]:
  "wfs (afterRun cmd f w) = f" "wdb (afterRun cmd f w) = wdb w"
  "wresp (afterRun cmd f w) = wresp w" "wcalls (afterRun cmd f w) = wcalls w @ [Ran cmd]"
  by (simp_all add: afterRun_def)

lemma execCommand_cases:
  obtains (unknown) "selectCommand m d = None"
      and "execCommand e d d m w = (Ret (''0'', m), failAndClean 0 msgNoCompiler d w)"
  | (nopipe) sel err where "selectCommand m d = Some sel"
      and "env_run e (theCommand d m sel) (wfs w) = PipeFails err" and "execCommand e d d m w = (Fatal err, w)"
  | (nostart) sel where "selectCommand m d = Some sel"
      and "env_run e (theCommand d m sel) (wfs w) = StartFails"
      and "execCommand e d d m w = (Ret (''1'', m), failAndClean 1 msgCmdFailed d w)"
  | (noread) sel err f where "selectCommand m d = Some sel"
      and "env_run e (theCommand d m sel) (wfs w) = ReadFails err f"
      and "execCommand e d d m w = (Fatal err, afterRun (theCommand d m sel) f w)"
  | (finished) sel out f where "selectCommand m d = Some sel"
      and "env_run e (theCommand d m sel) (wfs w) = Finished out f"
      and "execCommand e d d m w = takeNef d m (afterRun (theCommand d m sel) f w)"
proof (cases "selectCommand m d")
  case None
  then show thesis using unknown by (simp add: execCommand_def)
next
  case (Some sel)
  obtain name args where sel: "sel = (name, args)" by fastforce
  then have cmd: "\<lparr>cmdName = name, cmdArgs = args, cmdDir = workDir m d\<rparr> = theCommand d m sel"
    by (simp add: theCommand_def)
  show thesis
    using nopipe nostart noread finished Some sel cmd
    by (cases "env_run e (theCommand d m sel) (wfs w)")
       (simp_all add: execCommand_def runCompiler_def afterRun_def andThen_def)
qed

lemmas exec_simps = failAndClean_def

lemma failAndClean_simps [simp]:
  "wdb (failAndClean code msg d w) = wdb w" "wcalls (failAndClean code msg d w) = wcalls w"
  "wresp (failAndClean code msg d w) = answer code msg (wresp w)"
  "wfs (failAndClean code msg d w) = RemoveAll (wfs w) d"
  by (simp_all add: failAndClean_def)

text \<open>The compiler stage leaves the databases alone, and starts at most one program.\<close>

lemma execCommand_frame:
  "wdb (snd (execCommand e d d m w)) = wdb w \<and>
   (wcalls (snd (execCommand e d d m w)) = wcalls w \<or>
    (\<exists>sel. selectCommand m d = Some sel \<and>
       wcalls (snd (execCommand e d d m w)) = wcalls w @ [Ran (theCommand d m sel)]))"
proof (cases rule: execCommand_cases [of m d e w])
  case (finished sel out f)
  then show ?thesis
    by (cases rule: takeNef_cases [of "afterRun (theCommand d m sel) f w" d m]) auto
qed auto

lemma execCommand_no_panic: "execCommand e d d m w \<noteq> (Panic err, w')"
proof (cases rule: execCommand_cases [of m d e w])
  case (finished sel out f)
  then show ?thesis
    by (cases rule: takeNef_cases [of "afterRun (theCommand d m sel) f w" d m]) auto
qed auto

text \<open>What a returned text means: a script, with the file it came from, or one of three errors.\<close>

lemma execCommand_Ret:
  assumes "execCommand e d d m w = (Ret (s, m'), w')"
  obtains (unknown) "s = ''0''" and "m' = m" and "selectCommand m d = None"
      and "w' = failAndClean 0 msgNoCompiler d w"
  | (nostart) "s = ''1''" and "m' = m" and "w' = failAndClean 1 msgCmdFailed d w"
  | (nonef) sel out f where "s = ''2''" and "selectCommand m d = Some sel"
      and "env_run e (theCommand d m sel) (wfs w) = Finished out f"
      and "w' = onResp (answer 2 msgNoNef) (afterRun (theCommand d m sel) f w)"
  | (script) sel out f bs nef where "selectCommand m d = Some sel"
      and "env_run e (theCommand d m sel) (wfs w) = Finished out f"
      and "m' = snd (checkedNef f d m)" and "w' = afterRun (theCommand d m sel) f w"
      and "ReadFile f (loadedNef f d m') = Inr bs" and "FileFromBytes bs = Ret (Inr nef)"
      and "s = b64encode (nfScript nef)"
proof (cases rule: execCommand_cases [of m d e w])
  case (finished sel out f)
  then show thesis
    using assms nonef script
    by (cases rule: takeNef_cases [of "afterRun (theCommand d m sel) f w" d m]) auto
qed (use assms unknown nostart in auto)

lemma b64_not_digit [simp]: "b64encode s \<noteq> [c]" "[c] \<noteq> b64encode s"
  by (rule b64.enc_ne_sentinel, rule b64.enc_ne_sentinel [symmetric])

text \<open>The compiler does not change what the dictionary says of the contract.\<close>

lemma checkedNef_dict:
  "getContract (snd (checkedNef f d m)) = getContract m \<and> getVersion (snd (checkedNef f d m)) = getVersion m"
  by (simp add: checkedNef_def javaNef_def getContract_def getVersion_def split: sum.splits option.splits)

section \<open>Removing the folder\<close>

lemma RemoveAll_folder:
  assumes "plain_name d" and "is_dir f cwd"
  shows "RemoveAll f d = remove_tree (cwd @ [d]) f"
  using assms resolve_name [OF assms]
  by (simp add: RemoveAll_def plain_name_def)

lemma RemoveAll_gone:
  "plain_name d \<Longrightarrow> is_dir f cwd \<Longrightarrow> prefix (cwd @ [d]) q \<Longrightarrow> node_at (RemoveAll f d) q = None"
  by (auto simp: RemoveAll_folder node_at_remove_tree)

lemma RemoveAll_same_outside:
  "plain_name d \<Longrightarrow> is_dir f cwd \<Longrightarrow> same_outside (cwd @ [d]) f (RemoveAll f d)"
  by (simp add: RemoveAll_folder same_outside_remove)

section \<open>Finding the file\<close>

lemma resolve_bin:
  assumes "plain_name d" and "is_dir f cwd" and "is_dir f (cwd @ [d])" and "CHR 0x00 \<notin> set x"
  shows "resolve f (d @ ''/bin/sc/'' @ x) =
     (case node_at f (cwd @ [d, ''bin'']) of
        None \<Rightarrow> Inl ENOENT
      | Some (File _) \<Rightarrow> Inl ENOTDIR
      | Some Dir \<Rightarrow> walk f (cwd @ [d, ''bin'', ''sc'']) (splitOn (CHR ''/'') x))"
proof -
  have "splitOn (CHR ''/'') (''bin/sc/'' @ x) = ''bin'' # ''sc'' # splitOn (CHR ''/'') x"
    using splitOn_append [of "CHR ''/''" "''bin''" "''sc/'' @ x"]
      splitOn_append [of "CHR ''/''" "''sc''" x] by simp
  then show ?thesis
    using assms resolve_in_dir [of d f "''bin/sc/'' @ x"]
    by (simp add: is_dir_def step_to_def split: option.splits node.splits)
qed

lemma csharpNef_no_bin:
  assumes "plain_name d" and "is_dir f cwd" and "is_dir f (cwd @ [d])"
    and "node_at f (cwd @ [d, ''bin'']) \<noteq> Some Dir"
  shows "csharpNef f d = d @ ''/bin/sc/.nef''"
proof -
  from assms(4) have "\<exists>err. resolve f (d @ ''/bin/sc/'') = Inl err"
    using resolve_bin [OF assms(1-3), of "[]"] by (auto split: option.splits node.splits)
  then have "\<exists>err. ReadDir f (d @ ''/bin/sc/'') = Inl err" by (auto simp: ReadDir_def)
  then show ?thesis by (auto simp: csharpNef_def GetNameBySuffix_def)
qed

text \<open>The first entry that fits, when one that fits is below all others that do.\<close>

lemma find_least:
  "sorted xs \<Longrightarrow> y \<in> set xs \<Longrightarrow> P y \<Longrightarrow> \<forall>x \<in> set xs. P x \<longrightarrow> y \<le> (x :: 'a :: linorder) \<Longrightarrow> find P xs = Some y"
  by (induction xs) (auto intro: antisym)

lemma children_member: "node_at f (p @ [n]) = Some x \<Longrightarrow> n \<in> set (children f p)"
proof -
  assume "node_at f (p @ [n]) = Some x"
  then have "(p @ [n], x) \<in> set f" by (simp add: node_at_def map_of_SomeD)
  then show ?thesis by (force simp: children_def image_iff)
qed

lemma matchesTail_nef [simp]: "matchesTail ''.nef'' (n @ ''.nef'')"
  by (simp add: matchesTail_def suffixByte_def)

lemma GetNameBySuffix_first:
  assumes "resolve f s = Inr p" and "is_dir f p" and "node_at f (p @ [n @ ''.nef'']) = Some x"
    and "\<forall>k \<in> set (children f p). matchesTail ''.nef'' k \<longrightarrow> n @ ''.nef'' \<le> k"
  shows "GetNameBySuffix f s ''.nef'' = (n, True)"
proof -
  have "find (matchesTail ''.nef'') (children f p) = Some (n @ ''.nef'')"
    using assms(4) children_member [OF assms(3)]
    by (intro find_least) (auto simp: children_def)
  with assms show ?thesis
    by (simp add: GetNameBySuffix_def ReadDir_def is_dir_def comp_def)
qed

lemma execCommand_boa:
  assumes "plain_name d" and "family m = ''neo3-boa''" and "selectCommand m d = Some sel"
    and "env_run e (theCommand d m sel) (wfs w) = Finished out f"
    and "is_dir f cwd" and "is_dir f (cwd @ [d])" and "plain_name (n @ ''.nef'')"
    and "node_at f (cwd @ [d, n @ ''.nef'']) = Some (File bs)" and "FileFromBytes bs = Ret (Inr nef)"
    and "\<forall>k \<in> set (children f (cwd @ [d])). matchesTail ''.nef'' k \<longrightarrow> n @ ''.nef'' \<le> k"
  shows "execCommand e d d m w =
     (Ret (b64encode (nfScript nef), m), afterRun (theCommand d m sel) f w)"
proof -
  have "GetNameBySuffix f (d @ ''/'') ''.nef'' = (n, True)"
    using GetNameBySuffix_first [OF resolve_dir_slash [OF assms(1,5,6)] assms(6), of n] assms(8,10)
    by simp
  then have "checkedNef f d m = (d @ ''/'' @ n @ ''.nef'', m)" and "loadedNef f d m = d @ ''/'' @ n @ ''.nef''"
    using assms(2) by (simp_all add: checkedNef_def loadedNef_def boaNef_def)
  moreover have "resolve f (d @ ''/'' @ n @ ''.nef'') = Inr (cwd @ [d, n @ ''.nef''])"
    using resolve_member [OF assms(1,7,5,6)] .
  ultimately have "takeNef d m (afterRun (theCommand d m sel) f w) =
      (Ret (b64encode (nfScript nef), m), afterRun (theCommand d m sel) f w)"
    using assms(8,9) by (simp add: takeNef_def Lstat_def IsNotExist_def loadScript_def ReadFile_def)
  with assms(3,4) show ?thesis
    by (cases rule: execCommand_cases [of m d e w]) auto
qed

lemma execCommand_bin_file:
  assumes "plain_name d" and "family m \<noteq> ''neo3-boa''" and "getVersion m \<noteq> ''neo-go''"
    and "getVersion m \<noteq> ''neow3j''" and "selectCommand m d = Some sel"
    and "env_run e (theCommand d m sel) (wfs w) = Finished out f"
    and "is_dir f cwd" and "is_dir f (cwd @ [d])"
    and "node_at f (cwd @ [d, ''bin'']) = Some (File bs)"
  shows "execCommand e d d m w = (Fatal ''read error'', afterRun (theCommand d m sel) f w)"
proof -
  have r: "resolve f (d @ ''/bin/sc/.nef'') = Inl ENOTDIR"
    using resolve_bin [OF assms(1,7,8), of "''.nef''"] assms(9) by simp
  have c: "csharpNef f d = d @ ''/bin/sc/.nef''"
    using csharpNef_no_bin [OF assms(1,7,8)] assms(9) by simp
  have "checkedNef f d m = (d @ ''/bin/sc/.nef'', m)" and "loadedNef f d m = d @ ''/bin/sc/.nef''"
    using assms(2-4) c by (simp_all add: checkedNef_def loadedNef_def)
  with r have "takeNef d m (afterRun (theCommand d m sel) f w) =
      (Fatal ''read error'', afterRun (theCommand d m sel) f w)"
    by (simp add: takeNef_def Lstat_def IsNotExist_def loadScript_def ReadFile_def)
  with assms(5,6) show ?thesis
    by (cases rule: execCommand_cases [of m d e w]) auto
qed

section \<open>Properties\<close>

text \<open>Every program and argument list the ladder can choose outside the Java branch.\<close>

definition fixedCommands :: "(string \<times> string list) list" where
  "fixedCommands =
     map (\<lambda>(_, venv). (''/bin/sh'', [''/go/application/pythonExec.sh'', venv])) boaEnvs
     @ [(''/bin/sh'', [''-c'', ''/go/application/goExec.sh'']), (''echo'', [])]
     @ map (\<lambda>(_, tool, args). (tool, args)) csharpTools
     @ map (\<lambda>(_, tool, args). (tool, args @ [''--no-optimize''])) csharpTools"

lemma map_of_image: "map_of xs k = Some v \<Longrightarrow> h (k, v) \<in> h ` set xs"
  by (blast dest: map_of_SomeD)

text \<open>
  C17. Outside the Java branch nothing of the request reaches the command line: the program
  and its arguments come from a fixed list.
\<close>

theorem command_from_list:
  assumes "getVersion m \<noteq> ''neow3j''" and "selectCommand m d = Some sel"
  shows "sel \<in> set fixedCommands"
proof (cases "map_of boaEnvs (getVersion m)")
  case (Some venv)
  with assms map_of_image [OF Some, of "\<lambda>(_, venv). (''/bin/sh'', [''/go/application/pythonExec.sh'', venv])"]
  show ?thesis by (auto simp: selectCommand_def fixedCommands_def)
next
  case None
  show ?thesis
  proof (cases "map_of csharpTools (getVersion m)")
    case (Some t)
    obtain tool args where t: "t = (tool, args)" by fastforce
    from assms None Some t
      map_of_image [OF Some, of "\<lambda>(_, tool, args). (tool, args)"]
      map_of_image [OF Some, of "\<lambda>(_, tool, args). (tool, args @ [''--no-optimize''])"]
    show ?thesis by (auto simp: selectCommand_def fixedCommands_def split: if_splits)
  qed (use assms None in \<open>auto simp: selectCommand_def fixedCommands_def split: if_splits\<close>)
qed

text \<open>
  In the Java branch the uploader chooses what the shell runs: for every text there is a
  value of \<open>JavaPackage\<close> that makes the argument of \<open>sh -c\<close> run it as a command of its own.
\<close>

theorem java_package_injection:
  assumes "getVersion m = ''neow3j''" and "getJavaPackage m = ''a;'' @ c @ '';''"
  shows "selectCommand m d =
     Some (''/bin/sh'', [''-c'', ''/go/application/javaExec.sh a;'' @ c @ ''; '' @ d])"
proof -
  have "map_of boaEnvs ''neow3j'' = None" by code_simp
  with assms show ?thesis by (simp add: selectCommand_def)
qed

text \<open>
  C15. What \<open>execCommand\<close> returns: one of three digits exactly when it has written an answer,
  and otherwise the script, in Base64, of a well-formed contract file that is on the disk.
\<close>

theorem execCommand_result:
  assumes "execCommand e d d m w = (Ret (s, m'), w')"
  shows "if s \<in> {''0'', ''1'', ''2''}
     then (\<exists>code msg. s = Itoa code \<and> wresp w' = answer code msg (wresp w))
     else (wresp w' = wresp w \<and>
       (\<exists>bs nef. ReadFile (wfs w') (loadedNef (wfs w') d m') = Inr bs
          \<and> FileFromBytes bs = Ret (Inr nef) \<and> wf_nef nef \<and> s = b64encode (nfScript nef)))"
  using assms
proof (cases rule: execCommand_Ret)
  case unknown
  moreover have "''0'' = Itoa 0" by code_simp
  ultimately show ?thesis by auto
next
  case nostart
  moreover have "''1'' = Itoa 1" by code_simp
  ultimately show ?thesis by auto
next
  case (nonef sel out f)
  moreover have "''2'' = Itoa 2" by code_simp
  ultimately show ?thesis by auto
next
  case (script sel out f bs nef)
  then show ?thesis using FileFromBytes_wf [OF script(6)] by auto
qed

text \<open>
  The neo-go branch looks for \<open>out.nef\<close> and then reads a file of \<open>bin/sc\<close>: when the
  compiler leaves \<open>out.nef\<close> and no folder \<open>bin\<close>, the request ends the server.
\<close>

theorem neo_go_ends_server:
  assumes "plain_name d" and "getVersion m = ''neo-go''" and "selectCommand m d = Some sel"
    and "env_run e (theCommand d m sel) (wfs w) = Finished out f"
    and "is_dir f cwd" and "is_dir f (cwd @ [d])"
    and "node_at f (cwd @ [d, ''out.nef'']) = Some (File bs)" and "node_at f (cwd @ [d, ''bin'']) = None"
  shows "\<exists>err. fst (execCommand e d d m w) = Fatal err"
proof -
  have fam: "family m \<noteq> ''neo3-boa''"
    using assms(2) by (simp add: family_def trimSpaces_def)
  have "resolve f (d @ ''/out.nef'') = Inr (cwd @ [d, ''out.nef''])"
    using resolve_member [of d "''out.nef''" f] assms(1,5,6) by (simp add: plain_name_def)
  then have "Lstat f (fst (checkedNef f d m)) = None"
    using assms(2,7) fam by (simp add: checkedNef_def Lstat_def)
  moreover have "resolve f (d @ ''/bin/sc/.nef'') = Inl ENOENT"
    using resolve_bin [OF assms(1,5,6), of "''.nef''"] assms(8) by simp
  then have "loadScript f (loadedNef f d m') = Fatal ''read error''" if "m' = m" for m'
    using assms(2,8) fam that csharpNef_no_bin [OF assms(1,5,6)]
    by (simp add: loadedNef_def loadScript_def ReadFile_def)
  moreover have "snd (checkedNef f d m) = m" using assms(2) fam by (simp add: checkedNef_def)
  ultimately show ?thesis
    using assms(3,4)
    by (cases rule: execCommand_cases [of m d e w];
        cases rule: takeNef_cases [of "afterRun (theCommand d m sel) f w" d m])
       (auto simp: IsNotExist_def loadScript_def split: sum.splits)
qed

text \<open>
  For the C\# compilers only a missing path counts as no result: a plain file named
  \<open>bin\<close> in the folder, which an upload can be, makes the check fail in another way, and the
  request ends the server.
\<close>

theorem csharp_bin_file_ends_server:
  assumes "plain_name d" and "family m \<noteq> ''neo3-boa''" and "getVersion m \<noteq> ''neo-go''"
    and "getVersion m \<noteq> ''neow3j''" and "selectCommand m d = Some sel"
    and "env_run e (theCommand d m sel) (wfs w) = Finished out f"
    and "is_dir f cwd" and "is_dir f (cwd @ [d])"
    and "node_at f (cwd @ [d, ''bin'']) = Some (File bs)"
  shows "execCommand e d d m w = (Fatal ''read error'', afterRun (theCommand d m sel) f w)"
  using assms by (rule execCommand_bin_file)

text \<open>
  C39. The Python branch takes the first file of the folder whose name fits, also one that
  was uploaded: such a contract file is what gets compared, whatever the compiler made of the
  sources.
\<close>

theorem uploaded_nef_is_compared:
  assumes "plain_name d" and "family m = ''neo3-boa''" and "selectCommand m d = Some sel"
    and "env_run e (theCommand d m sel) (wfs w) = Finished out f"
    and "is_dir f cwd" and "is_dir f (cwd @ [d])" and "plain_name (n @ ''.nef'')"
    and "node_at f (cwd @ [d, n @ ''.nef'']) = Some (File bs)" and "FileFromBytes bs = Ret (Inr nef)"
    and "\<forall>k \<in> set (children f (cwd @ [d])). matchesTail ''.nef'' k \<longrightarrow> n @ ''.nef'' \<le> k"
  shows "execCommand e d d m w =
     (Ret (b64encode (nfScript nef), m), afterRun (theCommand d m sel) f w)"
  using assms by (rule execCommand_boa)

text \<open>The branches of \<open>src/Web/pythonExec.sh\<close>: its argument and the environment it activates.\<close>

definition pythonBranches :: "(string \<times> string) list" where
  "pythonBranches =
     [(''boa113'', ''venv113''), (''boa112'', ''venv112''), (''boa111'', ''venv111''),
      (''boa110'', ''venv110''), (''boa101'', ''venv101''), (''boa100'', ''venv100''),
      (''boa090'', ''venv090''), (''boa083'', ''venv083''), (''boa082'', ''venv082''),
      (''boa081'', ''venv081''), (''boa080'', ''venv080''), (''boa071'', ''venv071''),
      (''boa070'', ''venv083'')]"

text \<open>The compiler the script runs for an accepted version, \<open>None\<close> when it runs none.\<close>

definition pythonVenv :: "string \<Rightarrow> string option" where
  "pythonVenv version = Option.bind (map_of boaEnvs version) (map_of pythonBranches)"

text \<open>
  The versions of \<open>neo3-boa\<close> the server accepts and its script does not compile: 0.11.4,
  0.3.0, 0.0.3 and 0.0.0 have no branch, and 0.7.0 is compiled by 0.8.3.
\<close>

theorem python_versions_not_compiled:
  "map fst (filter (\<lambda>(v, _). pythonVenv v = None) boaEnvs) =
     [''neo3-boa 0.11.4'', ''neo3-boa 0.3.0'', ''neo3-boa 0.0.3'', ''neo3-boa 0.0.0'']
   \<and> pythonVenv ''neo3-boa 0.7.0'' = pythonVenv ''neo3-boa 0.8.3''"
  by code_simp

subsection \<open>Witnesses\<close>

text \<open>A dictionary with a version, and the folder after a compiler that left some files.\<close>

definition sample_dict :: "string \<Rightarrow> dict1" where
  "sample_dict version = [''Contract'' \<mapsto> ''0xabc'', ''Version'' \<mapsto> version]"

definition sample_fs_with :: "(path \<times> node) list \<Rightarrow> fs" where
  "sample_fs_with xs = xs @ sample_fs_up"

definition leaving :: "fs \<Rightarrow> env" where
  "leaving f = sample_env\<lparr>env_run := (\<lambda>_ _. Finished [] f)\<rparr>"

lemma env_run_leaving [simp]: "env_run (leaving f) cmd g = Finished [] f"
  by (simp add: leaving_def)

lemma sample_getVersion [simp]: "getVersion (sample_dict v) = v"
  by (simp add: sample_dict_def getVersion_def)

theorem command_from_list_witness:
  "(''/go/application/b/nccs'', []) \<in> set fixedCommands"
proof -
  have "selectCommand ((sample_dict ''Neo.Compiler.CSharp 3.0.2'')(''CompileCommand'' \<mapsto> ''nccs'')) sample_folder
      = Some (''/go/application/b/nccs'', [])"
    by code_simp
  then show ?thesis
    using command_from_list [of "(sample_dict ''Neo.Compiler.CSharp 3.0.2'')(''CompileCommand'' \<mapsto> ''nccs'')"]
    by (simp add: getVersion_def sample_dict_def)
qed

theorem java_package_injection_witness:
  "selectCommand ((sample_dict ''neow3j'')(''JavaPackage'' \<mapsto> ''a;env;'')) sample_folder =
     Some (''/bin/sh'', [''-c'', ''/go/application/javaExec.sh a;env; 20220131083005''])"
  using java_package_injection [of "(sample_dict ''neow3j'')(''JavaPackage'' \<mapsto> ''a;env;'')" "''env''" sample_folder]
  by (simp add: getVersion_def getJavaPackage_def sample_dict_def sample_folder_def)

definition boa_fs :: fs where
  "boa_fs = sample_fs_with [(cwd @ [sample_folder, ''a.nef''], File (nefImage sample_nef))]"

definition boa_dict :: dict1 where
  "boa_dict = sample_dict ''neo3-boa 0.11.3''"

lemma boa_fs_facts:
  "is_dir boa_fs cwd" "is_dir boa_fs (cwd @ [sample_folder])"
  "node_at boa_fs (cwd @ [sample_folder, ''a.nef'']) = Some (File (nefImage sample_nef))"
  "\<forall>k \<in> set (children boa_fs (cwd @ [sample_folder])). k = ''a.nef''"
  by (simp_all add: boa_fs_def sample_fs_with_def sample_fs_up_def sample_fs_def is_dir_def node_at_def
      cwd_def children_def)

lemma boa_dict_facts:
  "family boa_dict = ''neo3-boa''"
  "selectCommand boa_dict d = Some (''/bin/sh'', [''/go/application/pythonExec.sh'', ''boa113''])"
  by (simp_all add: boa_dict_def family_def selectCommand_def boaEnvs_def trimSpaces_def)

lemma plain_a_nef: "plain_name (''a'' @ ''.nef'')"
  by code_simp

lemma boa_run:
  "\<exists>w'. execCommand (leaving boa_fs) sample_folder sample_folder boa_dict sample_world =
     (Ret (b64encode (nfScript sample_nef), boa_dict), w')"
  using execCommand_boa [of sample_folder boa_dict _ "leaving boa_fs" sample_world "[]" boa_fs "''a''"
      "nefImage sample_nef" sample_nef, OF _ boa_dict_facts env_run_leaving _ _ plain_a_nef]
    boa_fs_facts sample_nef_parses by simp

theorem uploaded_nef_is_compared_witness:
  "fst (execCommand (leaving boa_fs) sample_folder sample_folder boa_dict sample_world) =
     Ret (b64encode (nfScript sample_nef), boa_dict)"
  using uploaded_nef_is_compared [of sample_folder boa_dict _ "leaving boa_fs" sample_world "[]" boa_fs "''a''"
      "nefImage sample_nef" sample_nef, OF _ boa_dict_facts env_run_leaving _ _ plain_a_nef]
    boa_fs_facts sample_nef_parses by simp

theorem execCommand_result_witness:
  "\<exists>w' bs nef. execCommand (leaving boa_fs) sample_folder sample_folder boa_dict sample_world =
       (Ret (b64encode (nfScript nef), boa_dict), w')
     \<and> FileFromBytes bs = Ret (Inr nef) \<and> wf_nef nef"
proof -
  obtain w' where run: "execCommand (leaving boa_fs) sample_folder sample_folder boa_dict sample_world =
      (Ret (b64encode (nfScript sample_nef), boa_dict), w')"
    using boa_run by blast
  from execCommand_result [OF run] obtain bs nef where "FileFromBytes bs = Ret (Inr nef)" "wf_nef nef"
      "b64encode (nfScript sample_nef) = b64encode (nfScript nef)"
    by auto
  with run show ?thesis by metis
qed

definition go_fs :: fs where
  "go_fs = sample_fs_with [(cwd @ [sample_folder, ''out.nef''], File (nefImage sample_nef))]"

theorem neo_go_ends_server_witness:
  "\<exists>err. fst (execCommand (leaving go_fs) sample_folder sample_folder (sample_dict ''neo-go'') sample_world) = Fatal err"
proof (rule neo_go_ends_server)
  show "selectCommand (sample_dict ''neo-go'') sample_folder = Some (''/bin/sh'', [''-c'', ''/go/application/goExec.sh''])"
    by code_simp
  show "node_at go_fs (cwd @ [sample_folder, ''out.nef'']) = Some (File (nefImage sample_nef))"
    by (simp add: go_fs_def sample_fs_with_def node_at_def)
qed (simp_all add: go_fs_def sample_fs_with_def sample_fs_up_def sample_fs_def is_dir_def node_at_def cwd_def)

definition bin_fs :: fs where
  "bin_fs = sample_fs_with [(cwd @ [sample_folder, ''bin''], File ''x'')]"

theorem csharp_bin_file_ends_server_witness:
  "fst (execCommand (leaving bin_fs) sample_folder sample_folder
     (sample_dict ''Neo.Compiler.CSharp 3.0.0'') sample_world) = Fatal ''read error''"
proof -
  have "selectCommand (sample_dict ''Neo.Compiler.CSharp 3.0.0'') sample_folder = Some (''echo'', [])"
    and "family (sample_dict ''Neo.Compiler.CSharp 3.0.0'') \<noteq> ''neo3-boa''"
    and "is_dir bin_fs cwd" and "is_dir bin_fs (cwd @ [sample_folder])"
    and "node_at bin_fs (cwd @ [sample_folder, ''bin'']) = Some (File ''x'')"
    by code_simp+
  from csharp_bin_file_ends_server [OF sample_folder_plain this(2) _ _ this(1) env_run_leaving this(3,4,5)]
  show ?thesis by simp
qed

end
