(* ===== verification/ChainState.thy ===== *)
theory ChainState
  imports World
begin

text \<open>
  \<open>getContractState\<close> of \<open>src/Web/main.go\<close>: the request to the RPC node of the network
  the server runs for, and what is read from its reply.
\<close>

section \<open>The network\<close>

definition RPCNODEMAIN :: string where
  "RPCNODEMAIN = ''https://neofura.ngd.network''"

definition RPCNODETEST :: string where
  "RPCNODETEST = ''https://testneofura.ngd.network:444''"

definition RPCNODETESTMAGNET :: string where
  "RPCNODETESTMAGNET = ''https://testmagnet.ngd.network''"

text \<open>The value of \<open>RUNTIME\<close>: anything but the three names of networks is the main network.\<close>

definition runtimeOf :: "string \<Rightarrow> string" where
  "runtimeOf rt =
     (if rt \<noteq> ''mainnet'' \<and> rt \<noteq> ''testnet'' \<and> rt \<noteq> ''testmagnet'' then ''mainnet'' else rt)"

definition rpcNode :: "string \<Rightarrow> string" where
  "rpcNode rt =
     (if runtimeOf rt = ''testnet'' then RPCNODETEST
      else if runtimeOf rt = ''testmagnet'' then RPCNODETESTMAGNET
      else RPCNODEMAIN)"

section \<open>The reply\<close>

definition msgNoNode :: string where
  "msgNoNode = ''RPC Node doesn'' @ [CHR 0x27] @ ''t exsite! ''"

text \<open>The text at a path of the reply, as \<open>gjson.Get(body, path).String()\<close> gives it.\<close>

definition replyText :: "env \<Rightarrow> bytes \<Rightarrow> string \<Rightarrow> string" where
  "replyText e body path = resultString (env_formatFloat e) (Get matchLimit body path)"

definition replyError :: "env \<Rightarrow> bytes \<Rightarrow> bool" where
  "replyError e body = Exists (Get matchLimit body ''error'')"

text \<open>\<open>m2\<close> after a reply; the errors of \<open>strconv.Atoi\<close> are dropped.\<close>

definition replyCounters :: "env \<Rightarrow> bytes \<Rightarrow> dict2 \<Rightarrow> dict2" where
  "replyCounters e body m2 =
     m2(''id'' \<mapsto> Atoi (replyText e body ''result.id''),
        ''updateCounter'' \<mapsto> Atoi (replyText e body ''result.updatecounter''))"

section \<open>getContractState\<close>

text \<open>The result is the compiler's name, the script or an error digit, and the new \<open>m2\<close>.\<close>

definition getContractState ::
  "env \<Rightarrow> string \<Rightarrow> dict1 \<Rightarrow> dict2 \<Rightarrow> (world, string \<times> string \<times> dict2) prog" where
  "getContractState e pathFile m1 m2 = (\<lambda>w.
     let url = rpcNode (env_RUNTIME e); payload = marshalRpc (getContract m1);
         w1 = called (Posted url payload) w
     in case env_post e url payload of
          None \<Rightarrow>
            (Ret ('''', ''3'', m2),
             onFs (\<lambda>f. RemoveAll f pathFile) (onResp (answer 3 msgNoNode) w1))
        | Some body \<Rightarrow>
            if replyError e body then
              (Ret ('''', ''4'', m2),
               onFs (\<lambda>f. RemoveAll f pathFile)
                 (onResp (answer 4 (replyText e body ''error.message'')) w1))
            else
              (Ret (replyText e body ''result.nef.compiler'', replyText e body ''result.nef.script'',
                    replyCounters e body m2), w1))"

section \<open>The outcomes\<close>

lemma getContractState_cases:
  obtains (down) "env_post e (rpcNode (env_RUNTIME e)) (marshalRpc (getContract m1)) = None"
      and "getContractState e d m1 m2 w =
        (Ret ('''', ''3'', m2),
         onFs (\<lambda>f. RemoveAll f d) (onResp (answer 3 msgNoNode)
           (called (Posted (rpcNode (env_RUNTIME e)) (marshalRpc (getContract m1))) w)))"
  | (refused) body where
      "env_post e (rpcNode (env_RUNTIME e)) (marshalRpc (getContract m1)) = Some body"
      and "replyError e body"
      and "getContractState e d m1 m2 w =
        (Ret ('''', ''4'', m2),
         onFs (\<lambda>f. RemoveAll f d) (onResp (answer 4 (replyText e body ''error.message''))
           (called (Posted (rpcNode (env_RUNTIME e)) (marshalRpc (getContract m1))) w)))"
  | (replied) body where
      "env_post e (rpcNode (env_RUNTIME e)) (marshalRpc (getContract m1)) = Some body"
      and "\<not> replyError e body"
      and "getContractState e d m1 m2 w =
        (Ret (replyText e body ''result.nef.compiler'', replyText e body ''result.nef.script'',
              replyCounters e body m2),
         called (Posted (rpcNode (env_RUNTIME e)) (marshalRpc (getContract m1))) w)"
proof (cases "env_post e (rpcNode (env_RUNTIME e)) (marshalRpc (getContract m1))")
  case None
  then show thesis using down by (simp add: getContractState_def Let_def)
next
  case (Some body)
  then show thesis
    using refused replied by (cases "replyError e body") (simp_all add: getContractState_def Let_def)
qed

lemma replyCounters_get:
  "getId (replyCounters e body m2) = Atoi (replyText e body ''result.id'')"
  "getUpdateCounter (replyCounters e body m2) = Atoi (replyText e body ''result.updatecounter'')"
  by (simp_all add: replyCounters_def getId_def getUpdateCounter_def)

section \<open>Reading the reply\<close>

text \<open>A number written as an integer literal is read as that number when it fits 64 bits.\<close>

lemma Atoi_literal:
  "minInt \<le> v \<Longrightarrow> v \<le> maxInt \<Longrightarrow> rType t = JNumber \<Longrightarrow> rRaw t = Itoa v \<Longrightarrow> Atoi (resultString fmt t) = v"
proof -
  assume b: "minInt \<le> v" "v \<le> maxInt" and t: "rType t = JNumber" "rRaw t = Itoa v"
  obtain c cs where d: "dec (nat v) = c # cs" by (cases "dec (nat v)") auto
  have "resultString fmt t = Itoa v"
    using t d dec_head_digit [OF d] dec_digits [of "nat v"] dec_digits [of "nat (- v)"]
    by (auto simp: resultString_def Itoa_def)
  with Atoi_Itoa [OF b] show ?thesis by simp
qed

end
