(* ===== verification/Config.thy ===== *)
theory Config
  imports ChainState
begin

text \<open>
  \<open>OpenConfigFile\<close> and \<open>intializeMongoOnlineClient\<close> of \<open>src/Web/main.go\<close>: the
  configuration file, and the database of the network the server runs for.
\<close>

text \<open>\<open>config.yml\<close> is looked up in the working directory; \<open>None\<close> is the error.\<close>

definition OpenConfigFile :: "env \<Rightarrow> fs \<Rightarrow> Config option" where
  "OpenConfigFile e f =
     (case ReadFile f ''config.yml'' of
        Inl err \<Rightarrow> None
      | Inr text \<Rightarrow> env_yaml e text)"

definition networkConfig :: "string \<Rightarrow> Config \<Rightarrow> dbConfig" where
  "networkConfig rt cfg =
     (if runtimeOf rt = ''testnet'' then Database_test cfg
      else if runtimeOf rt = ''testmagnet'' then Database_testmagnet cfg
      else Database_main cfg)"

definition mongoURI :: "dbConfig \<Rightarrow> string" where
  "mongoURI c =
     ''mongodb://'' @ User c @ '':'' @ Pass c @ ''@'' @ Host c @ '':'' @ Port c @ ''/'' @ Database c"

text \<open>
  The client and the name of its database; the client is known by its URI. A server that is
  not reached ends this one.
\<close>

definition intializeMongoOnlineClient :: "env \<Rightarrow> Config \<Rightarrow> (world, dbkey) prog" where
  "intializeMongoOnlineClient e cfg =
     (let c = networkConfig (env_RUNTIME e) cfg; uri = mongoURI c
      in if \<not> env_connect e uri then fatal ''momgo connect error''
         else if \<not> env_ping e uri then fatal ''ping mongo error''
         else ret (uri, Database c))"

end
