(* ===== verification/Handler.thy ===== *)
theory Handler
  imports Upload Compiler Config
begin

text \<open>
  \<open>multipleFile\<close> of \<open>src/Web/main.go\<close>, the handler of \<open>/upload\<close>: the upload is
  received, compiled, compared with the script the RPC node has for the contract, and recorded
  with its sources when the two agree.
\<close>

section \<open>The sources\<close>

text \<open>Which files the loop passes over; the three comparisons are with the whole version text.\<close>

definition skippedSource :: "string \<Rightarrow> string \<Rightarrow> bool" where
  "skippedSource version name =
     (if version = ''neo3-boa'' then pathExt name \<noteq> ''.py''
      else if version = ''neow3j'' then pathExt name \<noteq> ''.java''
      else if version = ''neo-go'' then pathExt name \<noteq> ''.go''
      else False)"

text \<open>One entry of the folder: opened, read as a whole, and inserted.\<close>

definition recordSource :: "env \<Rightarrow> string \<Rightarrow> dbkey \<Rightarrow> dict1 \<Rightarrow> dict2 \<Rightarrow> string \<times> bool \<Rightarrow> (world, unit) prog" where
  "recordSource e pathFile key m1 m2 fi = (\<lambda>w.
     if snd fi then (Ret (), w)
     else if skippedSource (getVersion m1) (fst fi) then (Ret (), w)
     else case ReadFile (wfs w) (pathFile @ ''/'' @ fst fi) of
         Inl err \<Rightarrow> (Fatal ''open error'', w)
       | Inr buffer \<Rightarrow>
           (let sourceCode = \<lparr>sHash = getContract m1, sUpdatecounter = getUpdateCounter m2,
                              sFileName = fst fi, sCode = buffer\<rparr>
            in if env_insertSource e sourceCode
               then (Ret (), onDb key (addSource sourceCode) w)
               else (Fatal ''insert error'', w)))"

primrec recordSources :: "env \<Rightarrow> string \<Rightarrow> dbkey \<Rightarrow> dict1 \<Rightarrow> dict2 \<Rightarrow> (string \<times> bool) list \<Rightarrow> (world, unit) prog" where
  "recordSources e pathFile key m1 m2 [] = ret ()"
| "recordSources e pathFile key m1 m2 (fi # rd) =
     andThen (recordSource e pathFile key m1 m2 fi) (\<lambda>_. recordSources e pathFile key m1 m2 rd)"

text \<open>A folder that cannot be read is reported and taken as empty.\<close>

definition readFolder :: "string \<Rightarrow> fs \<Rightarrow> (string \<times> bool) list" where
  "readFolder pathFile f = (case ReadDir f (pathFile @ ''/'') of Inl err \<Rightarrow> [] | Inr rd \<Rightarrow> rd)"

section \<open>The comparison and its record\<close>

definition msgRecorded :: string where
  "msgRecorded = ''Verify done and record verified contract in database!''"

definition msgAlready :: string where
  "msgAlready = ''This contract has already been verified''"

definition msgMismatch :: string where
  "msgMismatch = ''Contract Source Code Verification error!''"

text \<open>\<open>FindOne(...).Err() == nil\<close>: the document is there and the server was reached.\<close>

definition foundVerified :: "env \<Rightarrow> dbkey \<Rightarrow> dict1 \<Rightarrow> dict2 \<Rightarrow> world \<Rightarrow> bool" where
  "foundVerified e key m1 m2 w =
     (env_find e key \<and> hasVerified (getContract m1) (getUpdateCounter m2) (wdb w key))"

definition insertVerified :: "env \<Rightarrow> dbkey \<Rightarrow> dict1 \<Rightarrow> dict2 \<Rightarrow> (world, unit) prog" where
  "insertVerified e key m1 m2 = (\<lambda>w.
     let v = \<lparr>vHash = getContract m1, vId = getId m2, vUpdatecounter = getUpdateCounter m2\<rparr>
     in if env_insertVerified e v then (Ret (), onDb key (addVerified v) w)
        else (Fatal ''insert error'', w))"

text \<open>Answer 5: the folder is renamed to the text the uploader sent as the contract.\<close>

definition finishRecorded :: "string \<Rightarrow> dict1 \<Rightarrow> world \<Rightarrow> world" where
  "finishRecorded pathFile m1 w =
     onResp (answer 5 msgRecorded) (onFs (\<lambda>f. RenameDir f pathFile (getContract m1)) w)"

definition finishAlready :: "string \<Rightarrow> world \<Rightarrow> world" where
  "finishAlready pathFile w =
     onResp (\<lambda>r. answer 6 msgAlready (headerSet ''Access-Control-Allow-Origin'' ''*'' r))
       (onFs (\<lambda>f. RemoveAll f pathFile) w)"

definition recordVerified :: "env \<Rightarrow> string \<Rightarrow> dbkey \<Rightarrow> dict1 \<Rightarrow> dict2 \<Rightarrow> (world, unit) prog" where
  "recordVerified e pathFile key m1 m2 =
     andThen (insertVerified e key m1 m2) (\<lambda>_.
     andThen (reads (\<lambda>w. readFolder pathFile (wfs w))) (\<lambda>rd.
     andThen (recordSources e pathFile key m1 m2 rd) (\<lambda>_.
     modify (finishRecorded pathFile m1))))"

text \<open>The branch for equal scripts: the configuration, the database, the lookup.\<close>

definition matched :: "env \<Rightarrow> string \<Rightarrow> dict1 \<Rightarrow> dict2 \<Rightarrow> (world, unit) prog" where
  "matched e pathFile m1 m2 =
     andThen (reads (\<lambda>w. OpenConfigFile e (wfs w))) (\<lambda>cfg.
     case cfg of
       None \<Rightarrow> fatal '' open file error''
     | Some c \<Rightarrow>
         andThen (intializeMongoOnlineClient e c) (\<lambda>key.
         andThen (reads (foundVerified e key m1 m2)) (\<lambda>found.
         if found then modify (finishAlready pathFile)
         else recordVerified e pathFile key m1 m2)))"

definition compareScripts :: "env \<Rightarrow> string \<Rightarrow> string \<Rightarrow> string \<Rightarrow> dict1 \<Rightarrow> dict2 \<Rightarrow> (world, unit) prog" where
  "compareScripts e pathFile chainNef sourceNef m1 m2 =
     (if sourceNef = chainNef then matched e pathFile m1 m2
      else modify (onResp (answer 8 msgMismatch)))"

section \<open>The handler\<close>

text \<open>From the compiler on; the digits are the errors of the two callees.\<close>

definition verifyUpload :: "env \<Rightarrow> string \<Rightarrow> string \<Rightarrow> dict1 \<Rightarrow> (world, unit) prog" where
  "verifyUpload e pathFile folderName m1 =
     andThen (execCommand e pathFile folderName m1) (\<lambda>(chainNef, m1').
     if chainNef = ''0'' \<or> chainNef = ''1'' \<or> chainNef = ''2'' then ret ()
     else
       andThen (getContractState e pathFile m1' Map.empty) (\<lambda>(version, sourceNef, m2).
       if sourceNef = ''3'' \<or> sourceNef = ''4'' then ret ()
       else compareScripts e pathFile chainNef sourceNef m1' m2))"

definition multipleFile :: "env \<Rightarrow> request \<Rightarrow> (world, unit) prog" where
  "multipleFile e r =
     andThen (createDateDir e) (\<lambda>(pathFile, folderName).
     case r of
       NotMultipart err \<Rightarrow> modify (onResp (httpError err 500))
     | Multipart parts eof \<Rightarrow>
         andThen (receiveParts pathFile parts eof Map.empty) (\<lambda>m1.
         verifyUpload e pathFile folderName m1))"

section \<open>The outcomes of the stages\<close>

text \<open>Which entries of the folder become documents, and the document of each.\<close>

definition wantedSources :: "dict1 \<Rightarrow> (string \<times> bool) list \<Rightarrow> (string \<times> bool) list" where
  "wantedSources m1 rd = filter (\<lambda>fi. \<not> snd fi \<and> \<not> skippedSource (getVersion m1) (fst fi)) rd"

definition sourceOf :: "fs \<Rightarrow> string \<Rightarrow> dict1 \<Rightarrow> dict2 \<Rightarrow> string \<times> bool \<Rightarrow> insertContractSourceCode" where
  "sourceOf f d m1 m2 fi =
     \<lparr>sHash = getContract m1, sUpdatecounter = getUpdateCounter m2, sFileName = fst fi,
      sCode = (case ReadFile f (d @ ''/'' @ fst fi) of Inl err \<Rightarrow> [] | Inr buffer \<Rightarrow> buffer)\<rparr>"

definition addSources :: "insertContractSourceCode list \<Rightarrow> db \<Rightarrow> db" where
  "addSources ss d = d\<lparr>sources := sources d @ ss\<rparr>"

lemma addSources_Nil [simp]: "addSources [] d = d"
  by (simp add: addSources_def)

lemma addSources_Cons [simp]: "addSources ss (addSource s d) = addSources (s # ss) d"
  by (simp add: addSources_def addSource_def)

lemma addSources_fields [simp]:
  "verified (addSources ss d) = verified d" "sources (addSources ss d) = sources d @ ss"
  by (simp_all add: addSources_def)

lemma addVerified_fields [simp]:
  "verified (addVerified v d) = verified d @ [v]" "sources (addVerified v d) = sources d"
  by (simp_all add: addVerified_def)

lemma onDb_onDb [simp]: "onDb k g (onDb k h w) = onDb k (\<lambda>d. g (h d)) w"
  by (simp add: onDb_def)

lemma onDb_id [simp]: "onDb k (\<lambda>d. d) w = w"
  by (simp add: onDb_def)

text \<open>
  The loop over the folder inserts the documents of the entries it wants, in order, up to the
  first that fails; the file system and the answer stay.
\<close>

lemma recordSource_cases:
  obtains (skipped) "snd fi \<or> skippedSource (getVersion m1) (fst fi)"
      and "recordSource e d key m1 m2 fi w = (Ret (), w)"
  | (stored) "\<not> snd fi" and "\<not> skippedSource (getVersion m1) (fst fi)"
      and "recordSource e d key m1 m2 fi w = (Ret (), onDb key (addSource (sourceOf (wfs w) d m1 m2 fi)) w)"
  | (died) err where "\<not> snd fi" and "\<not> skippedSource (getVersion m1) (fst fi)"
      and "recordSource e d key m1 m2 fi w = (Fatal err, w)"
      and "(\<exists>x. ReadFile (wfs w) (d @ ''/'' @ fst fi) = Inl x) \<or> \<not> env_insertSource e (sourceOf (wfs w) d m1 m2 fi)"
proof (cases "snd fi \<or> skippedSource (getVersion m1) (fst fi)")
  case True
  then show thesis using skipped by (auto simp: recordSource_def)
next
  case False
  show thesis
  proof (cases "ReadFile (wfs w) (d @ ''/'' @ fst fi)")
    case (Inl err)
    with False show thesis using died by (simp add: recordSource_def)
  next
    case (Inr buffer)
    with False show thesis
      using stored died
      by (cases "env_insertSource e (sourceOf (wfs w) d m1 m2 fi)") (simp_all add: recordSource_def sourceOf_def Let_def)
  qed
qed

lemma recordSources_outcome:
  "\<exists>n. snd (recordSources e d key m1 m2 rd w) =
         onDb key (addSources (map (sourceOf (wfs w) d m1 m2) (take n (wantedSources m1 rd)))) w
     \<and> (fst (recordSources e d key m1 m2 rd w) = Ret () \<and> length (wantedSources m1 rd) \<le> n
        \<or> (\<exists>err. fst (recordSources e d key m1 m2 rd w) = Fatal err))"
proof (induction rd arbitrary: w)
  case Nil
  show ?case by (rule exI [of _ 0]) (simp add: wantedSources_def)
next
  case (Cons fi rd)
  show ?case
  proof (cases rule: recordSource_cases [of fi m1 e d key m2 w])
    case skipped
    then show ?thesis using Cons [of w] by (auto simp: wantedSources_def)
  next
    case stored
    let ?w = "onDb key (addSource (sourceOf (wfs w) d m1 m2 fi)) w"
    from Cons [of ?w] obtain n where n:
      "snd (recordSources e d key m1 m2 rd ?w) =
         onDb key (addSources (map (sourceOf (wfs w) d m1 m2) (take n (wantedSources m1 rd)))) ?w"
      "fst (recordSources e d key m1 m2 rd ?w) = Ret () \<and> length (wantedSources m1 rd) \<le> n
        \<or> (\<exists>err. fst (recordSources e d key m1 m2 rd ?w) = Fatal err)"
      by auto
    have "wantedSources m1 (fi # rd) = fi # wantedSources m1 rd"
      using stored by (simp add: wantedSources_def)
    with stored n show ?thesis by (intro exI [of _ "Suc n"]) simp
  next
    case (died err)
    then show ?thesis by (intro exI [of _ 0]) simp
  qed
qed

text \<open>When every wanted file can be read and inserted, all of them are.\<close>

lemma recordSources_all:
  assumes "\<forall>fi \<in> set (wantedSources m1 rd). (\<exists>b. ReadFile (wfs w) (d @ ''/'' @ fst fi) = Inr b)
      \<and> env_insertSource e (sourceOf (wfs w) d m1 m2 fi)"
  shows "recordSources e d key m1 m2 rd w =
     (Ret (), onDb key (addSources (map (sourceOf (wfs w) d m1 m2) (wantedSources m1 rd))) w)"
  using assms
proof (induction rd arbitrary: w)
  case Nil
  then show ?case by (simp add: wantedSources_def)
next
  case (Cons fi rd)
  show ?case
  proof (cases rule: recordSource_cases [of fi m1 e d key m2 w])
    case skipped
    then show ?thesis using Cons.prems Cons.IH [of w] by (auto simp: wantedSources_def)
  next
    case stored
    then have "wantedSources m1 (fi # rd) = fi # wantedSources m1 rd"
      by (simp add: wantedSources_def)
    with stored Cons.prems Cons.IH [of "onDb key (addSource (sourceOf (wfs w) d m1 m2 fi)) w"]
    show ?thesis by simp
  next
    case (died err)
    then have "fi \<in> set (wantedSources m1 (fi # rd))" by (simp add: wantedSources_def)
    with died Cons.prems show ?thesis by auto
  qed
qed

text \<open>The document of the contract, and the database after it and the first \<open>n\<close> files.\<close>

definition verifiedOf :: "dict1 \<Rightarrow> dict2 \<Rightarrow> insertVerifiedContract" where
  "verifiedOf m1 m2 = \<lparr>vHash = getContract m1, vId = getId m2, vUpdatecounter = getUpdateCounter m2\<rparr>"

definition filesOf :: "fs \<Rightarrow> string \<Rightarrow> dict1 \<Rightarrow> dict2 \<Rightarrow> insertContractSourceCode list" where
  "filesOf f d m1 m2 = map (sourceOf f d m1 m2) (wantedSources m1 (readFolder d f))"

definition recordedDb :: "fs \<Rightarrow> string \<Rightarrow> dict1 \<Rightarrow> dict2 \<Rightarrow> nat \<Rightarrow> db \<Rightarrow> db" where
  "recordedDb f d m1 m2 n x = addSources (take n (filesOf f d m1 m2)) (addVerified (verifiedOf m1 m2) x)"

lemma recordedDb_fields [simp]:
  "verified (recordedDb f d m1 m2 n x) = verified x @ [verifiedOf m1 m2]"
  "sources (recordedDb f d m1 m2 n x) = sources x @ take n (filesOf f d m1 m2)"
  by (simp_all add: recordedDb_def)

lemma recordVerified_cases:
  obtains (refused) "recordVerified e d key m1 m2 w = (Fatal ''insert error'', w)"
      and "\<not> env_insertVerified e (verifiedOf m1 m2)"
  | (recorded) "recordVerified e d key m1 m2 w =
        (Ret (), finishRecorded d m1 (onDb key (recordedDb (wfs w) d m1 m2 (length (filesOf (wfs w) d m1 m2))) w))"
      and "env_insertVerified e (verifiedOf m1 m2)"
  | (partial) n err where
      "recordVerified e d key m1 m2 w = (Fatal err, onDb key (recordedDb (wfs w) d m1 m2 n) w)"
proof (cases "env_insertVerified e (verifiedOf m1 m2)")
  case False
  then show thesis
    using refused by (simp add: recordVerified_def insertVerified_def verifiedOf_def andThen_def)
next
  case True
  let ?w = "onDb key (addVerified (verifiedOf m1 m2)) w"
  let ?rd = "readFolder d (wfs w)"
  have step: "recordVerified e d key m1 m2 w =
      andThen (recordSources e d key m1 m2 ?rd) (\<lambda>_. modify (finishRecorded d m1)) ?w"
    using True by (simp add: recordVerified_def insertVerified_def verifiedOf_def)
  from recordSources_outcome [of e d key m1 m2 ?rd ?w]
  obtain n where n: "snd (recordSources e d key m1 m2 ?rd ?w) = onDb key (recordedDb (wfs w) d m1 m2 n) w"
      and out: "fst (recordSources e d key m1 m2 ?rd ?w) = Ret () \<and> length (filesOf (wfs w) d m1 m2) \<le> n
        \<or> (\<exists>err. fst (recordSources e d key m1 m2 ?rd ?w) = Fatal err)"
    by (auto simp: recordedDb_def [abs_def] filesOf_def take_map)
  from out show thesis
  proof
    assume r: "fst (recordSources e d key m1 m2 ?rd ?w) = Ret () \<and> length (filesOf (wfs w) d m1 m2) \<le> n"
    then have "recordedDb (wfs w) d m1 m2 n = recordedDb (wfs w) d m1 m2 (length (filesOf (wfs w) d m1 m2))"
      by (simp add: recordedDb_def fun_eq_iff)
    moreover have "recordSources e d key m1 m2 ?rd ?w = (Ret (), onDb key (recordedDb (wfs w) d m1 m2 n) w)"
      using r n by (simp add: prod_eq_iff)
    ultimately show thesis using recorded step True by simp
  next
    assume "\<exists>err. fst (recordSources e d key m1 m2 ?rd ?w) = Fatal err"
    then obtain err where "recordSources e d key m1 m2 ?rd ?w =
        (Fatal err, onDb key (recordedDb (wfs w) d m1 m2 n) w)"
      using n by (auto simp: prod_eq_iff)
    with step show thesis using partial by simp
  qed
qed

text \<open>The database of the request: the configuration of its network in \<open>config.yml\<close>.\<close>

definition keyOf :: "env \<Rightarrow> Config \<Rightarrow> dbkey" where
  "keyOf e cfg =
     (mongoURI (networkConfig (env_RUNTIME e) cfg), Database (networkConfig (env_RUNTIME e) cfg))"

lemma intializeMongoOnlineClient_eq:
  "intializeMongoOnlineClient e cfg =
     (if \<not> env_connect e (fst (keyOf e cfg)) then fatal ''momgo connect error''
      else if \<not> env_ping e (fst (keyOf e cfg)) then fatal ''ping mongo error''
      else ret (keyOf e cfg))"
  by (simp add: intializeMongoOnlineClient_def keyOf_def Let_def)

lemma matched_cases:
  obtains (died) err where "matched e d m1 m2 w = (Fatal err, w)"
  | (already) cfg where "OpenConfigFile e (wfs w) = Some cfg" and "foundVerified e (keyOf e cfg) m1 m2 w"
      and "matched e d m1 m2 w = (Ret (), finishAlready d w)"
  | (new) cfg where "OpenConfigFile e (wfs w) = Some cfg" and "\<not> foundVerified e (keyOf e cfg) m1 m2 w"
      and "matched e d m1 m2 w = recordVerified e d (keyOf e cfg) m1 m2 w"
proof (cases "OpenConfigFile e (wfs w)")
  case None
  then show thesis using died by (simp add: matched_def)
next
  case (Some cfg)
  show thesis
  proof (cases "env_connect e (fst (keyOf e cfg)) \<and> env_ping e (fst (keyOf e cfg))")
    case True
    with Some show thesis
      using already new
      by (cases "foundVerified e (keyOf e cfg) m1 m2 w")
         (simp_all add: matched_def intializeMongoOnlineClient_eq)
  next
    case False
    with Some show thesis
      using died
      by (cases "env_connect e (fst (keyOf e cfg))")
         (simp_all add: matched_def intializeMongoOnlineClient_eq andThen_def)
  qed
qed

text \<open>
  The request up to the comparison. \<open>asked e m w\<close> is the world after the question to the RPC
  node.
\<close>

definition asked :: "env \<Rightarrow> dict1 \<Rightarrow> world \<Rightarrow> world" where
  "asked e m w = called (Posted (rpcNode (env_RUNTIME e)) (marshalRpc (getContract m))) w"

definition replyOf :: "env \<Rightarrow> dict1 \<Rightarrow> bytes option" where
  "replyOf e m = env_post e (rpcNode (env_RUNTIME e)) (marshalRpc (getContract m))"

definition countersOf :: "env \<Rightarrow> bytes \<Rightarrow> dict2" where
  "countersOf e body = replyCounters e body Map.empty"

lemma asked_simps [simp]:
  "wfs (asked e m w) = wfs w" "wdb (asked e m w) = wdb w" "wresp (asked e m w) = wresp w"
  "wcalls (asked e m w) = wcalls w @ [Posted (rpcNode (env_RUNTIME e)) (marshalRpc (getContract m))]"
  by (simp_all add: asked_def)

lemma verifyUpload_cases:
  obtains (died) err w1 where "execCommand e d d m w = (Fatal err, w1)"
      and "verifyUpload e d d m w = (Fatal err, w1)"
  | (notCompiled) s m' w1 where "execCommand e d d m w = (Ret (s, m'), w1)" and "s \<in> {''0'', ''1'', ''2''}"
      and "verifyUpload e d d m w = (Ret (), w1)"
  | (noNode) s m' w1 where "execCommand e d d m w = (Ret (s, m'), w1)" and "s \<notin> {''0'', ''1'', ''2''}"
      and "replyOf e m' = None"
      and "verifyUpload e d d m w = (Ret (), failAndClean 3 msgNoNode d (asked e m' w1))"
  | (rpcError) s m' w1 body where "execCommand e d d m w = (Ret (s, m'), w1)" and "s \<notin> {''0'', ''1'', ''2''}"
      and "replyOf e m' = Some body" and "replyError e body"
      and "verifyUpload e d d m w =
        (Ret (), failAndClean 4 (replyText e body ''error.message'') d (asked e m' w1))"
  | (digit) s m' w1 body where "execCommand e d d m w = (Ret (s, m'), w1)" and "s \<notin> {''0'', ''1'', ''2''}"
      and "replyOf e m' = Some body" and "\<not> replyError e body"
      and "replyText e body ''result.nef.script'' \<in> {''3'', ''4''}"
      and "verifyUpload e d d m w = (Ret (), asked e m' w1)"
  | (compared) s m' w1 body where "execCommand e d d m w = (Ret (s, m'), w1)" and "s \<notin> {''0'', ''1'', ''2''}"
      and "replyOf e m' = Some body" and "\<not> replyError e body"
      and "replyText e body ''result.nef.script'' \<notin> {''3'', ''4''}"
      and "verifyUpload e d d m w =
        compareScripts e d s (replyText e body ''result.nef.script'') m' (countersOf e body) (asked e m' w1)"
proof -
  obtain out w1 where x: "execCommand e d d m w = (out, w1)" by fastforce
  show thesis
  proof (cases out)
    case (Panic err)
    with x show thesis using execCommand_no_panic by metis
  next
    case (Fatal err)
    with x show thesis using died by (simp add: verifyUpload_def)
  next
    case (Ret sm)
    obtain s m' where sm: "sm = (s, m')" by fastforce
    show thesis
    proof (cases "s \<in> {''0'', ''1'', ''2''}")
      case True
      with x Ret sm show thesis using notCompiled by (simp add: verifyUpload_def)
    next
      case False
      with x Ret sm have v: "verifyUpload e d d m w =
          andThen (getContractState e d m' Map.empty) (\<lambda>(version, sourceNef, m2).
            if sourceNef = ''3'' \<or> sourceNef = ''4'' then ret ()
            else compareScripts e d s sourceNef m' m2) w1"
        by (simp add: verifyUpload_def)
      show thesis
      proof (cases rule: getContractState_cases [of e m' d Map.empty w1])
        case down
        with x Ret sm False v show ?thesis
          using noNode by (simp add: asked_def replyOf_def failAndClean_def)
      next
        case (refused body)
        with x Ret sm False v show ?thesis
          using rpcError
          by (simp add: asked_def replyOf_def failAndClean_def)
      next
        case (replied body)
        with x Ret sm False v show ?thesis
          using digit compared
          by (cases "replyText e body ''result.nef.script'' \<in> {''3'', ''4''}")
             (simp_all add: asked_def replyOf_def countersOf_def)
      qed
    qed
  qed
qed

lemma compareScripts_cases:
  obtains (differ) "t \<noteq> s" and "compareScripts e d s t m1 m2 w = (Ret (), onResp (answer 8 msgMismatch) w)"
  | (equal) "t = s" and "compareScripts e d s t m1 m2 w = matched e d m1 m2 w"
  by (cases "t = s") (simp_all add: compareScripts_def)

text \<open>The world and the dictionary when the body has been received.\<close>

definition folderOf :: "env \<Rightarrow> string" where
  "folderOf e = formatDate (env_now e)"

definition startWorld :: "env \<Rightarrow> world \<Rightarrow> world" where
  "startWorld e w = snd (createDateDir e w)"

definition receivedWorld :: "env \<Rightarrow> part list \<Rightarrow> world \<Rightarrow> world" where
  "receivedWorld e ps w = onFs (receivedFs (folderOf e) ps) (startWorld e w)"

definition formOf :: "env \<Rightarrow> part list \<Rightarrow> dict1" where
  "formOf e ps = receivedDict (folderOf e) ps"

lemma startWorld_simps [simp]:
  "wdb (startWorld e w) = wdb w" "wresp (startWorld e w) = wresp w" "wcalls (startWorld e w) = wcalls w"
  by (simp_all add: startWorld_def createDateDir_def Let_def)

lemma receivedWorld_simps [simp]:
  "wdb (receivedWorld e ps w) = wdb w" "wresp (receivedWorld e ps w) = wresp w"
  "wcalls (receivedWorld e ps w) = wcalls w"
  "wfs (receivedWorld e ps w) = receivedFs (folderOf e) ps (wfs (startWorld e w))"
  by (simp_all add: receivedWorld_def)

lemma multipleFile_cases:
  obtains (bad) err where "r = NotMultipart err"
      and "multipleFile e r w = (Ret (), onResp (httpError err 500) (startWorld e w))"
  | (broken) ps where "r = Multipart ps False"
      and "multipleFile e r w =
        (Panic ''invalid memory address or nil pointer dereference'', receivedWorld e ps w)"
  | (body) ps where "r = Multipart ps True"
      and "multipleFile e r w =
        verifyUpload e (folderOf e) (folderOf e) (formOf e ps) (receivedWorld e ps w)"
proof -
  have start: "multipleFile e r w =
      (case r of
         NotMultipart err \<Rightarrow> modify (onResp (httpError err 500))
       | Multipart parts eof \<Rightarrow>
           andThen (receiveParts (folderOf e) parts eof Map.empty)
             (\<lambda>m1. verifyUpload e (folderOf e) (folderOf e) m1)) (startWorld e w)"
    unfolding multipleFile_def
    by (subst andThen_Ret [OF createDateDir_result])
       (simp add: startWorld_def folderOf_def split: request.splits)
  show thesis
  proof (cases r)
    case (NotMultipart err)
    with start bad show thesis by simp
  next
    case (Multipart ps eof)
    then show thesis
      using start broken body
      by (cases eof)
         (simp_all add: receiveParts_eq receivedWorld_def formOf_def andThen_def del: modify_apply)
  qed
qed

section \<open>What a request does to the databases\<close>

text \<open>
  The only way a database changes: everything up to the record went well. \<open>recordedAs\<close>
  gathers what is then known of the request; its last part is the database afterwards.
\<close>

definition compiledTo :: "env \<Rightarrow> part list \<Rightarrow> world \<Rightarrow> fs \<Rightarrow> dict1 \<Rightarrow> nefFile \<Rightarrow> bool" where
  "compiledTo e ps w f m' nef \<longleftrightarrow>
     (\<exists>sel out bs. selectCommand (formOf e ps) (folderOf e) = Some sel
        \<and> env_run e (theCommand (folderOf e) (formOf e ps) sel) (wfs (receivedWorld e ps w)) = Finished out f
        \<and> m' = snd (checkedNef f (folderOf e) (formOf e ps))
        \<and> ReadFile f (loadedNef f (folderOf e) m') = Inr bs \<and> FileFromBytes bs = Ret (Inr nef))"

lemma finish_wdb [simp]:
  "wdb (finishRecorded d m w) = wdb w" "wdb (finishAlready d w) = wdb w"
  by (simp_all add: finishRecorded_def finishAlready_def)

lemma onDb_wdb: "wdb (onDb k g w) = (wdb w)(k := g (wdb w k))"
  by simp

lemma compiledToI:
  assumes "execCommand e (folderOf e) (folderOf e) (formOf e ps) (receivedWorld e ps w) = (Ret (s, m'), w1)"
    and "s \<notin> {''0'', ''1'', ''2''}"
  obtains nef where "compiledTo e ps w (wfs w1) m' nef" and "s = b64encode (nfScript nef)"
    and "wdb w1 = wdb w" and "wresp w1 = wresp w" and "getContract m' = getContract (formOf e ps)"
  using assms(1)
proof (cases rule: execCommand_Ret)
  case (script sel out f bs nef)
  then show thesis
    using that [of nef] checkedNef_dict [of f "folderOf e" "formOf e ps"]
    by (auto simp: compiledTo_def)
qed (use assms(2) in auto)

lemma multipleFile_db:
  obtains (same) "wdb (snd (multipleFile e r w)) = wdb w"
  | (recorded) ps f m' nef body cfg n where "r = Multipart ps True"
      and "compiledTo e ps w f m' nef" and "getContract m' = getContract (formOf e ps)"
      and "replyOf e m' = Some body" and "\<not> replyError e body"
      and "replyText e body ''result.nef.script'' = b64encode (nfScript nef)"
      and "OpenConfigFile e f = Some cfg"
      and "\<not> (env_find e (keyOf e cfg) \<and>
             hasVerified (getContract m') (getUpdateCounter (countersOf e body)) (wdb w (keyOf e cfg)))"
      and "wdb (snd (multipleFile e r w)) =
        (wdb w)(keyOf e cfg := recordedDb f (folderOf e) m' (countersOf e body) n (wdb w (keyOf e cfg)))"
proof (cases rule: multipleFile_cases [of r e w])
  case (body ps)
  let ?W = "receivedWorld e ps w"
  have frame: "wdb w1 = wdb w"
    if "execCommand e (folderOf e) (folderOf e) (formOf e ps) ?W = (x, w1)" for x w1
    using execCommand_frame [of e "folderOf e" "formOf e ps" ?W] that by simp
  show thesis
  proof (cases rule: verifyUpload_cases [of e "folderOf e" "formOf e ps" ?W])
    case (compared s m' w1 b)
    from compiledToI [OF compared(1,2)]
    obtain nef where nef: "compiledTo e ps w (wfs w1) m' nef" "s = b64encode (nfScript nef)"
        "wdb w1 = wdb w" "getContract m' = getContract (formOf e ps)" by blast
    let ?A = "asked e m' w1"
    let ?t = "replyText e b ''result.nef.script''"
    have mf: "multipleFile e r w = compareScripts e (folderOf e) s ?t m' (countersOf e b) ?A"
      using body(2) compared(6) by simp
    show thesis
    proof (cases rule: compareScripts_cases [of ?t s e "folderOf e" m' "countersOf e b" ?A])
      case differ
      with mf nef(3) show thesis using same by simp
    next
      case equal
      show thesis
      proof (cases rule: matched_cases [of e "folderOf e" m' "countersOf e b" ?A])
        case (died err)
        with mf equal nef(3) show thesis using same by simp
      next
        case (already cfg)
        with mf equal nef(3) show thesis using same by simp
      next
        case (new cfg)
        then have found: "\<not> (env_find e (keyOf e cfg) \<and>
            hasVerified (getContract m') (getUpdateCounter (countersOf e b)) (wdb w (keyOf e cfg)))"
          using nef(3) by (simp add: foundVerified_def)
        have cfg: "OpenConfigFile e (wfs w1) = Some cfg" using new(1) by simp
        note rec = recorded [OF body(1) nef(1,4) compared(3,4) _ cfg found]
        show thesis
          using mf equal new(3) nef(2,3) same rec
          by (cases rule: recordVerified_cases [of e "folderOf e" "keyOf e cfg" m' "countersOf e b" ?A])
             auto
      qed
    qed
  qed (use body(2) frame same in auto)
qed (use same in auto)

section \<open>Keeping the working directory\<close>

lemma storeUpload_is_dir: "is_dir f q \<Longrightarrow> is_dir (storeUpload d p f) q"
proof -
  assume dir: "is_dir f q"
  show ?thesis
  proof (cases "\<exists>x. resolve f (d @ ''/'' @ FileName p) = Inr x \<and> node_at f x \<noteq> Some Dir")
    case True
    then obtain x where x: "resolve f (d @ ''/'' @ FileName p) = Inr x" "node_at f x \<noteq> Some Dir" by blast
    with dir have "q \<noteq> x" by (auto simp: is_dir_def)
    from storeUpload_at(2) [OF x this] dir show ?thesis by (simp add: is_dir_def)
  next
    case False
    with dir show ?thesis
      by (auto simp: storeUpload_def OpenWrite_def split: sum.splits option.splits node.splits)
  qed
qed

lemma receivedFs_is_dir: "is_dir f q \<Longrightarrow> is_dir (receivedFs d ps f) q"
proof (induction ps arbitrary: f)
  case (Cons p ps)
  have "is_dir (fsAfter d p f) q" using Cons.prems by (simp add: fsAfter_def storeUpload_is_dir)
  from Cons.IH [OF this] show ?case by (simp add: receivedFs_def)
qed (simp add: receivedFs_def)

lemma startWorld_is_dir: "is_dir (wfs w) cwd \<Longrightarrow> is_dir (wfs (startWorld e w)) cwd"
  by (simp add: startWorld_def createDateDir_world is_dir_def node_at_set uploadDir_def)

text \<open>What the handler relies on: no compiler removes the working directory.\<close>

definition keepsCwd :: "env \<Rightarrow> bool" where
  "keepsCwd e \<longleftrightarrow>
     (\<forall>cmd f out f'. env_run e cmd f = Finished out f' \<longrightarrow> is_dir f cwd \<longrightarrow> is_dir f' cwd)"

lemma receivedWorld_is_dir: "is_dir (wfs w) cwd \<Longrightarrow> is_dir (wfs (receivedWorld e ps w)) cwd"
  by (simp add: receivedFs_is_dir startWorld_is_dir)

lemma folderOf_plain [simp]: "plain_name (folderOf e)"
  by (simp add: folderOf_def formatDate_plain)

lemma uploadDir_folder: "uploadDir e = cwd @ [folderOf e]"
  by (simp add: uploadDir_def folderOf_def)

lemma compiledTo_is_dir:
  "compiledTo e ps w f m' nef \<Longrightarrow> keepsCwd e \<Longrightarrow> is_dir (wfs w) cwd \<Longrightarrow> is_dir f cwd"
  using receivedWorld_is_dir unfolding compiledTo_def keepsCwd_def by blast

text \<open>
  The file systems a request goes through: \<open>receivedBy\<close> holds the upload, \<open>leftBy\<close> is what the
  compiler of the ladder leaves when it is run on that.
\<close>

definition receivedBy :: "env \<Rightarrow> request \<Rightarrow> world \<Rightarrow> fs \<Rightarrow> bool" where
  "receivedBy e r w f \<longleftrightarrow> (\<exists>ps. r = Multipart ps True \<and> f = wfs (receivedWorld e ps w))"

definition leftBy :: "env \<Rightarrow> request \<Rightarrow> world \<Rightarrow> fs \<Rightarrow> bool" where
  "leftBy e r w f \<longleftrightarrow>
     (\<exists>ps sel out. r = Multipart ps True \<and> selectCommand (formOf e ps) (folderOf e) = Some sel
        \<and> env_run e (theCommand (folderOf e) (formOf e ps) sel) (wfs (receivedWorld e ps w)) = Finished out f)"

lemma compiledTo_left: "compiledTo e ps w f m' nef \<Longrightarrow> leftBy e (Multipart ps True) w f"
  by (auto simp: compiledTo_def leftBy_def)

lemma leftByI:
  assumes "execCommand e (folderOf e) (folderOf e) (formOf e ps) (receivedWorld e ps w) = (Ret (s, m'), w1)"
    and "s \<notin> {''0'', ''1'', ''2''}"
  shows "leftBy e (Multipart ps True) w (wfs w1)"
  using compiledToI [OF assms] compiledTo_left by metis

section \<open>The end of a request\<close>

text \<open>
  The ends of a request that returns, with the answer, the databases and the file system of each.
  \<open>Removed\<close>: an error answer, the folder is removed from what was received or, from answer 3 on,
  from what the compiler left. \<open>Left\<close>: an error answer, the file system is what the compiler left.
  \<open>Recorded\<close> and \<open>Already\<close> are the two good ends: the folder renamed to the contract, with its
  record, and removed. \<open>BadBody\<close> is the answer 500, with the new folder on the disk, and \<open>Silent\<close>
  no answer at all, after a script 3 or 4 of the reply.
\<close>

datatype ending = Removed int | Left int | Recorded | Already | BadBody | Silent

definition gone :: "env \<Rightarrow> world \<Rightarrow> bool" where
  "gone e w \<longleftrightarrow> (\<forall>q. prefix (uploadDir e) q \<longrightarrow> node_at (wfs w) q = None)"

fun endsAs :: "env \<Rightarrow> request \<Rightarrow> world \<Rightarrow> world \<Rightarrow> ending \<Rightarrow> bool" where
  "endsAs e r w w' (Removed code) =
     ((\<exists>msg. wresp w' = answer code msg (wresp w)) \<and> wdb w' = wdb w \<and> gone e w'
      \<and> (\<exists>f. (if code \<le> 1 then receivedBy e r w f else leftBy e r w f) \<and> wfs w' = RemoveAll f (folderOf e)))"
| "endsAs e r w w' (Left code) =
     ((\<exists>msg. wresp w' = answer code msg (wresp w)) \<and> wdb w' = wdb w \<and> leftBy e r w (wfs w'))"
| "endsAs e r w w' Recorded =
     (wresp w' = answer 5 msgRecorded (wresp w)
      \<and> (\<exists>ps f m' nef body cfg. r = Multipart ps True \<and> compiledTo e ps w f m' nef \<and> replyOf e m' = Some body
          \<and> OpenConfigFile e f = Some cfg \<and> wfs w' = RenameDir f (folderOf e) (getContract m')
          \<and> wdb w' = (wdb w)(keyOf e cfg :=
              \<lparr>verified = verified (wdb w (keyOf e cfg)) @ [verifiedOf m' (countersOf e body)],
               sources = sources (wdb w (keyOf e cfg)) @ filesOf f (folderOf e) m' (countersOf e body)\<rparr>)))"
| "endsAs e r w w' Already =
     (wresp w' = answer 6 msgAlready (headerSet ''Access-Control-Allow-Origin'' ''*'' (wresp w))
      \<and> wdb w' = wdb w \<and> gone e w' \<and> (\<exists>f. leftBy e r w f \<and> wfs w' = RemoveAll f (folderOf e)))"
| "endsAs e r w w' BadBody =
     ((\<exists>err. r = NotMultipart err \<and> wresp w' = httpError err 500 (wresp w)) \<and> wdb w' = wdb w
      \<and> wfs w' = wfs (startWorld e w) \<and> node_at (wfs w') (uploadDir e) \<noteq> None)"
| "endsAs e r w w' Silent =
     (wresp w' = wresp w \<and> wdb w' = wdb w \<and> leftBy e r w (wfs w')
      \<and> (\<exists>m' body. replyOf e m' = Some body \<and> replyText e body ''result.nef.script'' \<in> {''3'', ''4''}))"

lemma gone_RemoveAll: "is_dir f cwd \<Longrightarrow> wfs w' = RemoveAll f (folderOf e) \<Longrightarrow> gone e w'"
  using RemoveAll_gone [of "folderOf e" f] by (simp add: gone_def uploadDir_folder)

lemma recordedDb_all:
  "recordedDb f d m m2 (length (filesOf f d m m2)) x =
     \<lparr>verified = verified x @ [verifiedOf m m2], sources = sources x @ filesOf f d m m2\<rparr>"
  by (simp add: recordedDb_def addSources_def addVerified_def)

lemma afterRun_cwd:
  assumes "execCommand e d d m w = (Ret (s, m'), w1)" and "s \<notin> {''0'', ''1'', ''2''}"
    and "keepsCwd e" and "is_dir (wfs w) cwd"
  shows "is_dir (wfs w1) cwd"
  using assms(1)
proof (cases rule: execCommand_Ret)
  case (script sel out f bs nef)
  with assms(3,4) show ?thesis by (auto simp: keepsCwd_def)
qed (use assms(2) in auto)

lemma execCommand_silent:
  assumes "execCommand e d d m w = (Ret (s, m'), w1)" and "s \<notin> {''0'', ''1'', ''2''}"
  shows "wresp w1 = wresp w"
  using assms(1)
proof (cases rule: execCommand_Ret)
  case (script sel out f bs nef)
  then show ?thesis by simp
qed (use assms(2) in auto)

definition endings :: "ending set" where
  "endings = {Removed 0, Removed 1, Left 2, Removed 3, Removed 4, Recorded, Already, Left 8, BadBody, Silent}"

lemma endings_verify:
  assumes run: "verifyUpload e (folderOf e) (folderOf e) (formOf e ps) (receivedWorld e ps w) = (Ret (), w')"
    and cwd: "is_dir (wfs w) cwd" and keep: "keepsCwd e"
  shows "\<exists>en \<in> endings. endsAs e (Multipart ps True) w w' en"
proof -
  let ?W = "receivedWorld e ps w" and ?m = "formOf e ps" and ?r = "Multipart ps True"
  have W: "is_dir (wfs ?W) cwd" by (rule receivedWorld_is_dir [OF cwd])
  have rec: "receivedBy e ?r w (wfs ?W)" by (auto simp: receivedBy_def)
  show ?thesis
  proof (cases rule: verifyUpload_cases [of e "folderOf e" ?m ?W])
    case (died err w1)
    with run show ?thesis by simp
  next
    case (notCompiled s m' w1)
    from notCompiled(1) show ?thesis
    proof (cases rule: execCommand_Ret)
      case unknown
      with run notCompiled W rec have "endsAs e ?r w w' (Removed 0)" by (auto intro: gone_RemoveAll)
      then show ?thesis by (auto simp: endings_def)
    next
      case nostart
      with run notCompiled W rec have "endsAs e ?r w w' (Removed 1)" by (auto intro: gone_RemoveAll)
      then show ?thesis by (auto simp: endings_def)
    next
      case (nonef sel out f)
      then have "leftBy e ?r w f" unfolding leftBy_def by blast
      with nonef run notCompiled have "endsAs e ?r w w' (Left 2)" by auto
      then show ?thesis by (auto simp: endings_def)
    next
      case (script sel out f bs nef)
      with notCompiled(2) show ?thesis by simp
    qed
  next
    case (noNode s m' w1)
    with run afterRun_cwd [OF noNode(1,2) keep W] execCommand_frame [of e "folderOf e" ?m ?W]
      execCommand_silent [OF noNode(1,2)] leftByI [OF noNode(1,2)]
    have "endsAs e ?r w w' (Removed 3)" by (auto intro: gone_RemoveAll)
    then show ?thesis by (auto simp: endings_def)
  next
    case (rpcError s m' w1 body)
    with run afterRun_cwd [OF rpcError(1,2) keep W] execCommand_frame [of e "folderOf e" ?m ?W]
      execCommand_silent [OF rpcError(1,2)] leftByI [OF rpcError(1,2)]
    have "endsAs e ?r w w' (Removed 4)" by (auto intro: gone_RemoveAll)
    then show ?thesis by (auto simp: endings_def)
  next
    case (digit s m' w1 body)
    with run execCommand_frame [of e "folderOf e" ?m ?W] execCommand_silent [OF digit(1,2)] leftByI [OF digit(1,2)]
    have "endsAs e ?r w w' Silent" by auto
    then show ?thesis by (auto simp: endings_def)
  next
    case (compared s m' w1 body)
    let ?t = "replyText e body ''result.nef.script''"
    let ?A = "asked e m' w1"
    have same: "wdb w1 = wdb w" "wresp w1 = wresp w"
      using execCommand_frame [of e "folderOf e" ?m ?W] execCommand_silent [OF compared(1,2)] compared(1)
      by auto
    have dir: "is_dir (wfs w1) cwd" by (rule afterRun_cwd [OF compared(1,2) keep W])
    note left = leftByI [OF compared(1,2)]
    show ?thesis
    proof (cases rule: compareScripts_cases [of ?t s e "folderOf e" m' "countersOf e body" ?A])
      case differ
      with run compared(6) same left have "endsAs e ?r w w' (Left 8)" by auto
      then show ?thesis by (auto simp: endings_def)
    next
      case equal
      show ?thesis
      proof (cases rule: matched_cases [of e "folderOf e" m' "countersOf e body" ?A])
        case (died err)
        with run compared(6) equal show ?thesis by simp
      next
        case (already cfg)
        with run compared(6) equal same dir left have "endsAs e ?r w w' Already"
          by (auto simp: finishAlready_def intro: gone_RemoveAll)
        then show ?thesis by (auto simp: endings_def)
      next
        case (new cfg)
        from compiledToI [OF compared(1,2)] obtain nef where nef: "compiledTo e ps w (wfs w1) m' nef" by blast
        have cfg: "OpenConfigFile e (wfs w1) = Some cfg" using new(1) by simp
        have "endsAs e ?r w w' Recorded"
        proof (cases rule: recordVerified_cases [of e "folderOf e" "keyOf e cfg" m' "countersOf e body" ?A])
          case recorded
          then show ?thesis
            using run compared(6) equal same new(3)
            by (simp add: finishRecorded_def recordedDb_all)
               (intro exI [of _ "wfs w1"] exI [of _ m'] exI [of _ body] exI [of _ cfg] conjI exI [of _ nef] nef compared(3) cfg; auto)
        qed (use run compared(6) equal new(3) in simp_all)
        then show ?thesis by (auto simp: endings_def)
      qed
    qed
  qed
qed

lemma compareScripts_no_panic: "fst (compareScripts e d s t m m2 w) \<noteq> Panic err"
proof (cases rule: compareScripts_cases [of t s e d m m2 w])
  case equal
  show ?thesis
  proof (cases rule: matched_cases [of e d m m2 w])
    case (new cfg)
    with equal show ?thesis
      by (cases rule: recordVerified_cases [of e d "keyOf e cfg" m m2 w]) simp_all
  qed (use equal in simp_all)
qed simp

text \<open>The good run, put together from its stages.\<close>

definition scriptsAgree :: "env \<Rightarrow> part list \<Rightarrow> world \<Rightarrow> world \<Rightarrow> dict1 \<Rightarrow> bytes \<Rightarrow> bool" where
  "scriptsAgree e ps w w1 m' body \<longleftrightarrow>
     (\<exists>s. execCommand e (folderOf e) (folderOf e) (formOf e ps) (receivedWorld e ps w) = (Ret (s, m'), w1)
        \<and> s \<notin> {''0'', ''1'', ''2''} \<and> replyOf e m' = Some body \<and> \<not> replyError e body
        \<and> replyText e body ''result.nef.script'' = s)"

lemma scriptsAgree_run:
  assumes "scriptsAgree e ps w w1 m' body"
  shows "multipleFile e (Multipart ps True) w = matched e (folderOf e) m' (countersOf e body) (asked e m' w1)"
proof -
  let ?t = "replyText e body ''result.nef.script''"
  from assms have x: "execCommand e (folderOf e) (folderOf e) (formOf e ps) (receivedWorld e ps w) = (Ret (?t, m'), w1)"
    and t: "?t \<notin> {''0'', ''1'', ''2''}" and b: "replyOf e m' = Some body" "\<not> replyError e body"
    by (auto simp: scriptsAgree_def)
  from x have n: "?t \<notin> {''3'', ''4''}"
    by (cases rule: execCommand_Ret) (use t in auto)
  have v: "verifyUpload e (folderOf e) (folderOf e) (formOf e ps) (receivedWorld e ps w) =
      matched e (folderOf e) m' (countersOf e body) (asked e m' w1)"
    by (cases rule: verifyUpload_cases [of e "folderOf e" "formOf e ps" "receivedWorld e ps w"])
       (use x t b n in \<open>auto simp: compareScripts_def\<close>)
  show ?thesis
    by (cases rule: multipleFile_cases [of "Multipart ps True" e w]) (use v in auto)
qed

lemma matched_reached:
  assumes "OpenConfigFile e (wfs w) = Some cfg" and "env_connect e (fst (keyOf e cfg))" and "env_ping e (fst (keyOf e cfg))"
  shows "matched e d m1 m2 w =
     (if foundVerified e (keyOf e cfg) m1 m2 w then (Ret (), finishAlready d w)
      else recordVerified e d (keyOf e cfg) m1 m2 w)"
  using assms by (simp add: matched_def intializeMongoOnlineClient_eq)

lemma recordVerified_all:
  assumes "env_insertVerified e (verifiedOf m1 m2)"
    and "\<forall>fi \<in> set (wantedSources m1 (readFolder d (wfs w))).
        (\<exists>b. ReadFile (wfs w) (d @ ''/'' @ fst fi) = Inr b) \<and> env_insertSource e (sourceOf (wfs w) d m1 m2 fi)"
  shows "recordVerified e d key m1 m2 w =
    (Ret (), finishRecorded d m1 (onDb key (recordedDb (wfs w) d m1 m2 (length (filesOf (wfs w) d m1 m2))) w))"
proof -
  let ?w = "onDb key (addVerified (verifiedOf m1 m2)) w"
  have "recordSources e d key m1 m2 (readFolder d (wfs w)) ?w =
      (Ret (), onDb key (addSources (map (sourceOf (wfs ?w) d m1 m2) (wantedSources m1 (readFolder d (wfs w))))) ?w)"
    by (rule recordSources_all) (use assms(2) in simp)
  then show ?thesis
    using assms(1)
    by (simp add: recordVerified_def insertVerified_def verifiedOf_def recordedDb_def [abs_def] filesOf_def)
qed

lemma compareScripts_calls: "wcalls (snd (compareScripts e d s t m m2 w)) = wcalls w"
proof (cases rule: compareScripts_cases [of t s e d m m2 w])
  case equal
  show ?thesis
  proof (cases rule: matched_cases [of e d m m2 w])
    case (new cfg)
    with equal show ?thesis
      by (cases rule: recordVerified_cases [of e d "keyOf e cfg" m m2 w]) (simp_all add: finishRecorded_def)
  qed (use equal in \<open>simp_all add: finishAlready_def\<close>)
qed simp

section \<open>Properties\<close>

text \<open>
  C1. A contract is recorded as verified only when it is: whatever the request and the other
  programs do, a document that is new in the collection names the contract of the form, and a
  well-formed contract file the compiler stage found has the very script the RPC node of the
  server's network replied for that contract; identifier and update counter are those of the
  reply.
\<close>

theorem verification_sound:
  assumes "v \<in> set (verified (wdb (snd (multipleFile e r w)) k))" and "v \<notin> set (verified (wdb w k))"
  shows "\<exists>ps f m' nef body. r = Multipart ps True \<and> compiledTo e ps w f m' nef \<and> wf_nef nef
     \<and> vHash v = getContract (formOf e ps)
     \<and> env_post e (rpcNode (env_RUNTIME e)) (marshalRpc (vHash v)) = Some body \<and> \<not> replyError e body
     \<and> (\<forall>script. replyText e body ''result.nef.script'' = b64encode script \<longleftrightarrow> script = nfScript nef)
     \<and> vId v = Atoi (replyText e body ''result.id'')
     \<and> vUpdatecounter v = Atoi (replyText e body ''result.updatecounter'')"
proof (cases rule: multipleFile_db [of e r w])
  case same
  with assms show ?thesis by simp
next
  case (recorded ps f m' nef body cfg n)
  then have v: "v = verifiedOf m' (countersOf e body)"
    using assms by (cases "k = keyOf e cfg") auto
  have "wf_nef nef" using recorded(2) by (auto simp: compiledTo_def intro: FileFromBytes_wf)
  with recorded v show ?thesis
    by (intro exI [of _ ps] exI [of _ f] exI [of _ m'] exI [of _ nef] exI [of _ body])
       (auto simp: verifiedOf_def countersOf_def replyCounters_get replyOf_def b64.enc_eq_iff)
qed

text \<open>
  C5. The databases only grow, by one contract at a time: no document is changed or lost, and a
  request adds at most one contract. It goes to the database of the network the server runs for:
  the one of the configuration file, as the compiler left it, under \<open>database_test\<close> for the runtime
  \<open>testnet\<close>, under \<open>database_testmagnet\<close> for \<open>testmagnet\<close> and under \<open>database_main\<close> for any
  other. Every source file it adds carries the hash and the update counter of that contract.
\<close>

theorem databases_grow:
  "let w' = snd (multipleFile e r w) in
     wdb w' = wdb w
     \<or> (\<exists>f cfg c k v ss. leftBy e r w f \<and> OpenConfigFile e f = Some cfg
          \<and> c = (if env_RUNTIME e = ''testnet'' then Database_test cfg
                 else if env_RUNTIME e = ''testmagnet'' then Database_testmagnet cfg else Database_main cfg)
          \<and> k = (''mongodb://'' @ User c @ '':'' @ Pass c @ ''@'' @ Host c @ '':'' @ Port c @ ''/'' @ Database c, Database c)
          \<and> (\<forall>k'. k' \<noteq> k \<longrightarrow> wdb w' k' = wdb w k')
          \<and> verified (wdb w' k) = verified (wdb w k) @ [v]
          \<and> sources (wdb w' k) = sources (wdb w k) @ ss
          \<and> (\<forall>s \<in> set ss. sHash s = vHash v \<and> sUpdatecounter s = vUpdatecounter v))"
proof (cases rule: multipleFile_db [of e r w])
  case same
  then show ?thesis by simp
next
  case (recorded ps f m' nef body cfg n)
  let ?v = "verifiedOf m' (countersOf e body)" and ?ss = "take n (filesOf f (folderOf e) m' (countersOf e body))"
  have k: "keyOf e cfg = (mongoURI (networkConfig (env_RUNTIME e) cfg), Database (networkConfig (env_RUNTIME e) cfg))"
    by (simp add: keyOf_def)
  have c: "networkConfig (env_RUNTIME e) cfg = (if env_RUNTIME e = ''testnet'' then Database_test cfg
                 else if env_RUNTIME e = ''testmagnet'' then Database_testmagnet cfg else Database_main cfg)"
    by (simp add: networkConfig_def runtimeOf_def)
  have ss: "\<forall>s \<in> set ?ss. sHash s = vHash ?v \<and> sUpdatecounter s = vUpdatecounter ?v"
    by (auto simp: filesOf_def sourceOf_def verifiedOf_def dest!: in_set_takeD)
  have left: "leftBy e r w f" using compiledTo_left [OF recorded(2)] recorded(1) by simp
  have db: "wdb (snd (multipleFile e r w)) k' = wdb w k'" if "k' \<noteq> keyOf e cfg" for k'
    using recorded(9) that by simp
  have new: "verified (wdb (snd (multipleFile e r w)) (keyOf e cfg)) = verified (wdb w (keyOf e cfg)) @ [?v]"
    "sources (wdb (snd (multipleFile e r w)) (keyOf e cfg)) = sources (wdb w (keyOf e cfg)) @ ?ss"
    by (simp_all only: recorded(9) fun_upd_same recordedDb_fields)
  show ?thesis
    unfolding Let_def
    by (intro disjI2 exI [of _ f] exI [of _ cfg] exI [of _ "networkConfig (env_RUNTIME e) cfg"] exI [of _ "keyOf e cfg"]
          exI [of _ ?v] exI [of _ ?ss] conjI left recorded(7) c k [unfolded mongoURI_def] ss new)
       (simp add: db)
qed

text \<open>
  C4. The end of every request that returns: one of the ten endings. Answers 0, 1, 3, 4 and 6
  come with the folder removed; after 2 and 8 the file system is what the compiler left, and
  after 500 the new folder stays; after 5 the folder has the name of the contract, which is in
  the database of its network with every wanted file, and no other ending changes a database;
  the request answers nothing only when the reply has 3 or 4 for a script.
\<close>

theorem request_endings:
  assumes "is_dir (wfs w) cwd" and "keepsCwd e" and "multipleFile e r w = (Ret (), w')"
  shows "\<exists>en \<in> endings. endsAs e r w w' en"
proof (cases rule: multipleFile_cases [of r e w])
  case (bad err)
  have "node_at (wfs (startWorld e w)) (uploadDir e) \<noteq> None"
    using assms(1) by (simp add: startWorld_def createDateDir_world node_at_set uploadDir_def)
  with assms(3) bad have "endsAs e r w w' BadBody" by auto
  then show ?thesis by (rule bexI) (simp add: endings_def)
next
  case (broken ps)
  with assms(3) show ?thesis by simp
next
  case (body ps)
  with assms(3) have "verifyUpload e (folderOf e) (folderOf e) (formOf e ps) (receivedWorld e ps w) = (Ret (), w')"
    by simp
  from endings_verify [OF this assms(1,2)] body(1) show ?thesis by simp
qed

lemma verified_recordedDb: "verified (recordedDb f d m m2 n x) = verified (addVerified (verifiedOf m m2) x)"
  by simp

lemma request_keeps_distinct:
  assumes find: "\<forall>k. env_find e k" and nodup: "\<forall>k. distinct (map vKey (verified (wdb w k)))"
  shows "distinct (map vKey (verified (wdb (snd (multipleFile e r w)) k)))"
proof -
  have D: "distinct (map vKey (verified (wdb w k)))" for k using nodup by (rule spec)
  show ?thesis
  proof (cases rule: multipleFile_db [of e r w])
    case same
    with D show ?thesis by simp
  next
    case (recorded ps f m' nef body cfg n)
    let ?v = "verifiedOf m' (countersOf e body)"
    have "\<not> hasVerified (vHash ?v) (vUpdatecounter ?v) (wdb w (keyOf e cfg))"
      using recorded(8) spec [OF find, of "keyOf e cfg"] by (simp add: verifiedOf_def)
    then have "distinct (map vKey (verified (addVerified ?v (wdb w (keyOf e cfg)))))"
      using D by (intro contracts.distinct_add) (simp_all add: vKey_def)
    with recorded(9) D show ?thesis
      by (cases "k = keyOf e cfg") (simp_all only: verified_recordedDb fun_upd_same fun_upd_other simp_thms)
  qed
qed

text \<open>
  C6. No contract is recorded twice by requests handled one after another: when the lookups
  reach the server, a request keeps the pairs of hash and update counter of each database
  distinct.
\<close>

theorem no_duplicate_records:
  assumes "\<forall>k. env_find e k" and "\<forall>k. distinct (map vKey (verified (wdb w k)))"
  shows "distinct (map vKey (verified (wdb (snd (multipleFile e r w)) k)))"
  by (rule request_keeps_distinct [OF assms])

text \<open>
  C7. A request panics exactly when its body breaks off: the slices, the dictionary accesses
  and the parsers of the handler never do.
\<close>

theorem panics_iff_broken_body:
  "(\<exists>err. fst (multipleFile e r w) = Panic err) \<longleftrightarrow> (\<exists>ps. r = Multipart ps False)"
proof (cases rule: multipleFile_cases [of r e w])
  case (body ps)
  have "fst (verifyUpload e (folderOf e) (folderOf e) (formOf e ps) (receivedWorld e ps w)) \<noteq> Panic err" for err
  proof (cases rule: verifyUpload_cases [of e "folderOf e" "formOf e ps" "receivedWorld e ps w"])
    case (compared s m' w1 b)
    then show ?thesis by (simp add: compareScripts_no_panic)
  qed simp_all
  with body show ?thesis by auto
qed auto

text \<open>
  C2. A contract that can be verified is recorded: when the scripts agree, the database is
  reached and does not know the contract, and its insertions succeed, the request ends with
  answer 5, the contract and every wanted file of the folder are in the database, with the
  bytes the folder had, and the folder is renamed.
\<close>

theorem verification_complete:
  assumes "scriptsAgree e ps w w1 m' body" and "OpenConfigFile e (wfs w1) = Some cfg"
    and "env_connect e (fst (keyOf e cfg))" and "env_ping e (fst (keyOf e cfg))"
    and "\<not> foundVerified e (keyOf e cfg) m' (countersOf e body) w1"
    and "env_insertVerified e (verifiedOf m' (countersOf e body))"
    and "\<forall>fi \<in> set (wantedSources m' (readFolder (folderOf e) (wfs w1))).
        (\<exists>b. ReadFile (wfs w1) (folderOf e @ ''/'' @ fst fi) = Inr b)
        \<and> env_insertSource e (sourceOf (wfs w1) (folderOf e) m' (countersOf e body) fi)"
  shows "\<exists>w'. multipleFile e (Multipart ps True) w = (Ret (), w')
     \<and> wresp w' = answer 5 msgRecorded (wresp w1)
     \<and> verified (wdb w' (keyOf e cfg)) = verified (wdb w1 (keyOf e cfg)) @ [verifiedOf m' (countersOf e body)]
     \<and> sources (wdb w' (keyOf e cfg)) =
         sources (wdb w1 (keyOf e cfg)) @ filesOf (wfs w1) (folderOf e) m' (countersOf e body)
     \<and> wfs w' = RenameDir (wfs w1) (folderOf e) (getContract m')"
proof -
  let ?A = "asked e m' w1"
  have "\<not> foundVerified e (keyOf e cfg) m' (countersOf e body) ?A"
    using assms(5) by (simp add: foundVerified_def)
  then have run: "multipleFile e (Multipart ps True) w =
      recordVerified e (folderOf e) (keyOf e cfg) m' (countersOf e body) ?A"
    using scriptsAgree_run [OF assms(1)] matched_reached [of e ?A cfg] assms(2-4) by simp
  also have "\<dots> = (Ret (), finishRecorded (folderOf e) m' (onDb (keyOf e cfg)
      (recordedDb (wfs ?A) (folderOf e) m' (countersOf e body)
        (length (filesOf (wfs ?A) (folderOf e) m' (countersOf e body)))) ?A))"
    using assms(6,7) by (intro recordVerified_all) simp_all
  finally show ?thesis by (simp add: finishRecorded_def)
qed

text \<open>
  A contract that is recorded already is answered as such, and nothing but the folder of
  the request changes.
\<close>

theorem already_verified:
  assumes "scriptsAgree e ps w w1 m' body" and "OpenConfigFile e (wfs w1) = Some cfg"
    and "env_connect e (fst (keyOf e cfg))" and "env_ping e (fst (keyOf e cfg))" and "env_find e (keyOf e cfg)"
    and "hasVerified (getContract m') (Atoi (replyText e body ''result.updatecounter'')) (wdb w1 (keyOf e cfg))"
  shows "\<exists>w'. multipleFile e (Multipart ps True) w = (Ret (), w') \<and> wdb w' = wdb w1
     \<and> wfs w' = RemoveAll (wfs w1) (folderOf e) \<and> rsBody (wresp w') = rsBody (wresp w1) @ marshalResult \<lparr>Code = 6, Msg = msgAlready\<rparr>"
proof -
  let ?A = "asked e m' w1"
  have "foundVerified e (keyOf e cfg) m' (countersOf e body) ?A"
    using assms(5,6) by (simp add: foundVerified_def countersOf_def replyCounters_get)
  then have "multipleFile e (Multipart ps True) w = (Ret (), finishAlready (folderOf e) ?A)"
    using scriptsAgree_run [OF assms(1)] matched_reached [of e ?A cfg] assms(2-4) by simp
  then show ?thesis
    by (simp add: finishAlready_def answer_def writeBody_def headerSet_def)
qed

text \<open>
  Every error of the lookup counts as not found: when the lookup does not reach the
  server and the insertions do, a contract that is recorded already is recorded again.
\<close>

theorem failed_lookup_duplicates:
  assumes "scriptsAgree e ps w w1 m' body" and "OpenConfigFile e (wfs w1) = Some cfg"
    and "env_connect e (fst (keyOf e cfg))" and "env_ping e (fst (keyOf e cfg))" and "\<not> env_find e (keyOf e cfg)"
    and "env_insertVerified e (verifiedOf m' (countersOf e body))"
    and "hasVerified (getContract m') (Atoi (replyText e body ''result.updatecounter'')) (wdb w1 (keyOf e cfg))"
  shows "\<not> distinct (map vKey (verified (wdb (snd (multipleFile e (Multipart ps True) w)) (keyOf e cfg))))"
proof -
  let ?A = "asked e m' w1" and ?v = "verifiedOf m' (countersOf e body)"
  have run: "multipleFile e (Multipart ps True) w =
      recordVerified e (folderOf e) (keyOf e cfg) m' (countersOf e body) ?A"
    using scriptsAgree_run [OF assms(1)] matched_reached [of e ?A cfg] assms(2-5)
    by (simp add: foundVerified_def)
  have "verified (wdb (snd (multipleFile e (Multipart ps True) w)) (keyOf e cfg)) =
      verified (addVerified ?v (wdb w1 (keyOf e cfg)))"
    unfolding run
    by (cases rule: recordVerified_cases [of e "folderOf e" "keyOf e cfg" m' "countersOf e body" ?A])
       (use assms(6) in auto)
  then show ?thesis
    using assms(7) contracts.duplicate_add [of ?v "wdb w1 (keyOf e cfg)"]
    by (simp add: verifiedOf_def countersOf_def replyCounters_get vKey_def del: addVerified_fields)
qed

text \<open>
  C14. What leaves the process, and in which order: nothing, one compiler, or one compiler and
  then one question to the RPC node of the server's network, which names the contract of the
  form; the compiler is the one of the ladder, run in the folder of the request.
\<close>

theorem calls_in_order:
  "\<exists>cs. wcalls (snd (multipleFile e r w)) = wcalls w @ cs \<and>
     (cs = [] \<or> (\<exists>ps sel. r = Multipart ps True \<and> selectCommand (formOf e ps) (folderOf e) = Some sel \<and>
        (cs = [Ran (theCommand (folderOf e) (formOf e ps) sel)]
         \<or> cs = [Ran (theCommand (folderOf e) (formOf e ps) sel),
                 Posted (rpcNode (env_RUNTIME e)) (marshalRpc (getContract (formOf e ps)))])))"
proof (cases rule: multipleFile_cases [of r e w])
  case (body ps)
  let ?W = "receivedWorld e ps w" and ?m = "formOf e ps" and ?d = "folderOf e"
  have ran: "\<exists>sel. selectCommand ?m ?d = Some sel \<and> wcalls w1 = wcalls w @ [Ran (theCommand ?d ?m sel)]"
      and same: "getContract m' = getContract ?m"
    if "execCommand e ?d ?d ?m ?W = (Ret (s, m'), w1)" "s \<notin> {''0'', ''1'', ''2''}" for s m' w1
    using that(1) by (cases rule: execCommand_Ret; use that(2) checkedNef_dict in auto)+
  show ?thesis
  proof (cases rule: verifyUpload_cases [of e ?d ?m ?W])
    case (died err w1)
    with body execCommand_frame [of e ?d ?m ?W] show ?thesis by auto
  next
    case (notCompiled s m' w1)
    with body execCommand_frame [of e ?d ?m ?W] show ?thesis by auto
  next
    case (noNode s m' w1)
    with body ran [OF noNode(1,2)] same [OF noNode(1,2)] show ?thesis by auto
  next
    case (rpcError s m' w1 b)
    with body ran [OF rpcError(1,2)] same [OF rpcError(1,2)] show ?thesis by auto
  next
    case (digit s m' w1 b)
    with body ran [OF digit(1,2)] same [OF digit(1,2)] show ?thesis by auto
  next
    case (compared s m' w1 b)
    with body ran [OF compared(1,2)] same [OF compared(1,2)] show ?thesis
      by (auto simp: compareScripts_calls)
  qed
qed auto

text \<open>
  The filter that keeps only \<open>.py\<close> files of a Python contract never applies: a version
  the compiler stage accepts is not the bare word the filter compares with, so every plain
  file of the folder is stored, the compiled ones included.
\<close>

theorem python_filter_dead:
  assumes "selectCommand m d = Some sel" and "family m = ''neo3-boa''"
  shows "wantedSources m rd = filter (\<lambda>fi. \<not> snd fi) rd"
proof -
  have "map_of boaEnvs ''neo3-boa'' = None \<and> map_of csharpTools ''neo3-boa'' = None" by code_simp
  then have v: "getVersion m \<noteq> ''neo3-boa''"
    using assms(1) by (auto simp: selectCommand_def)
  have "getVersion m \<noteq> ''neow3j''" "getVersion m \<noteq> ''neo-go''"
    using assms(2) by (auto simp: family_def trimSpaces_def)
  with v show ?thesis by (simp add: wantedSources_def skippedSource_def)
qed

text \<open>
  The caller takes a script \<open>3\<close> or \<open>4\<close> of the reply for one of its own error
  digits: such a request gets no answer, and its folder stays.
\<close>

theorem digit_script_unanswered:
  assumes "execCommand e (folderOf e) (folderOf e) (formOf e ps) (receivedWorld e ps w) = (Ret (s, m'), w1)"
    and "s \<notin> {''0'', ''1'', ''2''}" and "replyOf e m' = Some body" and "\<not> replyError e body"
    and "replyText e body ''result.nef.script'' \<in> {''3'', ''4''}"
  shows "\<exists>w'. multipleFile e (Multipart ps True) w = (Ret (), w') \<and> wresp w' = wresp w \<and> wfs w' = wfs w1"
proof -
  have v: "verifyUpload e (folderOf e) (folderOf e) (formOf e ps) (receivedWorld e ps w) = (Ret (), asked e m' w1)"
    by (cases rule: verifyUpload_cases [of e "folderOf e" "formOf e ps" "receivedWorld e ps w"])
       (use assms in auto)
  show ?thesis
    by (cases rule: multipleFile_cases [of "Multipart ps True" e w])
       (use v execCommand_silent [OF assms(1,2)] in auto)
qed

text \<open>The two parts of a request that ends the server: a version, and a plain file \<open>bin\<close>.\<close>

definition deadlyParts :: "part list" where
  "deadlyParts =
     [\<lparr>FormName = ''Version'', FileName = '''', Data = ''Neo.Compiler.CSharp 3.0.0''\<rparr>,
      \<lparr>FormName = ''file'', FileName = ''bin'', Data = ''x''\<rparr>]"

lemma deadly_form: "formOf e deadlyParts = [''Version'' \<mapsto> ''Neo.Compiler.CSharp 3.0.0'']"
proof -
  have "pathExt (folderOf e @ ''/bin'') = []"
    using pathExt_dot [of "folderOf e" "''bin''"] by auto
  then show ?thesis
    by (simp add: formOf_def receivedDict_def deadlyParts_def dictAfter_def receiveField_def formKeys_def
        projectName_def)
qed

lemma deadly_select:
  "selectCommand [''Version'' \<mapsto> ''Neo.Compiler.CSharp 3.0.0''] d = Some (''echo'', [])"
  "family [''Version'' \<mapsto> ''Neo.Compiler.CSharp 3.0.0''] \<noteq> ''neo3-boa''"
  by (simp_all add: selectCommand_def boaEnvs_def csharpTools_def getVersion_def getCompileCommand_def
      family_def trimSpaces_def)

lemma deadly_folder:
  assumes "is_dir (wfs w) cwd" and "node_at (wfs w) (uploadDir e) = None"
  shows "is_dir (wfs (receivedWorld e deadlyParts w)) cwd"
    "is_dir (wfs (receivedWorld e deadlyParts w)) (cwd @ [folderOf e])"
    "is_dir (wfs (startWorld e w)) (cwd @ [folderOf e])"
proof -
  have f: "wfs (startWorld e w) = set_node (uploadDir e) Dir (wfs w)"
    using assms by (simp add: startWorld_def createDateDir_world)
  then show d: "is_dir (wfs (startWorld e w)) (cwd @ [folderOf e])"
    by (simp add: is_dir_def uploadDir_folder node_at_set_same)
  show "is_dir (wfs (receivedWorld e deadlyParts w)) cwd"
    "is_dir (wfs (receivedWorld e deadlyParts w)) (cwd @ [folderOf e])"
    using assms(1) d by (simp_all add: receivedFs_is_dir startWorld_is_dir)
qed

lemma deadly_bin:
  assumes "is_dir (wfs w) cwd" and "node_at (wfs w) (uploadDir e) = None"
    and "node_at (wfs (startWorld e w)) (cwd @ [folderOf e, ''bin'']) = None"
  shows "node_at (wfs (receivedWorld e deadlyParts w)) (cwd @ [folderOf e, ''bin'']) = Some (File ''x'')"
proof -
  have "resolve (wfs (startWorld e w)) (folderOf e @ ''/bin'') = Inr (cwd @ [folderOf e, ''bin''])"
    using resolve_member [of "folderOf e" "''bin''", OF folderOf_plain _ startWorld_is_dir [OF assms(1)]
        deadly_folder(3) [OF assms(1,2)]]
    by (simp add: plain_name_def [of "''bin''"])
  then show ?thesis
    using assms(3) storeUpload_at(1) [of "wfs (startWorld e w)" "folderOf e" "deadlyParts ! 1" "cwd @ [folderOf e, ''bin'']"]
    by (simp add: receivedFs_def fsAfter_def deadlyParts_def oldContent_def)
qed

text \<open>
  C40. Two parts end the server: in a folder of its own, a request that names a C\# version,
  no compile command, and uploads a plain file called \<open>bin\<close> makes the process exit, whatever
  the RPC node and the database are.
\<close>

theorem one_request_ends_server:
  assumes "is_dir (wfs w) cwd" and "\<forall>q. prefix (uploadDir e) q \<longrightarrow> node_at (wfs w) q = None"
    and "\<forall>f. \<exists>out. env_run e \<lparr>cmdName = ''echo'', cmdArgs = [], cmdDir = folderOf e @ ''/''\<rparr> f = Finished out f"
  shows "fst (multipleFile e (Multipart deadlyParts True) w) = Fatal ''read error''"
proof -
  let ?W = "receivedWorld e deadlyParts w" and ?m = "[''Version'' \<mapsto> ''Neo.Compiler.CSharp 3.0.0'']"
  have free: "node_at (wfs w) (uploadDir e) = None" using assms(2) by simp
  have "node_at (wfs (startWorld e w)) (uploadDir e @ [''bin'']) = None"
    using assms(1,2) free by (simp add: startWorld_def createDateDir_world node_at_set uploadDir_def)
  then have bin: "node_at (wfs ?W) (cwd @ [folderOf e, ''bin'']) = Some (File ''x'')"
    by (intro deadly_bin [OF assms(1) free]) (simp add: uploadDir_folder)
  obtain out where run: "env_run e (theCommand (folderOf e) ?m (''echo'', [])) (wfs ?W) = Finished out (wfs ?W)"
    using assms(3) by (auto simp: theCommand_def workDir_def getVersion_def)
  have x: "execCommand e (folderOf e) (folderOf e) ?m ?W =
      (Fatal ''read error'', afterRun (theCommand (folderOf e) ?m (''echo'', [])) (wfs ?W) ?W)"
    by (rule execCommand_bin_file [OF folderOf_plain deadly_select(2) _ _ deadly_select(1) run
          deadly_folder(1,2) [OF assms(1) free] bin]) (simp_all add: getVersion_def)
  show ?thesis
    by (cases rule: multipleFile_cases [of "Multipart deadlyParts True" e w];
        cases rule: verifyUpload_cases [of e "folderOf e" ?m ?W])
       (use x deadly_form [of e] in auto)
qed

end
