(* ===== verification/HandlerRuns.thy ===== *)
theory HandlerRuns
  imports Handler
begin

text \<open>
  Concrete requests: an upload of a Python contract that is compiled, agrees with the reply of
  the RPC node and is recorded, and variations of it. They are the witnesses of the properties
  of \<open>Handler\<close>.
\<close>

section \<open>A request that is recorded\<close>

definition sample_quote :: "string \<Rightarrow> string" where
  "sample_quote s = [CHR 0x22] @ s @ [CHR 0x22]"

definition sample_reply :: bytes where
  "sample_reply =
     ''{'' @ sample_quote ''id'' @ '':1,'' @ sample_quote ''result'' @ '':{'' @ sample_quote ''id'' @ '':7,''
     @ sample_quote ''updatecounter'' @ '':2,'' @ sample_quote ''nef'' @ '':{'' @ sample_quote ''compiler'' @ '':''
     @ sample_quote ''boa'' @ '','' @ sample_quote ''script'' @ '':'' @ sample_quote ''QA=='' @ ''}}}''"

definition sample_dbConfig :: dbConfig where
  "sample_dbConfig = \<lparr>Host = ''db'', Port = ''27017'', User = ''u'', Pass = ''p'', Database = ''fura'', DBName = ''fura''\<rparr>"

definition sample_config :: Config where
  "sample_config = \<lparr>Database_main = sample_dbConfig\<lparr>Database := ''main''\<rparr>, Database_test = sample_dbConfig,
     Database_testmagnet = sample_dbConfig\<lparr>Database := ''magnet''\<rparr>\<rparr>"

definition good_env :: env where
  "good_env = sample_env\<lparr>
     env_run := (\<lambda>_ f. Finished [] (set_node (cwd @ [sample_folder, ''a.nef'']) (File (nefImage sample_nef)) f)),
     env_post := (\<lambda>_ _. Some sample_reply), env_yaml := (\<lambda>_. Some sample_config)\<rparr>"

definition good_parts :: "part list" where
  "good_parts =
     [\<lparr>FormName = ''Version'', FileName = '''', Data = ''neo3-boa 0.11.3''\<rparr>,
      \<lparr>FormName = ''Contract'', FileName = '''', Data = ''0xabc''\<rparr>,
      \<lparr>FormName = ''file'', FileName = ''token.py'', Data = ''pass''\<rparr>]"

definition good_fs :: fs where
  "good_fs = sample_fs @ [([''go'', ''application'', ''20220131083005''], Dir),
     ([''go'', ''application'', ''20220131083005'', ''token.py''], File ''pass'')]"

definition built_fs :: "bytes \<Rightarrow> fs" where
  "built_fs x = good_fs @ [([''go'', ''application'', ''20220131083005'', ''a.nef''], File x)]"

lemma good_env_simps:
  "folderOf good_env = sample_folder" "env_RUNTIME good_env = ''testnet''"
  "env_post good_env u b = Some sample_reply"
  "env_run good_env cmd f = Finished [] (set_node (cwd @ [sample_folder, ''a.nef'']) (File (nefImage sample_nef)) f)"
  by (simp_all add: good_env_def folderOf_def sample_env_def) (code_simp)

lemma good_received: "receivedFs sample_folder good_parts (set_node (cwd @ [sample_folder]) Dir sample_fs) = good_fs"
  by code_simp

lemma good_form:
  "family (formOf good_env good_parts) = ''neo3-boa''"
  "selectCommand (formOf good_env good_parts) sample_folder = Some (''/bin/sh'', [''/go/application/pythonExec.sh'', ''boa113''])"
  "getContract (formOf good_env good_parts) = ''0xabc''"
  unfolding formOf_def good_env_simps by code_simp+

lemma sample_reply_text:
  "Exists (Get matchLimit sample_reply ''error'') = False"
  "Get matchLimit sample_reply ''result.nef.script'' = \<lparr>rType = JString, rRaw = sample_quote ''QA=='', rStr = ''QA==''\<rparr>"
  "Get matchLimit sample_reply ''result.id'' = \<lparr>rType = JNumber, rRaw = ''7'', rStr = ''''\<rparr>"
  "Get matchLimit sample_reply ''result.updatecounter'' = \<lparr>rType = JNumber, rRaw = ''2'', rStr = ''''\<rparr>"
  by code_simp+

lemma built_fs_eq: "set_node (cwd @ [sample_folder, ''a.nef'']) (File x) good_fs = built_fs x"
  by (simp add: set_node_def built_fs_def good_fs_def sample_fs_def cwd_def sample_folder_def)

lemma built_fs_nodes:
  "is_dir (built_fs x) cwd" "is_dir (built_fs x) (cwd @ [sample_folder])"
  "node_at (built_fs x) (cwd @ [sample_folder, ''a.nef'']) = Some (File x)"
  "node_at (built_fs x) (cwd @ [sample_folder, ''token.py'']) = Some (File ''pass'')"
  "node_at (built_fs x) (cwd @ [''config.yml'']) = Some (File ''database_main:'')"
  "children (built_fs x) (cwd @ [sample_folder]) = [''a.nef'', ''token.py'']"
  by (simp_all add: built_fs_def good_fs_def sample_fs_def is_dir_def node_at_def cwd_def
      sample_folder_def children_def)

text \<open>The container before the request, with the databases \<open>D\<close>.\<close>

definition good_start :: "mongo \<Rightarrow> world" where
  "good_start D = sample_world\<lparr>wdb := D\<rparr>"

abbreviation noDocs :: mongo where
  "noDocs \<equiv> (\<lambda>_. emptyDb)"

lemma good_start_simps [simp]:
  "wfs (good_start D) = sample_fs" "wdb (good_start D) = D" "wresp (good_start D) = noResponse"
  by (simp_all add: good_start_def sample_world_def)

lemma good_received_world:
  "wfs (receivedWorld good_env good_parts (good_start D)) = good_fs"
proof -
  have "node_at sample_fs (cwd @ [sample_folder]) = None" by code_simp
  then have "wfs (startWorld good_env (good_start D)) = set_node (cwd @ [sample_folder]) Dir sample_fs"
    using createDateDir_world [of "good_start D" good_env]
    by (simp add: startWorld_def uploadDir_folder good_env_simps)
  then show ?thesis by (simp add: good_env_simps good_received)
qed

abbreviation "good_dict \<equiv> formOf good_env good_parts"

definition good_command :: command where
  "good_command = theCommand sample_folder good_dict (''/bin/sh'', [''/go/application/pythonExec.sh'', ''boa113''])"

definition good_built :: "mongo \<Rightarrow> world" where
  "good_built D = afterRun good_command (built_fs (nefImage sample_nef)) (receivedWorld good_env good_parts (good_start D))"

lemma good_run: "env_run good_env cmd (wfs (receivedWorld good_env good_parts (good_start D))) =
    Finished [] (built_fs (nefImage sample_nef))"
  by (simp only: good_env_simps good_received_world built_fs_eq)

lemma good_nef_first:
  "\<forall>k \<in> set (children (built_fs x) (cwd @ [sample_folder])). matchesTail ''.nef'' k \<longrightarrow> ''a'' @ ''.nef'' \<le> k"
  by (simp add: built_fs_nodes matchesTail_def suffixByte_def)

lemma good_exec:
  "execCommand good_env sample_folder sample_folder good_dict (receivedWorld good_env good_parts (good_start D)) =
     (Ret (b64encode (nfScript sample_nef), good_dict), (good_built D))"
  unfolding good_built_def good_command_def
  by (rule execCommand_boa [OF sample_folder_plain good_form(1,2) good_run built_fs_nodes(1,2) plain_a_nef _
        sample_nef_parses good_nef_first])
     (simp add: built_fs_nodes)

lemma good_script: "b64encode (nfScript sample_nef) = ''QA==''"
proof -
  have "nfScript sample_nef = ''@''" by (simp add: sample_nef_def sample_unsigned_def)
  moreover have "b64encode ''@'' = ''QA==''" by code_simp
  ultimately show ?thesis by simp
qed

lemma good_reply:
  "replyError good_env sample_reply = False"
  "replyText good_env sample_reply ''result.nef.script'' = ''QA==''"
  "replyText good_env sample_reply ''result.id'' = ''7''"
  "replyText good_env sample_reply ''result.updatecounter'' = ''2''"
  using sample_reply_text
  by (simp_all add: replyError_def replyText_def resultString_def good_env_def sample_env_def is_digit_def)

lemma good_agrees: "scriptsAgree good_env good_parts (good_start D) (good_built D) good_dict sample_reply"
  using good_exec good_reply good_script
  by (simp add: scriptsAgree_def good_env_simps replyOf_def)

lemma good_config: "OpenConfigFile good_env (wfs (good_built D)) = Some sample_config"
proof -
  have "resolve (built_fs x) ''config.yml'' = Inr (cwd @ [''config.yml''])" for x
    by (rule resolve_name [OF _ built_fs_nodes(1)]) code_simp
  then show ?thesis
    by (simp add: OpenConfigFile_def ReadFile_def good_built_def built_fs_nodes)
       (simp add: good_env_def)
qed

abbreviation "good_counters \<equiv> countersOf good_env sample_reply"
abbreviation "good_key \<equiv> keyOf good_env sample_config"

definition good_verified :: insertVerifiedContract where
  "good_verified = \<lparr>vHash = ''0xabc'', vId = 7, vUpdatecounter = 2\<rparr>"

lemma Atoi_digits [simp]: "Atoi ''7'' = 7" "Atoi ''2'' = 2"
  by code_simp+

lemma good_verified_eq: "verifiedOf good_dict good_counters = good_verified"
  by (simp add: verifiedOf_def good_verified_def countersOf_def replyCounters_get good_reply good_form)

lemma good_insertions:
  "env_find good_env k" "env_connect good_env u" "env_ping good_env u"
  "env_insertVerified good_env v" "env_insertSource good_env s"
  by (simp_all add: good_env_def sample_env_def)

lemma good_built_simps [simp]:
  "wfs (good_built D) = built_fs (nefImage sample_nef)" "wdb (good_built D) = D"
  "wresp (good_built D) = noResponse"
  by (simp_all add: good_built_def sample_world_def)

lemma good_folder: "readFolder sample_folder (built_fs x) = [(''a.nef'', False), (''token.py'', False)]"
  using resolve_dir_slash [OF sample_folder_plain built_fs_nodes(1,2)] built_fs_nodes
  by (simp add: readFolder_def ReadDir_def good_env_simps is_dir_def)

lemma good_readable:
  "\<forall>fi \<in> set (wantedSources m (readFolder (folderOf good_env) (wfs (good_built D)))).
     (\<exists>b. ReadFile (wfs (good_built D)) (folderOf good_env @ ''/'' @ fst fi) = Inr b) \<and>
     env_insertSource good_env (sourceOf (wfs (good_built D)) (folderOf good_env) m m2 fi)"
proof -
  have "plain_name ''a.nef''" "plain_name ''token.py''" by code_simp+
  then have "resolve (built_fs x) (sample_folder @ ''/a.nef'') = Inr (cwd @ [sample_folder, ''a.nef''])"
    "resolve (built_fs x) (sample_folder @ ''/token.py'') = Inr (cwd @ [sample_folder, ''token.py''])" for x
    using resolve_member [OF sample_folder_plain _ built_fs_nodes(1,2)] by simp_all
  then show ?thesis
    by (auto simp: wantedSources_def good_folder good_env_simps ReadFile_def built_fs_nodes good_insertions)
qed

lemma good_new: "\<not> foundVerified good_env k m m2 (good_built noDocs)"
  by (simp add: foundVerified_def hasVerified_def emptyDb_def)

lemma good_result:
  "multipleFile good_env (Multipart good_parts True) (good_start noDocs) =
     (Ret (), finishRecorded (folderOf good_env) good_dict (onDb good_key
       (recordedDb (wfs (good_built noDocs)) (folderOf good_env) good_dict good_counters
         (length (filesOf (wfs (good_built noDocs)) (folderOf good_env) good_dict good_counters)))
       (asked good_env good_dict (good_built noDocs))))"
proof -
  have new: "\<not> foundVerified good_env k m m2 (asked good_env good_dict (good_built noDocs))" for k m m2
    by (simp add: foundVerified_def hasVerified_def emptyDb_def)
  have "OpenConfigFile good_env (wfs (asked good_env good_dict (good_built noDocs))) = Some sample_config"
    using good_config by simp
  from matched_reached [OF this good_insertions(2,3)] new scriptsAgree_run [OF good_agrees]
  have "multipleFile good_env (Multipart good_parts True) (good_start noDocs) =
      recordVerified good_env (folderOf good_env) good_key good_dict good_counters (asked good_env good_dict (good_built noDocs))"
    by simp
  also have "\<dots> = (Ret (), finishRecorded (folderOf good_env) good_dict (onDb good_key
       (recordedDb (wfs (asked good_env good_dict (good_built noDocs))) (folderOf good_env) good_dict good_counters
         (length (filesOf (wfs (asked good_env good_dict (good_built noDocs))) (folderOf good_env) good_dict good_counters)))
       (asked good_env good_dict (good_built noDocs))))"
    using good_readable by (intro recordVerified_all good_insertions(4)) simp
  finally show ?thesis by simp
qed

section \<open>Witnesses\<close>

abbreviation "good_end \<equiv> snd (multipleFile good_env (Multipart good_parts True) (good_start noDocs))"

lemma good_recorded: "verified (wdb good_end good_key) = [good_verified]"
  by (simp add: good_result good_verified_eq) (simp add: emptyDb_def)

theorem verification_sound_witness:
  "good_verified \<in> set (verified (wdb good_end good_key))
   \<and> (\<exists>nef. wf_nef nef \<and> b64encode (nfScript nef) = ''QA=='' \<and>
       (\<forall>script. ''QA=='' = b64encode script \<longleftrightarrow> script = nfScript nef))"
proof -
  have "good_verified \<in> set (verified (wdb good_end good_key))" by (simp add: good_recorded)
  moreover have "good_verified \<notin> set (verified (wdb (good_start noDocs) good_key))"
    by (simp add: emptyDb_def)
  ultimately obtain nef body where "wf_nef nef"
      and body: "env_post good_env (rpcNode (env_RUNTIME good_env)) (marshalRpc (vHash good_verified)) = Some body"
      and "\<forall>script. replyText good_env body ''result.nef.script'' = b64encode script \<longleftrightarrow> script = nfScript nef"
    using verification_sound [of good_verified good_env "Multipart good_parts True" "good_start noDocs" good_key] by blast
  moreover from body have "body = sample_reply" by (simp add: good_env_simps)
  ultimately have "wf_nef nef" and s: "\<forall>script. ''QA=='' = b64encode script \<longleftrightarrow> script = nfScript nef"
    by (simp_all add: good_reply)
  moreover from s have "b64encode (nfScript nef) = ''QA==''" by metis
  ultimately show ?thesis using good_recorded by auto
qed

lemma good_keepsCwd: "keepsCwd good_env"
  unfolding keepsCwd_def good_env_simps
  by (auto simp: is_dir_def node_at_set cwd_def)

theorem request_endings_witness:
  "\<exists>en \<in> endings. endsAs good_env (Multipart good_parts True) (good_start noDocs) good_end en"
proof (rule request_endings)
  show "is_dir (wfs (good_start noDocs)) cwd" by simp
  show "multipleFile good_env (Multipart good_parts True) (good_start noDocs) = (Ret (), good_end)"
    by (simp add: good_result)
qed (rule good_keepsCwd)

theorem no_duplicate_records_witness:
  "distinct (map vKey (verified (wdb good_end good_key))) \<and> verified (wdb good_end good_key) \<noteq> []"
proof -
  have "\<forall>k. env_find good_env k" "\<forall>k. distinct (map vKey (verified (wdb (good_start noDocs) k)))"
    by (simp_all add: good_insertions emptyDb_def)
  from no_duplicate_records [OF this] show ?thesis by (simp add: good_recorded)
qed

theorem verification_complete_witness:
  "\<exists>w'. multipleFile good_env (Multipart good_parts True) (good_start noDocs) = (Ret (), w')
     \<and> wresp w' = answer 5 msgRecorded noResponse
     \<and> verified (wdb w' good_key) = [good_verified] \<and> length (sources (wdb w' good_key)) = 2"
proof -
  have "\<not> foundVerified good_env good_key good_dict good_counters (good_built noDocs)" by (rule good_new)
  from verification_complete [OF good_agrees good_config good_insertions(2,3) this good_insertions(4) good_readable]
  obtain w' where "multipleFile good_env (Multipart good_parts True) (good_start noDocs) = (Ret (), w')"
      "wresp w' = answer 5 msgRecorded (wresp (good_built noDocs))"
      "verified (wdb w' good_key) = verified (wdb (good_built noDocs) good_key) @ [verifiedOf good_dict good_counters]"
      "sources (wdb w' good_key) =
        sources (wdb (good_built noDocs) good_key) @ filesOf (wfs (good_built noDocs)) (folderOf good_env) good_dict good_counters"
    by blast
  moreover have "length (filesOf (wfs (good_built noDocs)) (folderOf good_env) good_dict good_counters) = 2"
  proof -
    have "getVersion good_dict = ''neo3-boa 0.11.3''"
      unfolding formOf_def good_env_simps by code_simp
    then show ?thesis
      by (simp add: filesOf_def wantedSources_def good_folder good_env_simps skippedSource_def)
  qed
  ultimately show ?thesis by (simp add: good_verified_eq emptyDb_def)
qed

theorem databases_grow_witness:
  "wdb good_end \<noteq> noDocs
   \<and> (\<exists>f cfg v. leftBy good_env (Multipart good_parts True) (good_start noDocs) f \<and> OpenConfigFile good_env f = Some cfg
        \<and> verified (wdb good_end (keyOf good_env cfg)) = [v])"
proof -
  have ne: "wdb good_end \<noteq> noDocs"
  proof
    assume "wdb good_end = noDocs"
    then have "verified (wdb good_end good_key) = []" by (simp add: emptyDb_def)
    then show False by (simp add: good_recorded)
  qed
  have d: "wdb (good_start noDocs) = noDocs" by simp
  from databases_grow [of good_env "Multipart good_parts True" "good_start noDocs", unfolded Let_def d] ne
  obtain f cfg c k v where left: "leftBy good_env (Multipart good_parts True) (good_start noDocs) f"
    and cfg: "OpenConfigFile good_env f = Some cfg"
    and c: "c = (if env_RUNTIME good_env = ''testnet'' then Database_test cfg
                 else if env_RUNTIME good_env = ''testmagnet'' then Database_testmagnet cfg else Database_main cfg)"
    and k: "k = (''mongodb://'' @ User c @ '':'' @ Pass c @ ''@'' @ Host c @ '':'' @ Port c @ ''/'' @ Database c, Database c)"
    and v: "verified (wdb good_end k) = verified (noDocs k) @ [v]"
    by (elim disjE exE conjE) (simp, blast)
  have "networkConfig (env_RUNTIME good_env) cfg = c"
    unfolding c by (simp add: networkConfig_def runtimeOf_def)
  then have "keyOf good_env cfg = k" by (simp only: k keyOf_def mongoURI_def)
  with v have "verified (wdb good_end (keyOf good_env cfg)) = [v]" by (simp add: emptyDb_def)
  with ne left cfg show ?thesis by blast
qed

text \<open>The same upload when the contract is in the database.\<close>

definition knownDb :: mongo where
  "knownDb = (\<lambda>_. addVerified good_verified emptyDb)"

lemma knownDb_has:
  "hasVerified (getContract good_dict) (Atoi (replyText e sample_reply ''result.updatecounter'')) (knownDb k)"
  if "replyText e sample_reply ''result.updatecounter'' = ''2''"
  using that by (simp add: hasVerified_def knownDb_def matchesFilter_def good_verified_def good_form emptyDb_def)

theorem already_verified_witness:
  "\<exists>w'. multipleFile good_env (Multipart good_parts True) (good_start knownDb) = (Ret (), w')
     \<and> wdb w' = knownDb \<and> rsBody (wresp w') = marshalResult \<lparr>Code = 6, Msg = msgAlready\<rparr>"
  using already_verified [OF good_agrees good_config good_insertions(2,3,1), of knownDb]
    knownDb_has [OF good_reply(4)]
  by (auto simp: noResponse_def)

text \<open>The environment in which the lookup fails.\<close>

definition blind_env :: env where
  "blind_env = good_env\<lparr>env_find := (\<lambda>_. False)\<rparr>"

lemma blind_same:
  "folderOf blind_env = folderOf good_env" "formOf blind_env ps = formOf good_env ps"
  "receivedWorld blind_env ps w = receivedWorld good_env ps w"
  "execCommand blind_env d d m w = execCommand good_env d d m w"
  "replyOf blind_env m = replyOf good_env m" "replyError blind_env b = replyError good_env b"
  "replyText blind_env b p = replyText good_env b p" "keyOf blind_env c = keyOf good_env c"
  "OpenConfigFile blind_env f = OpenConfigFile good_env f"
  by (simp_all add: blind_env_def folderOf_def formOf_def receivedWorld_def startWorld_def
      createDateDir_def execCommand_def runCompiler_def replyOf_def replyError_def replyText_def
      keyOf_def OpenConfigFile_def split: option.split prod.split sum.split)

theorem failed_lookup_duplicates_witness:
  "\<not> distinct (map vKey (verified (wdb (snd (multipleFile blind_env (Multipart good_parts True)
      (good_start knownDb))) good_key)))"
proof -
  have a: "scriptsAgree blind_env good_parts (good_start knownDb) (good_built knownDb) good_dict sample_reply"
    using good_agrees [of knownDb] by (simp add: scriptsAgree_def blind_same)
  have c: "OpenConfigFile blind_env (wfs (good_built knownDb)) = Some sample_config"
    using good_config [of knownDb] by (simp add: blind_same)
  show ?thesis
    using failed_lookup_duplicates [OF a c] knownDb_has [of good_env, OF good_reply(4)]
    by (simp add: blind_same) (simp add: blind_env_def good_env_def sample_env_def)
qed

theorem python_filter_dead_witness:
  "wantedSources good_dict [(''a.nef'', False), (''token.py'', False)] = [(''a.nef'', False), (''token.py'', False)]"
  using python_filter_dead [OF good_form(2,1)] by simp

text \<open>The environment in which the reply has the digit 3 for a script.\<close>

definition digit_reply :: bytes where
  "digit_reply = ''{'' @ sample_quote ''result'' @ '':{'' @ sample_quote ''nef'' @ '':{'' @ sample_quote ''script'' @ '':''
     @ sample_quote ''3'' @ ''}}}''"

definition digit_env :: env where
  "digit_env = good_env\<lparr>env_post := (\<lambda>_ _. Some digit_reply)\<rparr>"

lemma digit_reply_text:
  "Exists (Get matchLimit digit_reply ''error'') = False"
  "rType (Get matchLimit digit_reply ''result.nef.script'') = JString"
  "rStr (Get matchLimit digit_reply ''result.nef.script'') = ''3''"
  by code_simp+

lemma digit_same:
  "folderOf digit_env = folderOf good_env" "formOf digit_env ps = formOf good_env ps"
  "receivedWorld digit_env ps w = receivedWorld good_env ps w"
  "execCommand digit_env d d m w = execCommand good_env d d m w"
  by (simp_all add: digit_env_def folderOf_def formOf_def receivedWorld_def startWorld_def
      createDateDir_def execCommand_def runCompiler_def split: option.split prod.split)

theorem digit_script_unanswered_witness:
  "\<exists>w'. multipleFile digit_env (Multipart good_parts True) (good_start noDocs) = (Ret (), w')
     \<and> rsBody (wresp w') = []"
proof -
  have x: "execCommand digit_env (folderOf digit_env) (folderOf digit_env) (formOf digit_env good_parts)
      (receivedWorld digit_env good_parts (good_start noDocs)) =
      (Ret (''QA=='', good_dict), good_built noDocs)"
    using good_exec [of noDocs] by (simp add: digit_same good_script good_env_simps)
  have "replyOf digit_env good_dict = Some digit_reply" "\<not> replyError digit_env digit_reply"
    "replyText digit_env digit_reply ''result.nef.script'' \<in> {''3'', ''4''}"
    using digit_reply_text
    by (simp_all add: replyOf_def replyError_def replyText_def resultString_def digit_env_def
        good_env_def sample_env_def)
  from digit_script_unanswered [OF x _ this] show ?thesis by (auto simp: noResponse_def)
qed

theorem one_request_ends_server_witness:
  "fst (multipleFile sample_env (Multipart deadlyParts True) sample_world) = Fatal ''read error''"
proof (rule one_request_ends_server)
  show "is_dir (wfs sample_world) cwd" by (simp add: sample_world_def)
  show "\<forall>q. prefix (uploadDir sample_env) q \<longrightarrow> node_at (wfs sample_world) q = None"
    by (auto simp: sample_world_def sample_fs_def node_at_def cwd_def sample_folder_def)
qed (simp add: sample_env_def)

end
