(* ===== verification/Cors.thy ===== *)
theory Cors
  imports World
begin

text \<open>
  The CORS wrapper \<open>main\<close> puts around the multiplexer, \<open>rs/cors\<close> 1.8.0
  (\<open>src/pkg/mod/github.com/rs/cors@v1.8.0\<close>). The debug logger is left out. Case mapping is
  that of ASCII texts; \<open>strings.ToUpper\<close> also maps other letters, which no method name and
  no header name has.
\<close>

section \<open>Texts\<close>

text \<open>\<open>strings.Join(hs, ", ")\<close>.\<close>

fun joinComma :: "string list \<Rightarrow> string" where
  "joinComma [] = ''''"
| "joinComma [h] = h"
| "joinComma (h # hs) = h @ '', '' @ joinComma hs"

text \<open>
  \<open>http.CanonicalHeaderKey\<close>: a text with a byte no header name has is left as it is;
  otherwise a letter is upper case at the start and after a hyphen, and lower case elsewhere.
\<close>

definition isTokenByte :: "char \<Rightarrow> bool" where
  "isTokenByte c = (is_digit c \<or> is_lower c \<or> is_upper c \<or>
     c \<in> set (CHR 0x27 # CHR 0x60 # ''!#$%&*+-.^_|~''))"

fun canonFrom :: "bool \<Rightarrow> string \<Rightarrow> string" where
  "canonFrom up [] = []"
| "canonFrom up (c # cs) = (if up then upperByte c else lowerByte c) # canonFrom (c = CHR ''-'') cs"

definition canonicalHeaderKey :: "string \<Rightarrow> string" where
  "canonicalHeaderKey s = (if list_all isTokenByte s then canonFrom True s else s)"

section \<open>utils.go\<close>

record wildcard =
  wPrefix :: string
  wSuffix :: string

definition wildcardMatch :: "wildcard \<Rightarrow> string \<Rightarrow> bool" where
  "wildcardMatch w s =
     (length (wPrefix w) + length (wSuffix w) \<le> length s \<and> hasPrefix s (wPrefix w) \<and> hasSuffix s (wSuffix w))"

definition convert :: "string list \<Rightarrow> (string \<Rightarrow> string) \<Rightarrow> string list" where
  "convert s c = map c s"

text \<open>
  \<open>parseHeaderList\<close>: \<open>h\<close> is the header so far, \<open>up\<close> whether a letter is the first of a
  word. Bytes that are no letter, digit, hyphen, underscore or dot are dropped; a blank, a comma
  and the end of the text end a header.
\<close>

definition headerByte :: "bool \<Rightarrow> char \<Rightarrow> string" where
  "headerByte up b =
     (if is_lower b then [if up then upperByte b else b]
      else if is_upper b then [if up then b else lowerByte b]
      else if b = CHR ''-'' \<or> b = CHR ''_'' \<or> b = CHR ''.'' \<or> is_digit b then [b]
      else [])"

fun headersFrom :: "string \<Rightarrow> bool \<Rightarrow> string \<Rightarrow> string list" where
  "headersFrom h up [] = []"
| "headersFrom h up (b # bs) =
     (let h' = h @ headerByte up b in
      if b = CHR '' '' \<or> b = CHR '','' \<or> bs = [] then
        (if h' \<noteq> [] then h' # headersFrom [] True bs else headersFrom h' up bs)
      else headersFrom h' (b = CHR ''-'' \<or> b = CHR ''_'') bs)"

definition parseHeaderList :: "string \<Rightarrow> string list" where
  "parseHeaderList headerList = headersFrom [] True headerList"

section \<open>Options and the handler they make\<close>

text \<open>What the wrapper reads of a request: the method and the header, by canonical name.\<close>

record httpRequest =
  Method :: string
  Header :: "(string \<times> string) list"

definition headerGet :: "httpRequest \<Rightarrow> string \<Rightarrow> string" where
  "headerGet r k = (case map_of (Header r) k of None \<Rightarrow> '''' | Some v \<Rightarrow> v)"

record Options =
  AllowedOrigins :: "string list"
  AllowOriginFunc :: "(string \<Rightarrow> bool) option"
  AllowOriginRequestFunc :: "(httpRequest \<Rightarrow> string \<Rightarrow> bool) option"
  AllowedMethods :: "string list"
  AllowedHeaders :: "string list"
  ExposedHeaders :: "string list"
  MaxAge :: int
  AllowCredentials :: bool
  OptionsPassthrough :: bool

record Cors =
  allowedOrigins :: "string list"
  allowedWOrigins :: "wildcard list"
  allowOriginFunc :: "(string \<Rightarrow> bool) option"
  allowOriginRequestFunc :: "(httpRequest \<Rightarrow> string \<Rightarrow> bool) option"
  allowedHeaders :: "string list"
  allowedMethods :: "string list"
  exposedHeaders :: "string list"
  maxAge :: int
  allowedOriginsAll :: bool
  allowedHeadersAll :: bool
  allowCredentials :: bool
  optionPassthrough :: bool

text \<open>
  The loop of \<open>New\<close> over the origins: the plain ones, those with a wildcard, and whether a
  lone star was met, which ends the loop and empties both lists.
\<close>

fun sortOrigins :: "string list \<Rightarrow> string list \<Rightarrow> wildcard list \<Rightarrow> string list \<times> wildcard list \<times> bool" where
  "sortOrigins [] os ws = (os, ws, False)"
| "sortOrigins (origin0 # rest) os ws =
     (let origin = toLower origin0 in
      if origin = ''*'' then ([], [], True)
      else case indexByte origin (CHR ''*'') of
          Some i \<Rightarrow> sortOrigins rest os (ws @ [\<lparr>wPrefix = take i origin, wSuffix = drop (i + 1) origin\<rparr>])
        | None \<Rightarrow> sortOrigins rest (os @ [origin]) ws)"

definition headersOf :: "string list \<Rightarrow> string list \<times> bool" where
  "headersOf hs =
     (if hs = [] then ([''Origin'', ''Accept'', ''Content-Type'', ''X-Requested-With''], False)
      else if ''*'' \<in> set hs then ([], True)
      else (convert (hs @ [''Origin'']) canonicalHeaderKey, False))"

definition methodsOf :: "string list \<Rightarrow> string list" where
  "methodsOf ms = (if ms = [] then [''GET'', ''POST'', ''HEAD''] else convert ms toUpper)"

definition New :: "Options \<Rightarrow> Cors" where
  "New options =
     (let (os, ws, star) =
            (if AllowedOrigins options = []
             then ([], [], AllowOriginFunc options = None \<and> AllowOriginRequestFunc options = None)
             else sortOrigins (AllowedOrigins options) [] []);
          (hs, hstar) = headersOf (AllowedHeaders options)
      in \<lparr>allowedOrigins = os, allowedWOrigins = ws, allowOriginFunc = AllowOriginFunc options,
          allowOriginRequestFunc = AllowOriginRequestFunc options, allowedHeaders = hs,
          allowedMethods = methodsOf (AllowedMethods options),
          exposedHeaders = convert (ExposedHeaders options) canonicalHeaderKey,
          maxAge = MaxAge options, allowedOriginsAll = star, allowedHeadersAll = hstar,
          allowCredentials = AllowCredentials options, optionPassthrough = OptionsPassthrough options\<rparr>)"

definition noOptions :: Options where
  "noOptions = \<lparr>AllowedOrigins = [], AllowOriginFunc = None, AllowOriginRequestFunc = None, AllowedMethods = [],
     AllowedHeaders = [], ExposedHeaders = [], MaxAge = 0, AllowCredentials = False, OptionsPassthrough = False\<rparr>"

definition Default :: Cors where
  "Default = New noOptions"

definition AllowAll :: Cors where
  "AllowAll = New (noOptions\<lparr>AllowedOrigins := [''*''],
     AllowedMethods := [''HEAD'', ''GET'', ''POST'', ''PUT'', ''PATCH'', ''DELETE''], AllowedHeaders := [''*'']\<rparr>)"

section \<open>What is allowed\<close>

definition isOriginAllowed :: "Cors \<Rightarrow> httpRequest \<Rightarrow> string \<Rightarrow> bool" where
  "isOriginAllowed c r origin =
     (case allowOriginRequestFunc c of
        Some f \<Rightarrow> f r origin
      | None \<Rightarrow>
          (case allowOriginFunc c of
             Some f \<Rightarrow> f origin
           | None \<Rightarrow>
               allowedOriginsAll c \<or> toLower origin \<in> set (allowedOrigins c)
               \<or> list_ex (\<lambda>w. wildcardMatch w (toLower origin)) (allowedWOrigins c)))"

definition OriginAllowed :: "Cors \<Rightarrow> httpRequest \<Rightarrow> bool" where
  "OriginAllowed c r = isOriginAllowed c r (headerGet r ''Origin'')"

definition isMethodAllowed :: "Cors \<Rightarrow> string \<Rightarrow> bool" where
  "isMethodAllowed c m =
     (if allowedMethods c = [] then False
      else toUpper m = ''OPTIONS'' \<or> toUpper m \<in> set (allowedMethods c))"

definition areHeadersAllowed :: "Cors \<Rightarrow> string list \<Rightarrow> bool" where
  "areHeadersAllowed c hs =
     (allowedHeadersAll c \<or> hs = [] \<or> list_all (\<lambda>h. canonicalHeaderKey h \<in> set (allowedHeaders c)) hs)"

section \<open>The two kinds of requests\<close>

definition allowOrigin :: "Cors \<Rightarrow> string \<Rightarrow> response \<Rightarrow> response" where
  "allowOrigin c origin =
     headerSet ''Access-Control-Allow-Origin'' (if allowedOriginsAll c then ''*'' else origin)"

definition credentials :: "Cors \<Rightarrow> response \<Rightarrow> response" where
  "credentials c w =
     (if allowCredentials c then headerSet ''Access-Control-Allow-Credentials'' ''true'' w else w)"

definition handlePreflight :: "Cors \<Rightarrow> httpRequest \<Rightarrow> response \<Rightarrow> response" where
  "handlePreflight c r w =
     (if Method r \<noteq> ''OPTIONS'' then w
      else
        let w1 = headerAdd ''Vary'' ''Access-Control-Request-Headers''
                   (headerAdd ''Vary'' ''Access-Control-Request-Method'' (headerAdd ''Vary'' ''Origin'' w));
            origin = headerGet r ''Origin'';
            reqMethod = headerGet r ''Access-Control-Request-Method'';
            reqHeaders = parseHeaderList (headerGet r ''Access-Control-Request-Headers'')
        in if origin = '''' \<or> \<not> isOriginAllowed c r origin \<or> \<not> isMethodAllowed c reqMethod
              \<or> \<not> areHeadersAllowed c reqHeaders then w1
           else
             let w2 = headerSet ''Access-Control-Allow-Methods'' (toUpper reqMethod) (allowOrigin c origin w1);
                 w3 = (if reqHeaders \<noteq> [] then headerSet ''Access-Control-Allow-Headers'' (joinComma reqHeaders) w2 else w2);
                 w4 = credentials c w3
             in if 0 < maxAge c then headerSet ''Access-Control-Max-Age'' (Itoa (maxAge c)) w4 else w4)"

definition handleActualRequest :: "Cors \<Rightarrow> httpRequest \<Rightarrow> response \<Rightarrow> response" where
  "handleActualRequest c r w =
     (let w1 = headerAdd ''Vary'' ''Origin'' w; origin = headerGet r ''Origin''
      in if origin = '''' \<or> \<not> isOriginAllowed c r origin \<or> \<not> isMethodAllowed c (Method r) then w1
         else
           let w2 = allowOrigin c origin w1;
               w3 = (if exposedHeaders c \<noteq> []
                     then headerSet ''Access-Control-Expose-Headers'' (joinComma (exposedHeaders c)) w2 else w2)
           in credentials c w3)"

definition isPreflight :: "httpRequest \<Rightarrow> bool" where
  "isPreflight r = (Method r = ''OPTIONS'' \<and> headerGet r ''Access-Control-Request-Method'' \<noteq> '''')"

text \<open>
  \<open>Handler\<close>: a
  preflight is answered here and stops the chain unless the options pass it through.
\<close>

definition corsHandler :: "Cors \<Rightarrow> (httpRequest \<Rightarrow> (world, unit) prog) \<Rightarrow> httpRequest \<Rightarrow> (world, unit) prog" where
  "corsHandler c h r =
     (if isPreflight r then
        andThen (modify (onResp (handlePreflight c r)))
          (\<lambda>_. if optionPassthrough c then h r else modify (onResp (writeHeader 204)))
      else andThen (modify (onResp (handleActualRequest c r))) (\<lambda>_. h r))"

text \<open>The same as middleware, with the next handler as an argument.\<close>

definition ServeHTTP :: "Cors \<Rightarrow> httpRequest \<Rightarrow> (httpRequest \<Rightarrow> (world, unit) prog) \<Rightarrow> (world, unit) prog" where
  "ServeHTTP c r next =
     (if isPreflight r then
        andThen (modify (onResp (handlePreflight c r)))
          (\<lambda>_. if optionPassthrough c then next r else modify (onResp (writeHeader 204)))
      else andThen (modify (onResp (handleActualRequest c r))) (\<lambda>_. next r))"

definition corsHandlerFunc :: "Cors \<Rightarrow> httpRequest \<Rightarrow> response \<Rightarrow> response" where
  "corsHandlerFunc c r w =
     (if isPreflight r then handlePreflight c r w else handleActualRequest c r w)"

section \<open>The headers of a preflight\<close>

text \<open>The bytes a header of \<open>parseHeaderList\<close> is made of.\<close>

definition headerNameByte :: "char \<Rightarrow> bool" where
  "headerNameByte c = (is_lower c \<or> is_upper c \<or> is_digit c \<or> c \<in> {CHR ''-'', CHR ''_'', CHR ''.''})"

lemma headerByte_name: "list_all headerNameByte (headerByte up b)"
  by (auto simp: headerByte_def headerNameByte_def upperByte_upper lowerByte_lower)

lemma headersFrom_names:
  "list_all headerNameByte h \<Longrightarrow> x \<in> set (headersFrom h up s) \<Longrightarrow> x \<noteq> '''' \<and> list_all headerNameByte x"
proof (induction h up s rule: headersFrom.induct)
  case (2 h up b bs)
  let ?h = "h @ headerByte up b"
  have h: "list_all headerNameByte ?h" using 2(4) headerByte_name by simp
  show ?case
  proof (cases "b = CHR '' '' \<or> b = CHR '','' \<or> bs = []")
    case True
    with 2 h show ?thesis by (cases "?h = []") (auto simp: Let_def simp del: append_is_Nil_conv)
  next
    case False
    with 2 h show ?thesis by (simp add: Let_def)
  qed
qed simp

lemma parseHeaderList_names:
  "x \<in> set (parseHeaderList s) \<Longrightarrow> x \<noteq> '''' \<and> list_all headerNameByte x"
  unfolding parseHeaderList_def by (rule headersFrom_names) simp_all

section \<open>Which requests get which headers\<close>

definition grantsActual :: "Cors \<Rightarrow> httpRequest \<Rightarrow> bool" where
  "grantsActual c r \<longleftrightarrow> headerGet r ''Origin'' \<noteq> '''' \<and> isOriginAllowed c r (headerGet r ''Origin'')
     \<and> isMethodAllowed c (Method r)"

definition grantsPreflight :: "Cors \<Rightarrow> httpRequest \<Rightarrow> bool" where
  "grantsPreflight c r \<longleftrightarrow> headerGet r ''Origin'' \<noteq> '''' \<and> isOriginAllowed c r (headerGet r ''Origin'')
     \<and> isMethodAllowed c (headerGet r ''Access-Control-Request-Method'')
     \<and> areHeadersAllowed c (parseHeaderList (headerGet r ''Access-Control-Request-Headers''))"

definition originValue :: "Cors \<Rightarrow> httpRequest \<Rightarrow> string" where
  "originValue c r = (if allowedOriginsAll c then ''*'' else headerGet r ''Origin'')"

lemma acao_credentials [simp]:
  "headerValues ''Access-Control-Allow-Origin'' (credentials c w) = headerValues ''Access-Control-Allow-Origin'' w"
  by (simp add: credentials_def)

lemma acao_allowOrigin [simp]:
  "headerValues ''Access-Control-Allow-Origin'' (allowOrigin c (headerGet r ''Origin'') w) = [originValue c r]"
  by (simp add: allowOrigin_def originValue_def)

lemma handleActualRequest_refused:
  "\<not> grantsActual c r \<Longrightarrow> handleActualRequest c r w = headerAdd ''Vary'' ''Origin'' w"
  unfolding handleActualRequest_def grantsActual_def Let_def by argo

lemma actual_acao:
  "headerValues ''Access-Control-Allow-Origin'' (handleActualRequest c r w) =
     (if grantsActual c r then [originValue c r] else headerValues ''Access-Control-Allow-Origin'' w)"
proof (cases "grantsActual c r")
  case True
  then show ?thesis
    by (cases "exposedHeaders c = []") (simp_all add: handleActualRequest_def grantsActual_def Let_def)
qed (simp add: handleActualRequest_refused)

definition preflightVary :: "response \<Rightarrow> response" where
  "preflightVary w = headerAdd ''Vary'' ''Access-Control-Request-Headers''
     (headerAdd ''Vary'' ''Access-Control-Request-Method'' (headerAdd ''Vary'' ''Origin'' w))"

lemma acao_preflightVary [simp]:
  "headerValues ''Access-Control-Allow-Origin'' (preflightVary w) = headerValues ''Access-Control-Allow-Origin'' w"
  by (simp add: preflightVary_def)

lemma handlePreflight_refused:
  "isPreflight r \<Longrightarrow> \<not> grantsPreflight c r \<Longrightarrow> handlePreflight c r w = preflightVary w"
  unfolding handlePreflight_def grantsPreflight_def isPreflight_def preflightVary_def Let_def by argo

lemma preflight_acao:
  "isPreflight r \<Longrightarrow> headerValues ''Access-Control-Allow-Origin'' (handlePreflight c r w) =
     (if grantsPreflight c r then [originValue c r] else headerValues ''Access-Control-Allow-Origin'' w)"
proof (cases "grantsPreflight c r")
  case True
  moreover assume "isPreflight r"
  ultimately show ?thesis
    by (cases "parseHeaderList (headerGet r ''Access-Control-Request-Headers'') = []"; cases "0 < maxAge c")
       (simp_all add: handlePreflight_def isPreflight_def grantsPreflight_def Let_def)
qed (simp add: handlePreflight_refused)

text \<open>The wrapper writes no status and no body of its own.\<close>

lemma handlePreflight_status:
  "rsStatus (handlePreflight c r w) = rsStatus w \<and> rsBody (handlePreflight c r w) = rsBody w"
  by (simp add: handlePreflight_def Let_def credentials_def allowOrigin_def)

lemma handleActualRequest_status:
  "rsStatus (handleActualRequest c r w) = rsStatus w \<and> rsBody (handleActualRequest c r w) = rsBody w"
  by (simp add: handleActualRequest_def Let_def credentials_def allowOrigin_def)

lemma Default_fields [simp]:
  "allowedOriginsAll Default" "allowOriginFunc Default = None" "allowOriginRequestFunc Default = None"
  "allowedMethods Default = [''GET'', ''POST'', ''HEAD'']" "\<not> allowCredentials Default"
  "allowedHeaders Default = [''Origin'', ''Accept'', ''Content-Type'', ''X-Requested-With'']"
  "exposedHeaders Default = []" "maxAge Default = 0" "\<not> allowedHeadersAll Default" "\<not> optionPassthrough Default"
  by (simp_all add: Default_def New_def noOptions_def headersOf_def methodsOf_def convert_def)

lemma Default_origin [simp]: "isOriginAllowed Default r origin"
  by (simp add: isOriginAllowed_def)

section \<open>Properties\<close>

text \<open>
  C13. The header \<open>Access-Control-Allow-Origin\<close>, which lets another site read an answer, is written
  exactly when the request has an origin that the options allow, its method is one of the
  allowed or \<open>OPTIONS\<close>, and, for a preflight, every header it asks for is allowed; otherwise it is
  left as it was. Its value is the origin of the request, or a star when all origins are allowed.
  The method of a preflight is the one it asks for.
\<close>

theorem cors_allows_only_allowed:
  "let origin = headerGet r ''Origin'';
       asked = (if isPreflight r then headerGet r ''Access-Control-Request-Method'' else Method r);
       wanted = (if isPreflight r then parseHeaderList (headerGet r ''Access-Control-Request-Headers'') else [])
   in headerValues ''Access-Control-Allow-Origin'' (corsHandlerFunc c r w) =
     (if origin \<noteq> '''' \<and> isOriginAllowed c r origin
         \<and> allowedMethods c \<noteq> [] \<and> toUpper asked \<in> {''OPTIONS''} \<union> set (allowedMethods c)
         \<and> (allowedHeadersAll c \<or> canonicalHeaderKey ` set wanted \<subseteq> set (allowedHeaders c))
      then [if allowedOriginsAll c then ''*'' else origin]
      else headerValues ''Access-Control-Allow-Origin'' w)"
proof -
  have m: "isMethodAllowed c x \<longleftrightarrow> allowedMethods c \<noteq> [] \<and> toUpper x \<in> {''OPTIONS''} \<union> set (allowedMethods c)" for x
    by (simp add: isMethodAllowed_def)
  have h: "areHeadersAllowed c hs \<longleftrightarrow> allowedHeadersAll c \<or> canonicalHeaderKey ` set hs \<subseteq> set (allowedHeaders c)" for hs
    by (auto simp: areHeadersAllowed_def list_all_iff)
  show ?thesis
  proof (cases "isPreflight r")
    case True
    then show ?thesis
      unfolding Let_def by (auto simp: preflight_acao corsHandlerFunc_def grantsPreflight_def originValue_def h m)
  next
    case False
    then show ?thesis
      unfolding Let_def by (auto simp: actual_acao corsHandlerFunc_def grantsActual_def originValue_def m)
  qed
qed

text \<open>
  The header names a preflight repeats are clean: whatever bytes
  \<open>Access-Control-Request-Headers\<close> has, \<open>parseHeaderList\<close> gives non-empty names of letters,
  digits, hyphens, underscores and dots, so no line break reaches the response.
\<close>

theorem header_names_clean:
  "\<forall>h \<in> set (parseHeaderList s). h \<noteq> '''' \<and> list_all headerNameByte h"
  using parseHeaderList_names by blast

text \<open>
  The server's wrapper, made with the default options, lets scripts of every web site
  post to it, without credentials: an actual request with an origin gets the star.
\<close>

theorem default_allows_every_site:
  assumes "headerGet r ''Origin'' \<noteq> ''''" and "Method r = ''POST''"
  shows "headerValues ''Access-Control-Allow-Origin'' (handleActualRequest Default r w) = [''*'']
    \<and> headerValues ''Access-Control-Allow-Credentials'' (handleActualRequest Default r w) =
        headerValues ''Access-Control-Allow-Credentials'' w"
proof -
  have m: "isMethodAllowed Default ''POST''"
    unfolding isMethodAllowed_def Default_fields by code_simp
  with assms have "grantsActual Default r" by (simp add: grantsActual_def)
  then show ?thesis
    using actual_acao [of Default r w] assms m
    by (simp add: originValue_def handleActualRequest_def Let_def credentials_def allowOrigin_def)
qed

subsection \<open>Witnesses\<close>

definition sample_post :: httpRequest where
  "sample_post = \<lparr>Method = ''POST'', Header = [(''Origin'', ''https://a.example'')]\<rparr>"

definition sample_cors :: Cors where
  "sample_cors = New (noOptions\<lparr>AllowedOrigins := [''https://*.example'', ''https://b.test'']\<rparr>)"

theorem cors_allows_only_allowed_witness:
  "headerValues ''Access-Control-Allow-Origin''
     (corsHandlerFunc sample_cors (sample_post\<lparr>Header := [(''Origin'', ''https://x.example'')]\<rparr>) noResponse) = [''https://x.example'']"
proof -
  let ?r = "sample_post\<lparr>Header := [(''Origin'', ''https://x.example'')]\<rparr>"
  have "headerGet ?r ''Origin'' = ''https://x.example''" "isOriginAllowed sample_cors ?r ''https://x.example''"
    "\<not> isPreflight ?r" "Method ?r = ''POST''"
    "allowedMethods sample_cors = [''GET'', ''POST'', ''HEAD'']" "toUpper ''POST'' = ''POST''" "\<not> allowedOriginsAll sample_cors"
    by code_simp+
  with cors_allows_only_allowed [of ?r sample_cors noResponse] show ?thesis by (simp add: Let_def)
qed

theorem header_names_clean_witness:
  "parseHeaderList ''x-token, ACCEPT'' = [''X-Token'', ''Accept''] \<and> list_all headerNameByte ''X-Token''"
proof -
  have "parseHeaderList ''x-token, ACCEPT'' = [''X-Token'', ''Accept'']" by code_simp
  with header_names_clean [of "''x-token, ACCEPT''"] show ?thesis by simp
qed

theorem default_allows_every_site_witness:
  "headerValues ''Access-Control-Allow-Origin'' (handleActualRequest Default sample_post noResponse) = [''*'']"
  using default_allows_every_site [of sample_post noResponse] by (simp add: sample_post_def headerGet_def)

end
