(* ===== verification/Server.thy ===== *)
theory Server
  imports HandlerRuns Cors
begin

text \<open>
  \<open>main\<close> of \<open>src/Web/main.go\<close>: the multiplexer with its two patterns, in the CORS wrapper
  with the default options. The multiplexer is \<open>http.ServeMux\<close>; the metrics endpoint behind
  the pattern \<open>/\<close> is a parameter. The server listens on \<open>0.0.0.0:1927\<close>.
\<close>

section \<open>The multiplexer\<close>

text \<open>
  \<open>path.Clean\<close> on a rooted path: the components in order, \<open>acc\<close> holding those kept,
  newest first.
\<close>

fun cleanComponents :: "string list \<Rightarrow> string list \<Rightarrow> string list" where
  "cleanComponents acc [] = rev acc"
| "cleanComponents acc (c # cs) =
     (if c = '''' \<or> c = ''.'' then cleanComponents acc cs
      else if c = ''..'' then cleanComponents (tl acc) cs
      else cleanComponents (c # acc) cs)"

definition joinSlash :: "string list \<Rightarrow> string" where
  "joinSlash cs = (if cs = [] then ''/'' else concat (map (\<lambda>c. ''/'' @ c) cs))"

text \<open>\<open>cleanPath\<close> of \<open>net/http\<close>: a trailing slash is kept.\<close>

definition cleanPath :: "string \<Rightarrow> string" where
  "cleanPath p =
     (let np = joinSlash (cleanComponents [] (splitOn (CHR ''/'') p))
      in if p \<noteq> '''' \<and> last p = CHR ''/'' \<and> np \<noteq> ''/'' then np @ ''/'' else np)"

datatype route = ToUpload | ToMetrics | Redirected string

definition muxHandler :: "string \<Rightarrow> route" where
  "muxHandler p = (if p = ''/upload'' then ToUpload else ToMetrics)"

text \<open>A path that is not clean is redirected, except for the method \<open>CONNECT\<close>.\<close>

definition mux :: "string \<Rightarrow> string \<Rightarrow> route" where
  "mux verb p =
     (if verb \<noteq> ''CONNECT'' \<and> cleanPath p \<noteq> p then Redirected (cleanPath p) else muxHandler p)"

section \<open>A request to the server\<close>

record incoming =
  inHttp :: httpRequest
  inPath :: string
  inBody :: request

text \<open>The metrics endpoint answers from the state of the Go runtime, which is no part of the world.\<close>

definition redirect :: "string \<Rightarrow> response \<Rightarrow> response" where
  "redirect url r = writeHeader 301 (headerSet ''Location'' url r)"

definition muxServe :: "env \<Rightarrow> (httpRequest \<Rightarrow> response \<Rightarrow> response) \<Rightarrow> string \<Rightarrow> request \<Rightarrow> httpRequest \<Rightarrow> (world, unit) prog" where
  "muxServe e metrics p body h =
     (case mux (Method h) p of
        Redirected url \<Rightarrow> modify (onResp (redirect url))
      | ToUpload \<Rightarrow> multipleFile e body
      | ToMetrics \<Rightarrow> modify (onResp (metrics h)))"

definition serve :: "env \<Rightarrow> (httpRequest \<Rightarrow> response \<Rightarrow> response) \<Rightarrow> incoming \<Rightarrow> (world, unit) prog" where
  "serve e metrics r = corsHandler Default (muxServe e metrics (inPath r) (inBody r)) (inHttp r)"

section \<open>Which requests upload\<close>

lemma splitOn_upload: "splitOn (CHR ''/'') ''/upload'' = ['''', ''upload'']"
  by code_simp

lemma mux_upload: "mux verb p = ToUpload \<longleftrightarrow> p = ''/upload''"
proof -
  have "cleanPath ''/upload'' = ''/upload''" by code_simp
  then show ?thesis by (auto simp: mux_def muxHandler_def)
qed

definition uploads :: "incoming \<Rightarrow> bool" where
  "uploads r \<longleftrightarrow> inPath r = ''/upload'' \<and> \<not> isPreflight (inHttp r)"

definition corsWorld :: "incoming \<Rightarrow> world \<Rightarrow> world" where
  "corsWorld r w = onResp (handleActualRequest Default (inHttp r)) w"

lemma corsWorld_simps [simp]:
  "wfs (corsWorld r w) = wfs w" "wdb (corsWorld r w) = wdb w" "wcalls (corsWorld r w) = wcalls w"
  "wresp (corsWorld r w) = handleActualRequest Default (inHttp r) (wresp w)"
  by (simp_all add: corsWorld_def)

lemma serve_upload: "uploads r \<Longrightarrow> serve e metrics r w = multipleFile e (inBody r) (corsWorld r w)"
  using mux_upload [of "Method (inHttp r)" "''/upload''"]
  by (simp add: serve_def corsHandler_def uploads_def muxServe_def corsWorld_def)

lemma serve_other:
  assumes "\<not> uploads r"
  shows "\<exists>g. serve e metrics r w = (Ret (), onResp g w)"
proof -
  have m: "mux (Method (inHttp r)) (inPath r) \<noteq> ToUpload" if "\<not> isPreflight (inHttp r)"
    using assms that by (auto simp: uploads_def mux_upload)
  have comp: "onResp g (onResp h w) = onResp (g \<circ> h) w" for g h w
    by (simp add: onResp_def)
  show ?thesis
    using m
    by (auto simp: serve_def corsHandler_def muxServe_def comp intro: exI split: route.splits)
qed

section \<open>Properties\<close>

text \<open>
  C12. Only \<open>/upload\<close> reaches the handler, for every method but a preflight: any other request
  changes nothing but its own answer, and a request to \<open>/upload\<close> is the handler's, with the
  headers of the CORS wrapper.
\<close>

theorem routing:
  "(inPath r = ''/upload'' \<and> \<not> isPreflight (inHttp r) \<longrightarrow>
      serve e metrics r w = multipleFile e (inBody r) (onResp (handleActualRequest Default (inHttp r)) w))
   \<and> (inPath r \<noteq> ''/upload'' \<or> isPreflight (inHttp r) \<longrightarrow>
      fst (serve e metrics r w) = Ret () \<and> wfs (snd (serve e metrics r w)) = wfs w
      \<and> wdb (snd (serve e metrics r w)) = wdb w \<and> wcalls (snd (serve e metrics r w)) = wcalls w)"
  using serve_upload [of r e metrics w] serve_other [of r e metrics w]
  by (auto simp: uploads_def corsWorld_def)

text \<open>
  A preflight is answered by the wrapper with status 204 and no body; it names the asked
  method only if the default options allow it.
\<close>

theorem preflight_answered:
  assumes "isPreflight (inHttp r)" and "wresp w = noResponse"
  shows "\<exists>w'. serve e metrics r w = (Ret (), w') \<and> rsStatus (wresp w') = 204 \<and> rsBody (wresp w') = ''''
    \<and> (headerValues ''Access-Control-Allow-Methods'' (wresp w') \<noteq> [] \<longrightarrow>
        toUpper (headerGet (inHttp r) ''Access-Control-Request-Method'') \<in> {''GET'', ''POST'', ''HEAD'', ''OPTIONS''})"
proof -
  let ?p = "handlePreflight Default (inHttp r) noResponse"
  have s: "serve e metrics r w = (Ret (), onResp (\<lambda>_. writeHeader 204 ?p) w)"
    using assms by (simp add: serve_def corsHandler_def onResp_def)
  have st: "rsStatus (writeHeader 204 ?p) = 204 \<and> rsBody (writeHeader 204 ?p) = ''''"
    using handlePreflight_status [of Default "inHttp r" noResponse]
    by (simp add: noResponse_def writeHeader_def)
  have "toUpper (headerGet (inHttp r) ''Access-Control-Request-Method'') \<in> {''GET'', ''POST'', ''HEAD'', ''OPTIONS''}"
    if "headerValues ''Access-Control-Allow-Methods'' ?p \<noteq> []"
  proof (rule ccontr)
    assume "\<not> ?thesis"
    then have "\<not> grantsPreflight Default (inHttp r)"
      by (auto simp: grantsPreflight_def isMethodAllowed_def)
    with that handlePreflight_refused [OF assms(1), of Default noResponse] show False
      by (simp add: preflightVary_def)
  qed
  with s st show ?thesis by simp
qed

subsection \<open>Witnesses\<close>

definition sample_incoming :: "string \<Rightarrow> string \<Rightarrow> incoming" where
  "sample_incoming verb p =
     \<lparr>inHttp = \<lparr>Method = verb, Header = [(''Origin'', ''https://a.example''),
        (''Access-Control-Request-Method'', ''POST'')]\<rparr>, inPath = p, inBody = Multipart good_parts True\<rparr>"

lemma sample_preflight: "isPreflight (inHttp (sample_incoming verb p)) \<longleftrightarrow> verb = ''OPTIONS''"
  by (simp add: isPreflight_def sample_incoming_def headerGet_def)

theorem routing_witness:
  "serve good_env (\<lambda>_ r. r) (sample_incoming ''GET'' ''/upload'') (good_start noDocs) =
     multipleFile good_env (Multipart good_parts True)
       (onResp (handleActualRequest Default (inHttp (sample_incoming ''GET'' ''/upload''))) (good_start noDocs))
   \<and> wdb (snd (serve good_env (\<lambda>_ r. r) (sample_incoming ''POST'' ''//upload'') (good_start noDocs))) = noDocs"
  using routing [of "sample_incoming ''GET'' ''/upload''" good_env "\<lambda>_ r. r" "good_start noDocs"]
    routing [of "sample_incoming ''POST'' ''//upload''" good_env "\<lambda>_ r. r" "good_start noDocs"]
  by (simp add: sample_preflight) (simp add: sample_incoming_def)

theorem preflight_answered_witness:
  "\<exists>w'. serve good_env (\<lambda>_ r. r) (sample_incoming ''OPTIONS'' ''/upload'') (good_start noDocs) = (Ret (), w')
     \<and> rsStatus (wresp w') = 204"
  using preflight_answered [of "sample_incoming ''OPTIONS'' ''/upload''" "good_start noDocs" good_env "\<lambda>_ r. r"]
    sample_preflight [of "''OPTIONS''" "''/upload''"]
  by auto

end
