(* ===== verification/Concurrent.thy ===== *)
theory Concurrent
  imports HandlerRuns "HOL-Library.Multiset"
begin

text \<open>
  The server handles each request in a goroutine of its own: requests interleave, and share the
  file system and the databases. Here the handler is cut into steps, each one the definition the
  sequential handler is made of, and the server is a step
  relation over the requests in progress. A lookup, an insertion and the reading of one source are
  each a step; the run of a compiler, the taking of the contract file and the making of a folder
  are taken as one step too, though they read and write the file system more than once. The calls
  of other programs return. A \<open>log.Fatal\<close> of one request is the end of all.
\<close>

section \<open>The handler in steps\<close>

text \<open>Where a request is, with the variables that are live there.\<close>

datatype pc =
    Arrived
  | Receiving "part list" dict1
  | Compiling dict1
  | Taking dict1
  | Asking string dict1
  | Comparing string string dict1 dict2
  | Opening dict1 dict2
  | Looking dbkey dict1 dict2
  | Inserting dbkey dict1 dict2
  | Listing dbkey dict1 dict2
  | Storing dbkey dict1 dict2 "(string \<times> bool) list"
  | Ended "unit outcome"

definition bodyEnds :: "request \<Rightarrow> bool" where
  "bodyEnds r = (case r of NotMultipart err \<Rightarrow> True | Multipart ps eof \<Rightarrow> eof)"

text \<open>A step goes on when its part of the code returns; otherwise the request ends.\<close>

definition after :: "'a outcome \<times> world \<Rightarrow> ('a \<Rightarrow> pc) \<Rightarrow> pc \<times> world" where
  "after res f =
     (case res of
        (Ret a, w) \<Rightarrow> (f a, w)
      | (Fatal err, w) \<Rightarrow> (Ended (Fatal err), w)
      | (Panic err, w) \<Rightarrow> (Ended (Panic err), w))"

definition finished :: pc where
  "finished = Ended (Ret ())"

definition compileStep :: "env \<Rightarrow> dict1 \<Rightarrow> world \<Rightarrow> pc \<times> world" where
  "compileStep e m w =
     (case selectCommand m (folderOf e) of
        None \<Rightarrow> (finished, failAndClean 0 msgNoCompiler (folderOf e) w)
      | Some sel \<Rightarrow>
          after (runCompiler e (folderOf e) (theCommand (folderOf e) m sel) w)
            (\<lambda>started. if started then Taking m else finished))"

definition openStep :: "env \<Rightarrow> dict1 \<Rightarrow> dict2 \<Rightarrow> world \<Rightarrow> pc \<times> world" where
  "openStep e m m2 w =
     (case OpenConfigFile e (wfs w) of
        None \<Rightarrow> (Ended (Fatal '' open file error''), w)
      | Some cfg \<Rightarrow> after (intializeMongoOnlineClient e cfg w) (\<lambda>key. Looking key m m2))"

fun stage :: "env \<Rightarrow> request \<Rightarrow> pc \<Rightarrow> world \<Rightarrow> pc \<times> world" where
  "stage e r Arrived w =
     (case r of
        NotMultipart err \<Rightarrow> (finished, onResp (httpError err 500) (snd (createDateDir e w)))
      | Multipart ps eof \<Rightarrow> (Receiving ps Map.empty, snd (createDateDir e w)))"
| "stage e r (Receiving [] m) w =
     (if bodyEnds r then (Compiling m, w)
      else (Ended (Panic ''invalid memory address or nil pointer dereference''), w))"
| "stage e r (Receiving (p # ps) m) w = after (receivePart (folderOf e) p m w) (Receiving ps)"
| "stage e r (Compiling m) w = compileStep e m w"
| "stage e r (Taking m) w =
     after (takeNef (folderOf e) m w) (\<lambda>(s, m'). if s \<in> {''0'', ''1'', ''2''} then finished else Asking s m')"
| "stage e r (Asking s m) w =
     after (getContractState e (folderOf e) m Map.empty w)
       (\<lambda>(version, t, m2). if t = ''3'' \<or> t = ''4'' then finished else Comparing s t m m2)"
| "stage e r (Comparing s t m m2) w =
     (if t = s then (Opening m m2, w) else (finished, onResp (answer 8 msgMismatch) w))"
| "stage e r (Opening m m2) w = openStep e m m2 w"
| "stage e r (Looking key m m2) w =
     (if foundVerified e key m m2 w then (finished, finishAlready (folderOf e) w) else (Inserting key m m2, w))"
| "stage e r (Inserting key m m2) w = after (insertVerified e key m m2 w) (\<lambda>_. Listing key m m2)"
| "stage e r (Listing key m m2) w = (Storing key m m2 (readFolder (folderOf e) (wfs w)), w)"
| "stage e r (Storing key m m2 []) w = (finished, finishRecorded (folderOf e) m w)"
| "stage e r (Storing key m m2 (fi # rd)) w =
     after (recordSource e (folderOf e) key m m2 fi w) (\<lambda>_. Storing key m m2 rd)"
| "stage e r (Ended out) w = (Ended out, w)"

section \<open>One request alone: the steps are the handler\<close>

text \<open>What is left to do at a place, as a part of the sequential handler.\<close>

definition restComparing :: "env \<Rightarrow> string \<Rightarrow> string \<times> string \<times> dict2 \<Rightarrow> dict1 \<Rightarrow> (world, unit) prog" where
  "restComparing e s res m =
     (case res of (version, t, m2) \<Rightarrow>
        if t = ''3'' \<or> t = ''4'' then ret () else compareScripts e (folderOf e) s t m m2)"

definition restAsking :: "env \<Rightarrow> string \<times> dict1 \<Rightarrow> (world, unit) prog" where
  "restAsking e res =
     (case res of (s, m) \<Rightarrow>
        if s = ''0'' \<or> s = ''1'' \<or> s = ''2'' then ret ()
        else andThen (getContractState e (folderOf e) m Map.empty) (\<lambda>res. restComparing e s res m))"

definition restStoring :: "env \<Rightarrow> dbkey \<Rightarrow> dict1 \<Rightarrow> dict2 \<Rightarrow> (string \<times> bool) list \<Rightarrow> (world, unit) prog" where
  "restStoring e key m m2 rd =
     andThen (recordSources e (folderOf e) key m m2 rd) (\<lambda>_. modify (finishRecorded (folderOf e) m))"

fun rest :: "env \<Rightarrow> request \<Rightarrow> pc \<Rightarrow> (world, unit) prog" where
  "rest e r Arrived = multipleFile e r"
| "rest e r (Receiving ps m) =
     andThen (receiveParts (folderOf e) ps (bodyEnds r) m) (verifyUpload e (folderOf e) (folderOf e))"
| "rest e r (Compiling m) = verifyUpload e (folderOf e) (folderOf e) m"
| "rest e r (Taking m) = andThen (takeNef (folderOf e) m) (restAsking e)"
| "rest e r (Asking s m) =
     andThen (getContractState e (folderOf e) m Map.empty) (\<lambda>res. restComparing e s res m)"
| "rest e r (Comparing s t m m2) = compareScripts e (folderOf e) s t m m2"
| "rest e r (Opening m m2) = matched e (folderOf e) m m2"
| "rest e r (Looking key m m2) =
     andThen (reads (foundVerified e key m m2)) (\<lambda>found.
       if found then modify (finishAlready (folderOf e)) else recordVerified e (folderOf e) key m m2)"
| "rest e r (Inserting key m m2) = recordVerified e (folderOf e) key m m2"
| "rest e r (Listing key m m2) =
     andThen (reads (\<lambda>w. readFolder (folderOf e) (wfs w))) (restStoring e key m m2)"
| "rest e r (Storing key m m2 rd) = restStoring e key m m2 rd"
| "rest e r (Ended out) = (\<lambda>w. (out, w))"

lemma after_simps [simp]:
  "after (Ret a, w) f = (f a, w)" "after (Fatal err, w) f = (Ended (Fatal err), w)"
  "after (Panic err, w) f = (Ended (Panic err), w)"
  by (simp_all add: after_def)

text \<open>If what follows the step means what follows the call, the step and the call mean the same.\<close>

lemma rest_after:
  assumes "\<And>a. rest e r (f a) = g a"
  shows "(\<lambda>(q, w'). rest e r q w') (after (m w) f) = andThen m g w"
  by (cases rule: andThen_cases [of m w g]) (simp_all add: assms)

lemma verifyUpload_steps:
  "verifyUpload e d d m = andThen (execCommand e d d m) (\<lambda>res.
     case res of (s, m') \<Rightarrow> if s = ''0'' \<or> s = ''1'' \<or> s = ''2'' then ret ()
       else andThen (getContractState e d m' Map.empty) (\<lambda>res. case res of (version, t, m2) \<Rightarrow>
         if t = ''3'' \<or> t = ''4'' then ret () else compareScripts e d s t m' m2))"
  by (simp add: verifyUpload_def)

lemma restAsking_verify:
  "verifyUpload e (folderOf e) (folderOf e) m = andThen (execCommand e (folderOf e) (folderOf e) m) (restAsking e)"
  unfolding verifyUpload_steps restAsking_def [abs_def] restComparing_def [abs_def] ..

text \<open>A step takes a request from a place to one with the same meaning.\<close>

lemma rest_stage: "(\<lambda>(q, w'). rest e r q w') (stage e r p w) = rest e r p w"
proof (cases "(e, r, p, w)" rule: stage.cases)
  case (1 e r w)
  then show ?thesis
    by (simp add: multipleFile_def andThen_Ret [OF createDateDir_result] finished_def folderOf_def bodyEnds_def
        split: request.splits)
next
  case (4 e r m w)
  then show ?thesis
  proof (cases "selectCommand m (folderOf e)")
    case None
    with 4 show ?thesis
      by (simp add: compileStep_def finished_def restAsking_verify execCommand_def restAsking_def)
  next
    case (Some sel)
    have "rest e r (if started then Taking m else finished) =
        andThen (if started then takeNef (folderOf e) m else ret (''1'', m)) (restAsking e)" for started
      by (auto simp: finished_def restAsking_def)
    note run = rest_after [where f = "\<lambda>started. if started then Taking m else finished", OF this]
    show ?thesis
      using 4 Some run
      by (cases sel) (simp add: compileStep_def restAsking_verify execCommand_def theCommand_def andThen_assoc)
  qed
next
  case (5 e r m w)
  have "rest e r (case res of (s, m') \<Rightarrow> if s \<in> {''0'', ''1'', ''2''} then finished else Asking s m') = restAsking e res" for res
    by (auto simp: restAsking_def finished_def split: prod.splits)
  from rest_after [OF this] show ?thesis using 5 by simp
next
  case (6 e r s m w)
  have "rest e r (case res of (v, t, m2) \<Rightarrow> if t = ''3'' \<or> t = ''4'' then finished else Comparing s t m m2) = restComparing e s res m" for res
    by (auto simp: restComparing_def finished_def split: prod.splits)
  from rest_after [OF this] show ?thesis using 6 by simp
next
  case (8 e r m m2 w)
  then show ?thesis
    by (simp add: matched_def openStep_def intializeMongoOnlineClient_eq split: option.splits)
next
  case (13 e r key m m2 fi rd w)
  have "rest e r (Storing key m m2 rd) = restStoring e key m m2 rd" by simp
  from rest_after [where f = "\<lambda>_. Storing key m m2 rd", OF this] show ?thesis
    using 13 by (simp add: restStoring_def andThen_assoc)
next
  case (10 e r key m m2 w)
  have "rest e r (Listing key m m2) =
      andThen (reads (\<lambda>w. readFolder (folderOf e) (wfs w))) (restStoring e key m m2)" by simp
  from rest_after [where f = "\<lambda>_. Listing key m m2", OF this] show ?thesis
    using 10 by (simp add: recordVerified_def restStoring_def [abs_def])
next
  case (3 e r x ps m w)
  have "rest e r (Receiving ps m') = andThen (receiveParts (folderOf e) ps (bodyEnds r) m')
      (verifyUpload e (folderOf e) (folderOf e))" for m' by simp
  from rest_after [where f = "Receiving ps", OF this] show ?thesis
    using 3 by (simp add: andThen_assoc)
qed (auto simp: finished_def compareScripts_def recordVerified_def restStoring_def [abs_def] restComparing_def)

text \<open>Every step that is not the end comes closer to it: a phase further, or a list shorter.\<close>

fun phase :: "pc \<Rightarrow> nat" where
  "phase Arrived = 11"
| "phase (Receiving ps m) = 10"
| "phase (Compiling m) = 9"
| "phase (Taking m) = 8"
| "phase (Asking s m) = 7"
| "phase (Comparing s t m m2) = 6"
| "phase (Opening m m2) = 5"
| "phase (Looking key m m2) = 4"
| "phase (Inserting key m m2) = 3"
| "phase (Listing key m m2) = 2"
| "phase (Storing key m m2 rd) = 1"
| "phase (Ended out) = 0"

fun pending :: "pc \<Rightarrow> nat" where
  "pending (Receiving ps m) = length ps"
| "pending (Storing key m m2 rd) = length rd"
| "pending p = 0"

definition ended :: "pc \<Rightarrow> bool" where
  "ended p = (phase p = 0)"

lemma ended_iff: "ended p \<longleftrightarrow> (\<exists>out. p = Ended out)"
  by (cases p) (simp_all add: ended_def)

definition closer :: "(pc \<times> pc) set" where
  "closer = inv_image (less_than <*lex*> less_than) (\<lambda>p. (phase p, pending p))"

lemma closer_iff: "(q, p) \<in> closer \<longleftrightarrow> phase q < phase p \<or> phase q = phase p \<and> pending q < pending p"
  by (auto simp: closer_def)

lemma wf_closer: "wf closer"
  unfolding closer_def by (intro wf_inv_image wf_lex_prod wf_less_than)

lemma closer_after:
  assumes "0 < phase p" and "\<And>a. (f a, p) \<in> closer"
  shows "(fst (after res f), p) \<in> closer"
  using assms by (cases res; cases "fst res") (auto simp: closer_iff)

lemma stage_closer: "\<not> ended p \<Longrightarrow> (fst (stage e r p w), p) \<in> closer"
proof (induction e r p w rule: stage.induct)
  case (8 e r m m2 w)
  have "(fst (after res (\<lambda>key. Looking key m m2)), Opening m m2) \<in> closer" for res :: "dbkey outcome \<times> world"
    by (intro closer_after) (simp_all add: closer_iff)
  then show ?case by (simp add: openStep_def closer_iff split: option.splits)
next
  case (4 e r m w)
  have "(fst (after res (\<lambda>started. if started then Taking m else finished)), Compiling m) \<in> closer"
    for res :: "bool outcome \<times> world"
    by (intro closer_after) (simp_all add: closer_iff finished_def)
  then show ?case by (simp add: compileStep_def closer_iff finished_def split: option.splits)
qed ((simp only: stage.simps, (rule closer_after)?; auto simp: closer_iff finished_def ended_def split: request.splits)+)

definition move :: "env \<Rightarrow> request \<Rightarrow> pc \<times> world \<Rightarrow> pc \<times> world" where
  "move e r x = stage e r (fst x) (snd x)"

lemma move_pair: "move e r (p, w) = stage e r p w"
  by (simp add: move_def)

lemma moves_end:
  "\<exists>n. (move e r ^^ n) (p, w) = (Ended (fst (rest e r p w)), snd (rest e r p w))"
proof (induction p arbitrary: w rule: wf_induct_rule [OF wf_closer])
  case (1 p)
  show ?case
  proof (cases "ended p")
    case True
    then show ?thesis by (auto simp: ended_iff intro: exI [of _ 0])
  next
    case False
    obtain q w' where q: "stage e r p w = (q, w')" by fastforce
    with stage_closer [OF False] have "(q, p) \<in> closer" by (metis fst_conv)
    from 1 [OF this] obtain n where n: "(move e r ^^ n) (q, w') = (Ended (fst (rest e r q w')), snd (rest e r q w'))"
      by blast
    have "rest e r q w' = rest e r p w" using rest_stage [of e r p w] q by simp
    with n q have "(move e r ^^ Suc n) (p, w) = (Ended (fst (rest e r p w)), snd (rest e r p w))"
      by (simp add: funpow_swap1 move_def)
    then show ?thesis by blast
  qed
qed

text \<open>
  The steps refine the handler: a request whose steps are not interleaved with others comes
  to its end after finitely many of them, with the outcome and the state of \<open>multipleFile\<close>.
\<close>

theorem steps_are_handler:
  "\<exists>n. (move e r ^^ n) (Arrived, w) = (Ended (fst (multipleFile e r w)), snd (multipleFile e r w))"
  using moves_end [of e r Arrived w] by simp

section \<open>The databases, step by step\<close>

lemma snd_after [simp]: "snd (after res f) = snd res"
  by (cases res; cases "fst res") auto

lemma calls_wdb [simp]:
  "wdb (snd (createDateDir e w)) = wdb w" "wdb (snd (receivePart d p m w)) = wdb w"
  "wdb (failAndClean n msg d w) = wdb w" "wdb (snd (takeNef d m w)) = wdb w"
  "wdb (snd (getContractState e d m m2 w)) = wdb w"
  by (simp_all add: createDateDir_def receivePart_eq failAndClean_def takeNef_def getContractState_def Let_def
      split: prod.splits outcome.splits option.splits)

lemma runCompiler_wdb [simp]: "wdb (snd (runCompiler e d cmd w)) = wdb w"
  by (simp add: runCompiler_def split: cmdResult.splits)

lemma intialize_state [simp]: "snd (intializeMongoOnlineClient e cfg w) = w"
  by (simp add: intializeMongoOnlineClient_eq)

lemma compile_open_wdb [simp]:
  "wdb (snd (compileStep e m w)) = wdb w" "wdb (snd (openStep e m m2 w)) = wdb w"
  by (simp_all add: compileStep_def openStep_def split: option.splits)

lemma insertVerified_cases:
  "insertVerified e key m m2 w =
     (if env_insertVerified e (verifiedOf m m2) then (Ret (), onDb key (addVerified (verifiedOf m m2)) w)
      else (Fatal ''insert error'', w))"
  by (simp add: insertVerified_def verifiedOf_def)

text \<open>Only two kinds of steps touch a database; each appends at most one document.\<close>

lemma stage_db:
  obtains (same) "wdb (snd (stage e r p w)) = wdb w"
  | (recorded) key m m2 where "p = Inserting key m m2" and "env_insertVerified e (verifiedOf m m2)"
      and "wdb (snd (stage e r p w)) = (wdb w)(key := addVerified (verifiedOf m m2) (wdb w key))"
  | (source) key m m2 fi rd s where "p = Storing key m m2 (fi # rd)"
      and "wdb (snd (stage e r p w)) = (wdb w)(key := addSource s (wdb w key))"
proof (cases "(e, r, p, w)" rule: stage.cases)
  case (10 e r key m m2 w)
  then show ?thesis using same recorded
    by (cases "env_insertVerified e (verifiedOf m m2)") (auto simp: insertVerified_cases)
next
  case (13 e r key m m2 fi rd w)
  then show ?thesis
    using same source by (cases rule: recordSource_cases [of fi m e "folderOf e" key m2 w]) auto
qed (use same in \<open>auto split: request.splits\<close>)

section \<open>What a place says\<close>

text \<open>
  What is known of the dictionaries at a place whatever other requests do meanwhile: a script
  comes from a file that parses, the text it is compared with from the reply for the contract.
\<close>

definition compiled :: "string \<Rightarrow> bool" where
  "compiled s \<longleftrightarrow> (\<exists>bs nef. FileFromBytes bs = Ret (Inr nef) \<and> s = b64encode (nfScript nef))"

definition deployed :: "env \<Rightarrow> dict1 \<Rightarrow> string \<Rightarrow> dict2 \<Rightarrow> bool" where
  "deployed e m s m2 \<longleftrightarrow>
     (\<exists>body. replyOf e m = Some body \<and> \<not> replyError e body
        \<and> s = replyText e body ''result.nef.script'' \<and> m2 = countersOf e body)"

fun known :: "env \<Rightarrow> pc \<Rightarrow> bool" where
  "known e (Asking s m) = compiled s"
| "known e (Comparing s t m m2) = (compiled s \<and> deployed e m t m2)"
| "known e (Opening m m2) = (\<exists>s. compiled s \<and> deployed e m s m2)"
| "known e (Looking key m m2) = (\<exists>s. compiled s \<and> deployed e m s m2)"
| "known e (Inserting key m m2) = (\<exists>s. compiled s \<and> deployed e m s m2)"
| "known e p = True"

lemma known_after:
  assumes "\<And>a w'. res = (Ret a, w') \<Longrightarrow> known e (f a)"
  shows "known e (fst (after res f))"
  using assms by (cases res; cases "fst res") auto

lemma takeNef_compiled:
  assumes "takeNef d m w = (Ret (s, m'), w')" and "s \<notin> {''0'', ''1'', ''2''}"
  shows "compiled s"
proof (cases "checkedNef (wfs w) d m")
  case (Pair c m1)
  show ?thesis
    by (cases rule: loadScript_cases [of "wfs w" "loadedNef (wfs w) d m1"])
       (use assms Pair in \<open>auto simp: takeNef_def compiled_def split: if_splits\<close>)
qed

lemma getContractState_deployed:
  assumes "getContractState e d m Map.empty w = (Ret (v, t, m2), w')" and "t \<notin> {''3'', ''4''}"
  shows "deployed e m t m2"
  by (cases rule: getContractState_cases [of e m d Map.empty w])
     (use assms in \<open>auto simp: deployed_def replyOf_def countersOf_def\<close>)

lemma stage_known: "known e p \<Longrightarrow> known e (fst (stage e r p w))"
proof (induction e r p w rule: stage.induct)
  case (5 e r m w)
  show ?case
    by (simp, rule known_after) (auto simp: finished_def dest: takeNef_compiled)
next
  case (6 e r s m w)
  then show ?case
    by (simp, intro known_after) (auto simp: finished_def dest: getContractState_deployed)
next
  case (4 e r m w)
  have "known e (fst (after res (\<lambda>started. if started then Taking m else finished)))" for res :: "bool outcome \<times> world"
    by (rule known_after) (simp add: finished_def)
  then show ?case by (simp add: compileStep_def finished_def split: option.splits)
next
  case (8 e r m m2 w)
  then have "known e (fst (after res (\<lambda>key. Looking key m m2)))" for res :: "dbkey outcome \<times> world"
    by (intro known_after) simp
  then show ?case by (simp add: openStep_def split: option.splits)
qed ((simp only: stage.simps, (rule known_after)?; auto simp: finished_def split: request.splits)+)

section \<open>The server\<close>

text \<open>
  A request in progress: what it was sent with, where it is, its answer so far and its calls.
  The file system and the databases are those of the server.
\<close>

record thread =
  tEnv :: env
  tReq :: request
  tPc :: pc
  tResp :: response
  tCalls :: "call list"

record server =
  svFs :: fs
  svDb :: mongo
  svThreads :: "thread list"
  svUp :: bool

definition arrival :: "env \<Rightarrow> request \<Rightarrow> thread" where
  "arrival e r = \<lparr>tEnv = e, tReq = r, tPc = Arrived, tResp = noResponse, tCalls = []\<rparr>"

definition worldOf :: "server \<Rightarrow> thread \<Rightarrow> world" where
  "worldOf s t = \<lparr>wfs = svFs s, wdb = svDb s, wresp = tResp t, wcalls = tCalls t\<rparr>"

definition deadly :: "pc \<Rightarrow> bool" where
  "deadly p = (case p of Ended out \<Rightarrow> is_Fatal out | _ \<Rightarrow> False)"

text \<open>What a step of the request at index \<open>i\<close> leaves.\<close>

definition commit :: "nat \<Rightarrow> thread \<Rightarrow> pc \<times> world \<Rightarrow> server \<Rightarrow> server" where
  "commit i t res s =
     (case res of (p, w) \<Rightarrow>
        \<lparr>svFs = wfs w, svDb = wdb w,
         svThreads = (svThreads s)[i := t\<lparr>tPc := p, tResp := wresp w, tCalls := wcalls w\<rparr>],
         svUp = (\<not> deadly p)\<rparr>)"

inductive sstep :: "server \<Rightarrow> server \<Rightarrow> bool" where
  arrive: "svUp s \<Longrightarrow> sstep s (s\<lparr>svThreads := svThreads s @ [arrival e r]\<rparr>)"
| moves: "svUp s \<Longrightarrow> i < length (svThreads s) \<Longrightarrow> t = svThreads s ! i \<Longrightarrow> \<not> ended (tPc t) \<Longrightarrow>
    sstep s (commit i t (stage (tEnv t) (tReq t) (tPc t) (worldOf s t)) s)"

inductive_cases sstepE: "sstep s s'"

definition idle :: "fs \<Rightarrow> mongo \<Rightarrow> server" where
  "idle f D = \<lparr>svFs = f, svDb = D, svThreads = [], svUp = True\<rparr>"

lemma commit_simps [simp]:
  "svDb (commit i t res s) = wdb (snd res)" "svFs (commit i t res s) = wfs (snd res)"
  "svThreads (commit i t res s) =
     (svThreads s)[i := t\<lparr>tPc := fst res, tResp := wresp (snd res), tCalls := wcalls (snd res)\<rparr>]"
  "svUp (commit i t res s) = (\<not> deadly (fst res))"
  by (simp_all add: commit_def split: prod.splits)

lemma worldOf_simps [simp]:
  "wfs (worldOf s t) = svFs s" "wdb (worldOf s t) = svDb s" "wresp (worldOf s t) = tResp t"
  by (simp_all add: worldOf_def)

text \<open>After a \<open>log.Fatal\<close> of any request nothing happens any more.\<close>

lemma down_stuck: "sstep\<^sup>*\<^sup>* s s' \<Longrightarrow> \<not> svUp s \<Longrightarrow> s' = s"
  by (erule converse_rtranclpE) (auto elim: sstepE)

lemma commit_envs:
  "i < length (svThreads s) \<Longrightarrow> t = svThreads s ! i \<Longrightarrow>
     map tEnv (svThreads (commit i t res s)) = map tEnv (svThreads s)"
  by (simp add: map_update list_update_same_conv)

lemma sstep_db:
  assumes "sstep s s'"
  shows "prefix (verified (svDb s k)) (verified (svDb s' k)) \<and> prefix (sources (svDb s k)) (sources (svDb s' k))"
  using assms
proof cases
  case (moves i t)
  then show ?thesis
    by (cases rule: stage_db [of "tEnv t" "tReq t" "tPc t" "worldOf s t"]) (auto simp: addVerified_def addSource_def)
qed simp

text \<open>
  Whatever requests arrive and however their steps interleave, the databases only grow.
\<close>

theorem interleaved_databases_grow:
  assumes "sstep\<^sup>*\<^sup>* s s'"
  shows "prefix (verified (svDb s k)) (verified (svDb s' k)) \<and> prefix (sources (svDb s k)) (sources (svDb s' k))"
  using assms
proof induction
  case (step s1 s2)
  with sstep_db [OF step(2), of k] show ?case by (meson prefix_order.trans)
qed simp

text \<open>What justifies a record: one of the environments met, a file that parses, equal scripts.\<close>

definition justified :: "env set \<Rightarrow> insertVerifiedContract \<Rightarrow> bool" where
  "justified es v \<longleftrightarrow> (\<exists>e \<in> es. \<exists>bs nef body. FileFromBytes bs = Ret (Inr nef)
     \<and> env_post e (rpcNode (env_RUNTIME e)) (marshalRpc (vHash v)) = Some body \<and> \<not> replyError e body
     \<and> replyText e body ''result.nef.script'' = b64encode (nfScript nef)
     \<and> vUpdatecounter v = Atoi (replyText e body ''result.updatecounter''))"

lemma justified_mono: "justified es v \<Longrightarrow> es \<subseteq> fs \<Longrightarrow> justified fs v"
  by (auto simp: justified_def)

lemma justifiedI:
  assumes "known e (Inserting key m m2)" and "e \<in> es"
  shows "justified es (verifiedOf m m2)"
proof -
  from assms(1) obtain s where "compiled s" and "deployed e m s m2" by auto
  then obtain bs nef body where "FileFromBytes bs = Ret (Inr nef)" "s = b64encode (nfScript nef)"
      "replyOf e m = Some body" "\<not> replyError e body" "s = replyText e body ''result.nef.script''"
      "m2 = countersOf e body"
    by (auto simp: compiled_def deployed_def)
  then show ?thesis using assms(2)
    by (auto simp: justified_def verifiedOf_def replyOf_def countersOf_def replyCounters_get)
qed

definition envsOf :: "server \<Rightarrow> env set" where
  "envsOf s = tEnv ` set (svThreads s)"

definition sound :: "mongo \<Rightarrow> server \<Rightarrow> bool" where
  "sound D s \<longleftrightarrow> (\<forall>t \<in> set (svThreads s). known (tEnv t) (tPc t))
     \<and> (\<forall>k. \<forall>v \<in> set (verified (svDb s k)). v \<in> set (verified (D k)) \<or> justified (envsOf s) v)"

lemma soundI:
  assumes "\<And>t. t \<in> set (svThreads s) \<Longrightarrow> known (tEnv t) (tPc t)"
    and "\<And>k v. v \<in> set (verified (svDb s k)) \<Longrightarrow> v \<in> set (verified (D k)) \<or> justified (envsOf s) v"
  shows "sound D s"
  unfolding sound_def using assms by blast

lemma soundD:
  assumes "sound D s"
  shows "t \<in> set (svThreads s) \<Longrightarrow> known (tEnv t) (tPc t)"
    and "v \<in> set (verified (svDb s k)) \<Longrightarrow> v \<in> set (verified (D k)) \<or> justified (envsOf s) v"
  using assms unfolding sound_def by blast+

lemma sound_arrive:
  assumes "sound D s"
  shows "sound D (s\<lparr>svThreads := svThreads s @ [arrival e r]\<rparr>)" (is "sound D ?s")
proof (rule soundI)
  show "known (tEnv t) (tPc t)" if "t \<in> set (svThreads ?s)" for t
    using that soundD(1) [OF assms] by (auto simp: arrival_def)
  have "envsOf s \<subseteq> envsOf ?s" by (auto simp: envsOf_def)
  then show "v \<in> set (verified (D k)) \<or> justified (envsOf ?s) v" if "v \<in> set (verified (svDb ?s k))" for k v
    using that soundD(2) [OF assms, of v k] by (auto intro: justified_mono)
qed

lemma sound_moves:
  assumes "sound D s" and i: "i < length (svThreads s)" and t: "t = svThreads s ! i"
  shows "sound D (commit i t (stage (tEnv t) (tReq t) (tPc t) (worldOf s t)) s)" (is "sound D ?s")
proof -
  let ?res = "stage (tEnv t) (tReq t) (tPc t) (worldOf s t)"
  have mem: "t \<in> set (svThreads s)" using i t by simp
  then have k: "known (tEnv t) (tPc t)" by (rule soundD [OF assms(1)])
  have envs: "envsOf ?s = envsOf s" using commit_envs [OF i t] by (metis envsOf_def set_map)
  have "known (tEnv u) (tPc u)" if "u \<in> set (svThreads ?s)" for u
    using that soundD(1) [OF assms(1)] stage_known [OF k]
    by (auto dest!: set_mp [OF set_update_subset_insert])
  moreover have "v \<in> set (verified (D key)) \<or> justified (envsOf s) v"
    if v: "v \<in> set (verified (svDb ?s key))" for key v
  proof -
    note old = soundD(2) [OF assms(1), of v key]
    show ?thesis
    proof (cases rule: stage_db [of "tEnv t" "tReq t" "tPc t" "worldOf s t"])
      case (recorded key' m m2)
      have "justified (envsOf s) (verifiedOf m m2)"
        using k recorded(1) mem by (intro justifiedI [of "tEnv t" key']) (auto simp: envsOf_def)
      then show ?thesis using old v recorded(3) by (auto simp: addVerified_def split: if_splits)
    qed (use old v in \<open>auto simp: addSource_def split: if_splits\<close>)
  qed
  ultimately show ?thesis by (intro soundI) (simp_all only: envs)
qed

lemma sound_step: "sstep s s' \<Longrightarrow> sound D s \<Longrightarrow> sound D s'"
  by (erule sstepE) (simp_all add: sound_arrive sound_moves)

lemma sound_reachable: "sstep\<^sup>*\<^sup>* s s' \<Longrightarrow> sound D s \<Longrightarrow> sound D s'"
  by (induction rule: rtranclp_induct) (auto intro: sound_step)

lemma sound_idle: "sound D (idle f D)"
  by (rule soundI) (simp_all add: idle_def)

text \<open>
  C9. Soundness under interleaving: in a server that serves any requests in any interleaving, a
  record that was not there at the start has a request in whose environment the node has, for the
  hash and with the counter of the record, exactly the script of a contract file that parses.
\<close>

theorem interleaved_sound:
  assumes "sstep\<^sup>*\<^sup>* (idle f D) s" and "v \<in> set (verified (svDb s k))" and "v \<notin> set (verified (D k))"
  shows "\<exists>t \<in> set (svThreads s). \<exists>bs nef body. FileFromBytes bs = Ret (Inr nef)
     \<and> env_post (tEnv t) (rpcNode (env_RUNTIME (tEnv t))) (marshalRpc (vHash v)) = Some body
     \<and> \<not> replyError (tEnv t) body
     \<and> replyText (tEnv t) body ''result.nef.script'' = b64encode (nfScript nef)
     \<and> vUpdatecounter v = Atoi (replyText (tEnv t) body ''result.updatecounter'')"
proof -
  have "justified (envsOf s) v"
    using soundD(2) [OF sound_reachable [OF assms(1) sound_idle] assms(2)] assms(3) by blast
  then show ?thesis by (simp add: justified_def envsOf_def)
qed

section \<open>The work comes to an end\<close>

definition moving :: "server \<Rightarrow> server \<Rightarrow> bool" where
  "moving s s' \<longleftrightarrow> sstep s s' \<and> length (svThreads s') = length (svThreads s)"

lemma mset_update_mult:
  assumes "i < length xs" and "(y, xs ! i) \<in> r"
  shows "(mset (xs[i := y]), mset xs) \<in> mult r"
proof -
  have "mset xs = add_mset (xs ! i) (mset (take i xs @ drop (Suc i) xs))"
    using assms(1) by (metis add_mset_add_single id_take_nth_drop mset.simps(2) mset_append union_mset_add_mset_right)
  moreover have "mset (xs[i := y]) = add_mset y (mset (take i xs @ drop (Suc i) xs))"
    using assms(1) by (simp add: upd_conv_take_nth_drop)
  moreover have "(mset (take i xs @ drop (Suc i) xs) + {#y#}, mset (take i xs @ drop (Suc i) xs) + {#xs ! i#}) \<in> mult r"
    using assms(2) by (intro one_step_implies_mult) auto
  ultimately show ?thesis by simp
qed

lemma moving_mult:
  assumes "moving s s'"
  shows "(mset (map tPc (svThreads s')), mset (map tPc (svThreads s))) \<in> mult closer"
proof -
  from assms have "sstep s s'" and len: "length (svThreads s') = length (svThreads s)"
    by (simp_all add: moving_def)
  from this(1) show ?thesis
  proof cases
  case 2: (moves i t)
  then have "(mset ((map tPc (svThreads s))[i := fst (stage (tEnv t) (tReq t) (tPc t) (worldOf s t))]),
      mset (map tPc (svThreads s))) \<in> mult closer"
    by (intro mset_update_mult) (simp_all add: stage_closer)
  with 2 show ?thesis by (simp add: map_update)
  qed (use len in simp)
qed

text \<open>
  The requests in progress end under every schedule: without new arrivals no server takes
  infinitely many steps, and it can take one exactly when it is up and a request has not ended.
\<close>

theorem work_finishes:
  "wf {(s', s). moving s s'}
   \<and> ((\<exists>s'. moving s s') = (svUp s \<and> list_ex (\<lambda>t. \<not> ended (tPc t)) (svThreads s)))"
proof
  have "{(s', s). moving s s'} \<subseteq> inv_image (mult closer) (\<lambda>s. mset (map tPc (svThreads s)))"
    using moving_mult by auto
  then show "wf {(s', s). moving s s'}"
    by (rule wf_subset [OF wf_inv_image [OF wf_mult [OF wf_closer]]])
  show "(\<exists>s'. moving s s') = (svUp s \<and> list_ex (\<lambda>t. \<not> ended (tPc t)) (svThreads s))"
  proof (cases "svUp s \<and> (\<exists>i < length (svThreads s). \<not> ended (tPc (svThreads s ! i)))")
    case True
    then obtain i where "svUp s" "i < length (svThreads s)" "\<not> ended (tPc (svThreads s ! i))" by blast
    moreover from sstep.moves [OF this(1,2) refl this(3)] have "\<exists>s'. moving s s'" by (fastforce simp: moving_def)
    ultimately show ?thesis by (auto simp: list_ex_length)
  next
    case False
    then show ?thesis by (auto simp: moving_def list_ex_length elim!: sstepE)
  qed
qed

section \<open>Two requests at once\<close>

text \<open>A request runs from one place to another with nobody in between.\<close>

definition runs :: "env \<Rightarrow> request \<Rightarrow> pc \<times> world \<Rightarrow> pc \<times> world \<Rightarrow> bool" where
  "runs e r x y \<longleftrightarrow> (\<exists>n. (move e r ^^ n) x = y)"

lemma runs_refl: "runs e r x x"
  unfolding runs_def by (rule exI [of _ 0]) simp

lemma runs_step: "stage e r p w = x \<Longrightarrow> runs e r x y \<Longrightarrow> runs e r (p, w) y"
  unfolding runs_def by (elim exE, rule_tac x = "Suc n" in exI) (simp add: funpow_swap1 move_def)

lemma runs_receiving:
  "runs e r (Receiving [] (fold (dictAfter (folderOf e)) ps m), onFs (fold (fsAfter (folderOf e)) ps) w) y \<Longrightarrow>
     runs e r (Receiving ps m, w) y"
proof (induction ps arbitrary: m w)
  case (Cons p ps)
  then have "runs e r (Receiving ps (dictAfter (folderOf e) p m), onFs (fsAfter (folderOf e) p) w) y"
    by (simp add: onFs_def)
  then show ?case by (rule runs_step [rotated]) (simp add: receivePart_eq)
qed (simp add: onFs_def)

lemma runs_compiling:
  assumes "execCommand e (folderOf e) (folderOf e) m w = (Ret (s, m'), w1)" and "s \<notin> {''0'', ''1'', ''2''}"
    and "runs e r (Asking s m', w1) y"
  shows "runs e r (Compiling m, w) y"
  using assms(1)
proof (cases rule: execCommand_Ret)
  case (script sel out f bs nef)
  let ?w = "afterRun (theCommand (folderOf e) m sel) f w"
  have run: "runCompiler e (folderOf e) (theCommand (folderOf e) m sel) w = (Ret True, ?w)"
    using script by (simp add: runCompiler_def afterRun_def)
  then have "takeNef (folderOf e) m ?w = (Ret (s, m'), w1)"
    using assms(1) script(1) by (simp add: execCommand_def theCommand_def split: prod.splits)
  then have "runs e r (Taking m, ?w) y"
    using assms(2,3) by (intro runs_step [of e r "Taking m"]) simp_all
  then show ?thesis
    by (rule runs_step [rotated]) (simp add: compileStep_def script run)
qed (use assms(2) in auto)

lemma runs_to_looking:
  assumes "scriptsAgree e ps w w1 m' body" and "OpenConfigFile e (wfs w1) = Some cfg"
    and "env_connect e (fst (keyOf e cfg))" and "env_ping e (fst (keyOf e cfg))"
  shows "runs e (Multipart ps True) (Arrived, w) (Looking (keyOf e cfg) m' (countersOf e body), asked e m' w1)"
    (is "runs e ?r _ ?end")
proof -
  let ?t = "replyText e body ''result.nef.script''"
  from assms(1) have x: "execCommand e (folderOf e) (folderOf e) (formOf e ps) (receivedWorld e ps w) = (Ret (?t, m'), w1)"
    and t: "?t \<notin> {''0'', ''1'', ''2''}" and b: "replyOf e m' = Some body" "\<not> replyError e body"
    by (auto simp: scriptsAgree_def)
  from x have n: "?t \<notin> {''3'', ''4''}"
    by (cases rule: execCommand_Ret) (use t in auto)
  have "runs e ?r (Opening m' (countersOf e body), asked e m' w1) ?end"
    by (rule runs_step [OF refl]) (simp add: openStep_def assms(2-4) intializeMongoOnlineClient_eq runs_refl)
  then have "runs e ?r (Comparing ?t ?t m' (countersOf e body), asked e m' w1) ?end"
    by (intro runs_step [of e ?r "Comparing ?t ?t m' (countersOf e body)"]) simp_all
  moreover have "getContractState e (folderOf e) m' Map.empty w1 =
      (Ret (replyText e body ''result.nef.compiler'', ?t, countersOf e body), asked e m' w1)"
    by (cases rule: getContractState_cases [of e m' "folderOf e" Map.empty w1])
       (use b in \<open>auto simp: replyOf_def countersOf_def asked_def\<close>)
  ultimately have "runs e ?r (Asking ?t m', w1) ?end"
    using n by (intro runs_step [of e ?r "Asking ?t m'"]) simp_all
  with x t have "runs e ?r (Compiling (formOf e ps), receivedWorld e ps w) ?end"
    by (intro runs_compiling)
  then have "runs e ?r (Receiving [] (formOf e ps), receivedWorld e ps w) ?end"
    by (intro runs_step [of e ?r "Receiving [] (formOf e ps)"]) (simp_all add: bodyEnds_def)
  then have "runs e ?r (Receiving ps Map.empty, startWorld e w) ?end"
    by - (rule runs_receiving, simp add: formOf_def receivedDict_def receivedWorld_def receivedFs_def [abs_def])
  then show ?thesis
    by (intro runs_step [of e ?r Arrived w]) (simp_all add: startWorld_def)
qed

text \<open>What one request runs the server does.\<close>

lemma commit_commit:
  "i < length (svThreads s) \<Longrightarrow>
     commit i ((svThreads (commit i t x s)) ! i) y (commit i t x s) = commit i t y s"
  by (simp add: commit_def split: prod.splits)

lemma commit_here: "svUp s \<Longrightarrow> t = svThreads s ! i \<Longrightarrow> \<not> deadly (tPc t) \<Longrightarrow> commit i t (tPc t, worldOf s t) s = s"
  by (simp add: commit_def worldOf_def)

lemma worldOf_commit:
  "i < length (svThreads s) \<Longrightarrow> worldOf (commit i t x s) (svThreads (commit i t x s) ! i) = snd x"
  by (simp add: worldOf_def)

lemma move_ended: "ended (fst x) \<Longrightarrow> move e r x = x"
  by (cases x) (auto simp: ended_iff move_def)

lemma moves_ended: "ended (fst x) \<Longrightarrow> (move e r ^^ n) x = x"
  by (induction n) (simp_all add: move_ended)

lemma server_moves:
  assumes "svUp s" and "i < length (svThreads s)" and "t = svThreads s ! i" and "\<not> deadly q"
    and "(move (tEnv t) (tReq t) ^^ n) (tPc t, worldOf s t) = (q, w')"
  shows "sstep\<^sup>*\<^sup>* s (commit i t (q, w') s)"
  using assms
proof (induction n arbitrary: s t)
  case 0
  then show ?case using commit_here [of s t i] by auto
next
  case (Suc n)
  show ?case
  proof (cases "ended (tPc t)")
    case True
    with Suc.prems(5) have "(tPc t, worldOf s t) = (q, w')" using moves_ended [of "(tPc t, worldOf s t)" "Suc n" "tEnv t" "tReq t"] by simp
    with Suc.prems show ?thesis using commit_here [of s t i] by auto
  next
    case False
    let ?x = "stage (tEnv t) (tReq t) (tPc t) (worldOf s t)"
    let ?s = "commit i t ?x s"
    have rest: "(move (tEnv t) (tReq t) ^^ n) ?x = (q, w')"
      using Suc.prems(5) by (simp add: funpow_swap1 move_pair)
    have "\<not> deadly (fst ?x)"
    proof
      assume d: "deadly (fst ?x)"
      then have "ended (fst ?x)" by (auto simp: deadly_def ended_iff split: pc.splits)
      with rest d Suc.prems(4) show False by (simp add: moves_ended)
    qed
    moreover have t: "svThreads ?s ! i = t\<lparr>tPc := fst ?x, tResp := wresp (snd ?x), tCalls := wcalls (snd ?x)\<rparr>"
      using Suc.prems(2) by simp
    moreover have "worldOf ?s (svThreads ?s ! i) = snd ?x" by (rule worldOf_commit [OF Suc.prems(2)])
    ultimately have "sstep\<^sup>*\<^sup>* ?s (commit i (svThreads ?s ! i) (q, w') ?s)"
      using Suc.prems rest by (intro Suc.IH) simp_all
    moreover have "sstep s ?s" using Suc.prems(1-3) False by (intro sstep.moves)
    ultimately show ?thesis
      using commit_commit [OF Suc.prems(2)] by (metis converse_rtranclp_into_rtranclp)
  qed
qed

text \<open>
  The same upload twice in one second: the second request finds the folder of the first, writes
  and compiles the same files, and looks for the record before the first has made it.
\<close>

definition second_start :: world where
  "second_start = (good_start noDocs)\<lparr>wfs := built_fs (nefImage sample_nef)\<rparr>"

lemma built_again: "receivedFs sample_folder good_parts (built_fs x) = built_fs x"
  by code_simp

lemma set_nef_again: "set_node (cwd @ [sample_folder, ''a.nef'']) (File x) (built_fs x) = built_fs x"
  by (simp add: set_node_def built_fs_def good_fs_def sample_fs_def cwd_def sample_folder_def)

lemma second_received: "wfs (receivedWorld good_env good_parts second_start) = built_fs (nefImage sample_nef)"
proof -
  have "node_at (built_fs x) (cwd @ [sample_folder]) = Some Dir" for x
    using built_fs_nodes(2) [of x] by (simp add: is_dir_def)
  then have "wfs (startWorld good_env second_start) = built_fs (nefImage sample_nef)"
    using createDateDir_world [of second_start good_env] built_fs_nodes(1)
    by (simp add: startWorld_def second_start_def uploadDir_folder good_env_simps)
  then show ?thesis by (simp add: good_env_simps built_again)
qed

definition second_built :: world where
  "second_built = afterRun good_command (built_fs (nefImage sample_nef)) (receivedWorld good_env good_parts second_start)"

lemma second_agrees: "scriptsAgree good_env good_parts second_start second_built good_dict sample_reply"
proof -
  have run: "env_run good_env cmd (wfs (receivedWorld good_env good_parts second_start)) =
      Finished [] (built_fs (nefImage sample_nef))" for cmd
    by (simp only: good_env_simps second_received set_nef_again)
  have "execCommand good_env sample_folder sample_folder good_dict (receivedWorld good_env good_parts second_start) =
      (Ret (b64encode (nfScript sample_nef), good_dict), second_built)"
    unfolding second_built_def good_command_def
    by (rule execCommand_boa [OF sample_folder_plain good_form(1,2) run built_fs_nodes(1,2) plain_a_nef _
          sample_nef_parses good_nef_first])
       (simp add: built_fs_nodes)
  then show ?thesis
    using good_reply good_script by (simp add: scriptsAgree_def good_env_simps replyOf_def)
qed

definition good_request :: request where
  "good_request = Multipart good_parts True"

definition looking :: pc where
  "looking = Looking good_key good_dict good_counters"

lemma good_looking: "runs good_env good_request (Arrived, good_start noDocs) (looking, asked good_env good_dict (good_built noDocs))"
  unfolding good_request_def looking_def
  by (rule runs_to_looking [OF good_agrees good_config good_insertions(2,3)])

lemma second_looking: "runs good_env good_request (Arrived, second_start) (looking, asked good_env good_dict second_built)"
  unfolding good_request_def looking_def
  by (rule runs_to_looking [OF second_agrees _ good_insertions(2,3)])
     (use good_config in \<open>simp add: second_built_def\<close>)

text \<open>Two requests at the lookup of the same contract both record it.\<close>

lemma one_step:
  assumes "svUp s" and "i < length (svThreads s)" and "tPc (svThreads s ! i) = p" and "\<not> ended p"
    and "stage (tEnv (svThreads s ! i)) (tReq (svThreads s ! i)) p (worldOf s (svThreads s ! i)) = x"
  shows "sstep s (commit i (svThreads s ! i) x s)"
  using sstep.moves [OF assms(1,2) refl] assms(3-5) by simp

lemma commit_length: "length (svThreads (commit k t x s)) = length (svThreads s)"
  by simp

lemma commit_threads:
  assumes "k < length (svThreads s)"
  shows "map tReq (svThreads (commit k (svThreads s ! k) x s)) = map tReq (svThreads s)"
    and "map tEnv (svThreads (commit k (svThreads s ! k) x s)) = map tEnv (svThreads s)"
  using assms by (simp_all add: map_update list_update_same_conv)

lemma both_at_lookup:
  assumes up: "svUp s" and i: "i < length (svThreads s)" "i \<noteq> j" and j: "j < length (svThreads s)"
    and e: "tEnv (svThreads s ! i) = e" "tEnv (svThreads s ! j) = e"
    and p: "tPc (svThreads s ! i) = Looking key m m2" "tPc (svThreads s ! j) = Looking key m m2"
    and new: "\<not> hasVerified (getContract m) (getUpdateCounter m2) (svDb s key)"
    and ins: "env_insertVerified e (verifiedOf m m2)"
  shows "\<exists>s'. sstep\<^sup>*\<^sup>* s s' \<and> map tReq (svThreads s') = map tReq (svThreads s)
    \<and> map tEnv (svThreads s') = map tEnv (svThreads s)
    \<and> verified (svDb s' key) = verified (svDb s key) @ [verifiedOf m m2, verifiedOf m m2]"
proof -
  let ?c = "\<lambda>k p f s. commit k (svThreads s ! k) (p, f (worldOf s (svThreads s ! k))) s"
  let ?look = "\<lambda>k. ?c k (Inserting key m m2) (\<lambda>w. w)"
  let ?add = "\<lambda>k. ?c k (Listing key m m2) (onDb key (addVerified (verifiedOf m m2)))"
  have alive: "\<not> deadly (Inserting key m m2)" "\<not> deadly (Listing key m m2)" by (simp_all add: deadly_def)
  have open': "\<not> ended (Inserting key m m2)" "\<not> ended (Looking key m m2)" by (simp_all add: ended_def)
  note facts = i j e p new ins up alive open'
  have 1: "sstep s (?look i s)"
    by (rule one_step [where p = "Looking key m m2"]) (use facts in \<open>simp_all add: foundVerified_def\<close>)
  have 2: "sstep (?look i s) (?look j (?look i s))"
    by (rule one_step [where p = "Looking key m m2"]) (use facts in \<open>simp_all add: foundVerified_def\<close>)
  let ?s2 = "?look j (?look i s)"
  have 3: "sstep ?s2 (?add i ?s2)"
    by (rule one_step [where p = "Inserting key m m2"]) (use facts in \<open>simp_all add: insertVerified_cases\<close>)
  have 4: "sstep (?add i ?s2) (?add j (?add i ?s2))"
    by (rule one_step [where p = "Inserting key m m2"]) (use facts in \<open>simp_all add: insertVerified_cases\<close>)
  from 1 2 3 4 have "sstep\<^sup>*\<^sup>* s (?add j (?add i ?s2))"
    by (meson converse_rtranclp_into_rtranclp rtranclp.rtrancl_refl)
  moreover have "verified (svDb (?add j (?add i ?s2)) key) = verified (svDb s key) @ [verifiedOf m m2, verifiedOf m m2]"
    by (simp add: addVerified_def)
  moreover have "map tReq (svThreads (?add j (?add i ?s2))) = map tReq (svThreads s)"
      "map tEnv (svThreads (?add j (?add i ?s2))) = map tEnv (svThreads s)"
    using i j by (simp_all only: commit_threads commit_length)
  ultimately show ?thesis by blast
qed

text \<open>Both requests have arrived, the first has come to the lookup, then the second.\<close>

definition twoLooking :: server where
  "twoLooking =
     (let t = arrival good_env good_request;
          s = (idle sample_fs noDocs)\<lparr>svThreads := [t, t]\<rparr>;
          s' = commit 0 t (looking, asked good_env good_dict (good_built noDocs)) s
      in commit 1 t (looking, asked good_env good_dict second_built) s')"

lemma twoLooking_reached: "sstep\<^sup>*\<^sup>* (idle sample_fs noDocs) twoLooking"
proof -
  let ?t = "arrival good_env good_request" and ?init = "idle sample_fs noDocs"
  let ?s = "?init\<lparr>svThreads := [?t, ?t]\<rparr>"
  let ?s' = "commit 0 ?t (looking, asked good_env good_dict (good_built noDocs)) ?s"
  have alive: "\<not> deadly looking" by (simp add: deadly_def looking_def)
  have "sstep ?init (?init\<lparr>svThreads := svThreads ?init @ [?t]\<rparr>)"
    by (rule sstep.arrive) (simp add: idle_def)
  moreover have "sstep (?init\<lparr>svThreads := [?t]\<rparr>) (?init\<lparr>svThreads := [?t]\<rparr>\<lparr>svThreads := svThreads (?init\<lparr>svThreads := [?t]\<rparr>) @ [?t]\<rparr>)"
    by (rule sstep.arrive) (simp add: idle_def)
  ultimately have arrived: "sstep\<^sup>*\<^sup>* ?init ?s"
    by (simp add: idle_def)
  obtain n where n: "(move good_env good_request ^^ n) (Arrived, good_start noDocs) =
      (looking, asked good_env good_dict (good_built noDocs))"
    using good_looking by (auto simp: runs_def)
  have "worldOf ?s ?t = good_start noDocs"
    by (simp add: worldOf_def arrival_def idle_def good_start_def sample_world_def)
  then have first: "sstep\<^sup>*\<^sup>* ?s ?s'"
    using n by (intro server_moves [OF _ _ _ alive]) (simp_all add: idle_def arrival_def)
  obtain k where k: "(move good_env good_request ^^ k) (Arrived, second_start) =
      (looking, asked good_env good_dict second_built)"
    using second_looking by (auto simp: runs_def)
  have "worldOf ?s' ?t = second_start"
    by (simp add: worldOf_def arrival_def second_start_def good_start_def sample_world_def)
  then have second: "sstep\<^sup>*\<^sup>* ?s' (commit 1 ?t (looking, asked good_env good_dict second_built) ?s')"
    using k alive by (intro server_moves [OF _ _ _ alive]) (simp_all add: idle_def arrival_def)
  show ?thesis
    unfolding twoLooking_def Let_def
    by (rule rtranclp_trans [OF arrived]) (rule rtranclp_trans [OF first second])
qed

lemma duplicates_reached:
  obtains s where "sstep\<^sup>*\<^sup>* (idle sample_fs noDocs) s"
    and "map tReq (svThreads s) = [good_request, good_request]" and "map tEnv (svThreads s) = [good_env, good_env]"
    and "verified (svDb s good_key) = [good_verified, good_verified]"
proof -
  have "\<exists>s'. sstep\<^sup>*\<^sup>* twoLooking s' \<and> map tReq (svThreads s') = map tReq (svThreads twoLooking)
      \<and> map tEnv (svThreads s') = map tEnv (svThreads twoLooking) \<and> verified (svDb s' good_key) =
      verified (svDb twoLooking good_key) @ [verifiedOf good_dict good_counters, verifiedOf good_dict good_counters]"
    by (rule both_at_lookup [where i = 0 and j = 1 and e = good_env])
       (simp_all add: twoLooking_def Let_def idle_def arrival_def looking_def deadly_def second_built_def
         second_start_def hasVerified_def emptyDb_def good_insertions)
  then obtain s where s: "sstep\<^sup>*\<^sup>* twoLooking s" "map tReq (svThreads s) = map tReq (svThreads twoLooking)"
      "map tEnv (svThreads s) = map tEnv (svThreads twoLooking)"
      "verified (svDb s good_key) = verified (svDb twoLooking good_key) @ [good_verified, good_verified]"
    unfolding good_verified_eq by blast
  have two: "map tReq (svThreads twoLooking) = [good_request, good_request]"
      "map tEnv (svThreads twoLooking) = [good_env, good_env]" "verified (svDb twoLooking good_key) = []"
    by (simp_all add: twoLooking_def Let_def idle_def arrival_def second_built_def second_start_def emptyDb_def)
  show thesis
    by (rule that [OF rtranclp_trans [OF twoLooking_reached s(1)]]) (simp_all only: s(2-4) two append_Nil)
qed

text \<open>
  C11. Two simultaneous uploads of one contract can record it twice. A server in an empty container
  that gets the same request twice, in an environment in which every lookup reaches the database,
  reaches a state with two records with the same hash and counter; served one after the other, the
  same two requests in the same environment leave no two such records.
\<close>

theorem simultaneous_uploads_duplicate:
  "(\<exists>s. sstep\<^sup>*\<^sup>* (idle sample_fs noDocs) s
      \<and> map tReq (svThreads s) = [good_request, good_request] \<and> map tEnv (svThreads s) = [good_env, good_env]
      \<and> verified (svDb s good_key) = [good_verified, good_verified])
   \<and> env_find good_env = (\<lambda>_. True)
   \<and> (let w1 = snd (multipleFile good_env good_request (good_start noDocs));
          w2 = snd (multipleFile good_env good_request (w1\<lparr>wresp := noResponse, wcalls := []\<rparr>))
      in distinct (map vKey (verified (wdb w2 good_key))))"
proof -
  have find: "\<forall>k. env_find good_env k" by (simp add: good_insertions)
  let ?w1 = "snd (multipleFile good_env good_request (good_start noDocs))"
  have one: "\<forall>k. distinct (map vKey (verified (wdb ?w1 k)))"
    by (intro allI request_keeps_distinct [OF find]) (simp add: emptyDb_def)
  have db: "wdb (w\<lparr>wresp := r, wcalls := cs\<rparr>) = wdb w" for w :: world and r cs by simp
  have fresh: "\<forall>k. distinct (map vKey (verified (wdb (?w1\<lparr>wresp := noResponse, wcalls := []\<rparr>) k)))"
    unfolding db by (rule one)
  note keys = request_keeps_distinct [OF find fresh, of good_request good_key]
  have all: "env_find good_env = (\<lambda>_. True)" by (rule ext) (simp add: good_insertions)
  have twice: "\<exists>s. sstep\<^sup>*\<^sup>* (idle sample_fs noDocs) s
      \<and> map tReq (svThreads s) = [good_request, good_request] \<and> map tEnv (svThreads s) = [good_env, good_env]
      \<and> verified (svDb s good_key) = [good_verified, good_verified]"
  proof (rule duplicates_reached)
    fix s
    assume "sstep\<^sup>*\<^sup>* (idle sample_fs noDocs) s" and "map tReq (svThreads s) = [good_request, good_request]"
      and "map tEnv (svThreads s) = [good_env, good_env]" and "verified (svDb s good_key) = [good_verified, good_verified]"
    then show ?thesis by (intro exI [of _ s] conjI)
  qed
  show ?thesis
  proof (intro conjI)
    show "env_find good_env = (\<lambda>_. True)" by (rule all)
    show "\<exists>s. sstep\<^sup>*\<^sup>* (idle sample_fs noDocs) s
      \<and> map tReq (svThreads s) = [good_request, good_request] \<and> map tEnv (svThreads s) = [good_env, good_env]
      \<and> verified (svDb s good_key) = [good_verified, good_verified]" by (rule twice)
  qed (unfold Let_def, rule keys)
qed

section \<open>Witnesses\<close>

theorem interleaved_databases_grow_witness:
  "\<exists>s. sstep\<^sup>*\<^sup>* (idle sample_fs noDocs) s \<and> verified (svDb s good_key) = [good_verified, good_verified]
     \<and> prefix (verified (svDb (idle sample_fs noDocs) good_key)) (verified (svDb s good_key))"
proof -
  obtain s where "sstep\<^sup>*\<^sup>* (idle sample_fs noDocs) s" "verified (svDb s good_key) = [good_verified, good_verified]"
    by (rule duplicates_reached)
  with interleaved_databases_grow [OF this(1)] show ?thesis by blast
qed

theorem interleaved_sound_witness:
  "\<exists>s. sstep\<^sup>*\<^sup>* (idle sample_fs noDocs) s \<and> good_verified \<in> set (verified (svDb s good_key))
     \<and> (\<exists>t \<in> set (svThreads s). \<exists>bs nef body. FileFromBytes bs = Ret (Inr nef)
          \<and> env_post (tEnv t) (rpcNode (env_RUNTIME (tEnv t))) (marshalRpc ''0xabc'') = Some body
          \<and> replyText (tEnv t) body ''result.nef.script'' = b64encode (nfScript nef))"
proof -
  obtain s where s: "sstep\<^sup>*\<^sup>* (idle sample_fs noDocs) s" "verified (svDb s good_key) = [good_verified, good_verified]"
    by (rule duplicates_reached)
  then have "good_verified \<in> set (verified (svDb s good_key))" by simp
  moreover have "good_verified \<notin> set (verified (noDocs good_key))" by (simp add: emptyDb_def)
  ultimately have "\<exists>t \<in> set (svThreads s). \<exists>bs nef body. FileFromBytes bs = Ret (Inr nef)
     \<and> env_post (tEnv t) (rpcNode (env_RUNTIME (tEnv t))) (marshalRpc (vHash good_verified)) = Some body
     \<and> \<not> replyError (tEnv t) body
     \<and> replyText (tEnv t) body ''result.nef.script'' = b64encode (nfScript nef)
     \<and> vUpdatecounter good_verified = Atoi (replyText (tEnv t) body ''result.updatecounter'')"
    by (rule interleaved_sound [OF s(1)])
  then have "\<exists>t \<in> set (svThreads s). \<exists>bs nef body. FileFromBytes bs = Ret (Inr nef)
     \<and> env_post (tEnv t) (rpcNode (env_RUNTIME (tEnv t))) (marshalRpc ''0xabc'') = Some body
     \<and> replyText (tEnv t) body ''result.nef.script'' = b64encode (nfScript nef)"
    unfolding good_verified_def by simp blast
  moreover have "good_verified \<in> set (verified (svDb s good_key))" by (simp add: s(2))
  ultimately show ?thesis using s(1) by (intro exI [of _ s] conjI)
qed

end
