(* ===== verification/GjsonValid.thy ===== *)
theory GjsonValid
  imports Gjson
begin

text \<open>
  \<open>Valid\<close> of \<open>gjson.go\<close> and its scanners, and the grammar of JSON they decide. A pair
  \<open>(data, i)\<close> of the code is the text from \<open>i\<close> on; a result \<open>(outi, ok)\<close> is the text
  from \<open>outi\<close> on, or \<open>None\<close> when not \<open>ok\<close> (the position of an error is never used).
\<close>

section \<open>The scanners\<close>

definition isWs :: "char \<Rightarrow> bool" where
  "isWs c = (c = CHR '' '' \<or> c = CHR 0x09 \<or> c = CHR 0x0A \<or> c = CHR 0x0D)"

fun validcolon :: "string \<Rightarrow> string option" where
  "validcolon [] = None"
| "validcolon (c # s) = (if isWs c then validcolon s else if c = CHR '':'' then Some s else None)"

text \<open>The comma, or the end of the list, is left to the caller.\<close>

fun validcomma :: "string \<Rightarrow> char \<Rightarrow> string option" where
  "validcomma [] e = None"
| "validcomma (c # s) e =
     (if isWs c then validcomma s e else if c = CHR '','' \<or> c = e then Some (c # s) else None)"

definition simpleEscapes :: string where
  "simpleEscapes = CHR 0x22 # CHR 0x5C # ''/bfnrt''"

fun validstring :: "string \<Rightarrow> string option" where
  "validstring [] = None"
| "validstring (c # s) =
     (if ord c < 32 then None
      else if c = CHR 0x5C then
        (case s of
           [] \<Rightarrow> None
         | e # t \<Rightarrow>
             if e \<in> set simpleEscapes then validstring t
             else if e = CHR ''u'' then
               (case t of
                  h1 # h2 # h3 # h4 # u \<Rightarrow>
                    if is_hex h1 \<and> is_hex h2 \<and> is_hex h3 \<and> is_hex h4 then validstring u else None
                | _ \<Rightarrow> None)
             else None)
      else if c = CHR 0x22 then Some s
      else validstring s)"

text \<open>The parts of a number; each gets the text after the parts before it.\<close>

definition skipDigits :: "string \<Rightarrow> string" where
  "skipDigits s = dropWhile is_digit s"

definition someDigits :: "string \<Rightarrow> string option" where
  "someDigits s = (case s of [] \<Rightarrow> None | c # t \<Rightarrow> if is_digit c then Some (skipDigits t) else None)"

definition validsign :: "string \<Rightarrow> string option" where
  "validsign s =
     (case s of
        c # t \<Rightarrow>
          if c = CHR ''-'' then (case t of [] \<Rightarrow> None | d # u \<Rightarrow> if is_digit d then Some t else None) else Some s
      | [] \<Rightarrow> None)"

definition validint :: "string \<Rightarrow> string option" where
  "validint s =
     (case s of [] \<Rightarrow> None | c # t \<Rightarrow> if c = CHR ''0'' then Some t else Some (skipDigits s))"

definition validfrac :: "string \<Rightarrow> string option" where
  "validfrac s = (case s of [] \<Rightarrow> Some [] | c # t \<Rightarrow> if c = CHR ''.'' then someDigits t else Some s)"

definition validexp :: "string \<Rightarrow> string option" where
  "validexp s =
     (case s of
        [] \<Rightarrow> Some []
      | c # t \<Rightarrow>
          if c = CHR ''e'' \<or> c = CHR ''E'' then
            (case t of
               [] \<Rightarrow> None
             | d # u \<Rightarrow> someDigits (if d = CHR ''+'' \<or> d = CHR ''-'' then u else t))
          else Some s)"

definition validnumber :: "string \<Rightarrow> string option" where
  "validnumber s =
     Option.bind (validsign s) (\<lambda>s. Option.bind (validint s) (\<lambda>s. Option.bind (validfrac s) validexp))"

definition literalRest :: "string \<Rightarrow> string \<Rightarrow> string option" where
  "literalRest l s = (if length l \<le> length s \<and> take (length l) s = l then Some (drop (length l) s) else None)"

definition validtrue :: "string \<Rightarrow> string option" where
  "validtrue = literalRest ''rue''"

definition validfalse :: "string \<Rightarrow> string option" where
  "validfalse = literalRest ''alse''"

definition validnull :: "string \<Rightarrow> string option" where
  "validnull = literalRest ''ull''"

text \<open>What the scanners leave is not longer than what they got.\<close>

lemma validcolon_shorter: "validcolon s = Some r \<Longrightarrow> length r < length s"
  by (induction s) (auto split: if_splits)

lemma validcomma_shorter: "validcomma s e = Some r \<Longrightarrow> length r \<le> length s \<and> r \<noteq> []"
  by (induction s) (auto split: if_splits)

lemma validstring_shorter: "validstring s = Some r \<Longrightarrow> length r < length s"
proof (induction s rule: validstring.induct)
  case (2 c s)
  show ?case
  proof (cases "c = CHR 0x5C")
    case False
    with 2 show ?thesis by (auto split: if_splits)
  next
    case True
    with 2(4) obtain e t where s: "s = e # t" by (auto split: list.splits if_splits)
    show ?thesis
    proof (cases "e \<in> set simpleEscapes")
      case True
      with 2(1) [OF _ \<open>c = CHR 0x5C\<close> s] 2(4) s \<open>c = CHR 0x5C\<close> show ?thesis by (simp split: if_splits)
    next
      case esc: False
      with 2(4) s True obtain h1 h2 h3 h4 u where t: "t = h1 # h2 # h3 # h4 # u" "e = CHR ''u''"
          "is_hex h1 \<and> is_hex h2 \<and> is_hex h3 \<and> is_hex h4" "validstring u = Some r"
        by (auto split: list.splits if_splits)
      with 2(2) [OF _ True s esc t(2,1) refl refl refl t(3)] 2(4) s True show ?thesis by (simp split: if_splits)
    qed
  qed
qed simp

lemma skipDigits_le: "length (skipDigits s) \<le> length s"
  by (simp add: skipDigits_def length_dropWhile_le)

lemma someDigits_shorter: "someDigits s = Some r \<Longrightarrow> length r < length s"
  using skipDigits_le by (auto simp: someDigits_def less_Suc_eq_le split: list.splits if_splits)

lemma literalRest_shorter: "literalRest l s = Some r \<Longrightarrow> length r \<le> length s"
  by (auto simp: literalRest_def split: if_splits)

lemma validnumber_shorter:
  assumes "validnumber (d # s) = Some r" and "d = CHR ''-'' \<or> is_digit d"
  shows "length r \<le> length s"
proof -
  from assms obtain a b c where a: "validsign (d # s) = Some a" and b: "validint a = Some b"
    and c: "validfrac b = Some c" and r: "validexp c = Some r"
    by (auto simp: validnumber_def bind_eq_Some_conv)
  have "length r \<le> length c"
    using r by (auto simp: validexp_def split: list.splits if_splits dest!: someDigits_shorter)
  moreover have "length c \<le> length b"
    using c by (auto simp: validfrac_def split: list.splits if_splits dest!: someDigits_shorter)
  moreover have "length b \<le> length s"
  proof (cases "d = CHR ''-''")
    case True
    with a have "a = s" by (auto simp: validsign_def split: list.splits if_splits)
    with b skipDigits_le [of s] show ?thesis by (auto simp: validint_def split: list.splits if_splits)
  next
    case False
    with a assms(2) have "a = d # s" "is_digit d" by (auto simp: validsign_def)
    with b show ?thesis
      using skipDigits_le [of s] by (auto simp: validint_def skipDigits_def split: if_splits)
  qed
  ultimately show ?thesis by simp
qed

section \<open>Values\<close>

text \<open>
  \<open>validany\<close>, \<open>validobject\<close> (its part after the label \<open>key\<close> is \<open>validkey\<close>) and
  \<open>validarray\<close> (its inner loop is \<open>validelems\<close>). The texts given to the last four begin
  after the bracket or quote.
\<close>

function (sequential) validany :: "string \<Rightarrow> string option"
  and validobject :: "string \<Rightarrow> string option"
  and validkey :: "string \<Rightarrow> string option"
  and validarray :: "string \<Rightarrow> string option"
  and validelems :: "string \<Rightarrow> string option" where
  "validany [] = None"
| "validany (c # s) =
     (if isWs c then validany s
      else if c = CHR ''{'' then validobject s
      else if c = CHR ''['' then validarray s
      else if c = CHR 0x22 then validstring s
      else if c = CHR ''-'' \<or> is_digit c then validnumber (c # s)
      else if c = CHR ''t'' then validtrue s
      else if c = CHR ''f'' then validfalse s
      else if c = CHR ''n'' then validnull s
      else None)"
| "validobject [] = None"
| "validobject (c # s) =
     (if isWs c then validobject s
      else if c = CHR ''}'' then Some s
      else if c = CHR 0x22 then validkey s
      else None)"
| "validkey s =
     (case validstring s of None \<Rightarrow> None
      | Some s1 \<Rightarrow> (case validcolon s1 of None \<Rightarrow> None
      | Some s2 \<Rightarrow> (case validany s2 of None \<Rightarrow> None
      | Some s3 \<Rightarrow> (case validcomma s3 (CHR ''}'') of None \<Rightarrow> None
      | Some s4 \<Rightarrow>
          if hd s4 = CHR ''}'' then Some (tl s4)
          else (case dropWhile isWs (tl s4) of
                  [] \<Rightarrow> None
                | c # s5 \<Rightarrow> if c = CHR 0x22 then validkey s5 else None)))))"
| "validarray [] = None"
| "validarray (c # s) =
     (if isWs c then validarray s
      else if c = CHR '']'' then Some s
      else validelems (c # s))"
| "validelems [] = None"
| "validelems (c # s) =
     (case validany (c # s) of None \<Rightarrow> None
      | Some s1 \<Rightarrow> (case validcomma s1 (CHR '']'') of None \<Rightarrow> None
      | Some s2 \<Rightarrow> if hd s2 = CHR '']'' then Some (tl s2) else validelems (tl s2)))"
  by pat_completeness auto

text \<open>Every scanner leaves less than it got, which is what makes the recursion end.\<close>

abbreviation "vdom \<equiv> validany_validobject_validkey_validarray_validelems_dom"

lemma partial_shorter:
  shows "vdom (Inl (Inl s)) \<Longrightarrow> \<forall>r. validany s = Some r \<longrightarrow> length r < length s"
  and "vdom (Inl (Inr s)) \<Longrightarrow> \<forall>r. validobject s = Some r \<longrightarrow> length r < length s"
  and "vdom (Inr (Inl s)) \<Longrightarrow> \<forall>r. validkey s = Some r \<longrightarrow> length r < length s"
  and "vdom (Inr (Inr (Inl s))) \<Longrightarrow> \<forall>r. validarray s = Some r \<longrightarrow> length r < length s"
  and "vdom (Inr (Inr (Inr s))) \<Longrightarrow> \<forall>r. validelems s = Some r \<longrightarrow> length r < length s"
proof (induction rule: validany_validobject_validkey_validarray_validelems.pinduct)
  case (2 c s)
  show ?case
  proof (intro allI impI)
    fix r
    assume v: "validany (c # s) = Some r"
    show "length r < length (c # s)"
      using v 2 validstring_shorter [of s r] validnumber_shorter [of c s r]
        literalRest_shorter [of "''rue''" s r] literalRest_shorter [of "''alse''" s r]
        literalRest_shorter [of "''ull''" s r]
      by (simp add: validany.psimps validtrue_def validfalse_def validnull_def less_Suc_eq_le split: if_splits)
  qed
next
  case (4 c s)
  then show ?case by (auto simp: validobject.psimps split: if_splits)
next
  case (5 s)
  show ?case
  proof (intro allI impI)
    fix r
    assume "validkey s = Some r"
    with 5(1) obtain s1 s2 s3 s4 where v: "validstring s = Some s1" "validcolon s1 = Some s2"
        "validany s2 = Some s3" "validcomma s3 (CHR ''}'') = Some s4"
      and r: "(if hd s4 = CHR ''}'' then Some (tl s4) else (case dropWhile isWs (tl s4) of [] \<Rightarrow> None
           | c # s5 \<Rightarrow> if c = CHR 0x22 then validkey s5 else None)) = Some r"
      by (auto simp: validkey.psimps split: option.splits)
    have "length s4 < length s" "s4 \<noteq> []"
      using 5(2) [OF v(1,2)] v validstring_shorter [OF v(1)] validcolon_shorter [OF v(2)] validcomma_shorter [OF v(4)]
      by fastforce+
    moreover from this have "length (tl s4) < length s4" by simp
    moreover have "length r \<le> length (tl s4)"
    proof (cases "hd s4 = CHR ''}''")
      case False
      with r obtain s5 where d: "dropWhile isWs (tl s4) = CHR 0x22 # s5" and k: "validkey s5 = Some r"
        by (auto split: list.splits if_splits)
      with 5(3) [OF v False d refl] have "length r < length s5" by blast
      moreover have "length (dropWhile isWs (tl s4)) \<le> length (tl s4)" by (rule length_dropWhile_le)
      ultimately show ?thesis using d by simp
    qed (use r in simp)
    ultimately show "length r < length s" by simp
  qed
next
  case (7 c s)
  then show ?case by (auto simp: validarray.psimps split: if_splits)
next
  case (9 c s)
  show ?case
  proof (intro allI impI)
    fix r
    assume "validelems (c # s) = Some r"
    with 9(1) obtain s1 s2 where v: "validany (c # s) = Some s1" "validcomma s1 (CHR '']'') = Some s2"
      and r: "(if hd s2 = CHR '']'' then Some (tl s2) else validelems (tl s2)) = Some r"
      by (auto simp: validelems.psimps split: option.splits)
    have "length s2 < length (c # s)" "s2 \<noteq> []"
      using 9(2) v validcomma_shorter [OF v(2)] by fastforce+
    moreover from this have "length (tl s2) < length s2" by simp
    moreover have "length r \<le> length (tl s2)"
      using r 9(3) [OF v] by (cases "hd s2 = CHR '']''") auto
    ultimately show "length r < length (c # s)" by simp
  qed
qed (simp_all add: validany.psimps validobject.psimps validarray.psimps validelems.psimps)

termination validany
proof (relation "measure (\<lambda>x. case x of
      Inl (Inl s) \<Rightarrow> 3 * length s | Inl (Inr s) \<Rightarrow> 3 * length s | Inr (Inl s) \<Rightarrow> 3 * length s
    | Inr (Inr (Inl s)) \<Rightarrow> 3 * length s + 2 | Inr (Inr (Inr s)) \<Rightarrow> 3 * length s + 1)", goal_cases)
  case (7 s s1 s2)
  then show ?case using validstring_shorter [of s s1] validcolon_shorter [of s1 s2] by simp
next
  case (8 s s1 s2 s3 s4 c s5)
  have "length s3 < length s2" using partial_shorter(1) [OF 8(8)] 8(3) by blast
  moreover have "length (dropWhile isWs (tl s4)) \<le> length (tl s4)" by (rule length_dropWhile_le)
  ultimately show ?case
    using 8 validstring_shorter [of s s1] validcolon_shorter [of s1 s2] validcomma_shorter [OF 8(4)]
    by (cases s4) auto
next
  case (12 c s s1 s2)
  have "length s1 < length (c # s)" using partial_shorter(1) [OF 12(4)] 12(1) by blast
  then show ?case using 12 validcomma_shorter [OF 12(2)] by (cases s2) auto
qed auto


section \<open>Valid\<close>

definition validpayload :: "string \<Rightarrow> string option" where
  "validpayload s =
     (case dropWhile isWs s of
        [] \<Rightarrow> None
      | c # t \<Rightarrow>
          (case validany (c # t) of None \<Rightarrow> None
           | Some r \<Rightarrow> if list_all isWs r then Some [] else None))"

definition Valid :: "string \<Rightarrow> bool" where
  "Valid json = (validpayload json \<noteq> None)"

definition ValidBytes :: "bytes \<Rightarrow> bool" where
  "ValidBytes json = (validpayload json \<noteq> None)"

section \<open>The grammar\<close>

text \<open>
  The grammar of RFC 8259, as a relation on texts: digits, numbers, the insides of strings, and
  the values with the members of an object and the elements of an array.
\<close>

definition ws :: "string \<Rightarrow> bool" where
  "ws s = list_all isWs s"

definition digits :: "string \<Rightarrow> bool" where
  "digits s = (s \<noteq> [] \<and> list_all is_digit s)"

definition jint :: "string \<Rightarrow> bool" where
  "jint s = (s = ''0'' \<or> digits s \<and> hd s \<noteq> CHR ''0'')"

definition jfrac :: "string \<Rightarrow> bool" where
  "jfrac s = (s = [] \<or> (\<exists>ds. s = CHR ''.'' # ds \<and> digits ds))"

definition jexp :: "string \<Rightarrow> bool" where
  "jexp s = (s = [] \<or> (\<exists>e sign ds. s = e # sign @ ds \<and> e \<in> {CHR ''e'', CHR ''E''}
     \<and> sign \<in> {[], ''+'', ''-''} \<and> digits ds))"

definition jnumber :: "string \<Rightarrow> bool" where
  "jnumber s = (\<exists>sign i f e. s = sign @ i @ f @ e \<and> sign \<in> {[], ''-''} \<and> jint i \<and> jfrac f \<and> jexp e)"

inductive jchars :: "string \<Rightarrow> bool" where
  nil: "jchars []"
| plain: "32 \<le> ord c \<Longrightarrow> c \<noteq> CHR 0x22 \<Longrightarrow> c \<noteq> CHR 0x5C \<Longrightarrow> jchars s \<Longrightarrow> jchars (c # s)"
| escape: "e \<in> set simpleEscapes \<Longrightarrow> jchars s \<Longrightarrow> jchars (CHR 0x5C # e # s)"
| unicode: "list_all is_hex [h1, h2, h3, h4] \<Longrightarrow> jchars s \<Longrightarrow>
    jchars (CHR 0x5C # CHR ''u'' # h1 # h2 # h3 # h4 # s)"

inductive jvalue :: "string \<Rightarrow> bool"
  and jmembers :: "string \<Rightarrow> bool"
  and jelements :: "string \<Rightarrow> bool" where
  jtrue: "jvalue ''true''"
| jfalse: "jvalue ''false''"
| jnull: "jvalue ''null''"
| num: "jnumber s \<Longrightarrow> jvalue s"
| str: "jchars s \<Longrightarrow> jvalue (CHR 0x22 # s @ [CHR 0x22])"
| emptyObject: "ws w \<Longrightarrow> jvalue (''{'' @ w @ ''}'')"
| object: "ws w \<Longrightarrow> jmembers m \<Longrightarrow> jvalue (''{'' @ w @ m @ ''}'')"
| emptyArray: "ws w \<Longrightarrow> jvalue (''['' @ w @ '']'')"
| array: "jelements m \<Longrightarrow> jvalue (''['' @ m @ '']'')"
| member: "jchars k \<Longrightarrow> ws w1 \<Longrightarrow> ws w2 \<Longrightarrow> jvalue v \<Longrightarrow> ws w3 \<Longrightarrow>
    jmembers (CHR 0x22 # k @ CHR 0x22 # w1 @ '':'' @ w2 @ v @ w3)"
| members: "jchars k \<Longrightarrow> ws w1 \<Longrightarrow> ws w2 \<Longrightarrow> jvalue v \<Longrightarrow> ws w3 \<Longrightarrow> ws w4 \<Longrightarrow> jmembers m \<Longrightarrow>
    jmembers (CHR 0x22 # k @ CHR 0x22 # w1 @ '':'' @ w2 @ v @ w3 @ '','' @ w4 @ m)"
| element: "ws w1 \<Longrightarrow> jvalue v \<Longrightarrow> ws w2 \<Longrightarrow> jelements (w1 @ v @ w2)"
| elements: "ws w1 \<Longrightarrow> jvalue v \<Longrightarrow> ws w2 \<Longrightarrow> jelements m \<Longrightarrow> jelements (w1 @ v @ w2 @ '','' @ m)"

section \<open>What is accepted is in the grammar\<close>

lemma validcolon_split: "validcolon s = Some r \<Longrightarrow> \<exists>w. s = w @ '':'' @ r \<and> ws w"
proof (induction s)
  case (Cons c s)
  then show ?case
    by (cases "isWs c") (auto simp: ws_def split: if_splits intro: exI [of _ "c # w" for w])
qed simp

lemma validcomma_split: "validcomma s e = Some r \<Longrightarrow> \<exists>w c t. s = w @ r \<and> r = c # t \<and> ws w \<and> (c = CHR '','' \<or> c = e)"
proof (induction s)
  case (Cons c s)
  then show ?case
    by (cases "isWs c") (auto simp: ws_def split: if_splits intro: exI [of _ "c # w" for w])
qed simp

lemma validstring_split: "validstring s = Some r \<Longrightarrow> \<exists>b. s = b @ CHR 0x22 # r \<and> jchars b"
proof (induction s rule: validstring.induct)
  case (2 c s)
  show ?case
  proof (cases "c = CHR 0x5C")
    case False
    with 2 show ?thesis
      by (auto simp: not_less split: if_splits intro: jchars.intros exI [of _ "[]"] exI [of _ "c # b" for b])
  next
    case True
    with 2(4) obtain e t where s: "s = e # t" by (auto split: list.splits if_splits)
    show ?thesis
    proof (cases "e \<in> set simpleEscapes")
      case esc: True
      with 2(1) [OF _ \<open>c = CHR 0x5C\<close> s] 2(4) s True obtain b where "t = b @ CHR 0x22 # r" "jchars b"
        by (auto split: if_splits)
      with s True esc show ?thesis by (intro exI [of _ "c # e # b"]) (simp add: jchars.escape)
    next
      case esc: False
      with 2(4) s True obtain h1 h2 h3 h4 u where t: "t = h1 # h2 # h3 # h4 # u" "e = CHR ''u''"
          "is_hex h1 \<and> is_hex h2 \<and> is_hex h3 \<and> is_hex h4" "validstring u = Some r"
        by (auto split: list.splits if_splits)
      with 2(2) [OF _ True s esc t(2,1) refl refl refl t(3)] 2(4) True obtain b where "u = b @ CHR 0x22 # r" "jchars b"
        by (auto split: if_splits)
      with s t True show ?thesis
        by (intro exI [of _ "c # e # h1 # h2 # h3 # h4 # b"]) (simp add: jchars.unicode)
    qed
  qed
qed simp


lemma digits_Cons: "is_digit c \<Longrightarrow> list_all is_digit s \<Longrightarrow> digits (c # s)"
  by (simp add: digits_def)

lemma skipDigits_split: "\<exists>ds. s = ds @ skipDigits s \<and> list_all is_digit ds"
  by (rule exI [of _ "takeWhile is_digit s"]) (auto simp: skipDigits_def list_all_iff dest: set_takeWhileD)

lemma someDigits_split:
  assumes "someDigits s = Some r"
  shows "\<exists>ds. s = ds @ r \<and> digits ds"
proof -
  from assms obtain c t where "s = c # t" "is_digit c" "r = skipDigits t"
    by (auto simp: someDigits_def split: list.splits if_splits)
  moreover obtain ds where "t = ds @ skipDigits t" "list_all is_digit ds" using skipDigits_split by blast
  ultimately show ?thesis by (intro exI [of _ "c # ds"]) (auto intro: digits_Cons)
qed

lemma validfrac_split: "validfrac s = Some r \<Longrightarrow> \<exists>f. s = f @ r \<and> jfrac f"
  by (auto simp: validfrac_def jfrac_def split: list.splits if_splits dest!: someDigits_split)

lemma validexp_split:
  assumes "validexp s = Some r"
  shows "\<exists>e. s = e @ r \<and> jexp e"
proof (cases s)
  case (Cons c t)
  show ?thesis
  proof (cases "c = CHR ''e'' \<or> c = CHR ''E''")
    case True
    with assms Cons obtain d u where t: "t = d # u"
      and sd: "someDigits (if d = CHR ''+'' \<or> d = CHR ''-'' then u else t) = Some r"
      by (auto simp: validexp_def split: list.splits)
    from someDigits_split [OF sd] obtain ds
      where ds: "(if d = CHR ''+'' \<or> d = CHR ''-'' then u else t) = ds @ r" "digits ds" by blast
    let ?sign = "if d = CHR ''+'' \<or> d = CHR ''-'' then [d] else []"
    have "s = (c # ?sign @ ds) @ r" using ds(1) Cons t by auto
    moreover have "jexp (c # ?sign @ ds)"
      unfolding jexp_def using True ds(2) by (intro disjI2 exI [of _ c] exI [of _ ?sign] exI [of _ ds]) auto
    ultimately show ?thesis by blast
  qed (use assms Cons in \<open>auto simp: validexp_def jexp_def\<close>)
qed (use assms in \<open>auto simp: validexp_def jexp_def\<close>)

lemma validint_split:
  assumes "validint s = Some r" and "s = [] \<or> is_digit (hd s)"
  shows "\<exists>i. s = i @ r \<and> jint i"
proof (cases s)
  case (Cons c t)
  show ?thesis
  proof (cases "c = CHR ''0''")
    case False
    obtain ds where "t = ds @ skipDigits t" "list_all is_digit ds" using skipDigits_split by blast
    moreover have "r = skipDigits t" "is_digit c"
      using assms Cons False by (auto simp: validint_def skipDigits_def)
    ultimately show ?thesis using Cons False
      by (intro exI [of _ "c # ds"]) (auto simp: jint_def intro: digits_Cons)
  qed (use assms Cons in \<open>auto simp: validint_def jint_def\<close>)
qed (use assms in \<open>simp add: validint_def\<close>)

lemma validnumber_split:
  assumes "validnumber (d # s) = Some r" and "d = CHR ''-'' \<or> is_digit d"
  shows "\<exists>n. d # s = n @ r \<and> jnumber n"
proof -
  from assms obtain a b c where a: "validsign (d # s) = Some a" and b: "validint a = Some b"
    and c: "validfrac b = Some c" and r: "validexp c = Some r"
    by (auto simp: validnumber_def bind_eq_Some_conv)
  from a assms(2) obtain sign where sign: "d # s = sign @ a" "sign \<in> {[], ''-''}" "a = [] \<or> is_digit (hd a)"
    by (auto simp: validsign_def split: list.splits if_splits)
  from validint_split [OF b sign(3)] validfrac_split [OF c] validexp_split [OF r]
  obtain i f e where "a = i @ b" "jint i" "b = f @ c" "jfrac f" "c = e @ r" "jexp e" by blast
  note parts = this
  have "d # s = (sign @ i @ f @ e) @ r" using sign(1) parts by simp
  moreover have "jnumber (sign @ i @ f @ e)" unfolding jnumber_def using sign(2) parts by blast
  ultimately show ?thesis by blast
qed

lemma literalRest_split: "literalRest l s = Some r \<Longrightarrow> s = l @ r"
  by (auto simp: literalRest_def split: if_splits) (metis append_take_drop_id)

lemma dropWhile_ws: "\<exists>w. s = w @ dropWhile isWs s \<and> ws w"
  by (rule exI [of _ "takeWhile isWs s"]) (auto simp: ws_def list_all_iff dest: set_takeWhileD)


lemma jvalue_brackets:
  "ws w \<Longrightarrow> jvalue (CHR ''{'' # w @ ''}'')" "ws w \<Longrightarrow> jmembers m \<Longrightarrow> jvalue (CHR ''{'' # w @ m @ ''}'')"
  "ws w \<Longrightarrow> jvalue (CHR ''['' # w @ '']'')" "jelements m \<Longrightarrow> jvalue (CHR ''['' # m @ '']'')"
  using emptyObject [of w] object [of w m] emptyArray [of w] array [of m] by simp_all

lemma ws_simps [simp]: "ws []" "ws (c # s) = (isWs c \<and> ws s)" "ws (s @ t) = (ws s \<and> ws t)"
  by (simp_all add: ws_def)

lemma scanners_sound:
  shows "validany s = Some r \<Longrightarrow> \<exists>w v. s = w @ v @ r \<and> ws w \<and> jvalue v"
  and "validobject s = Some r \<Longrightarrow> \<exists>b. s = b @ r \<and> jvalue (CHR ''{'' # b) \<and>
    (\<forall>w. ws w \<longrightarrow> jvalue (CHR ''{'' # w @ b))"
  and "validkey s = Some r \<Longrightarrow> \<exists>b. s = b @ CHR ''}'' # r \<and> jmembers (CHR 0x22 # b)"
  and "validarray s = Some r \<Longrightarrow> \<exists>b. s = b @ r \<and> jvalue (CHR ''['' # b) \<and>
    (\<forall>w. ws w \<longrightarrow> jvalue (CHR ''['' # w @ b))"
  and "validelems s = Some r \<Longrightarrow> \<exists>b. s = b @ CHR '']'' # r \<and> jelements b \<and> (\<forall>w. ws w \<longrightarrow> jelements (w @ b))"
proof (induction s and s and s and s and s arbitrary: r and r and r and r and r
    rule: validany_validobject_validkey_validarray_validelems.induct)
  case (5 s)
  then obtain s1 s2 s3 s4 where v: "validstring s = Some s1" "validcolon s1 = Some s2"
      "validany s2 = Some s3" "validcomma s3 (CHR ''}'') = Some s4"
    and r: "(if hd s4 = CHR ''}'' then Some (tl s4) else (case dropWhile isWs (tl s4) of [] \<Rightarrow> None
         | c # s5 \<Rightarrow> if c = CHR 0x22 then validkey s5 else None)) = Some r"
    by (auto split: option.splits)
  obtain k where k: "s = k @ CHR 0x22 # s1" "jchars k" using validstring_split [OF v(1)] by blast
  obtain w1 where w1: "s1 = w1 @ '':'' @ s2" "ws w1" using validcolon_split [OF v(2)] by blast
  obtain w2 x where w2: "s2 = w2 @ x @ s3" "ws w2" "jvalue x" using 5(1) [OF v(1,2,3)] by blast
  obtain w3 c t where w3: "s3 = w3 @ s4" "s4 = c # t" "ws w3" "c = CHR '','' \<or> c = CHR ''}''"
    using validcomma_split [OF v(4)] by blast
  show ?case
  proof (cases "c = CHR ''}''")
    case True
    with r w3 k w1 w2 have "s = (k @ CHR 0x22 # w1 @ '':'' @ w2 @ x @ w3) @ CHR ''}'' # r" by simp
    then show ?thesis using member [OF k(2) w1(2) w2(2,3) w3(3)] by blast
  next
    case False
    with r w3 obtain s5 where d: "dropWhile isWs t = CHR 0x22 # s5" and key: "validkey s5 = Some r"
      by (auto split: list.splits if_splits)
    obtain m where m: "s5 = m @ CHR ''}'' # r" "jmembers (CHR 0x22 # m)"
      using 5(2) [OF v _ _ refl key] False w3(2) d by auto
    obtain w4 where "t = w4 @ dropWhile isWs t" "ws w4" using dropWhile_ws by blast
    with d k w1 w2 w3 m False have
      "s = (k @ CHR 0x22 # w1 @ '':'' @ w2 @ x @ w3 @ '','' @ w4 @ CHR 0x22 # m) @ CHR ''}'' # r" by simp
    then show ?thesis using members [OF k(2) w1(2) w2(2,3) w3(3) \<open>ws w4\<close> m(2)] by blast
  qed
next
  case (9 c s)
  then obtain s1 s2 where v: "validany (c # s) = Some s1" "validcomma s1 (CHR '']'') = Some s2"
    and r: "(if hd s2 = CHR '']'' then Some (tl s2) else validelems (tl s2)) = Some r"
    by (auto split: option.splits)
  obtain w x where w: "c # s = w @ x @ s1" "ws w" "jvalue x" using 9(1) [OF v(1)] by blast
  obtain w3 d t where w3: "s1 = w3 @ s2" "s2 = d # t" "ws w3" "d = CHR '','' \<or> d = CHR '']''"
    using validcomma_split [OF v(2)] by blast
  show ?case
  proof (cases "d = CHR '']''")
    case True
    with r w w3 have "c # s = (w @ x @ w3) @ CHR '']'' # r" by simp
    moreover have "ws u \<Longrightarrow> jelements (u @ w @ x @ w3)" for u
      using element [of "u @ w" x w3] w w3 by simp
    ultimately show ?thesis using element [OF w(2,3) w3(3)] by blast
  next
    case False
    with r w3 have "validelems (tl s2) = Some r" by simp
    with 9(2) [OF v] False w3(2) obtain m where m: "t = m @ CHR '']'' # r" "jelements m" by auto
    with w w3 False have "c # s = (w @ x @ w3 @ '','' @ m) @ CHR '']'' # r" by simp
    moreover have "ws u \<Longrightarrow> jelements (u @ w @ x @ w3 @ '','' @ m)" for u
      using elements [of "u @ w" x w3 m] w w3 m by simp
    ultimately show ?thesis using elements [OF w(2,3) w3(3) m(2)] by blast
  qed
next
  case (2 c s)
  note v = 2(4)
  have here: "\<exists>w x. c # s = w @ x @ r \<and> ws w \<and> jvalue x" if "c # s = x @ r" "jvalue x" for x
    using that by (intro exI [of _ "[]"] exI [of _ x]) simp
  consider (space) "isWs c" | (obj) "c = CHR ''{''" | (arr) "c = CHR ''[''" | (str) "c = CHR 0x22"
    | (num) "c = CHR ''-'' \<or> is_digit c" "validnumber (c # s) = Some r"
    | (lit) l where "literalRest l s = Some r" "c # l \<in> {''true'', ''false'', ''null''}"
    using v by (auto simp: validtrue_def validfalse_def validnull_def split: if_splits)
  then show ?case
  proof cases
    case space
    with v 2(1) obtain w x where "s = w @ x @ r" "ws w" "jvalue x" by auto
    then show ?thesis using space by (intro exI [of _ "c # w"] exI [of _ x]) simp
  next
    case obj
    with v have "validobject s = Some r" by (simp add: isWs_def)
    with 2(2) obj obtain b where "s = b @ r" "jvalue (CHR ''{'' # b)" by (auto simp: isWs_def)
    with obj show ?thesis by (intro here [of "c # b"]) simp_all
  next
    case arr
    with v have "validarray s = Some r" by (simp add: isWs_def)
    with 2(3) arr obtain b where "s = b @ r" "jvalue (CHR ''['' # b)" by (auto simp: isWs_def)
    with arr show ?thesis by (intro here [of "c # b"]) simp_all
  next
    case str
    with v have "validstring s = Some r" by (simp add: isWs_def)
    then obtain b where "s = b @ CHR 0x22 # r" "jchars b" using validstring_split by blast
    then show ?thesis using str jvalue_jmembers_jelements.str [of b]
      by (intro here [of "CHR 0x22 # b @ [CHR 0x22]"]) simp_all
  next
    case num
    from validnumber_split [OF num(2,1)] show ?thesis using here jvalue_jmembers_jelements.num by blast
  next
    case lit
    then have "c # s = (c # l) @ r" using literalRest_split [of l s r] by simp
    moreover have "jvalue (c # l)" using lit(2) jtrue jfalse jnull by auto
    ultimately show ?thesis by (rule here)
  qed
next
  case (4 c s)
  consider (space) "isWs c" "validobject s = Some r" | (closing) "c = CHR ''}''" "s = r"
    | (key) "c = CHR 0x22" "\<not> isWs c" "validkey s = Some r"
    using 4(3) by (auto split: if_splits)
  then show ?case
  proof cases
    case space
    with 4(1) obtain b where b: "s = b @ r" "\<And>w. ws w \<Longrightarrow> jvalue (CHR ''{'' # w @ b)" by blast
    have all: "jvalue (CHR ''{'' # w @ c # b)" if "ws w" for w
      using b(2) [of "w @ [c]"] that space(1) by simp
    with b(1) show ?thesis using space(1) by (intro exI [of _ "c # b"]) (auto dest: spec [of _ "[]"] intro: all [of "[]", simplified])
  next
    case closing
    then show ?thesis using jvalue_brackets(1) by (intro exI [of _ "''}''"]) (auto intro: jvalue_brackets(1) [of "[]", simplified])
  next
    case key
    with 4(2) obtain b where b: "s = b @ CHR ''}'' # r" "jmembers (CHR 0x22 # b)" by auto
    have all: "jvalue (CHR ''{'' # w @ CHR 0x22 # b @ ''}'')" if "ws w" for w
      using jvalue_brackets(2) [OF that b(2)] by simp
    with b(1) key show ?thesis
      by (intro exI [of _ "CHR 0x22 # b @ ''}''"]) (auto intro: all [of "[]", simplified])
  qed
next
  case (7 c s)
  consider (space) "isWs c" "validarray s = Some r" | (closing) "c = CHR '']''" "s = r"
    | (elems) "\<not> isWs c" "c \<noteq> CHR '']''" "validelems (c # s) = Some r"
    using 7(3) by (auto split: if_splits)
  then show ?case
  proof cases
    case space
    with 7(1) obtain b where b: "s = b @ r" "\<And>w. ws w \<Longrightarrow> jvalue (CHR ''['' # w @ b)" by blast
    have all: "jvalue (CHR ''['' # w @ c # b)" if "ws w" for w
      using b(2) [of "w @ [c]"] that space(1) by simp
    with b(1) show ?thesis by (intro exI [of _ "c # b"]) (auto intro: all [of "[]", simplified])
  next
    case closing
    then show ?thesis using jvalue_brackets(3)
      by (intro exI [of _ "'']''"]) (auto intro: jvalue_brackets(3) [of "[]", simplified])
  next
    case elems
    with 7(2) obtain b where b: "c # s = b @ CHR '']'' # r" "\<And>w. ws w \<Longrightarrow> jelements (w @ b)" by blast
    have all: "jvalue (CHR ''['' # w @ b @ '']'')" if "ws w" for w
      using jvalue_brackets(4) [OF b(2) [OF that]] by simp
    with b(1) show ?thesis
      by (intro exI [of _ "b @ '']''"]) (auto intro: all [of "[]", simplified])
  qed
qed simp_all

section \<open>What is in the grammar is accepted\<close>

text \<open>What may follow a value: nothing, a blank, or a comma or bracket of the list it is in.\<close>

definition stops :: "string \<Rightarrow> bool" where
  "stops r = (r = [] \<or> isWs (hd r) \<or> hd r \<in> {CHR '','', CHR '']'', CHR ''}''})"

lemma stops_simps [simp]:
  "stops []" "stops (CHR '','' # r)" "stops (CHR '']'' # r)" "stops (CHR ''}'' # r)"
  by (simp_all add: stops_def)

lemma stops_ws [simp]: "ws w \<Longrightarrow> stops r \<Longrightarrow> stops (w @ r)"
  by (cases w) (simp_all add: stops_def)

lemma stops_head:
  assumes "stops (c # r)"
  shows "\<not> is_digit c" "c \<noteq> CHR ''.''" "c \<noteq> CHR ''e''" "c \<noteq> CHR ''E''"
  using assms by (auto simp: stops_def isWs_def is_digit_def)

lemma validcolon_ws: "ws w \<Longrightarrow> validcolon (w @ CHR '':'' # r) = Some r"
  by (induction w) (simp_all add: isWs_def)

lemma validcomma_ws: "ws w \<Longrightarrow> c = CHR '','' \<or> c = e \<Longrightarrow> \<not> isWs c \<Longrightarrow> validcomma (w @ c # r) e = Some (c # r)"
  by (induction w) auto

lemma validstring_chars: "jchars b \<Longrightarrow> validstring (b @ CHR 0x22 # r) = Some r"
proof (induction rule: jchars.induct)
  case (unicode h1 h2 h3 h4 s)
  then show ?case by (simp add: simpleEscapes_def)
qed (auto simp: not_less)

lemma skipDigits_stop: "list_all is_digit ds \<Longrightarrow> r = [] \<or> \<not> is_digit (hd r) \<Longrightarrow> skipDigits (ds @ r) = r"
  by (induction ds) (auto simp: skipDigits_def dropWhile_eq_self_iff)

lemma someDigits_stop: "digits ds \<Longrightarrow> r = [] \<or> \<not> is_digit (hd r) \<Longrightarrow> someDigits (ds @ r) = Some r"
  by (cases ds) (auto simp: someDigits_def digits_def skipDigits_stop)

lemma someDigits_all: "digits ds \<Longrightarrow> someDigits ds = Some []"
  using someDigits_stop [of ds "[]"] by simp

lemma jexp_head: "jexp e \<Longrightarrow> stops r \<Longrightarrow> e @ r = [] \<or> \<not> is_digit (hd (e @ r)) \<and> hd (e @ r) \<noteq> CHR ''.''"
  by (cases r) (auto simp: jexp_def is_digit_def dest: stops_head)

lemma jfrac_head:
  "jfrac f \<Longrightarrow> jexp e \<Longrightarrow> stops r \<Longrightarrow> f @ e @ r = [] \<or> \<not> is_digit (hd (f @ e @ r))"
  using jexp_head [of e r] by (auto simp: jfrac_def is_digit_def)

lemma validexp_stop:
  assumes "jexp e" and "stops r"
  shows "validexp (e @ r) = Some r"
proof (cases "e = []")
  case True
  then show ?thesis using assms(2) stops_head [of "hd r" "tl r"] by (cases r) (auto simp: validexp_def)
next
  case False
  then obtain x sign ds where e: "e = x # sign @ ds" "x \<in> {CHR ''e'', CHR ''E''}" "sign \<in> {[], ''+'', ''-''}" "digits ds"
    using assms(1) by (auto simp: jexp_def)
  have "r = [] \<or> \<not> is_digit (hd r)" using assms(2) stops_head [of "hd r" "tl r"] by (cases r) auto
  then have d: "someDigits (ds @ r) = Some r" using e(4) by (rule someDigits_stop [rotated])
  moreover obtain d u where "ds = d # u" "is_digit d" using e(4) by (cases ds) (auto simp: digits_def)
  ultimately show ?thesis using e(1-3) by (auto simp: validexp_def is_digit_def)
qed

lemma validfrac_stop: "jfrac f \<Longrightarrow> jexp e \<Longrightarrow> stops r \<Longrightarrow> validfrac (f @ e @ r) = Some (e @ r)"
  using jexp_head [of e r]
  by (cases "e @ r") (auto simp: jfrac_def validfrac_def someDigits_stop someDigits_all)

lemma validint_stop:
  assumes "jint i" and "t = [] \<or> \<not> is_digit (hd t)"
  shows "validint (i @ t) = Some t"
  using assms skipDigits_stop [of i t] by (cases i) (auto simp: jint_def validint_def digits_def)

lemma validnumber_stop:
  assumes "jnumber n" and "stops r"
  shows "validnumber (n @ r) = Some r"
proof -
  from assms(1) obtain sign i f e where n: "n = sign @ i @ f @ e" "sign \<in> {[], ''-''}" "jint i" "jfrac f" "jexp e"
    by (auto simp: jnumber_def)
  obtain d u where i: "i = d # u" "is_digit d" using n(3) by (cases i) (auto simp: jint_def digits_def is_digit_def)
  have "validsign (n @ r) = Some (i @ f @ e @ r)"
    using n(1,2) i by (auto simp: validsign_def is_digit_def)
  then show ?thesis
    using validint_stop [OF n(3) jfrac_head [OF n(4,5) assms(2)]] validfrac_stop [OF n(4,5) assms(2)]
      validexp_stop [OF n(5) assms(2)]
    by (simp add: validnumber_def)
qed

lemma literalRest_append [simp]: "literalRest l (l @ r) = Some r"
  by (simp add: literalRest_def)

lemma validtrue_stop [simp]: "validtrue (CHR ''r'' # CHR ''u'' # CHR ''e'' # r) = Some r"
  using literalRest_append [of "''rue''" r] by (simp add: validtrue_def del: literalRest_append)

lemma validfalse_stop [simp]: "validfalse (CHR ''a'' # CHR ''l'' # CHR ''s'' # CHR ''e'' # r) = Some r"
  using literalRest_append [of "''alse''" r] by (simp add: validfalse_def del: literalRest_append)

lemma validnull_stop [simp]: "validnull (CHR ''u'' # CHR ''l'' # CHR ''l'' # r) = Some r"
  using literalRest_append [of "''ull''" r] by (simp add: validnull_def del: literalRest_append)

lemma validany_ws: "ws w \<Longrightarrow> validany (w @ s) = validany s"
  by (induction w) simp_all

lemma validobject_ws: "ws w \<Longrightarrow> validobject (w @ s) = validobject s"
  by (induction w) simp_all

lemma validarray_ws: "ws w \<Longrightarrow> validarray (w @ s) = validarray s"
  by (induction w) simp_all

lemma validelems_ws: "ws w \<Longrightarrow> s \<noteq> [] \<Longrightarrow> validelems (w @ s) = validelems s"
proof (induction w)
  case (Cons c w)
  then obtain d t where s: "w @ s = d # t" by (cases "w @ s") auto
  have "validany (c # d # t) = validany (d # t)" using Cons.prems(1) by simp
  then have "validelems (c # d # t) = validelems (d # t)" by (simp del: validany.simps)
  with Cons s show ?case by simp
qed simp

lemma dropWhile_isWs: "ws w \<Longrightarrow> \<not> isWs c \<Longrightarrow> dropWhile isWs (w @ c # s) = c # s"
  by (induction w) auto

lemma jnumber_head: "jnumber n \<Longrightarrow> \<exists>c s. n = c # s \<and> (c = CHR ''-'' \<or> is_digit c)"
  by (fastforce simp: jnumber_def jint_def digits_def is_digit_def neq_Nil_conv)

lemma jvalue_head: "jvalue v \<Longrightarrow> \<exists>c s. v = c # s \<and> \<not> isWs c \<and> c \<noteq> CHR '']''"
  by (erule jvalue.cases) (auto simp: isWs_def is_digit_def dest!: jnumber_head)

text \<open>The elements of an array, one at a time.\<close>

lemma validelems_step:
  assumes "ws w1" and "jvalue v" and "validany (v @ w2 @ c # t) = Some (w2 @ c # t)" and "ws w2"
    and "c = CHR '','' \<or> c = CHR '']''"
  shows "validelems (w1 @ v @ w2 @ c # t) = (if c = CHR '']'' then Some t else validelems t)"
proof -
  obtain d s where v: "v = d # s" using jvalue_head [OF assms(2)] by blast
  have "\<not> isWs c" using assms(5) by (auto simp: isWs_def)
  then have "validcomma (w2 @ c # t) (CHR '']'') = Some (c # t)" using assms(4,5) by (intro validcomma_ws) auto
  then show ?thesis
    using assms(1,3) v validelems_ws [OF assms(1), of "v @ w2 @ c # t"] by (simp del: validany.simps)
qed

lemma scanners_complete:
  shows "jvalue v \<Longrightarrow> \<forall>r. stops r \<longrightarrow> validany (v @ r) = Some r"
  and "jmembers m \<Longrightarrow> \<exists>b. m = CHR 0x22 # b \<and> (\<forall>r. validkey (b @ CHR ''}'' # r) = Some r)"
  and "jelements l \<Longrightarrow> (\<forall>r. validelems (l @ CHR '']'' # r) = Some r) \<and>
    (\<exists>w c t. l = w @ c # t \<and> ws w \<and> \<not> isWs c \<and> c \<noteq> CHR '']'')"
proof (induction rule: jvalue_jmembers_jelements.inducts)
  case (num s)
  then obtain c t where "s = c # t" "c = CHR ''-'' \<or> is_digit c" using jnumber_head by blast
  then show ?case using validnumber_stop [OF num] by (auto simp: isWs_def is_digit_def)
next
  case (str s)
  then show ?case by (simp add: isWs_def validstring_chars)
next
  case (emptyObject w)
  then show ?case by (simp add: isWs_def validobject_ws)
next
  case (object w m)
  then show ?case by (auto simp: isWs_def validobject_ws simp del: validkey.simps)
next
  case (emptyArray w)
  then show ?case by (simp add: isWs_def validarray_ws)
next
  case (array m)
  then obtain w c t where m: "m = w @ c # t" "ws w" "\<not> isWs c" "c \<noteq> CHR '']''" by blast
  have "validarray (m @ CHR '']'' # r) = validelems (m @ CHR '']'' # r)" for r
    using m validarray_ws [OF m(2)] validelems_ws [OF m(2)] by (simp del: validelems.simps)
  with array show ?case by (simp add: isWs_def del: validelems.simps)
next
  case (member k w1 w2 v w3)
  then show ?case
    by (simp add: validstring_chars validcolon_ws validany_ws validcomma_ws isWs_def)
next
  case (members k w1 w2 v w3 w4 m)
  from members(9) obtain b where b: "m = CHR 0x22 # b" "\<And>r. validkey (b @ CHR ''}'' # r) = Some r" by blast
  then show ?case using members
    by (auto simp: validkey.simps [of "k @ x" for x] validstring_chars validcolon_ws validany_ws validcomma_ws dropWhile_isWs isWs_def
        simp del: validkey.simps)
next
  case (element w1 v w2)
  obtain c t where "v = c # t" "\<not> isWs c" "c \<noteq> CHR '']''" using jvalue_head [OF element(2)] by blast
  moreover have "validelems (w1 @ v @ w2 @ CHR '']'' # r) = Some r" for r
    using validelems_step [OF element(1,2) _ element(3), of "CHR '']''" r] element(3,4) by simp
  ultimately show ?case using element(1) by (auto simp del: validelems.simps)
next
  case (elements w1 v w2 m)
  obtain c t where "v = c # t" "\<not> isWs c" "c \<noteq> CHR '']''" using jvalue_head [OF elements(2)] by blast
  moreover have "validelems (w1 @ v @ w2 @ CHR '','' # m @ CHR '']'' # r) = Some r" for r
    using validelems_step [OF elements(1,2) _ elements(3), of "CHR '',''" "m @ CHR '']'' # r"] elements(3,5,6) by simp
  ultimately show ?case using elements(1) by (auto simp del: validelems.simps)
qed (simp_all add: isWs_def is_digit_def)

lemma grammar_Valid:
  assumes "ws w" and "jvalue v" and "ws w'"
  shows "Valid (w @ v @ w')"
proof -
  obtain c t where v: "v = c # t" "\<not> isWs c" using jvalue_head [OF assms(2)] by blast
  have "stops w'" using assms(3) stops_ws [of w' "[]"] by simp
  then have "validany (v @ w') = Some w'" using scanners_complete(1) [OF assms(2)] by blast
  moreover have "dropWhile isWs (w @ v @ w') = v @ w'" using assms(1) v by (simp add: dropWhile_isWs)
  ultimately show ?thesis using assms(3) v by (simp add: Valid_def validpayload_def ws_def del: validany.simps)
qed

text \<open>
  C21. \<open>Valid\<close> decides JSON: it accepts exactly the texts that are a value of the grammar between
  blanks.
\<close>

theorem valid_is_grammar: "Valid json \<longleftrightarrow> (\<exists>w v w'. json = w @ v @ w' \<and> ws w \<and> jvalue v \<and> ws w')"
proof
  assume "Valid json"
  then obtain r where "validany (dropWhile isWs json) = Some r" "list_all isWs r"
    by (auto simp: Valid_def validpayload_def simp del: validany.simps(2) split: list.splits option.splits if_splits)
  moreover obtain w where "json = w @ dropWhile isWs json" "ws w" using dropWhile_ws by blast
  ultimately obtain u v where "json = (w @ u) @ v @ r" "ws (w @ u)" "jvalue v" "ws r"
    using scanners_sound(1) [of "dropWhile isWs json" r] by (auto simp: ws_def)
  then show "\<exists>w v w'. json = w @ v @ w' \<and> ws w \<and> jvalue v \<and> ws w'" by blast
next
  assume "\<exists>w v w'. json = w @ v @ w' \<and> ws w \<and> jvalue v \<and> ws w'"
  then show "Valid json" using grammar_Valid by blast
qed

end
