(* ===== verification/GjsonResult.thy ===== *)
theory GjsonResult
  imports GjsonValid
begin

text \<open>
  The accessors of a \<open>Result\<close> of \<open>gjson.go\<close>: what a caller of \<open>Get\<close> or \<open>Parse\<close> can ask of
  it. A number is its literal: a \<open>float64\<close> of the code is \<open>strconv.ParseFloat\<close> of that text
  (0 for a text that is no number). What the code does with floats is the record \<open>floats\<close> of
  operations on literals: comparison, conversion, and the test for the safe integers.
\<close>

section \<open>Pieces of a text\<close>

text \<open>
  \<open>tonum\<close>, \<open>tolit\<close>, \<open>tostr\<close> and \<open>squash\<close> get the text from the first byte of the value
  on, which is never empty.
\<close>

definition numStop :: "char \<Rightarrow> bool" where
  "numStop c =
     (if ord c \<le> 45 then ord c \<le> 32 \<or> c = CHR '','' else 93 \<le> ord c \<and> c \<noteq> CHR ''e'' \<and> c \<noteq> CHR ''E'')"

definition tonum :: "string \<Rightarrow> string" where
  "tonum json = take (scanTo numStop json 1) json"

definition tolit :: "string \<Rightarrow> string" where
  "tolit json = take (scanTo (\<lambda>c. ord c < 97 \<or> 122 < ord c) json 1) json"

text \<open>The raw text with its quotes, and the string it stands for.\<close>

definition tostr :: "string \<Rightarrow> string \<times> string" where
  "tostr json =
     (let i = scanTo (\<lambda>c. c = CHR 0x22 \<or> c = CHR 0x5C) json 1 in
      if length json \<le> i then (json, tl json)
      else if json ! i = CHR 0x22 then (take (i + 1) json, slice json 1 i)
      else
        let k = quoteFrom json 0 (i + 1) in
        if k < length json then (take (k + 1) json, unescape (slice json 1 k))
        else (json, unescape (tl json)))"

definition squash :: "string \<Rightarrow> string" where
  "squash json =
     (if hd json = CHR 0x22 then
        (let k = quoteFrom json 0 1 in if k < length json then take (k + 1) json else json)
      else snd (squashLoop json 0 1 1))"

text \<open>The value a byte starts, with the text it takes; \<open>None\<close> for a byte that starts none.\<close>

definition jsonValue :: "jtype \<Rightarrow> string \<Rightarrow> string \<Rightarrow> Result" where
  "jsonValue t raw str = \<lparr>rType = t, rRaw = raw, rStr = str\<rparr>"

definition valueAt :: "string \<Rightarrow> Result option" where
  "valueAt json =
     (let c = hd json in
      if c = CHR ''{'' \<or> c = CHR ''['' then Some (jsonValue JJSON (squash json) '''')
      else if c = CHR ''n'' then Some (jsonValue JNull (tolit json) '''')
      else if c = CHR ''t'' then Some (jsonValue JTrue (tolit json) '''')
      else if c = CHR ''f'' then Some (jsonValue JFalse (tolit json) '''')
      else if c = CHR 0x22 then Some (jsonValue JString (fst (tostr json)) (snd (tostr json)))
      else if is_digit c \<or> c = CHR ''-'' then Some (jsonValue JNumber (tonum json) '''')
      else None)"

section \<open>Parse\<close>

text \<open>\<open>Parse\<close>: the first byte that is no blank decides; a container takes the rest of the text.\<close>

fun Parse :: "string \<Rightarrow> Result" where
  "Parse [] = emptyResult"
| "Parse (c # s) =
     (if c = CHR ''{'' \<or> c = CHR ''['' then jsonValue JJSON (c # s) ''''
      else if ord c \<le> 32 then Parse s
      else case valueAt (c # s) of None \<Rightarrow> emptyResult | Some v \<Rightarrow> v)"

definition ParseBytes :: "bytes \<Rightarrow> Result" where
  "ParseBytes json = Parse json"

definition IsObject :: "Result \<Rightarrow> bool" where
  "IsObject t = (rType t = JJSON \<and> take 1 (rRaw t) = ''{'')"

definition IsArray :: "Result \<Rightarrow> bool" where
  "IsArray t = (rType t = JJSON \<and> take 1 (rRaw t) = ''['')"

section \<open>Arrays and objects\<close>

text \<open>
  The head of \<open>arrayOrMap\<close>: the bracket that decides and the text after it; another byte that is
  no blank ends the search. \<open>want\<close> is the byte asked for, or none for any.
\<close>

fun openAt :: "char option \<Rightarrow> string \<Rightarrow> (char \<times> string) option" where
  "openAt want [] = map_option (\<lambda>c. (c, [])) want"
| "openAt want (c # s) =
     (if (case want of None \<Rightarrow> c = CHR ''{'' \<or> c = CHR ''['' | Some w \<Rightarrow> c = w) then Some (c, s)
      else if ord c > 32 then None
      else openAt want s)"

lemma scanTo_pos: "0 < i \<Longrightarrow> 0 < scanTo p json i"
  using scanTo_ge [of i p json] by simp

lemma take_pos_nonempty: "0 < n \<Longrightarrow> s \<noteq> [] \<Longrightarrow> take n s \<noteq> []"
  by simp

text \<open>The loop of \<open>arrayOrMap\<close>: the values up to the first closing bracket.\<close>

function items :: "string \<Rightarrow> Result list" where
  "items [] = []"
| "items (c # s) =
     (if ord c \<le> 32 then items s
      else if c = CHR '']'' \<or> c = CHR ''}'' then []
      else case valueAt (c # s) of
          None \<Rightarrow> items s
        | Some v \<Rightarrow> v # items (drop (length (rRaw v) - 1) s))"
  by pat_completeness auto
termination
  by (relation "measure length") auto

text \<open>Keys and values alternate; the first value of a key counts.\<close>

fun pairs :: "Result list \<Rightarrow> (string \<times> Result) list \<Rightarrow> (string \<times> Result) list" where
  "pairs (k # v # vs) acc =
     pairs vs (if rStr k \<in> fst ` set acc then acc else acc @ [(rStr k, v)])"
| "pairs vs acc = acc"

definition Array :: "Result \<Rightarrow> Result list" where
  "Array t =
     (if rType t = JNull then []
      else if \<not> IsArray t then [t]
      else case openAt (Some (CHR ''['')) (rRaw t) of None \<Rightarrow> [] | Some (c, s) \<Rightarrow> items s)"

definition Map :: "Result \<Rightarrow> (string \<times> Result) list" where
  "Map t =
     (if rType t \<noteq> JJSON then []
      else case openAt (Some (CHR ''{'')) (rRaw t) of None \<Rightarrow> [] | Some (c, s) \<Rightarrow> pairs (items s) [])"

text \<open>
  \<open>Value\<close>: what \<open>interface{}\<close> holds. A number stands for the float its literal denotes, an object
  for the map with these entries.
\<close>

datatype gvalue =
    GNil
  | GBool bool
  | GNum string
  | GStr string
  | GArr "gvalue list"
  | GObj "(string \<times> gvalue) list"

lemma squashLoop_le: "length (snd (squashLoop json s i d)) \<le> length json"
  by (induction json s i d rule: squashLoop.induct) (subst squashLoop.simps, auto simp: slice_def)

lemma squash_le: "length (squash json) \<le> length json"
  by (simp add: squash_def squashLoop_le Let_def)

lemma valueAt_le: "valueAt json = Some v \<Longrightarrow> length (rRaw v) \<le> length json"
  by (auto simp: valueAt_def Let_def jsonValue_def squash_le tolit_def tonum_def tostr_def split: if_splits)

lemma items_le: "v \<in> set (items s) \<Longrightarrow> length (rRaw v) \<le> length s"
proof (induction s rule: items.induct)
  case (2 c s)
  show ?case
  proof (cases "valueAt (c # s)")
    case None
    with 2 show ?thesis by (auto split: if_splits)
  next
    case (Some w)
    with 2 valueAt_le [OF Some] show ?thesis by (fastforce split: if_splits)
  qed
qed simp


lemma openAt_shorter: "openAt want s = Some (c, t) \<Longrightarrow> length t < length s \<or> want \<noteq> None"
  by (induction want s rule: openAt.induct) (auto split: if_splits)

lemma pairs_values: "kv \<in> set (pairs vs acc) \<Longrightarrow> snd kv \<in> set vs \<or> kv \<in> set acc"
  by (induction vs acc rule: pairs.induct) (auto split: if_splits)

definition contentOf :: "Result \<Rightarrow> (char \<times> string) option" where
  "contentOf t = (if rType t = JJSON then openAt None (rRaw t) else None)"

lemma contentOf_item: "contentOf t = Some (c, s) \<Longrightarrow> v \<in> set (items s) \<Longrightarrow> length (rRaw v) < length (rRaw t)"
  by (auto simp: contentOf_def dest!: openAt_shorter items_le split: if_splits)

function Value :: "Result \<Rightarrow> gvalue" where
  "Value t =
     (case rType t of
        JString \<Rightarrow> GStr (rStr t)
      | JNull \<Rightarrow> GNil
      | JFalse \<Rightarrow> GBool False
      | JTrue \<Rightarrow> GBool True
      | JNumber \<Rightarrow> GNum (rRaw t)
      | JJSON \<Rightarrow>
          (case contentOf t of
             None \<Rightarrow> GNil
           | Some (c, s) \<Rightarrow>
               if c = CHR ''{'' then GObj (map (\<lambda>kv. (fst kv, Value (snd kv))) (pairs (items s) []))
               else GArr (map Value (items s))))"
  by pat_completeness auto
termination
  by (relation "measure (\<lambda>t. length (rRaw t))")
     (auto dest: contentOf_item dest!: pairs_values)

declare Value.simps [simp del]

section \<open>Scalars\<close>

record floats =
  fNonzero :: "string \<Rightarrow> bool"
  fSafe :: "string \<Rightarrow> bool"
  fInt64 :: "string \<Rightarrow> 64 word"
  fUint64 :: "string \<Rightarrow> 64 word"
  fLess :: "string \<Rightarrow> string \<Rightarrow> bool"
  fEq :: "string \<Rightarrow> string \<Rightarrow> bool"
  fFormat :: "string \<Rightarrow> string"

text \<open>\<open>strconv.ParseBool\<close> of a lower-case text: true for these.\<close>

definition resultBool :: "floats \<Rightarrow> Result \<Rightarrow> bool" where
  "resultBool fl t =
     (case rType t of
        JTrue \<Rightarrow> True
      | JString \<Rightarrow> map lowerByte (rStr t) \<in> {''1'', ''t'', ''true''}
      | JNumber \<Rightarrow> fNonzero fl (rRaw t)
      | _ \<Rightarrow> False)"

text \<open>\<open>parseInt\<close>: an optional minus and digits, modulo \<open>2 ^ 64\<close>.\<close>

definition parseInt :: "string \<Rightarrow> 64 word option" where
  "parseInt s =
     (if take 1 s = ''-'' then map_option uminus (parseUint (tl s)) else parseUint s)"

text \<open>\<open>safeInt\<close>: a float beyond the integers it can hold exactly is refused.\<close>

definition safeInt :: "floats \<Rightarrow> string \<Rightarrow> 64 word option" where
  "safeInt fl lit = (if fSafe fl lit then Some (fInt64 fl lit) else None)"

definition orZero :: "64 word option \<Rightarrow> 64 word" where
  "orZero n = (case n of None \<Rightarrow> 0 | Some k \<Rightarrow> k)"

definition resultInt :: "floats \<Rightarrow> Result \<Rightarrow> 64 word" where
  "resultInt fl t =
     (case rType t of
        JTrue \<Rightarrow> 1
      | JString \<Rightarrow> orZero (parseInt (rStr t))
      | JNumber \<Rightarrow>
          (case safeInt fl (rRaw t) of
             Some i \<Rightarrow> i
           | None \<Rightarrow> (case parseInt (rRaw t) of Some i \<Rightarrow> i | None \<Rightarrow> fInt64 fl (rRaw t)))
      | _ \<Rightarrow> 0)"

definition resultUint :: "floats \<Rightarrow> Result \<Rightarrow> 64 word" where
  "resultUint fl t =
     (case rType t of
        JTrue \<Rightarrow> 1
      | JString \<Rightarrow> orZero (parseUint (rStr t))
      | JNumber \<Rightarrow>
          (case safeInt fl (rRaw t) of
             Some i \<Rightarrow>
               if 0 \<le> sint i then i
               else (case parseUint (rRaw t) of Some u \<Rightarrow> u | None \<Rightarrow> fUint64 fl (rRaw t))
           | None \<Rightarrow> (case parseUint (rRaw t) of Some u \<Rightarrow> u | None \<Rightarrow> fUint64 fl (rRaw t)))
      | _ \<Rightarrow> 0)"

text \<open>\<open>Float\<close>, as the text whose value it is.\<close>

definition resultFloat :: "Result \<Rightarrow> string" where
  "resultFloat t =
     (case rType t of JTrue \<Rightarrow> ''1'' | JString \<Rightarrow> rStr t | JNumber \<Rightarrow> rRaw t | _ \<Rightarrow> ''0'')"

section \<open>Order\<close>

definition typeRank :: "jtype \<Rightarrow> nat" where
  "typeRank t =
     (case t of JNull \<Rightarrow> 0 | JFalse \<Rightarrow> 1 | JNumber \<Rightarrow> 2 | JString \<Rightarrow> 3 | JTrue \<Rightarrow> 4 | JJSON \<Rightarrow> 5)"

text \<open>\<open>stringLessInsensitive\<close>, case by case as in the code; the sums stay below 256.\<close>

fun stringLessInsensitive :: "string \<Rightarrow> string \<Rightarrow> bool" where
  "stringLessInsensitive (a # as) (b # bs) =
     (if is_upper a then
        (if is_upper b then
           (if ord a < ord b then True else if ord a > ord b then False else stringLessInsensitive as bs)
         else
           (if ord a + 32 < ord b then True else if ord a + 32 > ord b then False
            else stringLessInsensitive as bs))
      else if is_upper b then
        (if ord a < ord b + 32 then True else if ord a > ord b + 32 then False
         else stringLessInsensitive as bs)
      else
        (if ord a < ord b then True else if ord a > ord b then False else stringLessInsensitive as bs))"
| "stringLessInsensitive [] bs = (bs \<noteq> [])"
| "stringLessInsensitive as [] = False"

definition Less :: "floats \<Rightarrow> Result \<Rightarrow> Result \<Rightarrow> bool \<Rightarrow> bool" where
  "Less fl t token caseSensitive =
     (if typeRank (rType t) < typeRank (rType token) then True
      else if typeRank (rType t) > typeRank (rType token) then False
      else if rType t = JString then
        (if caseSensitive then rStr t < rStr token else stringLessInsensitive (rStr t) (rStr token))
      else if rType t = JNumber then fLess fl (rRaw t) (rRaw token)
      else rRaw t < rRaw token)"

section \<open>Iteration\<close>

text \<open>
  \<open>parseAny\<close>: the next value from \<open>i\<close> on, returned when \<open>hit\<close> is set. A literal that is not
  asked for does not end the search.
\<close>

lemma parseLiteral_gt: "i < fst (parseLiteral json i)"
  using scanTo_ge [of "Suc i"] by (simp add: parseLiteral_def Let_def Suc_le_lessD)

lemma parseLiteral_next: "(m, val) = parseLiteral json i \<Longrightarrow> i < m"
  using parseLiteral_gt [of i json] by (metis fst_conv)

lemma parseNumber_gt: "i < fst (parseNumber json i)"
  using scanTo_ge [of "Suc i"] by (simp add: parseNumber_def Let_def Suc_le_lessD)

function parseAny :: "string \<Rightarrow> nat \<Rightarrow> bool \<Rightarrow> nat \<times> Result \<times> bool" where
  "parseAny json i hit =
     (if length json \<le> i then (i, emptyResult, False)
      else
        let c = json ! i in
        if c = CHR ''{'' \<or> c = CHR ''['' then
          (case parseSquash json i of (m, val) \<Rightarrow>
             (m, if hit then jsonValue JJSON val '''' else emptyResult, True))
        else if ord c \<le> 32 then parseAny json (Suc i) hit
        else if c = CHR 0x22 then
          (case parseString json (Suc i) of (m, val, vesc, ok) \<Rightarrow>
             if \<not> ok then (m, emptyResult, False)
             else
               let body = slice val 1 (length val - 1) in
               (m, if hit then jsonValue JString val (if vesc then unescape body else body) else emptyResult, True))
        else if isNumStart c then
          (case parseNumber json i of (m, val) \<Rightarrow>
             (m, if hit then jsonValue JNumber val '''' else emptyResult, True))
        else if isLitStart c then
          (case parseLiteral json i of (m, val) \<Rightarrow>
             if hit then
               (m, jsonValue (if c = CHR ''t'' then JTrue else if c = CHR ''f'' then JFalse else JNull) val '''', True)
             else parseAny json (Suc m) hit)
        else parseAny json (Suc i) hit)"
  by pat_completeness auto
termination parseAny
  by (relation "measure (\<lambda>(json, i, hit). length json - i)") (auto dest!: parseLiteral_next)

declare parseAny.simps [simp del]

lemma parseAny_gt: "parseAny json i hit = (j, res, ok) \<Longrightarrow> i \<le> j \<and> (ok \<or> Exists res \<longrightarrow> i < j)"
proof (induction json i hit rule: parseAny.induct)
  case (1 json i hit)
  consider (over) "length json \<le> i" | (box) "i < length json" "json ! i = CHR ''{'' \<or> json ! i = CHR ''[''"
    | (quoted) "i < length json" "json ! i = CHR 0x22"
    | (num) "i < length json" "isNumStart (json ! i)"
    | (lit) "i < length json" "isLitStart (json ! i)"
    | (skip) "i < length json" "parseAny json (Suc i) hit = (j, res, ok)"
        "\<not> (json ! i = CHR ''{'' \<or> json ! i = CHR ''['')" "json ! i \<noteq> CHR 0x22" "\<not> isNumStart (json ! i)" "\<not> isLitStart (json ! i)"
    using 1(4) by (subst (asm) parseAny.simps) (auto simp: Let_def split: if_splits)
  then show ?case
  proof cases
    case over
    with 1(4) show ?thesis by (auto simp: parseAny.simps [of json i] Exists_def emptyResult_def)
  next
    case box
    with 1(4) parseSquash_gt [of json i] show ?thesis
      by (auto simp: parseAny.simps [of json i] split: prod.splits)
  next
    case quoted
    then have "\<not> ord (json ! i) \<le> 32" by simp
    with 1(4) quoted parseString_ge [of json "Suc i"] show ?thesis
      by (auto simp: parseAny.simps [of json i] Let_def Exists_def emptyResult_def split: prod.splits if_splits
          dest!: Suc_le_lessD intro: less_imp_le)
  next
    case num
    then have "\<not> ord (json ! i) \<le> 32" "json ! i \<noteq> CHR 0x22" "json ! i \<noteq> CHR ''{'' \<and> json ! i \<noteq> CHR ''[''"
      by (auto simp: isNumStart_def is_digit_def)
    with 1(4) num parseNumber_gt [of i json] show ?thesis
      by (auto simp: parseAny.simps [of json i] Let_def split: prod.splits)
  next
    case lit
    then have c: "\<not> ord (json ! i) \<le> 32" "json ! i \<noteq> CHR 0x22" "json ! i \<noteq> CHR ''{'' \<and> json ! i \<noteq> CHR ''[''"
      "\<not> isNumStart (json ! i)"
      by (auto simp: isLitStart_def isNumStart_def is_digit_def)
    obtain m val where m: "parseLiteral json i = (m, val)" "i < m"
      using parseLiteral_gt [of i json] by (cases "parseLiteral json i") auto
    show ?thesis
    proof (cases hit)
      case True
      with 1(4) lit c m show ?thesis by (auto simp: parseAny.simps [of json i] Let_def)
    next
      case False
      with 1(4) lit c m have "parseAny json (Suc m) hit = (j, res, ok)"
        by (simp add: parseAny.simps [of json i] Let_def)
      with 1(2) [OF _ refl _ _ _ _ _ m(1) [symmetric]] False lit c m(2) show ?thesis by fastforce
    qed
  next
    case skip
    with 1(1) [OF _ refl] 1(3) [OF _ refl] show ?thesis
      by (cases "ord (json ! i) \<le> 32") fastforce+
  qed
qed

text \<open>
  \<open>ForEach\<close>: an iterator is a function of the state it changes, a key and a value; it also says
  whether to go on. \<open>eachFrom\<close> is the loop, for an object (\<open>keys\<close>) or an array.
\<close>

definition skipSeparators :: "string \<Rightarrow> nat \<Rightarrow> nat" where
  "skipSeparators json i = scanTo (\<lambda>c. \<not> (ord c \<le> 32 \<or> c = CHR '','' \<or> c = CHR '':'')) json i"

definition keyAt :: "string \<Rightarrow> nat \<Rightarrow> (nat \<times> Result) option" where
  "keyAt json i =
     (case parseString json (Suc i) of (m, raw, vesc, ok) \<Rightarrow>
        if \<not> ok then None
        else
          let body = slice raw 1 (length raw - 1) in
          Some (m, jsonValue JString raw (if vesc then unescape body else body)))"

definition noKey :: Result where
  "noKey = emptyResult"

function eachFrom :: "('s \<Rightarrow> Result \<Rightarrow> Result \<Rightarrow> 's \<times> bool) \<Rightarrow> bool \<Rightarrow> string \<Rightarrow> nat \<Rightarrow> 's \<Rightarrow> 's" where
  "eachFrom iterator keys json i st =
     (if length json \<le> i then st
      else if keys \<and> json ! i \<noteq> CHR 0x22 then eachFrom iterator keys json (Suc i) st
      else
        case (if keys then keyAt json i else Some (i, noKey)) of
          None \<Rightarrow> st
        | Some (m, key) \<Rightarrow>
            (case parseAny json (skipSeparators json m) True of (j, val, ok) \<Rightarrow>
               if \<not> ok then st
               else (case iterator st key val of (st', goOn) \<Rightarrow>
                 if goOn then eachFrom iterator keys json (Suc j) st' else st')))"
  by pat_completeness auto

lemma keyAt_gt: "keyAt json i = Some (m, key) \<Longrightarrow> i < m"
  using parseString_ge [of json "Suc i"]
  by (auto simp: keyAt_def Let_def Suc_le_eq split: prod.splits if_splits)

lemma parseAny_True_gt: "parseAny json i True = (j, val, True) \<Longrightarrow> i < j"
  using parseAny_gt by blast

lemma skipSeparators_ge: "i \<le> skipSeparators json i"
  by (simp add: skipSeparators_def scanTo_ge)

lemma eachFrom_progress:
  assumes "(if keys then keyAt json i else Some (i, noKey)) = Some (m, key)"
    and "parseAny json (skipSeparators json m) True = (j, val, True)"
  shows "i < j"
proof -
  have "i \<le> m" using assms(1) keyAt_gt [of json i m key] by (auto split: if_splits)
  with skipSeparators_ge [of m json] parseAny_True_gt [OF assms(2)] show ?thesis by simp
qed

termination eachFrom
proof (relation "measure (\<lambda>(iterator, keys, json, i, st). length json - i)", goal_cases)
  case (3 iterator keys json i st x m key j y val ok st' goOn)
  from 3(5-7) have "parseAny json (skipSeparators json m) True = (j, val, True)" by simp
  with 3(3,4) have "i < j" by (intro eachFrom_progress [of keys json i m key j val]) simp_all
  with 3 show ?case by simp
qed auto

text \<open>The bracket that says whether there are keys.\<close>

fun bracketAt :: "string \<Rightarrow> nat \<Rightarrow> (nat \<times> bool) option" where
  "bracketAt [] i = Some (i, False)"
| "bracketAt (c # s) i =
     (if c = CHR ''{'' then Some (Suc i, True)
      else if c = CHR ''['' then Some (Suc i, False)
      else if ord c > 32 then None
      else bracketAt s (Suc i))"

definition ForEach :: "('s \<Rightarrow> Result \<Rightarrow> Result \<Rightarrow> 's \<times> bool) \<Rightarrow> Result \<Rightarrow> 's \<Rightarrow> 's" where
  "ForEach iterator t st =
     (if \<not> Exists t then st
      else if rType t \<noteq> JJSON then fst (iterator st noKey t)
      else case bracketAt (rRaw t) 0 of
          None \<Rightarrow> st
        | Some (i, keys) \<Rightarrow> eachFrom iterator keys (rRaw t) i st)"

text \<open>\<open>ForEachLine\<close>: one value after the other, to the first that is not there.\<close>

function linesFrom :: "('s \<Rightarrow> Result \<Rightarrow> 's \<times> bool) \<Rightarrow> string \<Rightarrow> nat \<Rightarrow> 's \<Rightarrow> 's" where
  "linesFrom iterator json i st =
     (case parseAny json i True of (j, res, ok) \<Rightarrow>
        if \<not> Exists res then st
        else (case iterator st res of (st', goOn) \<Rightarrow>
          if \<not> goOn then st' else linesFrom iterator json j st'))"
  by pat_completeness auto

lemma parseAny_inside:
  assumes "parseAny json i hit = (j, res, ok)" and "Exists res"
  shows "i < length json"
proof (rule ccontr)
  assume "\<not> i < length json"
  then have "res = emptyResult" using assms(1) by (simp add: parseAny.simps)
  with assms(2) show False by (simp add: Exists_def emptyResult_def)
qed

termination linesFrom
proof (relation "measure (\<lambda>(iterator, json, i, st). length json - i)", goal_cases)
  case (2 iterator json i st j y res ok st' goOn)
  then have p: "parseAny json i True = (j, res, ok)" and e: "Exists res" by simp_all
  from parseAny_gt [OF p] parseAny_inside [OF p e] e show ?case by auto
qed simp

declare eachFrom.simps [simp del] linesFrom.simps [simp del]

definition ForEachLine :: "('s \<Rightarrow> Result \<Rightarrow> 's \<times> bool) \<Rightarrow> string \<Rightarrow> 's \<Rightarrow> 's" where
  "ForEachLine iterator json st = linesFrom iterator json 0 st"

section \<open>Names and strings\<close>

text \<open>The name after the last dot or pipe that no backslash precedes; the text is read from its end.\<close>

fun nameFrom :: "string \<Rightarrow> string \<Rightarrow> string" where
  "nameFrom [] name = name"
| "nameFrom (c # front) name =
     (if (c = CHR ''|'' \<or> c = CHR ''.'') \<and> \<not> (front \<noteq> [] \<and> hd front = CHR 0x5C) then name
      else nameFrom front (c # name))"

definition nameOfLast :: "string \<Rightarrow> string" where
  "nameOfLast path = nameFrom (rev path) []"

definition isSimpleName :: "string \<Rightarrow> bool" where
  "isSimpleName name = list_all (\<lambda>c. 32 \<le> ord c \<and> c \<notin> set ''[]{}()#|'') name"

definition needsMarshal :: "char \<Rightarrow> bool" where
  "needsMarshal c = (ord c < 32 \<or> c = CHR 0x5C \<or> c = CHR 0x22 \<or> 126 < ord c)"

definition appendJSONString :: "bytes \<Rightarrow> string \<Rightarrow> bytes" where
  "appendJSONString dst s =
     dst @ (if list_ex needsMarshal s then jsonString s else [CHR 0x22] @ s @ [CHR 0x22])"

definition GetMany :: "string \<Rightarrow> string list \<Rightarrow> Result list" where
  "GetMany json paths = map (Get matchLimit json) paths"

definition GetManyBytes :: "bytes \<Rightarrow> string list \<Rightarrow> Result list" where
  "GetManyBytes json paths = map (Get matchLimit json) paths"

end
