(* ===== verification/GjsonTree.thy ===== *)
theory GjsonTree
  imports GjsonResult "HOL-Library.AList"
begin

text \<open>
  What a valid text means, and that \<open>Value\<close> finds it: the scanners of \<open>gjson\<close>, which jump over
  strings and brackets without parsing them, agree with the grammar of \<open>GjsonValid\<close>.
\<close>

section \<open>Finding the end of a string\<close>

lemma hex_plain: "is_hex h \<Longrightarrow> h \<noteq> CHR 0x5C" "is_hex h \<Longrightarrow> h \<noteq> CHR 0x22"
  by (auto simp: is_hex_def is_digit_def)

lemma escapedAfter_plain: "CHR 0x5C \<notin> set x \<Longrightarrow> escapedAfter (x @ s) = escapedAfter s"
  by (induction x) (auto simp: escapedAfter_Cons)

lemma hex_four: "list_all is_hex [h1, h2, h3, h4] \<Longrightarrow> CHR 0x5C \<notin> set [h1, h2, h3, h4] \<and> CHR 0x22 \<notin> set [h1, h2, h3, h4]"
  unfolding list_all_iff by (blast dest: hex_plain)

lemma jchars_end: "jchars b \<Longrightarrow> \<not> escapedAfter b"
proof (induction rule: jchars.induct)
  case (unicode h1 h2 h3 h4 s)
  then show ?case using escapedAfter_plain [of "[h1, h2, h3, h4]" s] hex_four [of h1 h2 h3 h4]
    by (simp add: escapedAfter_pair)
qed (simp_all add: escapedAfter_pair escapedAfter_Cons)

text \<open>A text that ends in a quote after one without quotes has that text as a beginning.\<close>

lemma quote_beyond: "CHR 0x22 \<notin> set x \<Longrightarrow> x @ s = u @ CHR 0x22 # v \<Longrightarrow> \<exists>u'. u = x @ u' \<and> s = u' @ CHR 0x22 # v"
proof (induction x arbitrary: u)
  case (Cons a x)
  then obtain w where w: "u = a # w" by (cases u) auto
  with Cons.prems have "CHR 0x22 \<notin> set x" "x @ s = w @ CHR 0x22 # v" by simp_all
  from Cons.IH [OF this] w show ?case by auto
qed simp

lemma jchars_quote: "jchars b \<Longrightarrow> b = u @ CHR 0x22 # v \<Longrightarrow> escapedAfter u"
proof (induction arbitrary: u rule: jchars.induct)
  case (plain c s)
  then obtain u' where "u = [c] @ u'" "s = u' @ CHR 0x22 # v" using quote_beyond [of "[c]" s u v] by auto
  with plain show ?case by (simp add: escapedAfter_Cons)
next
  case (escape e s)
  show ?case
  proof (cases "e = CHR 0x22 \<and> u = [CHR 0x5C]")
    case False
    with escape(4) obtain u' where "u = CHR 0x5C # e # u'" "s = u' @ CHR 0x22 # v"
      by (cases u; cases "tl u") auto
    with escape(3) show ?thesis by (simp add: escapedAfter_pair)
  qed simp
next
  case (unicode h1 h2 h3 h4 s)
  note hex = hex_four [OF unicode(1)]
  have "(CHR 0x5C # CHR ''u'' # [h1, h2, h3, h4]) @ s = u @ CHR 0x22 # v" using unicode(4) by simp
  from quote_beyond [OF _ this] hex obtain u'
    where "u = (CHR 0x5C # CHR ''u'' # [h1, h2, h3, h4]) @ u'" "s = u' @ CHR 0x22 # v" by auto
  with unicode(3) hex escapedAfter_plain [of "[h1, h2, h3, h4]" u'] show ?case
    by (simp add: escapedAfter_pair)
qed simp

lemma slice_Suc: "a \<le> b \<Longrightarrow> b < length s \<Longrightarrow> slice s a (Suc b) = slice s a b @ [s ! b]"
  by (simp add: slice_def Suc_diff_le take_Suc_conv_app_nth)

lemma countBack_slice:
  "j < length json \<Longrightarrow> countBack json lo j = length (takeWhile (\<lambda>c. c = CHR 0x5C) (rev (slice json (Suc lo) (Suc j))))"
proof (induction j)
  case (Suc j)
  then show ?case
    by (cases "lo < Suc j") (simp_all add: slice_Suc [of "Suc lo" "Suc j"], simp add: slice_def)
qed (simp add: slice_def)

lemma escapedQuote_iff:
  assumes "i < k" and "k < length json" and "json ! i \<noteq> CHR 0x5C"
  shows "escapedQuote json i k = escapedAfter (slice json (Suc i) k)"
proof (cases "k = Suc i")
  case True
  then show ?thesis using assms by (simp add: escapedQuote_def slice_def)
next
  case False
  define j where "j = k - 2"
  with False assms(1) have k: "k = Suc (Suc j)" "i \<le> j" by simp_all
  show ?thesis
    using assms k(2) countBack_slice [of j json i] slice_Suc [of "Suc i" "Suc j" json]
    by (simp add: k(1) escapedQuote_def escapedAfter_def)
qed

lemma find_index_append:
  "(\<And>x. x \<in> set xs \<Longrightarrow> \<not> P x) \<Longrightarrow> P y \<Longrightarrow> find_index P (xs @ y # ys) = Some (length xs)"
  by (induction xs) simp_all

lemma find_index_upt:
  assumes "p \<le> e" and "e < n" and "P e" and "\<And>k. p \<le> k \<Longrightarrow> k < e \<Longrightarrow> \<not> P k"
  shows "find_index P [p..<n] = Some (e - p)"
proof -
  have "[p..<n] = [p..<e] @ e # [Suc e..<n]"
    using assms(1,2) upt_add_eq_append [of p e "n - e"] upt_conv_Cons [of e n] by simp
  then show ?thesis using find_index_append [of "[p..<e]" P e] assms(3,4) by simp
qed

text \<open>The closing quote of a string of the grammar, wherever in the string the search begins.\<close>

lemma quoteFrom_chars:
  assumes "drop (Suc i) json = b @ CHR 0x22 # rest" and "jchars b" and "json ! i = CHR 0x22"
    and "i < p" and "p \<le> Suc i + length b"
  shows "quoteFrom json i p = Suc i + length b"
proof -
  let ?e = "Suc i + length b"
  have len: "?e < length json"
    using arg_cong [OF assms(1), of length] by simp
  have at: "json ! (Suc i + m) = (b @ CHR 0x22 # rest) ! m" for m
    using nth_drop [of "Suc i" json m] len unfolding assms(1) by simp
  have slice: "slice json (Suc i) (Suc i + m) = take m b" if "m \<le> length b" for m
    using assms(1) that by (simp add: slice_def)
  have "json ! ?e = CHR 0x22" using at [of "length b"] by simp
  moreover have "\<not> escapedQuote json i ?e"
    using escapedQuote_iff [of i ?e json] len assms(3) slice [of "length b"] jchars_end [OF assms(2)] by simp
  moreover have "escapedQuote json i k" if "p \<le> k" "k < ?e" "json ! k = CHR 0x22" for k
  proof -
    define m where "m = k - Suc i"
    with that assms(4) have m: "k = Suc i + m" "m < length b" by simp_all
    then have "b ! m = CHR 0x22" using at [of m] that(3) by (simp add: nth_append)
    then have "b = take m b @ CHR 0x22 # drop (Suc m) b" using m(2) by (metis id_take_nth_drop)
    then have "escapedAfter (take m b)" by (rule jchars_quote [OF assms(2)])
    moreover have "slice json (Suc i) k = take m b" using slice [of m] m by simp
    ultimately show ?thesis
      using escapedQuote_iff [of i k json] that m len assms(3) by simp
  qed
  ultimately have "find_index (\<lambda>k. json ! k = CHR 0x22 \<and> \<not> escapedQuote json i k) [p..<length json] = Some (?e - p)"
    using assms(5) len by (intro find_index_upt) auto
  then show ?thesis using assms(5) by (simp add: quoteFrom_def Let_def)
qed

section \<open>Jumping over a value\<close>

text \<open>The loop of \<open>squash\<close> goes over the text \<open>x\<close> and is as deep in brackets as before.\<close>

definition passes :: "string \<Rightarrow> bool" where
  "passes x \<longleftrightarrow> (\<forall>json s i d rest. drop i json = x @ rest \<longrightarrow> 1 \<le> d \<longrightarrow>
     squashLoop json s i d = squashLoop json s (i + length x) d)"

lemma passesI:
  "(\<And>json s i d rest. drop i json = x @ rest \<Longrightarrow> 1 \<le> d \<Longrightarrow>
      squashLoop json s i d = squashLoop json s (i + length x) d) \<Longrightarrow> passes x"
  by (auto simp: passes_def)

lemma passesD:
  "passes x \<Longrightarrow> drop i json = x @ rest \<Longrightarrow> 1 \<le> d \<Longrightarrow> squashLoop json s i d = squashLoop json s (i + length x) d"
  unfolding passes_def by blast

lemma drop_add: "drop i json = x @ rest \<Longrightarrow> drop (i + length x) json = rest"
  by (metis add.commute append_eq_conv_conj drop_drop)

lemma passes_Nil [simp]: "passes []"
  by (simp add: passes_def)

lemma passes_append: "passes x \<Longrightarrow> passes y \<Longrightarrow> passes (x @ y)"
proof (rule passesI)
  fix json s i rest and d :: nat
  assume x: "passes x" and y: "passes y" and j: "drop i json = (x @ y) @ rest" and d: "1 \<le> d"
  have "squashLoop json s i d = squashLoop json s (i + length x) d"
    using passesD [OF x, of i json "y @ rest"] j d by simp
  also have "\<dots> = squashLoop json s (i + length x + length y) d"
    using passesD [OF y, of "i + length x" json rest] drop_add [of i json x "y @ rest"] j d by simp
  finally show "squashLoop json s i d = squashLoop json s (i + length (x @ y)) d" by (simp add: add.assoc)
qed

definition bracketOrQuote :: "char \<Rightarrow> bool" where
  "bracketOrQuote c = (c \<in> {CHR 0x22, CHR ''{'', CHR ''['', CHR ''('', CHR ''}'', CHR '']'', CHR '')''})"

lemma drop_nth: "drop i json = c # rest \<Longrightarrow> i < length json \<and> json ! i = c"
  by (metis drop_eq_Nil leI list.distinct(1) hd_drop_conv_nth list.sel(1))

lemma passes_byte: "\<not> bracketOrQuote c \<Longrightarrow> passes [c]"
proof (rule passesI)
  fix json s i rest and d :: nat
  assume "\<not> bracketOrQuote c" and "drop i json = [c] @ rest"
  then show "squashLoop json s i d = squashLoop json s (i + length [c]) d"
    using drop_nth [of i json c rest] by (subst squashLoop.simps) (simp add: bracketOrQuote_def)
qed

lemma passes_plain: "list_all (\<lambda>c. \<not> bracketOrQuote c) x \<Longrightarrow> passes x"
proof (induction x)
  case (Cons c x)
  then show ?case using passes_append [OF passes_byte [of c]] by simp
qed simp

lemma passes_string: "jchars b \<Longrightarrow> passes (CHR 0x22 # b @ [CHR 0x22])"
proof (rule passesI)
  fix json s i rest and d :: nat
  assume b: "jchars b" and j: "drop i json = (CHR 0x22 # b @ [CHR 0x22]) @ rest"
  then have "drop (Suc i) json = b @ CHR 0x22 # rest"
    using drop_add [of i json "[CHR 0x22]" "b @ CHR 0x22 # rest"] by simp
  moreover have "i < length json" "json ! i = CHR 0x22" using drop_nth [of i json] j by simp_all
  ultimately show "squashLoop json s i d = squashLoop json s (i + length (CHR 0x22 # b @ [CHR 0x22])) d"
    using quoteFrom_chars [of i json b rest "Suc i"] b by (subst squashLoop.simps) simp
qed

lemma passes_box:
  assumes "passes x" and "c = CHR ''{'' \<and> e = CHR ''}'' \<or> c = CHR ''['' \<and> e = CHR '']''"
  shows "passes (c # x @ [e])"
proof (rule passesI)
  fix json s i rest and d :: nat
  assume j: "drop i json = (c # x @ [e]) @ rest" and d: "1 \<le> d"
  have i: "i < length json" "json ! i = c" using drop_nth [of i json c] j by simp_all
  have rest: "drop (Suc i) json = x @ e # rest" using drop_add [of i json "[c]" "x @ e # rest"] j by simp
  have k: "i + Suc (length x) < length json" "json ! (i + Suc (length x)) = e"
    using drop_nth [of "Suc i + length x" json e] drop_add [OF rest] by simp_all
  have "squashLoop json s i d = squashLoop json s (Suc i) (Suc d)"
    using i assms(2) by (subst squashLoop.simps) auto
  also have "\<dots> = squashLoop json s (Suc i + length x) (Suc d)"
    by (rule passesD [OF assms(1) rest]) simp
  also have "\<dots> = squashLoop json s (Suc (Suc i + length x)) d"
    using k assms(2) d by (subst squashLoop.simps) auto
  finally show "squashLoop json s i d = squashLoop json s (i + length (c # x @ [e])) d" by simp
qed

lemma squash_box:
  assumes "passes x" and "c = CHR ''{'' \<and> e = CHR ''}'' \<or> c = CHR ''['' \<and> e = CHR '']''"
  shows "squash (c # x @ e # rest) = c # x @ [e]"
proof -
  let ?json = "c # x @ e # rest"
  have "squashLoop ?json 0 1 1 = squashLoop ?json 0 (1 + length x) 1"
    by (rule passesD [OF assms(1)]) simp_all
  also have "\<dots> = (Suc (1 + length x), slice ?json 0 (Suc (1 + length x)))"
    using assms(2) by (subst squashLoop.simps) (auto simp: nth_append)
  finally show ?thesis using assms(2) by (auto simp: squash_def slice_def)
qed

lemma ws_plain: "ws w \<Longrightarrow> list_all (\<lambda>c. \<not> bracketOrQuote c) w"
  unfolding ws_def by (erule list.pred_mono_strong) (auto simp: isWs_def bracketOrQuote_def)

definition inNumber :: "char \<Rightarrow> bool" where
  "inNumber c = (\<not> bracketOrQuote c \<and> \<not> numStop c)"

lemma inNumber_byte [simp]:
  "inNumber (CHR ''-'')" "inNumber (CHR ''+'')" "inNumber (CHR ''.'')" "inNumber (CHR ''e'')" "inNumber (CHR ''E'')"
  "inNumber (CHR ''0'')"
  by (simp_all add: inNumber_def bracketOrQuote_def numStop_def)

lemma digits_num: "list_all is_digit ds \<Longrightarrow> list_all inNumber ds"
  by (erule list.pred_mono_strong) (auto simp: is_digit_def inNumber_def bracketOrQuote_def numStop_def)

lemma jnumber_plain:
  assumes "jnumber s"
  shows "list_all inNumber s"
proof -
  from assms obtain sign i f e where s: "s = sign @ i @ f @ e" "sign \<in> {[], ''-''}" "jint i" "jfrac f" "jexp e"
    by (auto simp: jnumber_def)
  have "list_all inNumber sign" using s(2) by auto
  moreover have "list_all inNumber i" using s(3) digits_num [of i] by (auto simp: jint_def digits_def)
  moreover have "list_all inNumber f" using s(4) digits_num by (auto simp: jfrac_def digits_def)
  moreover have "list_all inNumber e" using s(5) digits_num by (auto simp: jexp_def digits_def)
  ultimately show ?thesis by (simp add: s(1))
qed

lemma inNumber_plain: "list_all inNumber s \<Longrightarrow> list_all (\<lambda>c. \<not> bracketOrQuote c) s"
  by (auto simp: list_all_iff inNumber_def)

lemma passes_plain_then: "list_all (\<lambda>c. \<not> bracketOrQuote c) x \<Longrightarrow> passes y \<Longrightarrow> passes (x @ y)"
  by (blast intro: passes_append passes_plain)

lemma passes_byte_then: "\<not> bracketOrQuote c \<Longrightarrow> passes y \<Longrightarrow> passes (c # y)"
  using passes_append [OF passes_byte [of c], of y] by simp

lemma passes_string_then: "jchars b \<Longrightarrow> passes y \<Longrightarrow> passes (CHR 0x22 # b @ CHR 0x22 # y)"
  using passes_append [OF passes_string [of b], of y] by simp

lemma colon_comma_plain [simp]: "\<not> bracketOrQuote (CHR '':'')" "\<not> bracketOrQuote (CHR '','')"
  by (simp_all add: bracketOrQuote_def)

text \<open>\<open>squash\<close> goes over every value of the grammar, and over what stands between brackets.\<close>

lemma grammar_passes:
  shows "jvalue v \<Longrightarrow> passes v" and "jmembers m \<Longrightarrow> passes m" and "jelements l \<Longrightarrow> passes l"
proof (induction rule: jvalue_jmembers_jelements.inducts)
  case (num s)
  then show ?case by (blast intro: passes_plain inNumber_plain jnumber_plain)
next
  case (str s)
  then show ?case by (rule passes_string)
next
  case (emptyObject w)
  then show ?case using passes_box [OF passes_plain [OF ws_plain [of w]], of "CHR ''{''" "CHR ''}''"] by simp
next
  case (object w m)
  then show ?case
    using passes_box [OF passes_plain_then [OF ws_plain [of w] object(3)], of "CHR ''{''" "CHR ''}''"] by simp
next
  case (emptyArray w)
  then show ?case using passes_box [OF passes_plain [OF ws_plain [of w]], of "CHR ''[''" "CHR '']''"] by simp
next
  case (array m)
  then show ?case using passes_box [OF array(2), of "CHR ''[''" "CHR '']''"] by simp
next
  case (member k w1 w2 v w3)
  then show ?case
    by (simp add: passes_string_then passes_plain_then passes_byte_then passes_append passes_plain ws_plain)
next
  case (members k w1 w2 v w3 w4 m)
  then show ?case
    by (simp add: passes_string_then passes_plain_then passes_byte_then passes_append passes_plain ws_plain)
next
  case (element w1 v w2)
  then show ?case by (simp add: passes_plain_then passes_append passes_plain ws_plain)
next
  case (elements w1 v w2 m)
  then show ?case by (simp add: passes_plain_then passes_byte_then passes_append ws_plain)
qed (auto intro!: passes_plain simp: bracketOrQuote_def)

section \<open>What a text means\<close>

text \<open>
  The strings of RFC 8259: what stands between the quotes, and the bytes it says. A \<open>\u\<close>
  escape is a rune of its own unless it is a surrogate, and surrogates come in pairs.
\<close>

definition escapeTable :: "(char \<times> char) list" where
  "escapeTable =
     [(CHR 0x22, CHR 0x22), (CHR 0x5C, CHR 0x5C), (CHR ''/'', CHR ''/''), (CHR ''b'', CHR 0x08), (CHR ''f'', CHR 0x0C),
      (CHR ''n'', CHR 0x0A), (CHR ''r'', CHR 0x0D), (CHR ''t'', CHR 0x09)]"

definition hex4 :: "string \<Rightarrow> nat" where
  "hex4 hs = (((hex_val (hs ! 0) * 16 + hex_val (hs ! 1)) * 16) + hex_val (hs ! 2)) * 16 + hex_val (hs ! 3)"

definition isHex4 :: "string \<Rightarrow> bool" where
  "isHex4 hs = (length hs = 4 \<and> list_all is_hex hs)"

inductive says :: "string \<Rightarrow> string \<Rightarrow> bool" where
  nil: "says [] []"
| plain: "32 \<le> ord c \<Longrightarrow> c \<noteq> CHR 0x22 \<Longrightarrow> c \<noteq> CHR 0x5C \<Longrightarrow> says b s \<Longrightarrow> says (c # b) (c # s)"
| escape: "(e, d) \<in> set escapeTable \<Longrightarrow> says b s \<Longrightarrow> says (CHR 0x5C # e # b) (d # s)"
| rune: "isHex4 hs \<Longrightarrow> \<not> isSurrogate (hex4 hs) \<Longrightarrow> says b s \<Longrightarrow>
    says (CHR 0x5C # CHR ''u'' # hs @ b) (utf8_encode (hex4 hs) @ s)"
| surrogates: "isHex4 hs \<Longrightarrow> 0xD800 \<le> hex4 hs \<Longrightarrow> hex4 hs < 0xDC00 \<Longrightarrow>
    isHex4 ls \<Longrightarrow> 0xDC00 \<le> hex4 ls \<Longrightarrow> hex4 ls < 0xE000 \<Longrightarrow> says b s \<Longrightarrow>
    says (CHR 0x5C # CHR ''u'' # hs @ CHR 0x5C # CHR ''u'' # ls @ b)
      (utf8_encode (0x10000 + (hex4 hs - 0xD800) * 0x400 + (hex4 ls - 0xDC00)) @ s)"

lemma isHex4_cases: "isHex4 hs \<Longrightarrow> (\<And>a b c d. hs = [a, b, c, d] \<Longrightarrow> list_all is_hex [a, b, c, d] \<Longrightarrow> P) \<Longrightarrow> P"
  by (auto simp: isHex4_def length_Suc_conv eval_nat_numeral)

lemma runeit_hex4: "isHex4 hs \<Longrightarrow> runeit (hs @ s) = hex4 hs"
  by (erule isHex4_cases) (simp add: runeit_def hex4_def)

lemma escapeTable_simple: "(e, d) \<in> set escapeTable \<Longrightarrow> simpleEscape e = Some d \<and> e \<in> set simpleEscapes"
  by (auto simp: escapeTable_def simpleEscape_def simpleEscapes_def)

lemma unescape_pair:
  assumes "isHex4 hs" and "isHex4 ls" and "isSurrogate (hex4 hs)"
  shows "unicodeEscape (hs @ CHR 0x5C # CHR ''u'' # ls @ b) = (decodeSurrogates (hex4 hs) (hex4 ls), b)"
proof -
  have "length hs = 4" "length ls = 4" using assms(1,2) by (simp_all add: isHex4_def)
  then show ?thesis using assms
    by (simp add: unicodeEscape_def runeit_hex4 nth_append eval_nat_numeral)
qed

lemma unescape_rune:
  assumes "isHex4 hs" and "\<not> isSurrogate (hex4 hs)"
  shows "unicodeEscape (hs @ b) = (hex4 hs, b)"
  using assms by (simp add: unicodeEscape_def runeit_hex4 isHex4_def Let_def)

lemma simpleEscape_u: "simpleEscape (CHR ''u'') = None"
  by (simp add: simpleEscape_def)

lemma says_unescape: "says b s \<Longrightarrow> unescape b = s"
proof (induction rule: says.induct)
  case (escape e d b s)
  then show ?case using escapeTable_simple [of e d] by simp
next
  case (rune hs b s)
  then have "4 \<le> length (hs @ b)" by (simp add: isHex4_def)
  with rune show ?case by (simp add: simpleEscape_u unescape_rune)
next
  case (surrogates hs ls b s)
  then have "4 \<le> length (hs @ CHR 0x5C # CHR ''u'' # ls @ b)" "isSurrogate (hex4 hs)"
    by (simp_all add: isHex4_def isSurrogate_def)
  with surrogates show ?case
    by (simp add: simpleEscape_u unescape_pair decodeSurrogates_def add.commute)
qed simp_all

lemma says_jchars: "says b s \<Longrightarrow> jchars b"
proof (induction rule: says.induct)
  case (rune hs b s)
  then show ?case by (elim isHex4_cases) (simp add: jchars.unicode)
next
  case (surrogates hs ls b s)
  then show ?case by (elim isHex4_cases) (simp add: jchars.unicode)
qed (auto intro: jchars.intros dest: escapeTable_simple)

text \<open>
  The values of RFC 8259 with what they mean, read off the grammar: all members in their order, a
  number as its literal.
\<close>

inductive means :: "string \<Rightarrow> gvalue \<Rightarrow> bool"
  and meansMembers :: "string \<Rightarrow> (string \<times> gvalue) list \<Rightarrow> bool"
  and meansElements :: "string \<Rightarrow> gvalue list \<Rightarrow> bool" where
  mtrue: "means ''true'' (GBool True)"
| mfalse: "means ''false'' (GBool False)"
| mnull: "means ''null'' GNil"
| mnum: "jnumber s \<Longrightarrow> means s (GNum s)"
| mstr: "says b s \<Longrightarrow> means (CHR 0x22 # b @ [CHR 0x22]) (GStr s)"
| memptyObject: "ws w \<Longrightarrow> means (''{'' @ w @ ''}'') (GObj [])"
| mobject: "ws w \<Longrightarrow> meansMembers m kvs \<Longrightarrow> means (''{'' @ w @ m @ ''}'') (GObj kvs)"
| memptyArray: "ws w \<Longrightarrow> means (''['' @ w @ '']'') (GArr [])"
| marray: "meansElements l xs \<Longrightarrow> means (''['' @ l @ '']'') (GArr xs)"
| mmember: "says b k \<Longrightarrow> ws w1 \<Longrightarrow> ws w2 \<Longrightarrow> means v x \<Longrightarrow> ws w3 \<Longrightarrow>
    meansMembers (CHR 0x22 # b @ CHR 0x22 # w1 @ '':'' @ w2 @ v @ w3) [(k, x)]"
| mmembers: "says b k \<Longrightarrow> ws w1 \<Longrightarrow> ws w2 \<Longrightarrow> means v x \<Longrightarrow> ws w3 \<Longrightarrow> ws w4 \<Longrightarrow> meansMembers m kvs \<Longrightarrow>
    meansMembers (CHR 0x22 # b @ CHR 0x22 # w1 @ '':'' @ w2 @ v @ w3 @ '','' @ w4 @ m) ((k, x) # kvs)"
| melement: "ws w1 \<Longrightarrow> means v x \<Longrightarrow> ws w2 \<Longrightarrow> meansElements (w1 @ v @ w2) [x]"
| melements: "ws w1 \<Longrightarrow> means v x \<Longrightarrow> ws w2 \<Longrightarrow> meansElements l xs \<Longrightarrow>
    meansElements (w1 @ v @ w2 @ '','' @ l) (x # xs)"

text \<open>A Go map keeps the first member of each name.\<close>

primrec firsts :: "gvalue \<Rightarrow> gvalue" where
  "firsts GNil = GNil"
| "firsts (GBool b) = GBool b"
| "firsts (GNum s) = GNum s"
| "firsts (GStr s) = GStr s"
| "firsts (GArr xs) = GArr (map firsts xs)"
| "firsts (GObj kvs) = GObj (AList.clearjunk (map (map_prod id firsts) kvs))"

lemma means_grammar:
  shows "means v x \<Longrightarrow> jvalue v" and "meansMembers m kvs \<Longrightarrow> jmembers m" and "meansElements l xs \<Longrightarrow> jelements l"
  by (induction rule: means_meansMembers_meansElements.inducts)
    (blast intro: jvalue_jmembers_jelements.intros says_jchars)+

section \<open>The scanners on the grammar\<close>

lemma scanTo_step: "i < length json \<Longrightarrow> scanTo p json i = (if p (json ! i) then i else scanTo p json (Suc i))"
  by (simp add: scanTo.simps [of p json i])

lemma scanTo_over:
  "drop i json = x @ rest \<Longrightarrow> list_all (\<lambda>c. \<not> p c) x \<Longrightarrow> rest = [] \<or> p (hd rest) \<Longrightarrow> scanTo p json i = i + length x"
proof (induction x arbitrary: i)
  case Nil
  then show ?case using drop_nth [of i json "hd rest" "tl rest"] by (cases rest) (auto simp: scanTo.simps [of p json i])
next
  case (Cons c x)
  have "i < length json" "json ! i = c" using drop_nth [of i json c] Cons.prems(1) by simp_all
  moreover have "drop (Suc i) json = x @ rest" using drop_add [of i json "[c]" "x @ rest"] Cons.prems(1) by simp
  ultimately show ?case using Cons.IH [of "Suc i"] Cons.prems(2,3) by (simp add: scanTo_step)
qed

lemma take_scan:
  assumes "list_all (\<lambda>c. \<not> p c) x" and "rest = [] \<or> p (hd rest)"
  shows "take (scanTo p (c # x @ rest) 1) (c # x @ rest) = c # x"
  using scanTo_over [of 1 "c # x @ rest" x rest p] assms by simp

lemma stops_byte: "isWs c \<or> c \<in> {CHR '','', CHR '']'', CHR ''}''} \<Longrightarrow> numStop c \<and> (ord c < 97 \<or> 122 < ord c)"
  by (auto simp: isWs_def numStop_def)

lemma stops_numStop: "stops r \<Longrightarrow> r = [] \<or> numStop (hd r)"
  using stops_byte [of "hd r"] unfolding stops_def by blast

lemma stops_letter: "stops r \<Longrightarrow> r = [] \<or> ord (hd r) < 97 \<or> 122 < ord (hd r)"
  using stops_byte [of "hd r"] unfolding stops_def by blast

lemma tonum_number:
  assumes "jnumber s" and "stops r"
  shows "tonum (s @ r) = s"
proof -
  obtain c t where s: "s = c # t" using jnumber_head [OF assms(1)] by blast
  with jnumber_plain [OF assms(1)] have "list_all (\<lambda>c. \<not> numStop c) t" by (auto simp: list_all_iff inNumber_def)
  then show ?thesis using take_scan [of numStop t r c] stops_numStop [OF assms(2)] s by (simp add: tonum_def)
qed

lemma tolit_literal:
  assumes "list_all (\<lambda>c. 97 \<le> ord c \<and> ord c \<le> 122) s" and "stops r"
  shows "tolit (c # s @ r) = c # s"
proof -
  have "list_all (\<lambda>c. \<not> (ord c < 97 \<or> 122 < ord c)) s" using assms(1) by (simp add: not_less)
  from take_scan [OF this, of r c] stops_letter [OF assms(2)] show ?thesis by (simp add: tolit_def)
qed

lemma jchars_noescape: "jchars b \<Longrightarrow> CHR 0x5C \<notin> set b \<Longrightarrow> list_all (\<lambda>c. 32 \<le> ord c \<and> c \<noteq> CHR 0x5C \<and> c \<noteq> CHR 0x22) b"
  by (induction rule: jchars.induct) simp_all

lemma jchars_first_escape:
  assumes "jchars b" and "b = x @ d # y" and "CHR 0x5C \<notin> set x" and "d = CHR 0x22 \<or> d = CHR 0x5C"
  shows "d = CHR 0x5C"
  using assms jchars_quote [of b x y] escapedAfter_plain [of x "[]"] by (auto simp: escapedAfter_def)

lemma split_first: "\<exists>x y. b = x @ y \<and> list_all (\<lambda>c. \<not> p c) x \<and> (y = [] \<or> p (hd y))"
proof (induction b)
  case (Cons c b)
  then obtain x y where "b = x @ y \<and> list_all (\<lambda>c. \<not> p c) x \<and> (y = [] \<or> p (hd y))" by blast
  then show ?case by (cases "p c") (auto intro: exI [of _ "[]"] exI [of _ "c # x"])
qed simp

lemma tostr_string:
  assumes "jchars b"
  shows "tostr (CHR 0x22 # b @ CHR 0x22 # r) = (CHR 0x22 # b @ [CHR 0x22], unescape b)"
proof -
  let ?json = "CHR 0x22 # b @ CHR 0x22 # r"
  define p where "p = (\<lambda>c. c = CHR 0x22 \<or> c = CHR 0x5C)"
  obtain x y where b: "b = x @ y" and x: "list_all (\<lambda>c. \<not> p c) x" and y: "y = [] \<or> p (hd y)"
    using split_first [of b p] by blast
  have "y @ CHR 0x22 # r = [] \<or> p (hd (y @ CHR 0x22 # r))" using y by (cases y) (simp_all add: p_def)
  then have i: "scanTo p ?json 1 = 1 + length x"
    using scanTo_over [of 1 ?json x "y @ CHR 0x22 # r" p] x b by simp
  have nx: "CHR 0x5C \<notin> set x" using x by (auto simp: list_all_iff p_def)
  show ?thesis
  proof (cases y)
    case Nil
    with nx b have "CHR 0x5C \<notin> set b" by simp
    from jchars_noescape [OF assms this] have "list_all (\<lambda>c. 32 \<le> ord c \<and> c \<noteq> CHR 0x5C) b"
      by (rule list.pred_mono_strong) simp
    then show ?thesis using i Nil b
      by (simp add: tostr_def p_def [symmetric] Let_def slice_def unescape_plain nth_append)
  next
    case (Cons d z)
    then have d: "d = CHR 0x5C" using jchars_first_escape [OF assms _ nx, of d z] y b by (simp add: p_def)
    have "quoteFrom ?json 0 (2 + length x) = 1 + length b"
      using quoteFrom_chars [of 0 ?json b r "2 + length x"] assms b Cons by simp
    moreover have "?json ! (1 + length x) = d" using b Cons by (simp add: nth_append)
    ultimately show ?thesis using i d b Cons
      by (simp add: tostr_def p_def [symmetric] Let_def slice_def)
  qed
qed

section \<open>The values found\<close>

lemma isWs_le: "isWs c \<Longrightarrow> ord c \<le> 32"
  by (auto simp: isWs_def)

lemma items_ws: "ws w \<Longrightarrow> items (w @ s) = items s"
  by (induction w) (simp_all add: isWs_le)

definition startsValue :: "char \<Rightarrow> bool" where
  "startsValue c = (32 < ord c \<and> c \<noteq> CHR '']'' \<and> c \<noteq> CHR ''}'')"

lemma digit_starts: "is_digit c \<Longrightarrow> startsValue c"
  by (auto simp: is_digit_def startsValue_def)

lemma startsValue_byte [simp]:
  "startsValue (CHR ''-'')" "startsValue (CHR ''{'')" "startsValue (CHR ''['')" "startsValue (CHR 0x22)"
  "startsValue (CHR ''t'')" "startsValue (CHR ''f'')" "startsValue (CHR ''n'')"
  by (simp_all add: startsValue_def)

lemma jvalue_start: "jvalue v \<Longrightarrow> \<exists>c s. v = c # s \<and> startsValue c"
proof (erule jvalue.cases)
  fix s
  assume v: "v = s" and "jnumber s"
  then obtain c t where s: "s = c # t" and c: "c = CHR ''-'' \<or> is_digit c" using jnumber_head by blast
  from c have "startsValue c" by (elim disjE) (simp_all add: digit_starts)
  with v s show ?thesis by simp
qed simp_all

lemma items_value:
  assumes "valueAt (v @ r) = Some t" and "rRaw t = v" and "v = c # s" and "startsValue c"
  shows "items (v @ r) = t # items r"
proof -
  have "items (c # s @ r) = (case Some t of None \<Rightarrow> items (s @ r) | Some v \<Rightarrow> v # items (drop (length (rRaw v) - 1) (s @ r)))"
    using assms(1,3,4) by (simp add: startsValue_def del: option.case)
  also have "\<dots> = t # items r" using assms(2,3) by simp
  finally show ?thesis using assms(3) by simp
qed

lemma items_mark: "c = CHR '':'' \<or> c = CHR '','' \<Longrightarrow> items (c # s) = items s"
  by (elim disjE) (simp_all add: valueAt_def is_digit_def)

lemma items_close: "c = CHR '']'' \<or> c = CHR ''}'' \<Longrightarrow> items (c # s) = []"
  by (elim disjE) simp_all

lemma valueAt_string:
  "jchars b \<Longrightarrow> valueAt (CHR 0x22 # b @ CHR 0x22 # r) = Some (jsonValue JString (CHR 0x22 # b @ [CHR 0x22]) (unescape b))"
  by (simp add: valueAt_def tostr_string Let_def)

lemma items_string:
  "jchars b \<Longrightarrow> items (CHR 0x22 # b @ CHR 0x22 # r) = jsonValue JString (CHR 0x22 # b @ [CHR 0x22]) (unescape b) # items r"
  using items_value [of "CHR 0x22 # b @ [CHR 0x22]" r] valueAt_string [of b r]
  by (simp add: jsonValue_def startsValue_def del: items.simps)

lemma valueAt_number:
  assumes "jnumber s" and "stops r"
  shows "valueAt (s @ r) = Some (jsonValue JNumber s '''')"
proof -
  obtain c t where s: "s = c # t" "c = CHR ''-'' \<or> is_digit c" using jnumber_head [OF assms(1)] by blast
  then have "c \<notin> {CHR ''{'', CHR ''['', CHR ''n'', CHR ''t'', CHR ''f'', CHR 0x22}" by (auto simp: is_digit_def)
  with s tonum_number [OF assms] show ?thesis by (auto simp: valueAt_def)
qed

definition box :: "char \<Rightarrow> char \<Rightarrow> bool" where
  "box c e = (c = CHR ''{'' \<and> e = CHR ''}'' \<or> c = CHR ''['' \<and> e = CHR '']'')"

lemma valueAt_box: "passes x \<Longrightarrow> box c e \<Longrightarrow> valueAt (c # x @ e # r) = Some (jsonValue JJSON (c # x @ [e]) '''')"
  using squash_box [of x c e r] by (auto simp: valueAt_def box_def)

lemma Value_box:
  assumes "c = CHR ''{'' \<or> c = CHR ''[''"
  shows "Value (jsonValue JJSON (c # s) '''') =
    (if c = CHR ''{'' then GObj (map (\<lambda>kv. (fst kv, Value (snd kv))) (pairs (items s) [])) else GArr (map Value (items s)))"
  using assms by (subst Value.simps) (auto simp: jsonValue_def contentOf_def)

lemma jsonValue_simps [simp]:
  "rRaw (jsonValue t raw str) = raw" "rStr (jsonValue t raw str) = str" "rType (jsonValue t raw str) = t"
  by (simp_all add: jsonValue_def)

section \<open>Names\<close>

definition flat :: "(Result \<times> Result) list \<Rightarrow> Result list" where
  "flat ts = concat (map (\<lambda>(k, t). [k, t]) ts)"

lemma flat_simps [simp]: "flat [] = []" "flat ((k, t) # ts) = k # t # flat ts"
  by (simp_all add: flat_def)

definition fresh :: "(string \<times> Result) list \<Rightarrow> (string \<times> Result) list \<Rightarrow> (string \<times> Result) list" where
  "fresh acc kvs = filter (\<lambda>kv. fst kv \<notin> fst ` set acc) kvs"

lemma fresh_snoc: "fresh (acc @ [(k, t)]) kvs = AList.delete k (fresh acc kvs)"
  by (auto simp: fresh_def AList.delete_eq intro!: filter_cong)

lemma pairs_flat: "pairs (flat ts) acc = acc @ AList.clearjunk (fresh acc (map (\<lambda>(k, t). (rStr k, t)) ts))"
proof (induction ts arbitrary: acc)
  case (Cons kt ts)
  obtain k t where "kt = (k, t)" by fastforce
  then show ?case
    using Cons.IH [of acc] Cons.IH [of "acc @ [(rStr k, t)]"] by (simp add: fresh_snoc) (simp add: fresh_def)
qed (simp add: fresh_def)

lemma pairs_values_flat:
  "map (\<lambda>kv. (fst kv, Value (snd kv))) (pairs (flat ts) []) = AList.clearjunk (map (\<lambda>(k, t). (rStr k, Value t)) ts)"
proof -
  have run: "map (\<lambda>kv. (fst kv, Value (snd kv))) l = AList.map_ran (\<lambda>_. Value) l" for l :: "(string \<times> Result) list"
    by (simp add: AList.map_ran_def split_def)
  have "map (\<lambda>kv. (fst kv, Value (snd kv))) (pairs (flat ts) [])
      = AList.clearjunk (AList.map_ran (\<lambda>_. Value) (map (\<lambda>(k, t). (rStr k, t)) ts))"
    by (simp add: pairs_flat fresh_def run AList.clearjunk_map_ran)
  then show ?thesis by (simp add: AList.map_ran_def split_def comp_def)
qed

section \<open>Parse and Value read JSON\<close>

definition foundAs :: "string \<Rightarrow> gvalue \<Rightarrow> Result \<Rightarrow> bool" where
  "foundAs v x t \<longleftrightarrow> (\<forall>r. stops r \<longrightarrow> valueAt (v @ r) = Some t) \<and> rRaw t = v \<and> Value t = firsts x"

text \<open>A container needs nothing of what follows it, and its value is there even if more text is kept.\<close>

definition boxFound :: "string \<Rightarrow> gvalue \<Rightarrow> bool" where
  "boxFound v x \<longleftrightarrow> (\<forall>r. Value (jsonValue JJSON (v @ r) '''') = firsts x)"

definition isBox :: "string \<Rightarrow> bool" where
  "isBox v = (hd v = CHR ''{'' \<or> hd v = CHR ''['')"

lemma isBox_Cons: "isBox (c # s) = (c = CHR ''{'' \<or> c = CHR ''['')"
  by (simp add: isBox_def)

lemma foundAs_box:
  assumes "passes x" and "box c e" and "boxFound (c # x @ [e]) y"
  shows "foundAs (c # x @ [e]) y (jsonValue JJSON (c # x @ [e]) '''')"
  using valueAt_box [OF assms(1,2)] assms(3)
  by (simp add: foundAs_def boxFound_def)

lemma items_found:
  assumes "foundAs v x t" and "jvalue v" and "stops r"
  shows "items (v @ r) = t # items r"
proof -
  obtain c s where "v = c # s" "startsValue c" using jvalue_start [OF assms(2)] by blast
  with assms(1,3) show ?thesis by (intro items_value [of v r t c s]) (simp_all add: foundAs_def)
qed

definition membersFound :: "string \<Rightarrow> (string \<times> gvalue) list \<Rightarrow> (Result \<times> Result) list \<Rightarrow> bool" where
  "membersFound m kvs ts \<longleftrightarrow>
     (\<forall>r. items (m @ CHR ''}'' # r) = flat ts) \<and> map (\<lambda>(k, t). (rStr k, Value t)) ts = map (map_prod id firsts) kvs"

definition elementsFound :: "string \<Rightarrow> gvalue list \<Rightarrow> Result list \<Rightarrow> bool" where
  "elementsFound l xs ts \<longleftrightarrow> (\<forall>r. items (l @ CHR '']'' # r) = ts) \<and> map Value ts = map firsts xs"

lemma object_found:
  assumes "membersFound m kvs ts" and "ws w"
  shows "boxFound (''{'' @ w @ m @ ''}'') (GObj kvs)"
  unfolding boxFound_def
proof
  fix r
  have "items (w @ m @ CHR ''}'' # r) = flat ts" using assms by (simp add: membersFound_def items_ws)
  then show "Value (jsonValue JJSON ((''{'' @ w @ m @ ''}'') @ r) '''') = firsts (GObj kvs)"
    using assms(1) by (simp add: Value_box pairs_values_flat membersFound_def)
qed

lemma array_found: "elementsFound l xs ts \<Longrightarrow> boxFound (''['' @ l @ '']'') (GArr xs)"
  by (simp add: boxFound_def Value_box elementsFound_def)

lemma literals_found:
  "Ex (foundAs ''true'' (GBool True))" "Ex (foundAs ''false'' (GBool False))" "Ex (foundAs ''null'' GNil)"
proof -
  have "foundAs ''true'' (GBool True) (jsonValue JTrue ''true'' '''')"
    using tolit_literal [of "''rue''" _ "CHR ''t''"] by (simp add: foundAs_def valueAt_def Let_def Value.simps)
  moreover have "foundAs ''false'' (GBool False) (jsonValue JFalse ''false'' '''')"
    using tolit_literal [of "''alse''" _ "CHR ''f''"] by (simp add: foundAs_def valueAt_def Let_def Value.simps)
  moreover have "foundAs ''null'' GNil (jsonValue JNull ''null'' '''')"
    using tolit_literal [of "''ull''" _ "CHR ''n''"] by (simp add: foundAs_def valueAt_def Let_def Value.simps)
  ultimately show "Ex (foundAs ''true'' (GBool True))" "Ex (foundAs ''false'' (GBool False))" "Ex (foundAs ''null'' GNil)"
    by blast+
qed

lemma string_found: "says b s \<Longrightarrow> Ex (foundAs (CHR 0x22 # b @ [CHR 0x22]) (GStr s))"
  using says_unescape valueAt_string [OF says_jchars]
  by (intro exI [of _ "jsonValue JString (CHR 0x22 # b @ [CHR 0x22]) s"]) (simp add: foundAs_def Value.simps)

lemma number_found: "jnumber s \<Longrightarrow> Ex (foundAs s (GNum s)) \<and> \<not> isBox s"
  using jnumber_head [of s] valueAt_number [of s]
  by (auto simp: isBox_def is_digit_def foundAs_def Value.simps intro!: exI [of _ "jsonValue JNumber s ''''"])

lemma box_found:
  assumes "boxFound (c # x @ [e]) y" and "passes x" and "box c e"
  shows "Ex (foundAs (c # x @ [e]) y) \<and> (isBox (c # x @ [e]) \<longrightarrow> boxFound (c # x @ [e]) y)"
  using foundAs_box assms by blast

text \<open>A member, or an element, and then what follows it: the end, or the rest of the list.\<close>

lemma member_found:
  assumes "foundAs v x t" and "jvalue v" and "says b k" and "ws w1" and "ws w2"
    and "\<And>r. stops (rest r) \<and> items (rest r) = flat ts"
  shows "items (CHR 0x22 # b @ CHR 0x22 # w1 @ CHR '':'' # w2 @ v @ rest r)
      = flat ((jsonValue JString (CHR 0x22 # b @ [CHR 0x22]) k, t) # ts)"
  using items_found [OF assms(1,2), of "rest r"] assms(3-6) says_unescape [OF assms(3)] says_jchars [OF assms(3)]
  by (simp add: items_string items_ws items_mark del: items.simps)

lemma means_found:
  shows "means v x \<Longrightarrow> Ex (foundAs v x) \<and> (isBox v \<longrightarrow> boxFound v x)"
  and "meansMembers m kvs \<Longrightarrow> Ex (membersFound m kvs)"
  and "meansElements l xs \<Longrightarrow> Ex (elementsFound l xs)"
proof (induction rule: means_meansMembers_meansElements.inducts)
  case (memptyObject w)
  then have "boxFound (CHR ''{'' # w @ ''}'') (GObj [])" by (simp add: boxFound_def Value_box items_ws)
  then show ?case using box_found passes_plain [OF ws_plain [OF memptyObject]] by (simp add: box_def)
next
  case (mobject w m kvs)
  then have "boxFound (CHR ''{'' # (w @ m) @ ''}'') (GObj kvs)" using object_found by fastforce
  moreover have "passes (w @ m)"
    using mobject by (intro passes_plain_then ws_plain grammar_passes(2) means_grammar(2)) simp_all
  ultimately show ?case using box_found [of "CHR ''{''" "w @ m" "CHR ''}''"] by (simp add: box_def)
next
  case (memptyArray w)
  then have "boxFound (CHR ''['' # w @ '']'') (GArr [])" by (simp add: boxFound_def Value_box items_ws)
  then show ?case using box_found passes_plain [OF ws_plain [OF memptyArray]] by (simp add: box_def)
next
  case (marray l xs)
  then have "boxFound (CHR ''['' # l @ '']'') (GArr xs)" using array_found by fastforce
  then show ?case using box_found grammar_passes(3) [OF means_grammar(3) [OF marray(1)]] by (simp add: box_def)
next
  case (mmember b k w1 w2 v x w3)
  then obtain t where t: "foundAs v x t" by blast
  have "membersFound (CHR 0x22 # b @ CHR 0x22 # w1 @ '':'' @ w2 @ v @ w3) [(k, x)]
      [(jsonValue JString (CHR 0x22 # b @ [CHR 0x22]) k, t)]"
    using member_found [OF t means_grammar(1) mmember(1-3), where rest = "\<lambda>r. w3 @ CHR ''}'' # r" and ts = "[]"] mmember t
    by (simp add: membersFound_def items_ws foundAs_def items_close del: items.simps)
  then show ?case by blast
next
  case (mmembers b k w1 w2 v x w3 w4 m kvs)
  then obtain t ts where t: "foundAs v x t" and ts: "membersFound m kvs ts" by blast
  have "membersFound (CHR 0x22 # b @ CHR 0x22 # w1 @ '':'' @ w2 @ v @ w3 @ '','' @ w4 @ m) ((k, x) # kvs)
      ((jsonValue JString (CHR 0x22 # b @ [CHR 0x22]) k, t) # ts)"
    using member_found [OF t means_grammar(1) mmembers(1-3), where rest = "\<lambda>r. w3 @ CHR '','' # w4 @ m @ CHR ''}'' # r" and ts = ts]
      mmembers t ts
    by (simp add: membersFound_def items_ws items_mark foundAs_def del: items.simps)
  then show ?case by blast
next
  case (melement w1 v x w2)
  then obtain t where t: "foundAs v x t" by blast
  have "elementsFound (w1 @ v @ w2) [x] [t]"
    using items_found [OF t means_grammar(1)] melement t by (simp add: elementsFound_def items_ws foundAs_def)
  then show ?case by blast
next
  case (melements w1 v x w2 l xs)
  then obtain t ts where t: "foundAs v x t" and ts: "elementsFound l xs ts" by blast
  have "elementsFound (w1 @ v @ w2 @ '','' @ l) (x # xs) (t # ts)"
    using items_found [OF t means_grammar(1)] melements t ts
    by (simp add: elementsFound_def items_ws items_mark foundAs_def del: items.simps)
  then show ?case by blast
qed (simp_all add: literals_found number_found string_found isBox_Cons)

lemma Parse_ws: "ws w \<Longrightarrow> Parse (w @ s) = Parse s"
proof (induction w)
  case (Cons c w)
  then have "c \<noteq> CHR ''{''" "c \<noteq> CHR ''[''" "ord c \<le> 32" by (auto simp: isWs_def)
  with Cons show ?case by simp
qed simp

lemma Value_means:
  assumes "means v x" and "ws w" and "ws w'"
  shows "Value (Parse (w @ v @ w')) = firsts x"
proof -
  obtain t where t: "foundAs v x t" using means_found(1) [OF assms(1)] by blast
  obtain c s where v: "v = c # s" "startsValue c" using jvalue_start [OF means_grammar(1) [OF assms(1)]] by blast
  have "Parse (w @ v @ w') = Parse (v @ w')" by (rule Parse_ws [OF assms(2)])
  also have "Value \<dots> = firsts x"
  proof (cases "isBox v")
    case True
    then have "Parse (v @ w') = jsonValue JJSON (v @ w') ''''" using v by (auto simp: isBox_def)
    then show ?thesis using means_found(1) [OF assms(1)] True by (simp add: boxFound_def)
  next
    case False
    have "stops w'" using stops_ws [OF assms(3), of "[]"] by simp
    then have "valueAt (v @ w') = Some t" using t by (simp add: foundAs_def)
    then have "Parse (v @ w') = t" using v False by (simp add: isBox_def startsValue_def)
    then show ?thesis using t by (simp add: foundAs_def)
  qed
  finally show ?thesis .
qed

text \<open>
  C22. \<open>Parse\<close> and \<open>Value\<close> read JSON: whatever a text of the grammar means, between blanks,
  is the value they find, for all nesting, escapes, surrogate pairs and repeated names, of which
  the first counts.
\<close>

theorem value_reads_json:
  assumes "means v x" and "ws w" and "ws w'"
  shows "Value (Parse (w @ v @ w')) = firsts x"
  using assms by (rule Value_means)

section \<open>Strings written by the encoder\<close>

text \<open>Well-formed UTF-8, sequence by sequence.\<close>

function utf8_ok :: "bytes \<Rightarrow> bool" where
  "utf8_ok s = (if s = [] then True else if utf8_size s = 0 then False else utf8_ok (drop (utf8_size s) s))"
  by pat_completeness auto
termination
  by (relation "measure length") auto

declare utf8_ok.simps [simp del]

lemma hexDigit_hex: "n < 16 \<Longrightarrow> is_hex (hexDigit n) \<and> hex_val (hexDigit n) = n"
proof -
  have "\<forall>n < 16. is_hex (hexDigit n) \<and> hex_val (hexDigit n) = n"
    by (simp add: All_less_Suc eval_nat_numeral hexDigit_def is_hex_def hex_val_def is_digit_def)
  then show "n < 16 \<Longrightarrow> is_hex (hexDigit n) \<and> hex_val (hexDigit n) = n" by blast
qed

lemma escaped_byte:
  assumes "ord c < 128"
  shows "isHex4 [CHR ''0'', CHR ''0'', hexDigit (ord c div 16), hexDigit (ord c mod 16)]"
    and "hex4 [CHR ''0'', CHR ''0'', hexDigit (ord c div 16), hexDigit (ord c mod 16)] = ord c"
proof -
  have "ord c div 16 < 16" "ord c mod 16 < 16" using assms by auto
  note h = hexDigit_hex [OF this(1)] hexDigit_hex [OF this(2)]
  have z: "is_hex (CHR ''0'')" "hex_val (CHR ''0'') = 0" by (simp_all add: is_hex_def hex_val_def is_digit_def)
  show "isHex4 [CHR ''0'', CHR ''0'', hexDigit (ord c div 16), hexDigit (ord c mod 16)]"
    using h z by (simp add: isHex4_def)
  show "hex4 [CHR ''0'', CHR ''0'', hexDigit (ord c div 16), hexDigit (ord c mod 16)] = ord c"
    using h z by (simp add: hex4_def)
qed

lemma says_byte:
  assumes "ord c < 128" and "says b s"
  shows "says ((if htmlSafe c then [c] else escapeByte c) @ b) (c # s)"
proof -
  consider (safe) "htmlSafe c" | (short) d where "escapeByte c = [CHR 0x5C, d]" "(d, c) \<in> set escapeTable" "\<not> htmlSafe c"
    | (hex) "escapeByte c = CHR 0x5C # CHR ''u'' # [CHR ''0'', CHR ''0'', hexDigit (ord c div 16), hexDigit (ord c mod 16)]" "\<not> htmlSafe c"
  proof (cases "htmlSafe c \<or> c \<in> {CHR 0x5C, CHR 0x22, CHR 0x0A, CHR 0x0D, CHR 0x09}")
    case False
    then have "escapeByte c = CHR 0x5C # CHR ''u'' # [CHR ''0'', CHR ''0'', hexDigit (ord c div 16), hexDigit (ord c mod 16)]"
      by (simp add: escapeByte_def)
    with False hex show thesis by blast
  next
    case True
    have "escapeByte d = [CHR 0x5C, e] \<Longrightarrow> (e, d) \<in> set escapeTable \<Longrightarrow> c = d \<Longrightarrow> thesis" for d e
      using safe short by blast
    note s = this
    show thesis
      using True safe s [of "CHR 0x5C" "CHR 0x5C"] s [of "CHR 0x22" "CHR 0x22"] s [of "CHR 0x0A" "CHR ''n''"]
        s [of "CHR 0x0D" "CHR ''r''"] s [of "CHR 0x09" "CHR ''t''"]
      by (simp add: escapeByte_def escapeTable_def) blast
  qed
  then show ?thesis
  proof cases
    case safe
    then show ?thesis using assms(2)
      by (auto simp: htmlSafe_def byte_in_def intro: says.plain)
  next
    case short
    then show ?thesis using says.escape [OF short(2) assms(2)] by simp
  next
    case hex
    have "utf8_encode (ord c) = [c]" "\<not> isSurrogate (ord c)"
      using assms(1) by (simp_all add: utf8_encode_def isSurrogate_def)
    then show ?thesis
      using says.rune [OF escaped_byte(1) [OF assms(1)] _ assms(2)] hex by (simp add: escaped_byte(2) [OF assms(1)])
  qed
qed

lemma says_high: "list_all (\<lambda>c. 128 \<le> ord c) x \<Longrightarrow> says b s \<Longrightarrow> says (x @ b) (x @ s)"
  by (induction x) (auto intro!: says.plain)

lemma sequence_byte:
  "byte_in 128 hi c \<longrightarrow> 128 \<le> ord c" "byte_in 144 hi c \<longrightarrow> 128 \<le> ord c" "byte_in 160 hi c \<longrightarrow> 128 \<le> ord c"
  by (simp_all add: byte_in_def)

lemma sequence_high:
  assumes "\<not> ord a < 128"
  shows "list_all (\<lambda>c. 128 \<le> ord c) (take (utf8_size (a # s)) (a # s))"
proof -
  have a: "128 \<le> ord a" "\<not> byte_in 0 0x7F a" using assms by (simp_all add: byte_in_def)
  consider (0) "s = []" | (1) b where "s = [b]" | (2) b c where "s = [b, c]" | (3) b c d t where "s = b # c # d # t"
    by (metis list.exhaust)
  then show ?thesis
  proof cases
    case 0
    with a show ?thesis by simp
  next
    case (1 b)
    with a sequence_byte [of _ b] show ?thesis by simp
  next
    case (2 b c)
    with a sequence_byte [of _ b] sequence_byte [of _ c] show ?thesis by simp blast
  next
    case (3 b c d t)
    with a sequence_byte [of _ b] sequence_byte [of _ c] sequence_byte [of _ d] show ?thesis by simp blast
  qed
qed

lemma says_line_separator:
  assumes "x = CHR 0xA8 \<and> h = CHR ''8'' \<or> x = CHR 0xA9 \<and> h = CHR ''9''" and "says b s"
  shows "says (CHR 0x5C # CHR ''u'' # [CHR ''2'', CHR ''0'', CHR ''2'', h] @ b) ([CHR 0xE2, CHR 0x80, x] @ s)"
proof -
  let ?hs = "[CHR ''2'', CHR ''0'', CHR ''2'', h]"
  have 8: "hex4 ''2028'' = 0x2028" "utf8_encode 0x2028 = [CHR 0xE2, CHR 0x80, CHR 0xA8]"
    by (simp_all add: hex4_def hex_val_def is_digit_def utf8_encode_def isSurrogate_def char_of_def bit_0)
  have 9: "hex4 ''2029'' = 0x2029" "utf8_encode 0x2029 = [CHR 0xE2, CHR 0x80, CHR 0xA9]"
    by (simp_all add: hex4_def hex_val_def is_digit_def utf8_encode_def isSurrogate_def char_of_def bit_0)
  have "isHex4 ''2028''" "isHex4 ''2029''" by (simp_all add: isHex4_def is_hex_def is_digit_def)
  then have "isHex4 ?hs \<and> \<not> isSurrogate (hex4 ?hs) \<and> utf8_encode (hex4 ?hs) = [CHR 0xE2, CHR 0x80, x]"
    using assms(1) by (elim disjE conjE) (simp_all add: 8 9, simp_all add: isSurrogate_def)
  then show ?thesis using says.rune [of ?hs b s] assms(2) by simp
qed

lemma take_three: "take 3 s = [a, b, c] \<Longrightarrow> \<exists>t. s = a # b # c # t"
  by (cases s; cases "tl s"; cases "tl (tl s)") auto

lemma escapeString_step:
  "s \<noteq> [] \<Longrightarrow> escapeString s = fst (encodeRune s) @ escapeString (drop (snd (encodeRune s)) s)"
  by (subst escapeString.simps) simp

text \<open>U+2028 and U+2029, which are written as escapes.\<close>

lemma encode_separator:
  assumes "take 3 s = [CHR 0xE2, CHR 0x80, x]" and "x = CHR 0xA8 \<and> h = CHR ''8'' \<or> x = CHR 0xA9 \<and> h = CHR ''9''"
  shows "utf8_size s = 3" and "encodeRune s = (CHR 0x5C # CHR ''u'' # [CHR ''2'', CHR ''0'', CHR ''2'', h], 3)"
proof -
  from take_three [OF assms(1)] obtain u where s: "s = CHR 0xE2 # CHR 0x80 # x # u" by blast
  have "byte_in 128 191 x" using assms(2) by (elim disjE) (simp_all add: byte_in_def)
  then show "utf8_size s = 3" unfolding s by (simp add: byte_in_def)
  show "encodeRune s = (CHR 0x5C # CHR ''u'' # [CHR ''2'', CHR ''0'', CHR ''2'', h], 3)"
    using assms(2) \<open>utf8_size s = 3\<close> unfolding s
    by (elim disjE conjE) (simp_all add: encodeRune_def byte_in_def del: utf8_size.simps)
qed

text \<open>What \<open>encoding/json\<close> writes for well-formed UTF-8 says what was to be written.\<close>

lemma says_escapeString: "utf8_ok s \<Longrightarrow> says (escapeString s) s"
proof (induction s rule: utf8_ok.induct)
  case (1 s)
  show ?case
  proof (cases s)
    case (Cons c t)
    then have ne: "s \<noteq> []" by simp
    with 1(2) have size: "utf8_size s \<noteq> 0" and ok: "utf8_ok (drop (utf8_size s) s)"
      by (simp_all add: utf8_ok.simps [of s] split: if_splits)
    have rest: "says (escapeString (drop (utf8_size s) s)) (drop (utf8_size s) s)"
      by (rule 1(1) [OF ne size ok])
    show ?thesis
    proof (cases "ord c < 128")
      case True
      then have "utf8_size s = 1" using Cons by (simp add: byte_in_def)
      then show ?thesis using says_byte [OF True rest] True Cons
        by (simp add: escapeString_Cons encodeRune_def byte_in_def split: if_splits)
    next
      case False
      note high = sequence_high [OF False, of t, folded Cons]
      have low: "\<not> byte_in 0 0x7F c" using False by (simp add: byte_in_def)
      show ?thesis
      proof (cases "take 3 s = [CHR 0xE2, CHR 0x80, CHR 0xA8] \<or> take 3 s = [CHR 0xE2, CHR 0x80, CHR 0xA9]")
        case True
        then obtain x h where take: "take 3 s = [CHR 0xE2, CHR 0x80, x]"
          and x: "x = CHR 0xA8 \<and> h = CHR ''8'' \<or> x = CHR 0xA9 \<and> h = CHR ''9''" by blast
        from escapeString_step [OF ne, unfolded encode_separator [OF take x]]
        have "escapeString s = (CHR 0x5C # CHR ''u'' # [CHR ''2'', CHR ''0'', CHR ''2'', h]) @ escapeString (drop 3 s)"
          by simp
        moreover have "s = [CHR 0xE2, CHR 0x80, x] @ drop 3 s" using take append_take_drop_id [of 3 s] by simp
        ultimately show ?thesis
          using says_line_separator [OF x rest [unfolded encode_separator(1) [OF take x]]] by simp
      next
        case no: False
        have "encodeRune s = (take (utf8_size s) s, utf8_size s)"
          using no Cons low size by (simp add: encodeRune_def del: utf8_size.simps) blast
        from escapeString_step [OF ne, unfolded this]
        have "escapeString s = take (utf8_size s) s @ escapeString (drop (utf8_size s) s)" by simp
        then show ?thesis using says_high [OF high rest] by simp
      qed
    qed
  qed (simp add: says.nil)
qed

text \<open>
  What \<open>encoding/json\<close> writes, \<open>gjson\<close> reads: for every well-formed UTF-8 text, quotes,
  backslashes, control bytes and the escaped HTML and line separator characters included,
  \<open>Value\<close> of the parsed literal is the text.
\<close>

theorem json_string_read_back:
  assumes "utf8_ok s"
  shows "Value (Parse (jsonString s)) = GStr s"
proof -
  obtain t where "foundAs (jsonString s) (GStr s) t"
    using string_found [OF says_escapeString [OF assms]] by (auto simp: jsonString_def)
  then have "valueAt (jsonString s) = Some t" "Value t = GStr s"
    by (auto simp: foundAs_def dest: spec [of _ "[]"])
  then show ?thesis by (simp add: jsonString_def)
qed

subsection \<open>Witnesses\<close>

lemma jnumber_one: "jnumber ''1''"
  unfolding jnumber_def
  by (intro exI [of _ "[]"] exI [of _ "''1''"]) (simp add: jint_def jfrac_def jexp_def digits_def is_digit_def)

theorem value_reads_json_witness:
  "Value (Parse ('' '' @ (''{'' @ [CHR 0x22] @ ''a'' @ [CHR 0x22] @ '':[1],'' @ [CHR 0x22] @ ''a'' @ [CHR 0x22] @ '':null}'') @ ''''))
    = GObj [(''a'', GArr [GNum ''1''])]"
proof -
  from marray [OF melement [of "[]" _ _ "[]", OF _ mnum [OF jnumber_one]]]
  have arr: "means ''[1]'' (GArr [GNum ''1''])" by simp
  have a: "says ''a'' ''a''" by (intro says.plain says.nil) simp_all
  have last: "meansMembers ([CHR 0x22] @ ''a'' @ [CHR 0x22] @ '':null'') [(''a'', GNil)]"
    using mmember [OF a, of "[]" "[]", OF _ _ mnull, of "[]"] by simp
  have "meansMembers ([CHR 0x22] @ ''a'' @ [CHR 0x22] @ '':[1],'' @ [CHR 0x22] @ ''a'' @ [CHR 0x22] @ '':null'')
      [(''a'', GArr [GNum ''1'']), (''a'', GNil)]"
    using mmembers [OF a _ _ arr _ _ last, of "[]" "[]" "[]" "[]"] by simp
  from mobject [OF _ this, of "[]"]
  have "means (''{'' @ [CHR 0x22] @ ''a'' @ [CHR 0x22] @ '':[1],'' @ [CHR 0x22] @ ''a'' @ [CHR 0x22] @ '':null}'')
      (GObj [(''a'', GArr [GNum ''1'']), (''a'', GNil)])"
    by simp
  from value_reads_json [OF this, of "'' ''" "''''"] show ?thesis by (simp add: isWs_def del: Parse.simps)
qed

theorem json_string_read_back_witness:
  "Value (Parse (jsonString [CHR ''a'', CHR 0x22, CHR 0xC3, CHR 0xA9])) = GStr [CHR ''a'', CHR 0x22, CHR 0xC3, CHR 0xA9]"
proof -
  have "utf8_ok [CHR ''a'', CHR 0x22, CHR 0xC3, CHR 0xA9]" by (simp add: utf8_ok.simps byte_in_def)
  then show ?thesis by (rule json_string_read_back)
qed

text \<open>
  A surrogate that the next escape does not complete takes that escape with it: the letter
  \<open>A\<close>, written as an escape, is lost.
\<close>

lemma lone_surrogate_eats_escape:
  "unescape (CHR 0x5C # ''ud800'' @ CHR 0x5C # ''u0041'') = utf8_encode RuneError"
  using unescape_pair [of "''d800''" "''0041''" "[]"]
  by (simp add: simpleEscape_u isHex4_def is_hex_def is_digit_def hex4_def hex_val_def isSurrogate_def
      decodeSurrogates_def RuneError_def)

end
