(* ===== verification/GjsonLookup.thy ===== *)
theory GjsonLookup
  imports GjsonTree
begin

text \<open>
  What \<open>Get\<close> finds: in a JSON text and for a path of keys and indices, the value that the path
  leads to in what the text means. The scan never builds that tree; the proof goes over the
  grammar of the text, with the scanners at every position of it.
\<close>

section \<open>Paths into a value\<close>

fun firstSome :: "('a \<Rightarrow> 'b option) \<Rightarrow> 'a list \<Rightarrow> 'b option" where
  "firstSome f [] = None"
| "firstSome f (x # xs) = (case f x of None \<Rightarrow> firstSome f xs | Some y \<Rightarrow> Some y)"

text \<open>
  A member is entered if its name is the key; when the rest of the path leads nowhere in it, the
  next member of that name is tried. The index of an element is read as the code does, modulo
  \<open>2 ^ 64\<close>.
\<close>

primrec lookup :: "string list \<Rightarrow> gvalue \<Rightarrow> gvalue option" where
  "lookup [] x = Some x"
| "lookup (k # ks) x =
     (case x of
        GObj kvs \<Rightarrow> firstSome (\<lambda>kv. if fst kv = k then lookup ks (snd kv) else None) kvs
      | GArr xs \<Rightarrow>
          if 0 \<le> partIndex k \<and> nat (partIndex k) < length xs then lookup ks (xs ! nat (partIndex k)) else None
      | _ \<Rightarrow> None)"

fun pathOf :: "string list \<Rightarrow> string" where
  "pathOf [] = ''''"
| "pathOf [k] = k"
| "pathOf (k # ks) = k @ CHR ''.'' # pathOf ks"

definition goodKeys :: "string list \<Rightarrow> bool" where
  "goodKeys ks = list_all (\<lambda>k. plainPath k \<and> CHR ''.'' \<notin> set k) ks"

lemma goodKeys_simps [simp]: "goodKeys []" "goodKeys (k # ks) = (plainPath k \<and> CHR ''.'' \<notin> set k \<and> goodKeys ks)"
  by (simp_all add: goodKeys_def)

lemma plainPath_append [simp]: "plainPath (a @ b) = (plainPath a \<and> plainPath b)"
  by (simp add: plainPath_def)

lemma plainPath_pathOf: "goodKeys ks \<Longrightarrow> plainPath (pathOf ks)"
  by (induction ks rule: pathOf.induct) (simp_all add: plainPath_Cons)

lemma pathOf_Cons: "ks \<noteq> [] \<Longrightarrow> pathOf (k # ks) = k @ CHR ''.'' # pathOf ks"
  by (cases ks) simp_all

lemma objectPathFrom_key:
  "plainPath k \<Longrightarrow> CHR ''.'' \<notin> set k \<Longrightarrow>
     objectPathFrom part False (k @ CHR ''.'' # cs) = objectPathFrom (part @ k) False (CHR ''.'' # cs)"
  "plainPath k \<Longrightarrow> CHR ''.'' \<notin> set k \<Longrightarrow> objectPathFrom part False k = noPath\<lparr>oPart := part @ k\<rparr>"
  by (induction k arbitrary: part) (auto simp: plainPath_Cons noPath_def)

lemma arrayPathFrom_key:
  "plainPath k \<Longrightarrow> CHR ''.'' \<notin> set k \<Longrightarrow> arrayPathFrom part (k @ CHR ''.'' # cs) = arrayPathFrom (part @ k) (CHR ''.'' # cs)"
  "plainPath k \<Longrightarrow> CHR ''.'' \<notin> set k \<Longrightarrow>
     arrayPathFrom part k = \<lparr>aPart = part @ k, aPath = '''', aPipe = '''', aPiped = False, aMore = False\<rparr>"
  by (induction k arbitrary: part) (auto simp: plainPath_Cons)

text \<open>The parsed path of a key and the keys behind it.\<close>

definition objectKey :: "string \<Rightarrow> string list \<Rightarrow> objectPathResult" where
  "objectKey k ks = noPath\<lparr>oPart := k, oPath := pathOf ks, oMore := (ks \<noteq> [])\<rparr>"

definition arrayKey :: "string \<Rightarrow> string list \<Rightarrow> arrayPathResult" where
  "arrayKey k ks = \<lparr>aPart = k, aPath = pathOf ks, aPipe = '''', aPiped = False, aMore = (ks \<noteq> [])\<rparr>"

lemma parse_keys:
  assumes "goodKeys (k # ks)"
  shows "parseObjectPath (pathOf (k # ks)) = objectKey k ks" and "parseArrayPath (pathOf (k # ks)) = arrayKey k ks"
proof -
  have "\<not> dotPiped (pathOf ks)" using assms plainPath_dot plainPath_pathOf by simp
  then show "parseObjectPath (pathOf (k # ks)) = objectKey k ks" "parseArrayPath (pathOf (k # ks)) = arrayKey k ks"
    using assms objectPathFrom_key [of k "''''"] arrayPathFrom_key [of k "''''"]
    by (cases "ks = []"; simp add: parseObjectPath_def parseArrayPath_def objectKey_def arrayKey_def pathOf_Cons noPath_def)+
qed

lemma enterAt_keys:
  assumes "goodKeys (k # ks)"
  shows "enterAt b (pathOf (k # ks)) c =
    ((if b = CHR ''{'' then InObject (objectKey k ks) else InArray (arrayKey k ks) 0), c)"
  by (simp add: enterAt_def parse_keys [OF assms] Let_def setPipe_def objectKey_def arrayKey_def noPath_def)

section \<open>Scanning a value where it stands\<close>

lemma slice_at: "drop i json = x @ rest \<Longrightarrow> slice json i (i + length x) = x"
  by (simp add: slice_def)

lemma countBack_lo: "i \<le> j \<Longrightarrow> json ! i \<noteq> CHR 0x5C \<Longrightarrow> countBack json 0 j = countBack json i j"
proof (induction j)
  case (Suc j)
  show ?case
  proof (cases "i = Suc j")
    case True
    with Suc.prems(2) show ?thesis by simp
  next
    case False
    with Suc show ?thesis by simp
  qed
qed simp

lemma escapedQuote_lo:
  assumes "i < k" and "json ! i \<noteq> CHR 0x5C"
  shows "escapedQuote json 0 k = escapedQuote json i k"
proof (cases "k = Suc i")
  case False
  with assms(1) have "i \<le> k - 2" by simp
  then show ?thesis using countBack_lo [OF _ assms(2)] by (simp add: escapedQuote_def)
qed (use assms in \<open>simp add: escapedQuote_def\<close>)

lemma find_index_cong: "(\<And>x. x \<in> set xs \<Longrightarrow> P x = Q x) \<Longrightarrow> find_index P xs = find_index Q xs"
  by (induction xs) auto

lemma quoteFrom_lo:
  assumes "i < p" and "json ! i \<noteq> CHR 0x5C"
  shows "quoteFrom json 0 p = quoteFrom json i p"
proof -
  have "find_index (\<lambda>k. json ! k = CHR 0x22 \<and> \<not> escapedQuote json 0 k) [p..<length json] =
      find_index (\<lambda>k. json ! k = CHR 0x22 \<and> \<not> escapedQuote json i k) [p..<length json]"
    using escapedQuote_lo [OF _ assms(2)] assms(1) by (intro find_index_cong) auto
  then show ?thesis by (simp add: quoteFrom_def)
qed

lemma parseString_chars:
  assumes "drop k json = CHR 0x22 # b @ CHR 0x22 # rest" and "jchars b"
  shows "\<exists>esc. parseString json (Suc k) = (k + length b + 2, CHR 0x22 # b @ [CHR 0x22], esc, True)
    \<and> (esc \<or> unescape b = b)"
proof -
  define p where "p = (\<lambda>c. c = CHR 0x22 \<or> c = CHR 0x5C)"
  obtain x y where b: "b = x @ y" and x: "list_all (\<lambda>c. \<not> p c) x" and y: "y = [] \<or> p (hd y)"
    using split_first [of b p] by blast
  have k: "k < length json" "json ! k = CHR 0x22" using drop_nth [of k json] assms(1) by simp_all
  have body: "drop (Suc k) json = b @ CHR 0x22 # rest"
    using drop_add [of k json "[CHR 0x22]" "b @ CHR 0x22 # rest"] assms(1) by simp
  have "y @ CHR 0x22 # rest = [] \<or> p (hd (y @ CHR 0x22 # rest))" using y by (cases y) (simp_all add: p_def)
  then have i: "scanTo p json (Suc k) = Suc k + length x"
    using scanTo_over [of "Suc k" json x "y @ CHR 0x22 # rest" p] x b body by simp
  have nx: "CHR 0x5C \<notin> set x" using x by (auto simp: list_all_iff p_def)
  have raw: "slice json k (k + (length b + 2)) = CHR 0x22 # b @ [CHR 0x22]"
    using slice_at [of k json "CHR 0x22 # b @ [CHR 0x22]" rest] assms(1) by simp
  have len: "k + length b + 1 < length json"
    using arg_cong [OF assms(1), of length] by simp
  have at: "json ! (Suc k + length x) = hd (y @ CHR 0x22 # rest)"
    using drop_add [of "Suc k" json x "y @ CHR 0x22 # rest"] body b hd_drop_conv_nth [of "Suc k + length x" json] len
    by simp
  show ?thesis
  proof (cases y)
    case Nil
    with nx b have "CHR 0x5C \<notin> set b" by simp
    from jchars_noescape [OF assms(2) this] have "list_all (\<lambda>c. 32 \<le> ord c \<and> c \<noteq> CHR 0x5C) b"
      by (rule list.pred_mono_strong) simp
    then show ?thesis using i at Nil b raw len
      by (simp add: parseString_def p_def [symmetric] Let_def unescape_plain) blast
  next
    case (Cons d z)
    then have d: "d = CHR 0x5C" using jchars_first_escape [OF assms(2) _ nx, of d z] y b by (simp add: p_def)
    have "quoteFrom json k (Suc (Suc k + length x)) = Suc k + length b"
      using quoteFrom_chars [OF body assms(2) k(2), of "Suc (Suc k + length x)"] b Cons by simp
    then have "quoteFrom json 0 (Suc (Suc k + length x)) = Suc k + length b"
      using quoteFrom_lo [of k "Suc (Suc k + length x)" json] k(2) by simp
    then show ?thesis using i at d b Cons raw len
      by (simp add: parseString_def p_def [symmetric] Let_def) blast
  qed
qed

text \<open>The result a value of the grammar is read as, whichever way.\<close>

definition scannedAs :: "string \<Rightarrow> nat \<Rightarrow> string \<Rightarrow> gvalue \<Rightarrow> bool" where
  "scannedAs json k v x \<longleftrightarrow> (\<forall>c. cValue c = emptyResult \<longrightarrow>
     (\<exists>t. scanValue json k c = ValueTo (k + length v) (c\<lparr>cValue := t\<rparr>) \<and> Value t = firsts x \<and> Exists t))"

lemma number_starts: "c = CHR ''-'' \<or> is_digit c \<Longrightarrow> isNumStart c \<and> c \<noteq> CHR 0x22 \<and> c \<noteq> CHR ''{'' \<and> c \<noteq> CHR ''[''"
  by (elim disjE) (auto simp: isNumStart_def is_digit_def)

lemma inNumber_within: "inNumber c \<Longrightarrow> \<not> (ord c \<le> 32 \<or> c \<in> {CHR '','', CHR '']'', CHR ''}''})"
proof
  assume n: "inNumber c" and "ord c \<le> 32 \<or> c \<in> {CHR '','', CHR '']'', CHR ''}''}"
  then consider "ord c \<le> 32" | "c = CHR '',''" | "c = CHR '']''" | "c = CHR ''}''" by blast
  then show False using n by cases (simp_all add: inNumber_def numStop_def bracketOrQuote_def)
qed

lemma scan_number:
  assumes "jnumber s" and "drop k json = s @ rest" and "stops rest"
  shows "parseNumber json k = (k + length s, s)"
proof -
  obtain c t where s: "s = c # t" using jnumber_head [OF assms(1)] by blast
  let ?p = "\<lambda>c. ord c \<le> 32 \<or> c \<in> {CHR '','', CHR '']'', CHR ''}''}"
  have "list_all inNumber t" using jnumber_plain [OF assms(1)] s by simp
  then have "list_all (\<lambda>c. \<not> ?p c) t" by (rule list.pred_mono_strong) (rule inNumber_within)
  moreover have "drop (k + 1) json = t @ rest" using drop_add [of k json "[c]" "t @ rest"] assms(2) s by simp
  moreover have "rest = [] \<or> ?p (hd rest)" using assms(3) isWs_le by (auto simp: stops_def)
  ultimately have "scanTo ?p json (k + 1) = k + 1 + length t" by (intro scanTo_over [of "k + 1" json t rest]) simp_all
  then have "scanTo ?p json (k + 1) = k + length s" using s by simp
  then show ?thesis using slice_at [OF assms(2)] unfolding parseNumber_def Let_def by simp
qed

lemma scan_literal:
  assumes "list_all (\<lambda>c. 97 \<le> ord c \<and> ord c \<le> 122) t" and "drop k json = (c # t) @ rest" and "stops rest"
  shows "parseLiteral json k = (k + length (c # t), c # t)"
proof -
  let ?p = "\<lambda>c. ord c < 97 \<or> 122 < ord c"
  have "list_all (\<lambda>c. \<not> ?p c) t" using assms(1) by (simp add: not_less)
  moreover have "drop (k + 1) json = t @ rest" using drop_add [of k json "[c]" "t @ rest"] assms(2) by simp
  ultimately have "scanTo ?p json (k + 1) = k + 1 + length t"
    using stops_letter [OF assms(3)] by (intro scanTo_over [of "k + 1" json t rest]) simp_all
  then have "scanTo ?p json (k + 1) = k + length (c # t)" by simp
  then show ?thesis using slice_at [OF assms(2)] unfolding parseLiteral_def Let_def by simp
qed

lemma scan_box:
  assumes "passes x" and "box c e" and "drop k json = (c # x @ [e]) @ rest"
  shows "parseSquash json k = (k + length (c # x @ [e]), c # x @ [e])"
proof -
  have body: "drop (Suc k) json = x @ e # rest" using drop_add [of k json "[c]" "x @ e # rest"] assms(3) by simp
  then have e: "Suc k + length x < length json" "json ! (Suc k + length x) = e"
    using drop_nth [of "Suc k + length x" json e rest] drop_add [OF body] by simp_all
  have "squashLoop json k (Suc k) 1 = squashLoop json k (Suc k + length x) 1"
    by (rule passesD [OF assms(1) body]) simp
  also have "\<dots> = (Suc (Suc k + length x), slice json k (Suc (Suc k + length x)))"
    using e assms(2) by (subst squashLoop.simps) (auto simp: box_def)
  also have "slice json k (Suc (Suc k + length x)) = c # x @ [e]"
    using slice_at [OF assms(3)] by simp
  finally show ?thesis by (simp add: parseSquash_def)
qed

lemma scannedI:
  "(\<And>c. cValue c = emptyResult \<Longrightarrow> scanValue json k c = ValueTo (k + length v) (c\<lparr>cValue := t\<rparr>)) \<Longrightarrow>
     Value t = firsts x \<Longrightarrow> rRaw t \<noteq> '''' \<Longrightarrow> scannedAs json k v x"
  by (auto simp: scannedAs_def Exists_def)

lemma scanned_literal:
  assumes "drop k json = (h # t) @ rest" and "stops rest" and "list_all (\<lambda>c. 97 \<le> ord c \<and> ord c \<le> 122) t" and "isLitStart h"
    and "ty = (if h = CHR ''t'' then JTrue else if h = CHR ''f'' then JFalse else JNull)"
    and "Value (jsonValue ty (h # t) '''') = firsts x"
  shows "scannedAs json k (h # t) x"
proof (rule scannedI [OF _ assms(6)])
  fix c :: parseContext
  assume c: "cValue c = emptyResult"
  have h: "json ! k = h" using drop_nth [of k json h] assms(1) by simp
  have "h \<noteq> CHR 0x22 \<and> h \<noteq> CHR ''{'' \<and> h \<noteq> CHR ''['' \<and> \<not> isNumStart h"
    using assms(4) by (auto simp: isLitStart_def isNumStart_def is_digit_def)
  then show "scanValue json k c = ValueTo (k + length (h # t)) (c\<lparr>cValue := jsonValue ty (h # t) ''''\<rparr>)"
    using h c assms(5) scan_literal [OF assms(3,1,2)]
    by (simp add: scanValue_def setLiteral_def setRaw_def jsonValue_def emptyResult_def Let_def)
qed simp

lemma scanned_box:
  assumes "drop k json = (c # x @ [e]) @ rest" and "passes x" and "box c e" and "boxFound (c # x @ [e]) y"
  shows "scannedAs json k (c # x @ [e]) y"
proof (rule scannedI)
  show "Value (jsonValue JJSON (c # x @ [e]) '''') = firsts y"
    using assms(4) by (auto simp: boxFound_def dest: spec [of _ "[]"])
  fix d :: parseContext
  assume d: "cValue d = emptyResult"
  have "json ! k = c" using drop_nth [of k json c] assms(1) by simp
  then show "scanValue json k d = ValueTo (k + length (c # x @ [e])) (d\<lparr>cValue := jsonValue JJSON (c # x @ [e]) ''''\<rparr>)"
    using d assms(3) scan_box [OF assms(2,3,1)]
    by (auto simp: scanValue_def setRaw_def jsonValue_def emptyResult_def box_def)
qed simp

lemma grammar_box:
  assumes "jvalue v" and "isBox v"
  shows "\<exists>c x e. v = c # x @ [e] \<and> box c e \<and> passes x"
  using assms
proof cases
  case (emptyObject w)
  then show ?thesis using passes_plain [OF ws_plain] by (intro exI [of _ "CHR ''{''"] exI [of _ w] exI [of _ "CHR ''}''"]) (auto simp: box_def)
next
  case (object w m)
  then show ?thesis using passes_append [OF passes_plain [OF ws_plain] grammar_passes(2)]
    by (intro exI [of _ "CHR ''{''"] exI [of _ "w @ m"] exI [of _ "CHR ''}''"]) (auto simp: box_def)
next
  case (emptyArray w)
  then show ?thesis using passes_plain [OF ws_plain] by (intro exI [of _ "CHR ''[''"] exI [of _ w] exI [of _ "CHR '']''"]) (auto simp: box_def)
next
  case (array m)
  then show ?thesis using grammar_passes(3) by (intro exI [of _ "CHR ''[''"] exI [of _ m] exI [of _ "CHR '']''"]) (auto simp: box_def)
next
  case num
  then show ?thesis using assms(2) number_found [of v] by simp
qed (use assms(2) in \<open>simp_all add: isBox_def\<close>)

text \<open>A value of the grammar is scanned as what it means, at every position.\<close>

lemma means_scanned:
  assumes "means v x" and "drop k json = v @ rest" and "stops rest"
  shows "scannedAs json k v x"
proof (cases "isBox v")
  case True
  then obtain c y e where v: "v = c # y @ [e]" "box c e" "passes y"
    using grammar_box means_grammar(1) [OF assms(1)] by blast
  have "boxFound v x" using means_found(1) [OF assms(1)] True by blast
  then show ?thesis using scanned_box [of k json c y e rest x] assms(2) v by simp
next
  case False
  from assms(1) show ?thesis
  proof cases
    case mtrue
    then show ?thesis using assms(2,3) scanned_literal [of k json "CHR ''t''" "''rue''" rest JTrue x]
      by (simp add: isLitStart_def Value.simps)
  next
    case mfalse
    then show ?thesis using assms(2,3) scanned_literal [of k json "CHR ''f''" "''alse''" rest JFalse x]
      by (simp add: isLitStart_def Value.simps)
  next
    case mnull
    then show ?thesis using assms(2,3) scanned_literal [of k json "CHR ''n''" "''ull''" rest JNull x]
      by (simp add: isLitStart_def Value.simps)
  next
    case mnum
    obtain c s where v: "v = c # s" "c = CHR ''-'' \<or> is_digit c" using jnumber_head [OF mnum(2)] by blast
    have "json ! k = c" using drop_nth [of k json c] assms(2) v(1) by simp
    with scan_number [OF mnum(2) assms(2,3)] number_starts [OF v(2)] mnum(1) v(1) show ?thesis
      by (intro scannedI [of _ _ _ "jsonValue JNumber v ''''"])
        (simp_all add: scanValue_def setRaw_def jsonValue_def emptyResult_def Value.simps)
  next
    case (mstr b s)
    then have d: "drop k json = CHR 0x22 # b @ CHR 0x22 # rest" using assms(2) by simp
    from parseString_chars [OF d says_jchars [OF mstr(3)]] obtain esc
      where p: "parseString json (Suc k) = (k + length b + 2, CHR 0x22 # b @ [CHR 0x22], esc, True)" "esc \<or> unescape b = b"
      by blast
    have "json ! k = CHR 0x22" using drop_nth [of k json] d by simp
    moreover have "slice (CHR 0x22 # b @ [CHR 0x22]) 1 (length (CHR 0x22 # b @ [CHR 0x22]) - 1) = b"
      by (simp add: slice_def)
    ultimately show ?thesis using p mstr says_unescape [OF mstr(3)]
      by (intro scannedI [of _ _ _ "jsonValue JString v s"])
        (auto simp: scanValue_def setString_def jsonValue_def Value.simps Let_def)
  qed (use False in \<open>simp_all add: isBox_def\<close>)
qed

section \<open>The loops\<close>

text \<open>How a loop ends: with the value sought, or behind the text it went over, with nothing changed.\<close>

definition ends :: "nat \<Rightarrow> parseContext \<Rightarrow> gvalue option \<Rightarrow> (nat \<times> bool \<times> parseContext) option \<Rightarrow> bool" where
  "ends e c found r =
     (case found of
        None \<Rightarrow> r = Some (e, False, c)
      | Some u \<Rightarrow> (\<exists>j t. r = Some (j, True, c\<lparr>cValue := t\<rparr>) \<and> Value t = firsts u \<and> Exists t))"

lemma ends_simps [simp]:
  "ends e c None r = (r = Some (e, False, c))"
  "ends e c (Some u) r = (\<exists>j t. r = Some (j, True, c\<lparr>cValue := t\<rparr>) \<and> Value t = firsts u \<and> Exists t)"
  by (simp_all add: ends_def)

text \<open>A container is searched right for every path into it.\<close>

definition boxSearched :: "string \<Rightarrow> gvalue \<Rightarrow> bool" where
  "boxSearched v x \<longleftrightarrow> (\<forall>json i rest n k ks c glob fr.
     drop i json = v @ rest \<longrightarrow> length json + 2 \<le> n + Suc i \<longrightarrow> goodKeys (k # ks) \<longrightarrow> cValue c = emptyResult \<longrightarrow>
     enterAt (json ! i) (pathOf (k # ks)) c = (fr, c) \<longrightarrow>
     ends (i + length v) c (lookup (k # ks) x) (parseLoop n glob json fr (Suc i) c))"

lemma lookup_scalar: "means v x \<Longrightarrow> \<not> isBox v \<Longrightarrow> ks \<noteq> [] \<Longrightarrow> lookup ks x = None"
  by (cases ks; erule means.cases) (auto simp: isBox_def)

lemma isBox_byte: "drop k json = v @ rest \<Longrightarrow> v \<noteq> [] \<Longrightarrow> isBox v = (json ! k = CHR ''{'' \<or> json ! k = CHR ''['')"
  by (cases v) (auto simp: isBox_def dest: drop_nth)

text \<open>One value under the key or index sought or under another: found in it, or gone over.\<close>

lemma value_round:
  assumes r: "oneRound glob json fr i c = valueRound json k pmatch (pmatch \<and> ks = []) (pathOf ks) fr' c"
    and m: "means v x" and d: "drop k json = v @ rest" and s: "stops rest"
    and b: "isBox v \<Longrightarrow> boxSearched v x"
    and n: "length json + 2 \<le> Suc n + i" "i \<le> k" and c: "cValue c = emptyResult" and g: "goodKeys ks"
    and next_: "parseLoop n glob json fr' (k + length v) c = next"
  shows "case (if pmatch then lookup ks x else None) of
      None \<Rightarrow> parseLoop (Suc n) glob json fr i c = next
    | Some u \<Rightarrow> ends e c (Some u) (parseLoop (Suc n) glob json fr i c)"
proof -
  obtain h w where v: "v = h # w" using jvalue_head [OF means_grammar(1) [OF m]] by blast
  have box: "isBox v = (json ! k = CHR ''{'' \<or> json ! k = CHR ''['')" by (rule isBox_byte [OF d]) (simp add: v)
  obtain t where t: "scanValue json k c = ValueTo (k + length v) (c\<lparr>cValue := t\<rparr>)" "Value t = firsts x" "Exists t"
    using means_scanned [OF m d s] c by (auto simp: scannedAs_def)
  show ?thesis
  proof (cases "pmatch \<and> ks \<noteq> [] \<and> isBox v")
    case True
    then obtain k1 ks1 where ks: "ks = k1 # ks1" by (cases ks) auto
    obtain inner where e: "enterAt (json ! k) (pathOf (k1 # ks1)) c = (inner, c)"
      using enterAt_keys [of k1 ks1] g ks by simp
    have "length json + 2 \<le> n + Suc k" using n by simp
    then have i: "ends (k + length v) c (lookup ks x) (parseLoop n glob json inner (Suc k) c)"
      using b True d g c e ks unfolding boxSearched_def by blast
    have "oneRound glob json fr i c = Enter k (pathOf ks) fr'" using r True box by (simp add: valueRound_def)
    with i e ks True next_ show ?thesis by (cases "lookup ks x") auto
  next
    case False
    then have v: "valueRound json k pmatch (pmatch \<and> ks = []) (pathOf ks) fr' c =
        (if pmatch \<and> ks = [] then Return (k + length v) True (c\<lparr>cValue := t\<rparr>) else Continue (k + length v) fr')"
      using box t(1) by (auto simp: valueRound_def)
    have "pmatch \<and> ks \<noteq> [] \<longrightarrow> lookup ks x = None" using False lookup_scalar [OF m] by blast
    with r v t next_ show ?thesis by (cases "pmatch \<and> ks = []") auto
  qed
qed

definition filler :: "string \<Rightarrow> bool" where
  "filler p = list_all (\<lambda>c. isWs c \<or> c = CHR '','') p"

lemma filler_simps [simp]: "filler []" "ws w \<Longrightarrow> filler w" "filler (a @ b) = (filler a \<and> filler b)" "filler '',''"
  by (auto simp: filler_def ws_def list_all_iff)

lemma filler_comma [simp]: "filler (CHR '','' # s) = filler s"
  by (simp add: filler_def)

lemma isWs_value: "isWs c \<Longrightarrow> \<not> isValueStart c \<and> c \<noteq> CHR 0x22 \<and> c \<noteq> CHR ''}'' \<and> c \<noteq> CHR '']''"
  by (auto simp: isWs_def isValueStart_def isNumStart_def isLitStart_def is_digit_def)

lemma filler_byte: "isWs c \<or> c = CHR '','' \<Longrightarrow> \<not> isValueStart c \<and> c \<noteq> CHR 0x22 \<and> c \<noteq> CHR ''}'' \<and> c \<noteq> CHR '']''"
  by (elim disjE) (simp_all add: isWs_value, simp add: isValueStart_def isNumStart_def isLitStart_def is_digit_def)

lemma filler_value:
  "filler p \<Longrightarrow> list_all (\<lambda>c. \<not> isValueStart c \<and> c \<noteq> CHR 0x22 \<and> c \<noteq> CHR ''}'' \<and> c \<noteq> CHR '']'') p"
  unfolding filler_def
  by (erule list.pred_mono_strong) (rule filler_byte)

lemma jvalue_start_value: "jvalue v \<Longrightarrow> \<exists>c s. v = c # s \<and> isValueStart c"
proof (erule jvalue.cases)
  fix s
  assume v: "v = s" and "jnumber s"
  then obtain c t where s: "s = c # t" and c: "c = CHR ''-'' \<or> is_digit c" using jnumber_head by blast
  from number_starts [OF c] have "isValueStart c" by (simp add: isValueStart_def)
  with v s show ?thesis by simp
qed (simp_all add: isValueStart_def isLitStart_def)

lemma list_all_weaken: "list_all P xs \<Longrightarrow> (\<And>x. P x \<Longrightarrow> Q x) \<Longrightarrow> list_all Q xs"
  by (simp add: list_all_iff)

text \<open>The next key of an object, behind blanks and commas, and where its value starts.\<close>

lemma scan_key:
  assumes d: "drop i json = p @ CHR 0x22 # b @ CHR 0x22 # w1 @ CHR '':'' # w2 @ v @ rest"
    and p: "filler p" and b: "says b k" and w: "ws w1" "ws w2" and v: "jvalue v"
  shows "\<exists>j kesc. scanKey json i = KeyAt j b kesc \<and> (if kesc then unescape b else b) = k
    \<and> scanTo isValueStart json j = i + length (p @ CHR 0x22 # b @ CHR 0x22 # w1 @ CHR '':'' # w2)
    \<and> scanTo isValueStart json j < length json"
proof -
  let ?q = "i + length p" and ?t = "w1 @ CHR '':'' # w2"
  have q: "drop ?q json = CHR 0x22 # b @ CHR 0x22 # ?t @ v @ rest" using drop_add [OF d] by simp
  then have at: "?q < length json" "json ! ?q = CHR 0x22" using drop_nth [of ?q json] by simp_all
  have "scanTo (\<lambda>c. c = CHR 0x22 \<or> c = CHR ''}'') json i = ?q"
    by (rule scanTo_over [OF d]) (use filler_value [OF p] in \<open>auto elim: list_all_weaken\<close>)
  moreover obtain esc where s: "parseString json (Suc ?q) = (?q + length b + 2, CHR 0x22 # b @ [CHR 0x22], esc, True)"
      "esc \<or> unescape b = b"
    using parseString_chars [OF q says_jchars [OF b]] by blast
  moreover have "slice (CHR 0x22 # b @ [CHR 0x22]) 1 (length (CHR 0x22 # b @ [CHR 0x22]) - 1) = b"
    by (simp add: slice_def)
  ultimately have key: "scanKey json i = KeyAt (?q + length b + 2) b esc"
    using at by (simp add: scanKey_def Let_def)
  have unesc: "(if esc then unescape b else b) = k" using s(2) says_unescape [OF b] by auto
  obtain c u where cu: "v = c # u" "isValueStart c" using jvalue_start_value [OF v] by blast
  have j: "drop (?q + length b + 2) json = ?t @ v @ rest"
    using drop_add [of ?q json "CHR 0x22 # b @ [CHR 0x22]" "?t @ v @ rest"] q by simp
  have "list_all (\<lambda>c. \<not> isValueStart c) ?t"
    using filler_value [of w1] filler_value [of w2] w
    by (auto simp: isValueStart_def isNumStart_def isLitStart_def is_digit_def elim: list_all_weaken)
  then have "scanTo isValueStart json (?q + length b + 2) = ?q + length b + 2 + length ?t"
    by (rule scanTo_over [OF j]) (simp add: cu)
  moreover have "?q + length b + 2 + length ?t < length json"
    using arg_cong [OF j, of length] cu(1) by simp
  ultimately show ?thesis using key unesc by (intro exI [of _ "?q + length b + 2"] exI [of _ esc]) simp
qed

lemma object_end:
  assumes "drop i json = p @ CHR ''}'' # rest" and "filler p"
  shows "parseLoop (Suc n) glob json (InObject rp) i c = Some (Suc (i + length p), False, c)"
proof -
  let ?p = "\<lambda>c. c = CHR 0x22 \<or> c = CHR ''}''"
  have "scanTo ?p json i = i + length p"
    by (rule scanTo_over [OF assms(1)]) (use filler_value [OF assms(2)] in \<open>auto elim: list_all_weaken\<close>)
  moreover have "i + length p < length json" "json ! (i + length p) = CHR ''}''"
    using drop_nth [OF drop_add [OF assms(1)]] by simp_all
  ultimately show ?thesis by (simp add: oneRound_def objectRound_def scanKey_def Let_def)
qed

lemma array_end:
  assumes "drop i json = p @ CHR '']'' # rest" and "filler p"
  shows "parseLoop (Suc n) glob json (InArray rp h) i c = Some (Suc (i + length p), False, c)"
proof -
  let ?p = "\<lambda>x. isValueStart x \<or> x = CHR '']''"
  have "scanTo ?p json i = i + length p"
    by (rule scanTo_over [OF assms(1)]) (use filler_value [OF assms(2)] in \<open>auto elim: list_all_weaken\<close>)
  moreover have "i + length p < length json" "json ! (i + length p) = CHR '']''"
    using drop_nth [OF drop_add [OF assms(1)]] by simp_all
  ultimately show ?thesis by (simp add: oneRound_def arrayRound_def Let_def)
qed

text \<open>The rounds that reach a member or an element.\<close>

lemma object_round:
  assumes d: "drop i json = p @ CHR 0x22 # b @ CHR 0x22 # w1 @ CHR '':'' # w2 @ v @ rest"
    and p: "filler p" and b: "says b k" and w: "ws w1" "ws w2" and v: "jvalue v"
  shows "oneRound glob json (InObject (objectKey key ks)) i c =
    valueRound json (i + length (p @ CHR 0x22 # b @ CHR 0x22 # w1 @ CHR '':'' # w2))
      (key = k) (key = k \<and> ks = []) (pathOf ks) (InObject (objectKey key ks)) c"
proof -
  obtain j kesc where s: "scanKey json i = KeyAt j b kesc" "(if kesc then unescape b else b) = k"
    "scanTo isValueStart json j = i + length (p @ CHR 0x22 # b @ CHR 0x22 # w1 @ CHR '':'' # w2)"
    "scanTo isValueStart json j < length json"
    using scan_key [OF assms] by blast
  have "i < length json" using arg_cong [OF d, of length] by simp
  with s show ?thesis
    by (auto simp: oneRound_def objectRound_def Let_def objectKey_def noPath_def)
qed

lemma array_round:
  assumes d: "drop i json = p @ v @ rest" and p: "filler p" and v: "jvalue v"
  shows "oneRound glob json (InArray (arrayKey key ks) h) i c =
    valueRound json (i + length p) (partIndex key = int h) (partIndex key = int h \<and> ks = []) (pathOf ks)
      (InArray (arrayKey key ks) (Suc h)) c"
proof -
  obtain ch u where cu: "v = ch # u" "isValueStart ch" using jvalue_start_value [OF v] by blast
  let ?p = "\<lambda>x. isValueStart x \<or> x = CHR '']''"
  have "scanTo ?p json i = i + length p"
    by (rule scanTo_over [OF d]) (use filler_value [OF p] cu in \<open>auto elim: list_all_weaken\<close>)
  moreover have "i + length p < length json" "json ! (i + length p) = ch"
    using drop_nth [of "i + length p" json ch "u @ rest"] drop_add [OF d] cu(1) by simp_all
  moreover have "ch \<noteq> CHR '']''" using cu(2) by (auto simp: isValueStart_def isNumStart_def isLitStart_def is_digit_def)
  ultimately show ?thesis by (simp add: oneRound_def arrayRound_def Let_def arrayKey_def)
qed

section \<open>Objects and arrays\<close>

definition memberAt :: "string \<Rightarrow> string list \<Rightarrow> (string \<times> gvalue) list \<Rightarrow> gvalue option" where
  "memberAt key ks = firstSome (\<lambda>kv. if fst kv = key then lookup ks (snd kv) else None)"

lemma memberAt_simps [simp]:
  "memberAt key ks [] = None"
  "memberAt key ks ((k, x) # kvs) =
     (case (if key = k then lookup ks x else None) of None \<Rightarrow> memberAt key ks kvs | Some u \<Rightarrow> Some u)"
  by (simp_all add: memberAt_def split: option.split)

fun elementAt :: "nat \<Rightarrow> int \<Rightarrow> string list \<Rightarrow> gvalue list \<Rightarrow> gvalue option" where
  "elementAt h idx ks [] = None"
| "elementAt h idx ks (x # xs) =
     (case (if idx = int h then lookup ks x else None) of None \<Rightarrow> elementAt (Suc h) idx ks xs | Some u \<Rightarrow> Some u)"

lemma elementAt_beyond: "idx < int h \<Longrightarrow> elementAt h idx ks xs = None"
  by (induction xs arbitrary: h) auto

lemma elementAt_nth:
  "elementAt h idx ks xs =
     (if int h \<le> idx \<and> nat (idx - int h) < length xs then lookup ks (xs ! nat (idx - int h)) else None)"
proof (induction xs arbitrary: h)
  case (Cons x xs)
  consider "idx < int h" | "idx = int h" | "int h < idx" by linarith
  then show ?case
  proof cases
    case 1
    then show ?thesis by (simp add: elementAt_beyond)
  next
    case 2
    then show ?thesis by (simp add: elementAt_beyond split: option.split)
  next
    case 3
    then have "nat (idx - int h) = Suc (nat (idx - int (Suc h)))" by linarith
    with 3 Cons.IH [of "Suc h"] show ?thesis by simp
  qed
qed simp

lemma elementAt_array: "elementAt 0 (partIndex k) ks xs = lookup (k # ks) (GArr xs)"
  by (simp add: elementAt_nth)

definition membersSearched :: "string \<Rightarrow> (string \<times> gvalue) list \<Rightarrow> bool" where
  "membersSearched m kvs \<longleftrightarrow> (\<forall>json i p rest n key ks c glob.
     drop i json = p @ m @ CHR ''}'' # rest \<longrightarrow> filler p \<longrightarrow> length json + 2 \<le> n + i \<longrightarrow> goodKeys (key # ks) \<longrightarrow>
     cValue c = emptyResult \<longrightarrow>
     ends (i + length (p @ m) + 1) c (memberAt key ks kvs) (parseLoop n glob json (InObject (objectKey key ks)) i c))"

definition elementsSearched :: "string \<Rightarrow> gvalue list \<Rightarrow> bool" where
  "elementsSearched l xs \<longleftrightarrow> (\<forall>json i p rest n key ks c glob h.
     drop i json = p @ l @ CHR '']'' # rest \<longrightarrow> filler p \<longrightarrow> length json + 2 \<le> n + i \<longrightarrow> goodKeys (key # ks) \<longrightarrow>
     cValue c = emptyResult \<longrightarrow>
     ends (i + length (p @ l) + 1) c (elementAt h (partIndex key) ks xs)
       (parseLoop n glob json (InArray (arrayKey key ks) h) i c))"

lemma fuel_left:
  assumes "drop i json = x @ y" and "x \<noteq> []" and "length json + 2 \<le> n + i"
  obtains n' where "n = Suc n'" and "length json + 2 \<le> n' + (i + length x)"
proof -
  have "i < length json" using arg_cong [OF assms(1), of length] assms(2) by (cases x) auto
  with assms(3) obtain n' where "n = Suc n'" by (cases n) auto
  moreover have "1 \<le> length x" using assms(2) by (cases x) auto
  ultimately show thesis using that assms(3) by simp
qed

lemma member_step:
  assumes x: "means v x" and b: "says b k" and w: "ws w1" "ws w2" and v: "isBox v \<Longrightarrow> boxSearched v x"
    and d: "drop i json = p @ CHR 0x22 # b @ CHR 0x22 # w1 @ CHR '':'' # w2 @ v @ rest" and p: "filler p" and s: "stops rest"
    and n: "length json + 2 \<le> n + i" and g: "goodKeys (key # ks)" and c: "cValue c = emptyResult"
    and next_: "\<And>n'. length json + 2 \<le> n' + (i + length (p @ CHR 0x22 # b @ CHR 0x22 # w1 @ CHR '':'' # w2 @ v)) \<Longrightarrow>
      ends e c found (parseLoop n' glob json (InObject (objectKey key ks))
        (i + length (p @ CHR 0x22 # b @ CHR 0x22 # w1 @ CHR '':'' # w2 @ v)) c)"
  shows "ends e c (case (if key = k then lookup ks x else None) of None \<Rightarrow> found | Some u \<Rightarrow> Some u)
    (parseLoop n glob json (InObject (objectKey key ks)) i c)"
proof -
  let ?head = "p @ CHR 0x22 # b @ CHR 0x22 # w1 @ CHR '':'' # w2"
  have d': "drop i json = (?head @ v) @ rest" using d by simp
  obtain n' where n': "n = Suc n'" "length json + 2 \<le> n' + (i + length (?head @ v))"
    by (rule fuel_left [OF d' _ n]) simp
  have at: "drop (i + length ?head) json = v @ rest" using drop_add [of i json ?head "v @ rest"] d by simp
  have r: "oneRound glob json (InObject (objectKey key ks)) i c =
      valueRound json (i + length ?head) (key = k) (key = k \<and> ks = []) (pathOf ks) (InObject (objectKey key ks)) c"
    by (rule object_round [OF d p b w means_grammar(1) [OF x]])
  have "length json + 2 \<le> Suc n' + i" "i \<le> i + length ?head" "goodKeys ks" using n n'(1) g by simp_all
  note step = value_round [OF r x at s v this(1,2) c this(3) refl, where e = e]
  have "ends e c found (parseLoop n' glob json (InObject (objectKey key ks)) (i + length ?head + length v) c)"
    using next_ [of n'] n'(2) by (simp add: add.assoc)
  with step n'(1) show ?thesis by (cases "if key = k then lookup ks x else None") auto
qed

lemma element_step:
  assumes x: "means v x" and v: "isBox v \<Longrightarrow> boxSearched v x"
    and d: "drop i json = p @ v @ rest" and p: "filler p" and s: "stops rest"
    and n: "length json + 2 \<le> n + i" and g: "goodKeys (key # ks)" and c: "cValue c = emptyResult"
    and next_: "\<And>n'. length json + 2 \<le> n' + (i + length (p @ v)) \<Longrightarrow>
      ends e c found (parseLoop n' glob json (InArray (arrayKey key ks) (Suc h)) (i + length (p @ v)) c)"
  shows "ends e c (case (if partIndex key = int h then lookup ks x else None) of None \<Rightarrow> found | Some u \<Rightarrow> Some u)
    (parseLoop n glob json (InArray (arrayKey key ks) h) i c)"
proof -
  have d': "drop i json = (p @ v) @ rest" using d by simp
  have "v \<noteq> []" using jvalue_head [OF means_grammar(1) [OF x]] by auto
  then obtain n' where n': "n = Suc n'" "length json + 2 \<le> n' + (i + length (p @ v))"
    by (rule_tac fuel_left [OF d' _ n]) simp_all
  have at: "drop (i + length p) json = v @ rest" using drop_add [OF d] .
  note r = array_round [OF d p means_grammar(1) [OF x], of glob key ks h c]
  have "length json + 2 \<le> Suc n' + i" "i \<le> i + length p" "goodKeys ks" using n n'(1) g by simp_all
  note step = value_round [OF r x at s v this(1,2) c this(3) refl, where e = e]
  have "ends e c found (parseLoop n' glob json (InArray (arrayKey key ks) (Suc h)) (i + length p + length v) c)"
    using next_ [of n'] n'(2) by (simp add: add.assoc)
  with step n'(1) show ?thesis by (cases "if partIndex key = int h then lookup ks x else None") auto
qed

lemma objectSearched:
  assumes "membersSearched m kvs" and "ws w"
  shows "boxSearched (CHR ''{'' # w @ m @ ''}'') (GObj kvs)"
  unfolding boxSearched_def
proof (intro allI impI)
  fix json i rest n k ks glob fr and c :: parseContext
  assume d: "drop i json = (CHR ''{'' # w @ m @ ''}'') @ rest" and n: "length json + 2 \<le> n + Suc i"
    and g: "goodKeys (k # ks)" and c: "cValue c = emptyResult" and e: "enterAt (json ! i) (pathOf (k # ks)) c = (fr, c)"
  have fr: "fr = InObject (objectKey k ks)" using e enterAt_keys [OF g] drop_nth [of i json] d by simp
  have "drop (Suc i) json = w @ m @ CHR ''}'' # rest"
    using drop_add [of i json "''{''" "w @ m @ CHR ''}'' # rest"] d by simp
  then have "ends (Suc i + length (w @ m) + 1) c (memberAt k ks kvs) (parseLoop n glob json fr (Suc i) c)"
    using assms n g c unfolding fr membersSearched_def by (metis filler_simps(2))
  then show "ends (i + length (CHR ''{'' # w @ m @ ''}'')) c (lookup (k # ks) (GObj kvs)) (parseLoop n glob json fr (Suc i) c)"
    by (simp add: memberAt_def)
qed

lemma arraySearched:
  assumes "elementsSearched l xs"
  shows "boxSearched (CHR ''['' # l @ '']'') (GArr xs)"
  unfolding boxSearched_def
proof (intro allI impI)
  fix json i rest n k ks glob fr and c :: parseContext
  assume d: "drop i json = (CHR ''['' # l @ '']'') @ rest" and n: "length json + 2 \<le> n + Suc i"
    and g: "goodKeys (k # ks)" and c: "cValue c = emptyResult" and e: "enterAt (json ! i) (pathOf (k # ks)) c = (fr, c)"
  have fr: "fr = InArray (arrayKey k ks) 0" using e enterAt_keys [OF g] drop_nth [of i json] d by simp
  have "drop (Suc i) json = [] @ l @ CHR '']'' # rest"
    using drop_add [of i json "''[''" "l @ CHR '']'' # rest"] d by simp
  then have "ends (Suc i + length ([] @ l) + 1) c (elementAt 0 (partIndex k) ks xs) (parseLoop n glob json fr (Suc i) c)"
    using assms n g c unfolding fr elementsSearched_def by (metis filler_simps(1))
  then show "ends (i + length (CHR ''['' # l @ '']'')) c (lookup (k # ks) (GArr xs)) (parseLoop n glob json fr (Suc i) c)"
    unfolding elementAt_array by simp
qed

lemma membersSearched_empty: "membersSearched [] []"
  unfolding membersSearched_def
proof (intro allI impI)
  fix json i p rest n key ks glob and c :: parseContext
  assume d: "drop i json = p @ [] @ CHR ''}'' # rest" and p: "filler p" and n: "length json + 2 \<le> n + i"
  have "drop i json = (p @ ''}'') @ rest" using d by simp
  then obtain n' where "n = Suc n'" by (rule fuel_left [OF _ _ n]) simp_all
  with object_end [of i json p rest] d p
  show "ends (i + length (p @ []) + 1) c (memberAt key ks []) (parseLoop n glob json (InObject (objectKey key ks)) i c)"
    by simp
qed

lemma elementsSearched_empty:
  assumes "filler w"
  shows "elementsSearched w []"
  unfolding elementsSearched_def
proof (intro allI impI)
  fix json i p rest n key ks glob h and c :: parseContext
  assume d: "drop i json = p @ w @ CHR '']'' # rest" and p: "filler p" and n: "length json + 2 \<le> n + i"
  have "drop i json = (p @ w @ '']'') @ rest" using d by simp
  then obtain n' where "n = Suc n'" by (rule fuel_left [OF _ _ n]) simp_all
  with array_end [of i json "p @ w" rest] d p assms
  show "ends (i + length (p @ w) + 1) c (elementAt h (partIndex key) ks [])
      (parseLoop n glob json (InArray (arrayKey key ks) h) i c)"
    by simp
qed

text \<open>A member and what is behind it: blanks and the end, or a comma and more members.\<close>

lemma membersSearched_Cons:
  assumes x: "means v x" "isBox v \<Longrightarrow> boxSearched v x" and b: "says b k" and w: "ws w1" "ws w2"
    and q: "filler q" and s: "\<And>r. stops (q @ m @ CHR ''}'' # r)" and m: "membersSearched m kvs"
  shows "membersSearched (CHR 0x22 # b @ CHR 0x22 # w1 @ CHR '':'' # w2 @ v @ q @ m) ((k, x) # kvs)"
  unfolding membersSearched_def
proof (intro allI impI)
  fix json i p rest n key ks glob and c :: parseContext
  let ?head = "CHR 0x22 # b @ CHR 0x22 # w1 @ CHR '':'' # w2 @ v"
  assume d: "drop i json = p @ (CHR 0x22 # b @ CHR 0x22 # w1 @ CHR '':'' # w2 @ v @ q @ m) @ CHR ''}'' # rest"
    and p: "filler p" and n: "length json + 2 \<le> n + i" and g: "goodKeys (key # ks)" and c: "cValue c = emptyResult"
  have d1: "drop i json = p @ CHR 0x22 # b @ CHR 0x22 # w1 @ CHR '':'' # w2 @ v @ (q @ m @ CHR ''}'' # rest)" using d by simp
  have "drop (i + length (p @ ?head)) json = q @ m @ CHR ''}'' # rest"
    using drop_add [of i json "p @ ?head" "q @ m @ CHR ''}'' # rest"] d by simp
  then have "ends (i + length (p @ ?head) + length (q @ m) + 1) c (memberAt key ks kvs)
      (parseLoop n' glob json (InObject (objectKey key ks)) (i + length (p @ ?head)) c)"
    if "length json + 2 \<le> n' + (i + length (p @ ?head))" for n'
    using m q g c that unfolding membersSearched_def by blast
  from member_step [OF x(1) b w x(2) d1 p s n g c this]
  show "ends (i + length (p @ CHR 0x22 # b @ CHR 0x22 # w1 @ CHR '':'' # w2 @ v @ q @ m) + 1) c
      (memberAt key ks ((k, x) # kvs)) (parseLoop n glob json (InObject (objectKey key ks)) i c)"
    by (simp add: add.assoc)
qed

lemma elementsSearched_Cons:
  assumes x: "means v x" "isBox v \<Longrightarrow> boxSearched v x" and w: "filler w"
    and q: "filler q" and s: "\<And>r. stops (q @ l @ CHR '']'' # r)" and l: "elementsSearched l xs"
  shows "elementsSearched (w @ v @ q @ l) (x # xs)"
  unfolding elementsSearched_def
proof (intro allI impI)
  fix json i p rest n key ks glob h and c :: parseContext
  assume d: "drop i json = p @ (w @ v @ q @ l) @ CHR '']'' # rest"
    and p: "filler p" and n: "length json + 2 \<le> n + i" and g: "goodKeys (key # ks)" and c: "cValue c = emptyResult"
  have d1: "drop i json = (p @ w) @ v @ (q @ l @ CHR '']'' # rest)" using d by simp
  have "drop (i + length ((p @ w) @ v)) json = q @ l @ CHR '']'' # rest"
    using drop_add [of i json "(p @ w) @ v" "q @ l @ CHR '']'' # rest"] d by simp
  then have "ends (i + length ((p @ w) @ v) + length (q @ l) + 1) c (elementAt (Suc h) (partIndex key) ks xs)
      (parseLoop n' glob json (InArray (arrayKey key ks) (Suc h)) (i + length ((p @ w) @ v)) c)"
    if "length json + 2 \<le> n' + (i + length ((p @ w) @ v))" for n'
    using l q g c that unfolding elementsSearched_def by blast
  from element_step [OF x d1 _ s n g c this] p w
  show "ends (i + length (p @ w @ v @ q @ l) + 1) c (elementAt h (partIndex key) ks (x # xs))
      (parseLoop n glob json (InArray (arrayKey key ks) h) i c)"
    by (simp add: add.assoc)
qed

lemma means_searched:
  shows "means v x \<Longrightarrow> isBox v \<longrightarrow> boxSearched v x"
  and "meansMembers m kvs \<Longrightarrow> membersSearched m kvs"
  and "meansElements l xs \<Longrightarrow> elementsSearched l xs"
proof (induction rule: means_meansMembers_meansElements.inducts)
  case (mnum s)
  then show ?case using number_found by blast
next
  case (memptyObject w)
  then show ?case using objectSearched [OF membersSearched_empty] by simp
next
  case (mobject w m kvs)
  then show ?case using objectSearched by simp
next
  case (memptyArray w)
  then show ?case using arraySearched [OF elementsSearched_empty [of w]] by simp
next
  case (marray l xs)
  then show ?case using arraySearched by simp
next
  case (mmember b k w1 w2 v x w3)
  then show ?case using membersSearched_Cons [of v x b k w1 w2 w3 "[]" "[]"] membersSearched_empty by simp
next
  case (mmembers b k w1 w2 v x w3 w4 m kvs)
  then show ?case using membersSearched_Cons [of v x b k w1 w2 "w3 @ '','' @ w4" m kvs] by simp
next
  case (melement w1 v x w2)
  then show ?case using elementsSearched_Cons [of v x w1 w2 "[]" "[]"] elementsSearched_empty [of "[]"] by simp
next
  case (melements w1 v x w2 l xs)
  then show ?case using elementsSearched_Cons [of v x w1 "w2 @ '',''" l xs] by simp
qed (simp_all add: isBox_Cons)

section \<open>Get finds what the path names\<close>

lemma firstBracket_ws:
  assumes "ws w" and "isBox v" and "v \<noteq> []"
  shows "firstBracket (w @ v @ r) = length w"
proof -
  obtain c s where v: "v = c # s" using assms(3) by (cases v) auto
  have "list_all (\<lambda>c. \<not> (c = CHR ''{'' \<or> c = CHR ''['')) w"
    using filler_value [of w] assms(1) by (auto simp: isValueStart_def elim: list_all_weaken)
  then have "scanTo (\<lambda>c. c = CHR ''{'' \<or> c = CHR ''['') (w @ v @ r) 0 = 0 + length w"
    using assms(2) v by (intro scanTo_over [of 0 _ w "v @ r"]) (simp_all add: isBox_def)
  then show ?thesis by (simp add: firstBracket_def)
qed

lemma Get_searched:
  assumes "means v x" and "isBox v" and "ws w" and "goodKeys (k # ks)" and "take 2 (pathOf (k # ks)) \<noteq> ''..''"
  shows "case lookup (k # ks) x of
      None \<Rightarrow> Get glob (w @ v @ w') (pathOf (k # ks)) = emptyResult
    | Some u \<Rightarrow> Value (Get glob (w @ v @ w') (pathOf (k # ks))) = firsts u \<and> Exists (Get glob (w @ v @ w') (pathOf (k # ks)))"
proof -
  let ?json = "w @ v @ w'"
  have v: "v \<noteq> []" using jvalue_head [OF means_grammar(1) [OF assms(1)]] by auto
  note b = firstBracket_ws [OF assms(3,2) v, of w']
  obtain fr where e: "enterAt (?json ! length w) (pathOf (k # ks)) startContext = (fr, startContext)"
    using enterAt_keys [OF assms(4)] by simp
  have "boxSearched v x" using means_searched(1) [OF assms(1)] assms(2) by blast
  moreover have "drop (length w) ?json = v @ w'" by simp
  moreover have "length ?json + 2 \<le> (length ?json + 2) + Suc (length w)" by simp
  moreover have "cValue startContext = emptyResult" by (simp add: startContext_def)
  ultimately have s: "ends (length w + length v) startContext (lookup (k # ks) x)
      (parseLoop (length ?json + 2) glob ?json fr (Suc (length w)) startContext)"
    using assms(4) e unfolding boxSearched_def by blast
  have "\<not> length ?json \<le> length w" using v by simp
  then have g: "Get glob ?json (pathOf (k # ks)) =
      (case parseLoop (length ?json + 2) glob ?json fr (Suc (length w)) startContext of
         Some (_, _, d) \<Rightarrow> cValue d | None \<Rightarrow> emptyResult)"
    using b e assms(5) by (simp only: Get_def Let_def searchFrom_def if_False prod.case)
  show ?thesis
  proof (cases "lookup (k # ks) x")
    case None
    with s have "parseLoop (length ?json + 2) glob ?json fr (Suc (length w)) startContext =
        Some (length w + length v, False, startContext)" by (simp only: ends_simps)
    with g None show ?thesis by (simp add: startContext_def)
  next
    case (Some u)
    with s obtain j t where "parseLoop (length ?json + 2) glob ?json fr (Suc (length w)) startContext =
        Some (j, True, startContext\<lparr>cValue := t\<rparr>)" "Value t = firsts u" "Exists t"
      by (auto simp only: ends_simps)
    with g Some show ?thesis by simp
  qed
qed

text \<open>A path whose first key is not empty does not start with two dots.\<close>

lemma pathOf_no_lines: "k \<noteq> '''' \<Longrightarrow> goodKeys (k # ks) \<Longrightarrow> take 2 (pathOf (k # ks)) \<noteq> ''..''"
  by (cases k; cases ks) auto

text \<open>
  C23. \<open>Get\<close> finds what the path names: in every text that is a JSON object or array between
  blanks, a path of keys and indices, which does not start with the two dots that ask for JSON
  lines, gives the value it leads to in what the text means, the first of the members with a name,
  and a result that does not exist when it leads nowhere.
\<close>

theorem get_finds:
  assumes "means v x" and "isBox v" and "ws w" and "goodKeys (k # ks)" and "take 2 (pathOf (k # ks)) \<noteq> ''..''"
  shows "case lookup (k # ks) x of
      None \<Rightarrow> \<not> Exists (Get glob (w @ v @ w') (pathOf (k # ks)))
    | Some u \<Rightarrow> Value (Get glob (w @ v @ w') (pathOf (k # ks))) = firsts u
        \<and> Exists (Get glob (w @ v @ w') (pathOf (k # ks)))"
  using Get_searched [OF assms, of glob w'] by (cases "lookup (k # ks) x") (auto simp: Exists_def emptyResult_def)

subsection \<open>Witnesses\<close>

text \<open>\<open>{"a":{"b":7}}\<close>.\<close>

definition sampleObject :: string where
  "sampleObject = ''{'' @ CHR 0x22 # ''a'' @ CHR 0x22 # '':{'' @ CHR 0x22 # ''b'' @ CHR 0x22 # '':7}}''"

lemma sampleObject_means: "means sampleObject (GObj [(''a'', GObj [(''b'', GNum ''7'')])])"
proof -
  have "jnumber ''7''" unfolding jnumber_def
    by (intro exI [of _ "[]"] exI [of _ "''7''"]) (simp add: jint_def jfrac_def jexp_def digits_def is_digit_def)
  note n = mnum [OF this]
  have key: "says ''a'' ''a''" "says ''b'' ''b''" by (intro says.plain says.nil; simp)+
  have "means (''{'' @ CHR 0x22 # ''b'' @ CHR 0x22 # '':7}'') (GObj [(''b'', GNum ''7'')])"
    using mobject [OF _ mmember [OF key(2) _ _ n, of "[]" "[]" "[]"], of "[]"] by simp
  from mobject [OF _ mmember [OF key(1) _ _ this, of "[]" "[]" "[]"], of "[]"]
  show ?thesis by (simp add: sampleObject_def)
qed

theorem get_finds_witness:
  "Value (Get (\<lambda>_ _. False) ('' '' @ sampleObject @ '''') ''a.b'') = GNum ''7''"
proof -
  have "goodKeys [''a'', ''b'']" by (simp add: plainPath_def)
  moreover have "isBox sampleObject" by (simp add: sampleObject_def isBox_def)
  ultimately have "Value (Get (\<lambda>_ _. False) ('' '' @ sampleObject @ '''') (pathOf [''a'', ''b''])) = firsts (GNum ''7'')"
    using get_finds [OF sampleObject_means, of "'' ''" "''a''" "[''b'']" "\<lambda>_ _. False" "''''"] by (simp add: isWs_def)
  then show ?thesis by simp
qed

end
