(* ===== verification/ChainReply.thy ===== *)
theory ChainReply
  imports HandlerRuns GjsonLookup
begin

text \<open>
  What \<open>getContractState\<close> takes from the reply of the RPC node, in terms of what the JSON text of
  the reply means: the composition of the client of \<open>ChainState\<close> with the reader of
  \<open>GjsonLookup\<close>.
\<close>

section \<open>Texts of results\<close>

lemma Value_string: "Value t = GStr s \<Longrightarrow> resultString fmt t = s"
  by (subst (asm) Value.simps) (auto simp: resultString_def split: jtype.splits option.splits prod.splits if_splits)

lemma Value_number: "Value t = GNum s \<Longrightarrow> rType t = JNumber \<and> rRaw t = s"
  by (subst (asm) Value.simps) (auto split: jtype.splits option.splits prod.splits if_splits)

lemma firstSome_None: "firstSome f xs = None \<longleftrightarrow> (\<forall>x \<in> set xs. f x = None)"
  by (induction xs) (auto split: option.splits)

lemma lookup_shorter: "lookup (k # ks) x \<noteq> None \<Longrightarrow> lookup [k] x \<noteq> None"
  by (cases x) (auto simp: firstSome_None split: if_splits)

text \<open>A reply is a JSON object or array between blanks, with what it means.\<close>

definition replyMeans :: "bytes \<Rightarrow> gvalue \<Rightarrow> bool" where
  "replyMeans body x \<longleftrightarrow> (\<exists>w v w'. body = w @ v @ w' \<and> ws w \<and> isBox v \<and> means v x)"

lemma replyText_string:
  assumes "replyMeans body x" and "goodKeys (k # ks)" and "lookup (k # ks) x = Some (GStr s)" and "k \<noteq> ''''"
  shows "replyText e body (pathOf (k # ks)) = s"
proof -
  obtain w v w' where b: "body = w @ v @ w'" "ws w" "isBox v" "means v x" using assms(1) by (auto simp: replyMeans_def)
  with Get_searched [OF b(4,3,2) assms(2) pathOf_no_lines [OF assms(4,2)], of matchLimit w'] assms(3)
  have "Value (Get matchLimit body (pathOf (k # ks))) = GStr s" by simp
  then show ?thesis by (simp add: replyText_def Value_string)
qed

lemma replyText_number:
  assumes "replyMeans body x" and "goodKeys (k # ks)" and "lookup (k # ks) x = Some (GNum (Itoa n))"
    and "minInt \<le> n" and "n \<le> maxInt" and "k \<noteq> ''''"
  shows "Atoi (replyText e body (pathOf (k # ks))) = n"
proof -
  obtain w v w' where b: "body = w @ v @ w'" "ws w" "isBox v" "means v x" using assms(1) by (auto simp: replyMeans_def)
  with Get_searched [OF b(4,3,2) assms(2) pathOf_no_lines [OF assms(6,2)], of matchLimit w'] assms(3)
  have "Value (Get matchLimit body (pathOf (k # ks))) = GNum (Itoa n)" by simp
  from Value_number [OF this] show ?thesis using Atoi_literal [OF assms(4,5)] by (simp add: replyText_def)
qed

lemma replyError_lookup:
  assumes "replyMeans body x"
  shows "replyError e body = (lookup [''error''] x \<noteq> None)"
proof -
  obtain w v w' where b: "body = w @ v @ w'" "ws w" "isBox v" "means v x" using assms by (auto simp: replyMeans_def)
  have g: "goodKeys [''error'']" by (simp add: plainPath_def)
  show ?thesis
    using Get_searched [OF b(4,3,2) g pathOf_no_lines [OF _ g], of matchLimit w'] b(1)
    by (cases "lookup [''error''] x") (simp_all add: replyError_def emptyResult_def Exists_def del: lookup.simps)
qed

section \<open>getContractState\<close>

lemma reply_paths:
  "goodKeys [''result'', ''nef'', ''script'']" "goodKeys [''result'', ''nef'', ''compiler'']"
  "goodKeys [''result'', ''id'']" "goodKeys [''result'', ''updatecounter'']" "goodKeys [''error'', ''message'']"
  by (simp_all add: plainPath_def)

text \<open>
  The client takes from a reply what the reply says: when the JSON text of the reply has no
  member \<open>error\<close>, the script, the compiler, the identifier and the update counter that
  \<open>getContractState\<close> returns are the ones the text means, wherever they stand in it.
\<close>

theorem reply_is_read:
  assumes "env_post e (rpcNode (env_RUNTIME e)) (marshalRpc (getContract m1)) = Some body"
    and "replyMeans body x" and "lookup [''error''] x = None"
    and "lookup [''result'', ''nef'', ''script''] x = Some (GStr script)"
    and "lookup [''result'', ''nef'', ''compiler''] x = Some (GStr compiler)"
    and "lookup [''result'', ''id''] x = Some (GNum (Itoa i))" and "minInt \<le> i" and "i \<le> maxInt"
    and "lookup [''result'', ''updatecounter''] x = Some (GNum (Itoa u))" and "minInt \<le> u" and "u \<le> maxInt"
  shows "getContractState e d m1 m2 w =
    (Ret (compiler, script, m2(''id'' \<mapsto> i, ''updateCounter'' \<mapsto> u)),
     called (Posted (rpcNode (env_RUNTIME e)) (marshalRpc (getContract m1))) w)"
proof -
  have "\<not> replyError e body" using replyError_lookup [OF assms(2)] assms(3) by simp
  moreover have "replyText e body ''result.nef.script'' = script"
    using replyText_string [OF assms(2) reply_paths(1) assms(4), of e] by simp
  moreover have "replyText e body ''result.nef.compiler'' = compiler"
    using replyText_string [OF assms(2) reply_paths(2) assms(5), of e] by simp
  moreover have "Atoi (replyText e body ''result.id'') = i"
    using replyText_number [OF assms(2) reply_paths(3) assms(6-8), of e] by simp
  moreover have "Atoi (replyText e body ''result.updatecounter'') = u"
    using replyText_number [OF assms(2) reply_paths(4) assms(9-11), of e] by simp
  ultimately show ?thesis using assms(1) by (simp add: getContractState_def Let_def replyCounters_def)
qed

text \<open>
  C8. A reply, a JSON object or array, with a text under \<open>error.message\<close> is told: the answer has
  the code 4 and this text, the digit 4 is returned and the upload folder is removed.
\<close>

theorem refusal_is_told:
  assumes "env_post e (rpcNode (env_RUNTIME e)) (marshalRpc (getContract m1)) = Some body"
    and "replyMeans body x" and "lookup [''error'', ''message''] x = Some (GStr msg)"
  shows "getContractState e d m1 m2 w =
    (Ret ('''', ''4'', m2),
     onFs (\<lambda>f. RemoveAll f d) (onResp (answer 4 msg)
       (called (Posted (rpcNode (env_RUNTIME e)) (marshalRpc (getContract m1))) w)))"
proof -
  have "lookup [''error''] x \<noteq> None" using assms(3) lookup_shorter [of "''error''" "[''message'']" x] by auto
  then have "replyError e body" using replyError_lookup [OF assms(2)] by simp
  moreover have "replyText e body ''error.message'' = msg"
    using replyText_string [OF assms(2) reply_paths(5) assms(3), of e] by simp
  ultimately show ?thesis using assms(1) by (simp add: getContractState_def Let_def)
qed

section \<open>The request as a whole\<close>

text \<open>What a reply says of a contract: the script, the identifier and the update counter.\<close>

definition deployedAs :: "gvalue \<Rightarrow> string \<Rightarrow> int \<Rightarrow> int \<Rightarrow> bool" where
  "deployedAs x s i u \<longleftrightarrow>
     lookup [''error''] x = None \<and> lookup [''result'', ''nef'', ''script''] x = Some (GStr s)
     \<and> lookup [''result'', ''id''] x = Some (GNum (Itoa i)) \<and> minInt \<le> i \<and> i \<le> maxInt
     \<and> lookup [''result'', ''updatecounter''] x = Some (GNum (Itoa u)) \<and> minInt \<le> u \<and> u \<le> maxInt"

text \<open>A database that does what it is asked, and a folder whose files can be read.\<close>

definition databaseWorks :: "env \<Rightarrow> Config \<Rightarrow> fs \<Rightarrow> dict1 \<Rightarrow> dict2 \<Rightarrow> bool" where
  "databaseWorks e cfg f m m2 \<longleftrightarrow>
     env_connect e (fst (keyOf e cfg)) \<and> env_ping e (fst (keyOf e cfg)) \<and> env_find e (keyOf e cfg)
     \<and> env_insertVerified e (verifiedOf m m2)
     \<and> (\<forall>fi \<in> set (wantedSources m (readFolder (folderOf e) f)).
          (\<exists>b. ReadFile f (folderOf e @ ''/'' @ fst fi) = Inr b) \<and> env_insertSource e (sourceOf f (folderOf e) m m2 fi))"

lemma deployedAs_read:
  assumes "replyMeans body x" and "deployedAs x s i u"
  shows "\<not> replyError e body" and "replyText e body ''result.nef.script'' = s"
    and "countersOf e body = [''id'' \<mapsto> i, ''updateCounter'' \<mapsto> u]"
proof -
  from assms(2) have d: "lookup [''error''] x = None" "lookup [''result'', ''nef'', ''script''] x = Some (GStr s)"
    "lookup [''result'', ''id''] x = Some (GNum (Itoa i))" "minInt \<le> i" "i \<le> maxInt"
    "lookup [''result'', ''updatecounter''] x = Some (GNum (Itoa u))" "minInt \<le> u" "u \<le> maxInt"
    unfolding deployedAs_def by blast+
  show "\<not> replyError e body" using replyError_lookup [OF assms(1)] d(1) by simp
  show "replyText e body ''result.nef.script'' = s"
    using replyText_string [OF assms(1) reply_paths(1) d(2), of e] by simp
  have "Atoi (replyText e body ''result.id'') = i"
    using replyText_number [OF assms(1) reply_paths(3) d(3-5), of e] by simp
  moreover have "Atoi (replyText e body ''result.updatecounter'') = u"
    using replyText_number [OF assms(1) reply_paths(4) d(6-8), of e] by simp
  ultimately show "countersOf e body = [''id'' \<mapsto> i, ''updateCounter'' \<mapsto> u]"
    by (simp add: countersOf_def replyCounters_def)
qed

lemma compared_run:
  assumes "execCommand e (folderOf e) (folderOf e) (formOf e ps) (receivedWorld e ps w) = (Ret (b64encode script, m'), w1)"
    and "replyOf e m' = Some body" and "replyMeans body x" and "deployedAs x s i u" and "s \<notin> {''3'', ''4''}"
  shows "multipleFile e (Multipart ps True) w =
    compareScripts e (folderOf e) (b64encode script) s m' [''id'' \<mapsto> i, ''updateCounter'' \<mapsto> u] (asked e m' w1)"
proof -
  note r = deployedAs_read [OF assms(3,4), of e]
  have "verifyUpload e (folderOf e) (folderOf e) (formOf e ps) (receivedWorld e ps w) =
    compareScripts e (folderOf e) (b64encode script) s m' [''id'' \<mapsto> i, ''updateCounter'' \<mapsto> u] (asked e m' w1)"
    by (cases rule: verifyUpload_cases [of e "folderOf e" "formOf e ps" "receivedWorld e ps w"])
       (use assms r in auto)
  then show ?thesis
    by (cases rule: multipleFile_cases [of "Multipart ps True" e w]) auto
qed

lemma rsBody_answer:
  "rsBody (answer code msg r) = rsBody r @ marshalResult \<lparr>Code = code, Msg = msg\<rparr>"
  "rsBody (headerSet n v r) = rsBody r"
  by (simp_all add: answer_def writeBody_def headerSet_def)

text \<open>
  C3. The server decides as it should, when what it relies on works: the compiler stage ends with a
  script, the reply of the RPC node is a JSON object or array that says what is deployed, a script
  other than 3 and 4, the configuration opens, the database is reached, answers the lookup and
  takes the insertions, and the wanted files of the folder can be read. Then the request ends, and
  it answers 8 when the scripts differ, 6 when they agree and the contract is known, and otherwise
  5, with the contract and the files of the folder added to the database; in the other cases the
  databases stay.
\<close>

theorem upload_decided:
  assumes "execCommand e (folderOf e) (folderOf e) (formOf e ps) (receivedWorld e ps w) = (Ret (b64encode script, m'), w1)"
    and "replyOf e m' = Some body" and "replyMeans body x" and "deployedAs x s i u" and "s \<notin> {''3'', ''4''}"
    and "OpenConfigFile e (wfs w1) = Some cfg"
    and "databaseWorks e cfg (wfs w1) m' [''id'' \<mapsto> i, ''updateCounter'' \<mapsto> u]"
  shows "\<exists>w'. multipleFile e (Multipart ps True) w = (Ret (), w')
     \<and> (let k = keyOf e cfg; v = \<lparr>vHash = getContract m', vId = i, vUpdatecounter = u\<rparr>;
            answers = (\<lambda>code msg. rsBody (wresp w') = rsBody (wresp w) @ marshalResult \<lparr>Code = code, Msg = msg\<rparr>)
        in if s \<noteq> b64encode script then answers 8 msgMismatch \<and> wdb w' = wdb w
           else if vKey v \<in> vKey ` set (verified (wdb w k)) then answers 6 msgAlready \<and> wdb w' = wdb w
           else answers 5 msgRecorded
             \<and> (\<forall>k'. k' \<noteq> k \<longrightarrow> wdb w' k' = wdb w k')
             \<and> verified (wdb w' k) = verified (wdb w k) @ [v]
             \<and> sources (wdb w' k) = sources (wdb w k)
                 @ filesOf (wfs w1) (folderOf e) m' [''id'' \<mapsto> i, ''updateCounter'' \<mapsto> u])"
proof -
  let ?m2 = "[''id'' \<mapsto> i, ''updateCounter'' \<mapsto> u]" and ?A = "asked e m' w1" and ?k = "keyOf e cfg"
  note run = compared_run [OF assms(1-5)]
  have same: "wdb w1 = wdb w" "wresp w1 = wresp w"
    using execCommand_frame [of e "folderOf e" "formOf e ps" "receivedWorld e ps w"] execCommand_silent [OF assms(1)] assms(1)
    by simp_all
  have v: "verifiedOf m' ?m2 = \<lparr>vHash = getContract m', vId = i, vUpdatecounter = u\<rparr>"
    by (simp add: verifiedOf_def getId_def getUpdateCounter_def)
  have db: "env_connect e (fst ?k)" "env_ping e (fst ?k)" "env_find e ?k" "env_insertVerified e (verifiedOf m' ?m2)"
    using assms(7) by (simp_all add: databaseWorks_def)
  have known: "foundVerified e ?k m' ?m2 ?A \<longleftrightarrow> vKey (verifiedOf m' ?m2) \<in> vKey ` set (verified (wdb w ?k))"
    using db(3) same by (force simp: foundVerified_def hasVerified_def matchesFilter_def list_ex_iff vKey_def verifiedOf_def image_iff)
  show ?thesis
  proof (cases "s = b64encode script")
    case False
    then show ?thesis using run same by (simp add: compareScripts_def rsBody_answer)
  next
    case True
    with run have m: "multipleFile e (Multipart ps True) w = matched e (folderOf e) m' ?m2 ?A"
      by (simp add: compareScripts_def)
    show ?thesis
    proof (cases "foundVerified e ?k m' ?m2 ?A")
      case found: True
      then show ?thesis
        using m matched_reached [of e ?A cfg] assms(6) db True known v same
        by (simp add: finishAlready_def rsBody_answer)
    next
      case new: False
      have "recordVerified e (folderOf e) ?k m' ?m2 ?A =
          (Ret (), finishRecorded (folderOf e) m' (onDb ?k (recordedDb (wfs ?A) (folderOf e) m' ?m2
            (length (filesOf (wfs ?A) (folderOf e) m' ?m2))) ?A))"
        using assms(7) by (intro recordVerified_all) (simp_all add: databaseWorks_def)
      then show ?thesis
        using m matched_reached [of e ?A cfg] assms(6) db new True known v same
        by (simp add: finishRecorded_def rsBody_answer)
    qed
  qed
qed

subsection \<open>Witnesses\<close>

text \<open>JSON without blanks, piece by piece.\<close>

lemma tight_member:
  "says b k \<Longrightarrow> means v x \<Longrightarrow> meansMembers (sample_quote b @ CHR '':'' # v) [(k, x)]"
  "says b k \<Longrightarrow> means v x \<Longrightarrow> meansMembers m kvs \<Longrightarrow>
     meansMembers (sample_quote b @ CHR '':'' # v @ CHR '','' # m) ((k, x) # kvs)"
  using mmember [of b k "[]" "[]" v x "[]"] mmembers [of b k "[]" "[]" v x "[]" "[]" m kvs]
  by (simp_all add: sample_quote_def)

lemma tight_object: "meansMembers m kvs \<Longrightarrow> means (CHR ''{'' # m @ ''}'') (GObj kvs)"
  using mobject [of "[]" m kvs] by simp

lemma says_plain: "list_all (\<lambda>c. 32 \<le> ord c \<and> c \<noteq> CHR 0x22 \<and> c \<noteq> CHR 0x5C) s \<Longrightarrow> says s s"
  by (induction s) (auto intro: says.intros)

lemma tight_string: "list_all (\<lambda>c. 32 \<le> ord c \<and> c \<noteq> CHR 0x22 \<and> c \<noteq> CHR 0x5C) s \<Longrightarrow> means (sample_quote s) (GStr s)"
  using mstr [OF says_plain] by (simp add: sample_quote_def)

lemma tight_digit: "is_digit c \<Longrightarrow> means [c] (GNum [c])"
proof (rule mnum)
  assume "is_digit c"
  then show "jnumber [c]" unfolding jnumber_def
    by (intro exI [of _ "[]"] exI [of _ "[c]"]) (auto simp: jint_def jfrac_def jexp_def digits_def)
qed

lemma sample_reply_means:
  "means sample_reply (GObj [(''id'', GNum ''1''), (''result'', GObj [(''id'', GNum ''7''), (''updatecounter'', GNum ''2''),
     (''nef'', GObj [(''compiler'', GStr ''boa''), (''script'', GStr ''QA=='')])])])"
proof -
  have n: "means (CHR ''{'' # (sample_quote ''compiler'' @ CHR '':'' # sample_quote ''boa'' @ CHR '','' #
      (sample_quote ''script'' @ CHR '':'' # sample_quote ''QA=='')) @ ''}'')
      (GObj [(''compiler'', GStr ''boa''), (''script'', GStr ''QA=='')])"
    by (intro tight_object tight_member tight_string says_plain) simp_all
  have r: "means (CHR ''{'' # (sample_quote ''id'' @ CHR '':'' # ''7'' @ CHR '','' #
      (sample_quote ''updatecounter'' @ CHR '':'' # ''2'' @ CHR '','' # (sample_quote ''nef'' @ CHR '':'' #
        (CHR ''{'' # (sample_quote ''compiler'' @ CHR '':'' # sample_quote ''boa'' @ CHR '','' #
          (sample_quote ''script'' @ CHR '':'' # sample_quote ''QA=='')) @ ''}'')))) @ ''}'')
      (GObj [(''id'', GNum ''7''), (''updatecounter'', GNum ''2''),
        (''nef'', GObj [(''compiler'', GStr ''boa''), (''script'', GStr ''QA=='')])])"
    by (intro tight_object tight_member tight_digit says_plain n) (simp_all add: is_digit_def)
  have "is_digit (CHR ''1'')" by (simp add: is_digit_def)
  note o = tight_object [OF tight_member(2) [OF says_plain tight_digit [OF this] tight_member(1) [OF says_plain r]], of "''id''" "''result''"]
  show ?thesis using o by (simp add: sample_reply_def)
qed

theorem reply_is_read_witness:
  "getContractState good_env ''d'' good_dict Map.empty (good_start noDocs) =
    (Ret (''boa'', ''QA=='', [''id'' \<mapsto> 7, ''updateCounter'' \<mapsto> 2]),
     called (Posted (rpcNode ''testnet'') (marshalRpc ''0xabc'')) (good_start noDocs))"
proof -
  have "replyMeans sample_reply (GObj [(''id'', GNum ''1''), (''result'', GObj [(''id'', GNum ''7''), (''updatecounter'', GNum ''2''),
      (''nef'', GObj [(''compiler'', GStr ''boa''), (''script'', GStr ''QA=='')])])])"
    unfolding replyMeans_def using sample_reply_means
    by (intro exI [of _ "[]"] exI [of _ sample_reply]) (simp add: sample_reply_def isBox_def)
  moreover have "Itoa 7 = ''7''" "Itoa 2 = ''2''" by (simp_all add: Itoa_def dec.simps digit_def char_of_def bit_0)
  ultimately show ?thesis
    using reply_is_read [of good_env good_dict sample_reply _ "''QA==''" "''boa''" 7 2 "''d''" Map.empty "good_start noDocs"]
    by (simp add: good_form good_env_simps minInt_def maxInt_def)
qed

definition refusing_reply :: bytes where
  "refusing_reply = CHR ''{'' # (sample_quote ''error'' @ CHR '':'' #
     (CHR ''{'' # (sample_quote ''message'' @ CHR '':'' # sample_quote ''no'') @ ''}'')) @ ''}''"

theorem refusal_is_told_witness:
  "getContractState (good_env\<lparr>env_post := (\<lambda>_ _. Some refusing_reply)\<rparr>) ''d'' good_dict Map.empty (good_start noDocs) =
    (Ret ('''', ''4'', Map.empty),
     onFs (\<lambda>f. RemoveAll f ''d'') (onResp (answer 4 ''no'')
       (called (Posted (rpcNode ''testnet'') (marshalRpc ''0xabc'')) (good_start noDocs))))"
proof -
  have "means refusing_reply (GObj [(''error'', GObj [(''message'', GStr ''no'')])])"
    unfolding refusing_reply_def by (intro tight_object tight_member tight_string says_plain) simp_all
  then have "replyMeans refusing_reply (GObj [(''error'', GObj [(''message'', GStr ''no'')])])"
    unfolding replyMeans_def by (intro exI [of _ "[]"] exI [of _ refusing_reply]) (simp add: refusing_reply_def isBox_def)
  from refusal_is_told [OF _ this, of "good_env\<lparr>env_post := (\<lambda>_ _. Some refusing_reply)\<rparr>" good_dict "''no''" "''d''" Map.empty "good_start noDocs"]
  show ?thesis by (simp add: good_form good_env_simps)
qed

theorem upload_decided_witness:
  "\<exists>w'. multipleFile good_env (Multipart good_parts True) (good_start noDocs) = (Ret (), w')
     \<and> rsBody (wresp w') = marshalResult \<lparr>Code = 5, Msg = msgRecorded\<rparr> \<and> verified (wdb w' good_key) = [good_verified]"
proof -
  let ?x = "GObj [(''id'', GNum ''1''), (''result'', GObj [(''id'', GNum ''7''), (''updatecounter'', GNum ''2''),
      (''nef'', GObj [(''compiler'', GStr ''boa''), (''script'', GStr ''QA=='')])])]"
  have d: "Itoa 7 = ''7''" "Itoa 2 = ''2''" by (simp_all add: Itoa_def dec.simps digit_def char_of_def bit_0)
  have r: "replyMeans sample_reply ?x"
    unfolding replyMeans_def using sample_reply_means
    by (intro exI [of _ "[]"] exI [of _ sample_reply]) (simp add: sample_reply_def isBox_def)
  have says: "deployedAs ?x ''QA=='' 7 2" by (simp add: deployedAs_def d minInt_def maxInt_def)
  have exec: "execCommand good_env (folderOf good_env) (folderOf good_env) good_dict
      (receivedWorld good_env good_parts (good_start noDocs)) = (Ret (b64encode (nfScript sample_nef), good_dict), good_built noDocs)"
    using good_exec by (simp add: good_env_simps)
  have asked: "replyOf good_env good_dict = Some sample_reply" by (simp add: replyOf_def good_env_simps)
  have db: "databaseWorks good_env sample_config (wfs (good_built noDocs)) good_dict m2" for m2
    unfolding databaseWorks_def using good_readable [of good_dict noDocs m2] good_insertions by blast
  have "''QA=='' \<notin> {''3'', ''4''}" by simp
  from upload_decided [OF exec asked r says this good_config db]
  show ?thesis
    by (simp add: good_script good_form good_verified_def Let_def) (auto simp: emptyDb_def noResponse_def)
qed

end
