(* ===== verification/GoJsonRead.thy ===== *)
theory GoJsonRead
  imports GjsonValid
begin

text \<open>
  Two functions of Go's standard library on which \<open>callflag\<close> of \<open>neo-go\<close>, \<open>gjson\<close> and
  \<open>tidwall/pretty\<close> rest: \<open>strings.TrimSpace\<close>, and \<open>json.Unmarshal\<close> into a string.
\<close>

section \<open>strings.TrimSpace\<close>

text \<open>\<open>unicode.IsSpace\<close>.\<close>

definition isSpaceRune :: "nat \<Rightarrow> bool" where
  "isSpaceRune r =
     (9 \<le> r \<and> r \<le> 13 \<or> r \<in> {0x20, 0x85, 0xA0, 0x1680, 0x2028, 0x2029, 0x202F, 0x205F, 0x3000}
      \<or> 0x2000 \<le> r \<and> r \<le> 0x200A)"

function trimSpaceLeft :: "string \<Rightarrow> string" where
  "trimSpaceLeft s =
     (if s \<noteq> [] \<and> isSpaceRune (fst (decodeRune s)) then trimSpaceLeft (drop (snd (decodeRune s)) s) else s)"
  by pat_completeness auto
termination
  by (relation "measure length") (auto simp: decodeRune_size)

function trimSpaceRight :: "string \<Rightarrow> string" where
  "trimSpaceRight s =
     (if s \<noteq> [] \<and> isSpaceRune (fst (decodeLastRune s))
      then trimSpaceRight (take (length s - snd (decodeLastRune s)) s) else s)"
  by pat_completeness auto
termination
  by (relation "measure length") (auto simp: decodeLastRune_size)

declare trimSpaceLeft.simps [simp del] trimSpaceRight.simps [simp del]

definition trimSpace :: "string \<Rightarrow> string" where
  "trimSpace s = trimSpaceRight (trimSpaceLeft s)"

lemma trimSpace_Nil [simp]: "trimSpace [] = []"
  by (simp add: trimSpace_def trimSpaceLeft.simps trimSpaceRight.simps)

text \<open>A text that begins and ends with other ASCII characters stays.\<close>

lemma trimSpace_tight:
  assumes "s \<noteq> []" and "ord (hd s) < 0x80" and "\<not> isSpaceRune (ord (hd s))"
    and "ord (last s) < 0x80" and "\<not> isSpaceRune (ord (last s))"
  shows "trimSpace s = s"
proof -
  have "fst (decodeRune s) = ord (hd s)" using assms(1,2) by (cases s) simp_all
  moreover have "fst (decodeLastRune s) = ord (last s)"
    using decodeLastRune_ascii [of "last s" "butlast s"] assms(1,4) by simp
  ultimately show ?thesis using assms
    by (simp add: trimSpace_def trimSpaceLeft.simps [of s] trimSpaceRight.simps [of s])
qed

section \<open>json.Unmarshal into a string\<close>

text \<open>
  \<open>unquote\<close> of \<open>encoding/json\<close>, on what stands between the quotes of a valid literal: ill-formed
  bytes and lone surrogates become U+FFFD, and unlike \<open>gjson\<close> a surrogate that the next escape
  does not complete leaves that escape alone.
\<close>

definition quotedRune :: "string \<Rightarrow> nat \<times> string" where
  "quotedRune rest =
     (let r = runeit rest; more = drop 4 rest in
      if \<not> isSurrogate r then (r, more)
      else if take 2 more = CHR 0x5C # ''u'' \<and> decodeSurrogates r (runeit (drop 2 more)) \<noteq> RuneError
      then (decodeSurrogates r (runeit (drop 2 more)), drop 6 more)
      else (RuneError, more))"

function unquote :: "string \<Rightarrow> string" where
  "unquote s =
     (case s of
        [] \<Rightarrow> []
      | c # cs \<Rightarrow>
          if c = CHR 0x5C then
            (case cs of
               [] \<Rightarrow> []
             | e # rest \<Rightarrow>
                 (case simpleEscape e of
                    Some d \<Rightarrow> d # unquote rest
                  | None \<Rightarrow> utf8_encode (fst (quotedRune rest)) @ unquote (snd (quotedRune rest))))
          else utf8_encode (fst (decodeRune s)) @ unquote (drop (snd (decodeRune s)) s))"
  by pat_completeness auto
termination
  by (relation "measure length") (auto simp: quotedRune_def Let_def decodeRune_size)

declare unquote.simps [simp del]

text \<open>
  The text must be valid; a string is unquoted, \<open>null\<close> leaves the empty string, and another value
  is an error. The grammar of \<open>encoding/json\<close> is the one of \<open>Valid\<close>.
\<close>

definition unmarshalString :: "bytes \<Rightarrow> string option" where
  "unmarshalString data =
     (let lit = rev (dropWhile isWs (rev (dropWhile isWs data))) in
      if \<not> Valid data then None
      else if hd lit = CHR 0x22 then Some (unquote (butlast (tl lit)))
      else if hd lit = CHR ''n'' then Some ''''
      else None)"

lemma unquote_plain: "list_all (\<lambda>c. ord c < 0x80 \<and> c \<noteq> CHR 0x5C) s \<Longrightarrow> unquote s = s"
proof (induction s)
  case (Cons c s)
  then have "utf8_encode (ord c) = [c]" by (simp add: utf8_encode_def isSurrogate_def)
  with Cons show ?case by (subst unquote.simps) simp
qed (simp add: unquote.simps)

text \<open>A literal without escapes.\<close>

lemma validstring_plain:
  "list_all (\<lambda>c. 32 \<le> ord c \<and> ord c < 0x80 \<and> c \<noteq> CHR 0x22 \<and> c \<noteq> CHR 0x5C) s \<Longrightarrow>
     validstring (s @ CHR 0x22 # t) = Some t"
  by (induction s) auto

lemma unmarshalString_plain:
  assumes "list_all (\<lambda>c. 32 \<le> ord c \<and> ord c < 0x80 \<and> c \<noteq> CHR 0x22 \<and> c \<noteq> CHR 0x5C) s"
  shows "unmarshalString ([CHR 0x22] @ s @ [CHR 0x22]) = Some s"
proof -
  have "unquote s = s" using assms by (intro unquote_plain) (auto simp: list_all_iff)
  moreover have "Valid ([CHR 0x22] @ s @ [CHR 0x22])"
    using validstring_plain [OF assms, of "[]"] by (simp add: Valid_def validpayload_def isWs_def is_digit_def)
  ultimately show ?thesis by (simp add: unmarshalString_def isWs_def)
qed

end
