(* ===== verification/CallFlags.thy ===== *)
theory CallFlags
  imports NefFile GoJsonRead
begin

unbundle bit_operations_syntax

text \<open>
  The call flags of method tokens, package \<open>smartcontract/callflag\<close> of \<open>neo-go\<close>: their names, and
  the names of their combinations, which are read back.
\<close>

definition NoneFlag :: "8 word" where "NoneFlag = 0"
definition ReadStates :: "8 word" where "ReadStates = 1"
definition WriteStates :: "8 word" where "WriteStates = 2"
definition AllowCall :: "8 word" where "AllowCall = 4"
definition AllowNotify :: "8 word" where "AllowNotify = 8"
definition States :: "8 word" where "States = ReadStates OR WriteStates"
definition ReadOnly :: "8 word" where "ReadOnly = ReadStates OR AllowCall"

lemmas flag_defs = NoneFlag_def ReadStates_def WriteStates_def AllowCall_def AllowNotify_def States_def ReadOnly_def
  callflagAll_def

text \<open>The map of names; a flag without one has the empty name.\<close>

definition flagString :: "(8 word \<times> string) list" where
  "flagString =
     [(ReadStates, ''ReadStates''), (WriteStates, ''WriteStates''), (AllowCall, ''AllowCall''),
      (AllowNotify, ''AllowNotify''), (States, ''States''), (ReadOnly, ''ReadOnly''),
      (callflagAll, ''All''), (NoneFlag, ''None'')]"

definition flagText :: "8 word \<Rightarrow> string" where
  "flagText f = (case map_of flagString f of None \<Rightarrow> '''' | Some s \<Rightarrow> s)"

definition basicFlags :: "8 word list" where
  "basicFlags = [ReadOnly, States, ReadStates, WriteStates, AllowCall, AllowNotify]"

section \<open>Reading\<close>

text \<open>The loop over the parts between commas.\<close>

primrec flagsOf :: "string list \<Rightarrow> 8 word \<Rightarrow> string + 8 word" where
  "flagsOf [] res = Inr res"
| "flagsOf (flag # flags) res =
     (case find (\<lambda>f. trimSpace flag = flagText f) basicFlags of
        None \<Rightarrow> Inl ''unknown/inappropriate flag''
      | Some f \<Rightarrow> flagsOf flags (res OR f))"

definition flagFromString :: "string \<Rightarrow> string + 8 word" where
  "flagFromString s =
     (let flags = splitOn (CHR '','') s in
      if length flags = 1 then
        (case find (\<lambda>e. s = snd e) flagString of None \<Rightarrow> Inl ''unknown flag'' | Some e \<Rightarrow> Inr (fst e))
      else flagsOf flags NoneFlag)"

section \<open>Printing\<close>

definition flagHas :: "8 word \<Rightarrow> 8 word \<Rightarrow> bool" where
  "flagHas f cf = (f AND cf = cf)"

primrec joinFlags :: "8 word list \<Rightarrow> 8 word \<Rightarrow> string \<Rightarrow> string" where
  "joinFlags [] f res = res"
| "joinFlags (flag # flags) f res =
     (if flagHas f flag
      then joinFlags flags (f AND NOT flag) ((if res \<noteq> [] then res @ '', '' else res) @ flagText flag)
      else joinFlags flags f res)"

definition flagName :: "8 word \<Rightarrow> string" where
  "flagName f = (if flagText f \<noteq> '''' then flagText f else joinFlags basicFlags f '''')"

definition flagMarshalJSON :: "8 word \<Rightarrow> bytes" where
  "flagMarshalJSON f = [CHR 0x22] @ flagName f @ [CHR 0x22]"

definition flagUnmarshalJSON :: "bytes \<Rightarrow> string + 8 word" where
  "flagUnmarshalJSON data =
     (case unmarshalString data of None \<Rightarrow> Inl ''json error'' | Some js \<Rightarrow> flagFromString js)"

section \<open>The round trip\<close>

lemma all_flags:
  assumes "f AND NOT callflagAll = 0"
  shows "f \<in> {0, 1, 2, 3, 4, 5, 6, 7, 8, 9, 10, 11, 12, 13, 14, 15}"
proof -
  have "f = f AND (callflagAll OR NOT callflagAll)" by simp
  also have "\<dots> = f AND callflagAll" using assms by (simp only: bit.conj_disj_distrib bit.disj_zero_right)
  finally have "f \<le> 15" using word_and_le1 [of f callflagAll] by (metis callflagAll_def)
  then have "unat f \<in> set [0..<16]" by (simp add: word_le_nat_alt)
  then have "of_nat (unat f) \<in> (of_nat ` set [0..<16] :: 8 word set)" by (rule imageI)
  then show ?thesis by (simp add: upt_rec)
qed

lemmas name_eqs = flagName_def flagText_def flagString_def flag_defs basicFlags_def flagHas_def
lemmas read_eqs = flagFromString_def trimSpace_def trimSpaceLeft.simps trimSpaceRight.simps isSpaceRune_def
  decodeLastRune_def

lemma flag_names:
  "flagName 0 = ''None''" "flagName 1 = ''ReadStates''" "flagName 2 = ''WriteStates''" "flagName 3 = ''States''"
  "flagName 4 = ''AllowCall''" "flagName 5 = ''ReadOnly''" "flagName 6 = ''WriteStates, AllowCall''"
  "flagName 7 = ''ReadOnly, WriteStates''" "flagName 8 = ''AllowNotify''" "flagName 9 = ''ReadStates, AllowNotify''"
  "flagName 10 = ''WriteStates, AllowNotify''" "flagName 11 = ''States, AllowNotify''"
  "flagName 12 = ''AllowCall, AllowNotify''" "flagName 13 = ''ReadOnly, AllowNotify''"
  "flagName 14 = ''WriteStates, AllowCall, AllowNotify''" "flagName 15 = ''All''"
  by (simp_all add: name_eqs)

lemma flags_read_back: "f AND NOT callflagAll = 0 \<Longrightarrow> flagFromString (flagName f) = Inr f"
  by (drule all_flags, elim insertE emptyE) (simp_all only: flag_names, simp_all add: read_eqs name_eqs)

lemma names_plain:
  "f AND NOT callflagAll = 0 \<Longrightarrow> list_all (\<lambda>c. 32 \<le> ord c \<and> ord c < 0x80 \<and> c \<noteq> CHR 0x22 \<and> c \<noteq> CHR 0x5C) (flagName f)"
  by (drule all_flags, elim insertE emptyE) (simp_all only: flag_names, simp_all)

lemma flagsOf_inside: "flagsOf flags res = Inr f \<Longrightarrow> res AND NOT callflagAll = 0 \<Longrightarrow> f AND NOT callflagAll = 0"
proof (induction flags arbitrary: res)
  case (Cons flag flags)
  then obtain b where b: "find (\<lambda>f. trimSpace flag = flagText f) basicFlags = Some b" "flagsOf flags (res OR b) = Inr f"
    by (auto split: option.splits)
  then have "b \<in> set basicFlags" by (auto simp: find_Some_iff)
  moreover have "list_all (\<lambda>b. b AND NOT callflagAll = 0) basicFlags" by code_simp
  ultimately have "b AND NOT callflagAll = 0" by (simp add: list_all_iff)
  with Cons.prems(2) have "(res OR b) AND NOT callflagAll = 0" by (simp add: bit.conj_disj_distrib2)
  with Cons.IH b(2) show ?case by blast
qed simp

lemma flagFromString_inside:
  assumes "flagFromString s = Inr f"
  shows "f AND NOT callflagAll = 0"
proof (cases "length (splitOn (CHR '','') s) = 1")
  case True
  with assms obtain e where "find (\<lambda>e. s = snd e) flagString = Some e" "f = fst e"
    by (auto simp: flagFromString_def Let_def split: option.splits)
  then have "e \<in> set flagString" by (auto simp: find_Some_iff)
  moreover have "list_all (\<lambda>e. fst e AND NOT callflagAll = 0) flagString" by code_simp
  ultimately show ?thesis using \<open>f = fst e\<close> by (simp add: list_all_iff)
next
  case False
  then have "flagsOf (splitOn (CHR '','') s) NoneFlag = Inr f" using assms by (simp add: flagFromString_def Let_def)
  from flagsOf_inside [OF this] show ?thesis by (simp add: NoneFlag_def)
qed

text \<open>
  The flags that are read back from their names, and from the JSON of their names, are exactly
  the ones without unknown bits, which the contract file parser accepts in a method token.
\<close>

theorem callflag_roundtrip:
  "flagFromString (flagName f) = Inr f \<longleftrightarrow> f AND NOT callflagAll = 0"
  "flagUnmarshalJSON (flagMarshalJSON f) = Inr f \<longleftrightarrow> f AND NOT callflagAll = 0"
proof -
  have "f AND NOT callflagAll = 0 \<Longrightarrow> flagFromString (flagName f) = Inr f \<and> flagUnmarshalJSON (flagMarshalJSON f) = Inr f"
    using flags_read_back unmarshalString_plain [OF names_plain] by (simp add: flagUnmarshalJSON_def flagMarshalJSON_def)
  moreover have "flagUnmarshalJSON data = Inr f \<Longrightarrow> f AND NOT callflagAll = 0" for data
    by (auto simp: flagUnmarshalJSON_def dest: flagFromString_inside split: option.splits)
  ultimately show "flagFromString (flagName f) = Inr f \<longleftrightarrow> f AND NOT callflagAll = 0"
    "flagUnmarshalJSON (flagMarshalJSON f) = Inr f \<longleftrightarrow> f AND NOT callflagAll = 0"
    using flagFromString_inside by blast+
qed

end
