(* ===== verification/GjsonPath.thy ===== *)
theory GjsonPath
  imports GjsonResult
begin

text \<open>
  The path language of \<open>gjson.go\<close> beyond keys and indices: array paths with \<open>#\<close> and queries,
  sub-selectors, pipes and modifiers. Each parser walks the path by index, as in the code; with
  each goes a lemma that what it hands on is shorter than what it got, which is what makes
  \<open>Get\<close> return (\<open>GjsonGet\<close>).
\<close>

section \<open>Trimming and quotes\<close>

definition trimLeft :: "string \<Rightarrow> string" where
  "trimLeft s = dropWhile (\<lambda>c. ord c \<le> 32) s"

definition trim :: "string \<Rightarrow> string" where
  "trim s = rev (trimLeft (rev (trimLeft s)))"

lemma trimLeft_le: "length (trimLeft s) \<le> length s"
  by (simp add: trimLeft_def length_dropWhile_le)

lemma trim_le: "length (trim s) \<le> length s"
  using trimLeft_le [of s] trimLeft_le [of "rev (trimLeft s)"] by (simp add: trim_def)

text \<open>
  A quoted text inside a path, from the byte after its opening quote: the index of the closing
  quote, or an index beyond the path, and whether there was a backslash.
\<close>

function quotedTo :: "string \<Rightarrow> nat \<Rightarrow> bool \<Rightarrow> nat \<times> bool" where
  "quotedTo path i vesc =
     (if length path \<le> i then (i, vesc)
      else if path ! i = CHR 0x5C then quotedTo path (i + 2) True
      else if path ! i = CHR 0x22 then (i, vesc)
      else quotedTo path (Suc i) vesc)"
  by pat_completeness auto
termination
  by (relation "measure (\<lambda>(path, i, vesc). length path - i)") auto

declare quotedTo.simps [simp del]

lemma quotedTo_ge: "i \<le> fst (quotedTo path i vesc)"
proof (induction path i vesc rule: quotedTo.induct)
  case (1 path i vesc)
  then show ?case by (subst quotedTo.simps) auto
qed

lemma quotedTo_next: "i < Suc (fst (quotedTo path (Suc i) vesc))"
  using quotedTo_ge [of "Suc i" path vesc] by simp

section \<open>Queries\<close>

definition opens :: "char \<Rightarrow> bool" where
  "opens c = (c = CHR ''['' \<or> c = CHR ''('')"

definition closes :: "char \<Rightarrow> bool" where
  "closes c = (c = CHR '']'' \<or> c = CHR '')'')"

definition opByte :: "char \<Rightarrow> bool" where
  "opByte c = (c \<in> {CHR ''!'', CHR ''='', CHR ''<'', CHR ''>'', CHR ''%''})"

text \<open>
  The loop of \<open>parseQuery\<close>: \<open>j\<close> is where the operator starts (0 for none yet). It ends at the
  bracket that closes the query, with depth 0, or at the end of the path.
\<close>

function queryLoop :: "string \<Rightarrow> nat \<Rightarrow> nat \<Rightarrow> nat \<Rightarrow> bool \<Rightarrow> nat \<times> nat \<times> nat \<times> bool" where
  "queryLoop query i j depth vesc =
     (if length query \<le> i then (i, j, depth, vesc)
      else
        let c = query ! i in
        if depth = 1 \<and> j = 0 \<and> opByte c then queryLoop query (Suc i) i depth vesc
        else if c = CHR 0x5C then queryLoop query (i + 2) j depth vesc
        else if opens c then queryLoop query (Suc i) j (Suc depth) vesc
        else if closes c then
          (if depth = 1 then (i, j, 0, vesc) else queryLoop query (Suc i) j (depth - 1) vesc)
        else if c = CHR 0x22 then
          (case quotedTo query (Suc i) vesc of (k, vesc') \<Rightarrow> queryLoop query (Suc k) j depth vesc')
        else queryLoop query (Suc i) j depth vesc)"
  by pat_completeness auto

lemma quotedTo_measure: "(k, v) = quotedTo path (Suc i) vesc \<Longrightarrow> i < length path \<Longrightarrow> length path - Suc k < length path - i"
  using quotedTo_ge [of "Suc i" path vesc] by (metis diff_less_mono2 fst_conv le_imp_less_Suc less_SucI Suc_lessD)

termination queryLoop
  by (relation "measure (\<lambda>(query, i, j, depth, vesc). length query - i)") (auto intro: quotedTo_measure)

declare queryLoop.simps [simp del]

text \<open>The operator at the head of the value part.\<close>

definition opSize :: "string \<Rightarrow> nat" where
  "opSize value =
     (if length value = 1 then 1
      else if take 2 value \<in> {''!='', ''!%'', ''<='', ''>=''} then 2
      else if hd value \<in> {CHR ''<'', CHR ''>'', CHR ''='', CHR ''%''} then 1
      else 0)"

definition splitOp :: "string \<Rightarrow> string \<times> string" where
  "splitOp value0 =
     (let value = (if length value0 \<noteq> 1 \<and> take 2 value0 = ''=='' then tl value0 else value0)
      in (take (opSize value) value, trim (drop (opSize value) value)))"

record parsedQuery =
  qPath :: string
  qOp :: string
  qValue :: string
  qRemain :: string
  qEnd :: nat
  qEsc :: bool

definition parseQuery :: "string \<Rightarrow> parsedQuery option" where
  "parseQuery query =
     (if length query < 2 \<or> query ! 0 \<noteq> CHR ''#'' \<or> \<not> opens (query ! 1) then None
      else case queryLoop query 2 0 1 False of (i, j, depth, vesc) \<Rightarrow>
        if depth > 0 then None
        else if j > 0 then
          (case splitOp (trim (slice query j i)) of (op, val) \<Rightarrow>
             Some \<lparr>qPath = trim (slice query 2 j), qOp = op, qValue = val, qRemain = drop (i + 1) query,
               qEnd = i + 1, qEsc = vesc\<rparr>)
        else
          Some \<lparr>qPath = trim (slice query 2 i), qOp = '''', qValue = '''', qRemain = drop (i + 1) query,
            qEnd = i + 1, qEsc = vesc\<rparr>)"

lemma slice_le: "length (slice json a b) \<le> length json - a"
  by (simp add: slice_def)

lemma parseQuery_shorter:
  assumes "parseQuery query = Some q"
  shows "length (qPath q) < length query" and "0 < qEnd q"
proof -
  have "2 \<le> length query" using assms by (simp add: parseQuery_def split: if_splits)
  moreover have "length (trim (slice query 2 n)) \<le> length query - 2" for n
    using trim_le [of "slice query 2 n"] slice_le [of query 2 n] by simp
  ultimately have "length (trim (slice query 2 n)) < length query" for n
    by (metis diff_less le_less_trans numeral_2_eq_2 order_less_le_trans zero_less_Suc)
  then show "length (qPath q) < length query" "0 < qEnd q"
    using assms by (auto simp: parseQuery_def split: if_splits prod.splits)
qed

section \<open>Array paths\<close>

text \<open>\<open>parseArrayPath\<close> with \<open>#\<close>: all elements, their number, or those that match a query.\<close>

record arrayPath =
  pPart :: string
  pPath :: string
  pPipe :: string
  pPiped :: bool
  pMore :: bool
  pAlogok :: bool
  pArrch :: bool
  pAlogkey :: string
  pOn :: bool
  pAll :: bool
  pQuery :: string
  pOp :: string
  pValue :: string

definition noArrayPath :: arrayPath where
  "noArrayPath = \<lparr>pPart = '''', pPath = '''', pPipe = '''', pPiped = False, pMore = False, pAlogok = False, pArrch = False,
     pAlogkey = '''', pOn = False, pAll = False, pQuery = '''', pOp = '''', pValue = ''''\<rparr>"

text \<open>The value of a query without its quotes.\<close>

definition queryValue :: "parsedQuery \<Rightarrow> string" where
  "queryValue q =
     (let v = qValue q in
      if 2 < length v \<and> hd v = CHR 0x22 \<and> last v = CHR 0x22
      then (let b = slice v 1 (length v - 1) in if qEsc q then unescape b else b)
      else v)"

definition dotPipedAt :: "string \<Rightarrow> nat \<Rightarrow> bool" where
  "dotPipedAt path i = (i < length path - 1 \<and> isDotPiperChar (path ! (i + 1)))"

function arrayPathLoop :: "string \<Rightarrow> nat \<Rightarrow> arrayPath \<Rightarrow> arrayPath" where
  "arrayPathLoop path i r =
     (if length path \<le> i then r\<lparr>pPart := path, pPath := ''''\<rparr>
      else
        let c = path ! i in
        if c = CHR ''|'' then r\<lparr>pPart := take i path, pPipe := drop (i + 1) path, pPiped := True\<rparr>
        else if c = CHR ''.'' then
          (if \<not> pArrch r \<and> dotPipedAt path i
           then r\<lparr>pPart := take i path, pPipe := drop (i + 1) path, pPiped := True\<rparr>
           else r\<lparr>pPart := take i path, pPath := drop (i + 1) path, pMore := True\<rparr>)
        else if c \<noteq> CHR ''#'' then arrayPathLoop path (Suc i) r
        else if i = 0 \<and> 1 < length path \<and> path ! 1 = CHR ''.'' then
          arrayPathLoop path (Suc i) (r\<lparr>pArrch := True, pAlogok := True, pAlogkey := drop 2 path, pPath := take 1 path\<rparr>)
        else if i = 0 \<and> 1 < length path \<and> opens (path ! 1) then
          (case parseQuery path of
             None \<Rightarrow> r\<lparr>pArrch := True, pOn := True, pPart := path, pPath := ''''\<rparr>
           | Some q \<Rightarrow>
               arrayPathLoop path (qEnd q)
                 (r\<lparr>pArrch := True, pOn := True, pQuery := qPath q, pOp := qOp q, pValue := queryValue q,
                    pAll := (qEnd q < length path \<and> path ! qEnd q = CHR ''#'')\<rparr>))
        else arrayPathLoop path (Suc i) (r\<lparr>pArrch := True\<rparr>))"
  by pat_completeness auto
termination
  by (relation "measure (\<lambda>(path, i, r). length path - i)") (auto dest: parseQuery_shorter(2))

declare arrayPathLoop.simps [simp del]

definition parseArrayQuery :: "string \<Rightarrow> arrayPath" where
  "parseArrayQuery path = arrayPathLoop path 0 noArrayPath"

text \<open>All that is read again is shorter than the path.\<close>

definition pathBelow :: "nat \<Rightarrow> arrayPath \<Rightarrow> bool" where
  "pathBelow n r = (length (pPath r) < n \<and> length (pPipe r) < n \<and> length (pAlogkey r) < n \<and> length (pQuery r) < n)"

lemma arrayPathLoop_below:
  "pathBelow n r \<Longrightarrow> length path = n \<Longrightarrow> pathBelow n (arrayPathLoop path i r)"
proof (induction path i r rule: arrayPathLoop.induct)
  case (1 path i r)
  show ?case
  proof (cases "parseQuery path")
    case None
    with 1 show ?thesis by (subst arrayPathLoop.simps) (auto simp: pathBelow_def Let_def)
  next
    case (Some q)
    with 1 parseQuery_shorter(1) [OF Some] show ?thesis
      by (subst arrayPathLoop.simps) (auto simp: pathBelow_def Let_def)
  qed
qed

lemma parseArrayQuery_below: "path \<noteq> [] \<Longrightarrow> pathBelow (length path) (parseArrayQuery path)"
  unfolding parseArrayQuery_def by (rule arrayPathLoop_below) (simp_all add: pathBelow_def noArrayPath_def)

text \<open>On a path without \<open>#\<close> this is the parser of \<open>Gjson\<close>.\<close>

definition plainArrayPath :: "arrayPathResult \<Rightarrow> arrayPath" where
  "plainArrayPath r = noArrayPath\<lparr>pPart := aPart r, pPath := aPath r, pPipe := aPipe r, pPiped := aPiped r, pMore := aMore r\<rparr>"

lemma dotPipedAt_drop: "i < length path \<Longrightarrow> dotPipedAt path i = dotPiped (drop (Suc i) path)"
  by (cases "Suc i < length path") (auto simp: dotPipedAt_def dotPiped_def Cons_nth_drop_Suc [symmetric])

lemma arrayPathLoop_plain:
  "CHR ''#'' \<notin> set path \<Longrightarrow> i \<le> length path \<Longrightarrow>
     arrayPathLoop path i noArrayPath = plainArrayPath (arrayPathFrom (take i path) (drop i path))"
proof (induction "length path - i" arbitrary: i)
  case 0
  then show ?case by (simp add: arrayPathLoop.simps plainArrayPath_def noArrayPath_def)
next
  case (Suc n)
  then have i: "i < length path" by simp
  then have d: "drop i path = path ! i # drop (Suc i) path" by (simp add: Cons_nth_drop_Suc)
  have "path ! i \<noteq> CHR ''#''" using Suc.prems(1) i nth_mem by metis
  then show ?case
    using Suc.hyps(1) [of "Suc i"] Suc.hyps(2) Suc.prems(1) i
    by (subst arrayPathLoop.simps)
      (auto simp: d Let_def dotPipedAt_drop take_Suc_conv_app_nth plainArrayPath_def noArrayPath_def)
qed

lemma parseArrayQuery_plain: "CHR ''#'' \<notin> set path \<Longrightarrow> parseArrayQuery path = plainArrayPath (parseArrayPath path)"
  using arrayPathLoop_plain [of path 0] by (simp add: parseArrayQuery_def parseArrayPath_def)

section \<open>Pipes behind a path\<close>

text \<open>The loop of \<open>splitPossiblePipe\<close> over a selector in brackets: where it ends.\<close>

function selectorEnd :: "string \<Rightarrow> char \<Rightarrow> char \<Rightarrow> nat \<Rightarrow> nat \<Rightarrow> nat" where
  "selectorEnd path start end' i depth =
     (if length path \<le> i then i
      else
        let c = path ! i in
        if c = CHR 0x5C then selectorEnd path start end' (i + 2) depth
        else if c = start then selectorEnd path start end' (Suc i) (Suc depth)
        else if c = end' then (if depth = 1 then i else selectorEnd path start end' (Suc i) (depth - 1))
        else if c = CHR 0x22 then selectorEnd path start end' (Suc (fst (quotedTo path (Suc i) False))) depth
        else selectorEnd path start end' (Suc i) depth)"
  by pat_completeness auto
termination
  by (relation "measure (\<lambda>(path, start, end', i, depth). length path - i)")
    (auto intro!: diff_less_mono2 quotedTo_next)

declare selectorEnd.simps [simp del]

lemma selectorEnd_ge: "i \<le> selectorEnd path start end' i depth"
proof (induction path start end' i depth rule: selectorEnd.induct)
  case (1 path start end' i depth)
  have "i \<le> fst (quotedTo path (Suc i) False)" using quotedTo_ge [of "Suc i" path False] by simp
  with 1 show ?case by (subst selectorEnd.simps) (auto simp: Let_def intro: le_trans)
qed

text \<open>
  The walk itself. After \<open>.#\<close> the index goes on behind the byte that follows, whatever it is,
  unless it opens a selector.
\<close>

function pipeFrom :: "string \<Rightarrow> nat \<Rightarrow> (string \<times> string) option" where
  "pipeFrom path i =
     (if length path \<le> i then None
      else
        let c = path ! i in
        if c = CHR 0x5C then pipeFrom path (i + 2)
        else if c = CHR ''.'' then
          (if i = length path - 1 then None
           else if path ! (i + 1) = CHR ''#'' then
             (if i + 2 = length path then None
              else if opens (path ! (i + 2)) then
                pipeFrom path (Suc (selectorEnd path (path ! (i + 2))
                  (if path ! (i + 2) = CHR ''['' then CHR '']'' else CHR '')'') (i + 3) 1))
              else pipeFrom path (i + 3))
           else pipeFrom path (Suc i))
        else if c = CHR ''|'' then Some (take i path, drop (i + 1) path)
        else pipeFrom path (Suc i))"
  by pat_completeness auto
termination
  by (relation "measure (\<lambda>(path, i). length path - i)")
    (auto intro!: diff_less_mono2 le_less_trans [OF _ selectorEnd_ge [THEN le_imp_less_Suc]])

declare pipeFrom.simps [simp del]

definition splitPossiblePipe :: "string \<Rightarrow> (string \<times> string) option" where
  "splitPossiblePipe path =
     (if CHR ''|'' \<notin> set path then None
      else if hd path = CHR ''{'' then
        (let n = length (squash (tl path)) in
         if n < length path - 1 \<and> path ! (n + 1) = CHR ''|'' then Some (take (n + 1) path, drop (n + 2) path)
         else None)
      else pipeFrom path 0)"

lemma pipeFrom_shorter: "pipeFrom path i = Some (left, right) \<Longrightarrow> length left < length path \<and> length right < length path"
proof (induction path i rule: pipeFrom.induct)
  case (1 path i)
  note IH = 1(1-5) [OF _ refl]
  show ?case
    using 1(6) by (subst (asm) pipeFrom.simps) (auto simp: Let_def dest: IH split: if_splits)
qed

lemma splitPossiblePipe_shorter:
  "splitPossiblePipe path = Some (left, right) \<Longrightarrow> length left < length path \<and> length right < length path"
  by (cases path) (auto simp: splitPossiblePipe_def Let_def split: if_splits dest!: pipeFrom_shorter)

section \<open>Sub-selectors\<close>

record subSelector =
  selName :: string
  selPath :: string

definition pushSel :: "string \<Rightarrow> nat \<Rightarrow> nat \<Rightarrow> nat \<Rightarrow> subSelector" where
  "pushSel path colon start i =
     (if colon = 0 then \<lparr>selName = '''', selPath = slice path start i\<rparr>
      else \<lparr>selName = slice path start colon, selPath = slice path (colon + 1) i\<rparr>)"

function subsLoop :: "string \<Rightarrow> nat \<Rightarrow> bool \<Rightarrow> nat \<Rightarrow> nat \<Rightarrow> nat \<Rightarrow> subSelector list
      \<Rightarrow> (subSelector list \<times> string) option" where
  "subsLoop path i modifier depth colon start sels =
     (if length path \<le> i then None
      else
        let c = path ! i in
        if c = CHR 0x5C then subsLoop path (i + 2) modifier depth colon start sels
        else if c = CHR ''@'' then
          subsLoop path (Suc i) (modifier \<or> 0 < i \<and> path ! (i - 1) \<in> {CHR ''.'', CHR ''|''}) depth colon start sels
        else if c = CHR '':'' then
          subsLoop path (Suc i) modifier depth (if \<not> modifier \<and> colon = 0 \<and> depth = 1 then i else colon) start sels
        else if c = CHR '','' then
          (if depth = 1 then subsLoop path (Suc i) modifier depth 0 (i + 1) (sels @ [pushSel path colon start i])
           else subsLoop path (Suc i) modifier depth colon start sels)
        else if c = CHR 0x22 then
          subsLoop path (Suc (fst (quotedTo path (Suc i) False))) modifier depth colon start sels
        else if c \<in> {CHR ''['', CHR ''('', CHR ''{''} then subsLoop path (Suc i) modifier (depth + 1) colon start sels
        else if c \<in> {CHR '']'', CHR '')'', CHR ''}''} then
          (if depth = 1 then Some (sels @ [pushSel path colon start i], drop (i + 1) path)
           else subsLoop path (Suc i) modifier (depth - 1) colon start sels)
        else subsLoop path (Suc i) modifier depth colon start sels)"
  by pat_completeness auto
termination
  by (relation "measure (\<lambda>(path, i, modifier, depth, colon, start, sels). length path - i)")
    (auto intro!: diff_less_mono2 quotedTo_next)

declare subsLoop.simps [simp del]

definition parseSubSelectors :: "string \<Rightarrow> (subSelector list \<times> string) option" where
  "parseSubSelectors path = subsLoop path 1 False 1 0 1 []"

definition selsBelow :: "nat \<Rightarrow> subSelector list \<Rightarrow> bool" where
  "selsBelow n sels = (\<forall>sel \<in> set sels. length (selPath sel) < n)"

lemma pushSel_shorter: "0 < start \<Longrightarrow> start \<le> length path \<Longrightarrow> length (selPath (pushSel path colon start i)) < length path"
  using slice_le [of path start i] slice_le [of path "colon + 1" i] by (auto simp: pushSel_def)

lemma subsLoop_below:
  "subsLoop path i modifier depth colon start sels = Some (subs, out) \<Longrightarrow> selsBelow (length path) sels \<Longrightarrow>
     0 < start \<Longrightarrow> start \<le> length path \<Longrightarrow> selsBelow (length path) subs \<and> length out < length path"
proof (induction path i modifier depth colon start sels arbitrary: subs out rule: subsLoop.induct)
  case (1 path i modifier depth colon start sels)
  note IH = 1(1-9) [OF _ refl] and eq = subsLoop.simps [of path i modifier depth colon start sels]
  have push: "selsBelow (length path) (sels @ [pushSel path colon start i])"
    using 1(11-13) pushSel_shorter [of start path colon i] by (auto simp: selsBelow_def)
  have i: "i < length path" using 1(10) by (simp add: eq split: if_splits)
  let ?c = "path ! i"
  consider (esc) "?c = CHR 0x5C" | (at) "?c = CHR ''@''" | (colon) "?c = CHR '':''" | (comma) "?c = CHR '',''"
    | (quote) "?c = CHR 0x22" | (op) "?c \<in> {CHR ''['', CHR ''('', CHR ''{''}" | (cl) "?c \<in> {CHR '']'', CHR '')'', CHR ''}''}"
    | (other) "?c \<notin> {CHR 0x5C, CHR ''@'', CHR '':'', CHR '','', CHR 0x22, CHR ''['', CHR ''('', CHR ''{'', CHR '']'', CHR '')'', CHR ''}''}"
    by blast
  then show ?case
  proof cases
    case esc
    with IH(1) i 1(10-13) show ?thesis by (simp add: eq)
  next
    case at
    with IH(2) i 1(10-13) show ?thesis by (simp add: eq)
  next
    case colon
    with IH(3) i 1(10-13) show ?thesis by (simp add: eq)
  next
    case comma
    show ?thesis
    proof (cases "depth = 1")
      case True
      have "subsLoop path (Suc i) modifier depth 0 (i + 1) (sels @ [pushSel path colon start i]) = Some (subs, out)"
        using 1(10) i comma True by (subst (asm) subsLoop.simps) simp
      from IH(4) [OF _ _ _ _ comma True this push] show ?thesis using i comma by simp
    next
      case False
      with IH(5) i comma 1(10-13) show ?thesis by (simp add: eq)
    qed
  next
    case quote
    with IH(6) i 1(10-13) show ?thesis by (simp add: eq)
  next
    case op
    then have "?c \<notin> {CHR 0x5C, CHR ''@'', CHR '':'', CHR '','', CHR 0x22}" by auto
    with op IH(7) i 1(10-13) show ?thesis by (simp add: eq)
  next
    case cl
    then have "?c \<notin> {CHR 0x5C, CHR ''@'', CHR '':'', CHR '','', CHR 0x22, CHR ''['', CHR ''('', CHR ''{''}" by auto
    note c = this
    show ?thesis
    proof (cases "depth = 1")
      case True
      have "subs = sels @ [pushSel path colon start i] \<and> out = drop (i + 1) path"
        using 1(10) i c cl True by (subst (asm) subsLoop.simps) auto
      then show ?thesis using i push by simp
    next
      case False
      with IH(8) i c cl 1(10-13) show ?thesis by (simp add: eq)
    qed
  next
    case other
    with IH(9) i 1(10-13) show ?thesis by (simp add: eq)
  qed
qed

lemma parseSubSelectors_shorter:
  assumes "parseSubSelectors path = Some (subs, out)" and "path \<noteq> []"
  shows "selsBelow (length path) subs" and "length out < length path"
  using subsLoop_below [of path 1 False 1 0 1 "[]" subs out] assms
  by (simp_all add: parseSubSelectors_def selsBelow_def Suc_le_eq)

section \<open>Modifiers\<close>

text \<open>The table of modifiers is a global map of the code, to which a program can add.\<close>

type_synonym modifiers = "string \<Rightarrow> (string \<Rightarrow> string \<Rightarrow> string) option"

text \<open>The name of the modifier, what follows it, and whether that is an argument.\<close>

definition modifierParts :: "string \<Rightarrow> string \<times> string \<times> bool" where
  "modifierParts path =
     (let i = scanTo (\<lambda>c. c = CHR '':'' \<or> c = CHR ''|'' \<or> c = CHR ''.'') path 1 in
      if length path \<le> i then (tl path, '''', False)
      else if path ! i = CHR '':'' then (slice path 1 i, drop (i + 1) path, drop (i + 1) path \<noteq> '''')
      else (slice path 1 i, drop i path, False))"

text \<open>The argument: a JSON text in front, or everything up to the next pipe.\<close>

definition modifierArgs :: "string \<Rightarrow> string \<times> string" where
  "modifierArgs rest =
     (if hd rest \<in> {CHR ''{'', CHR ''['', CHR 0x22} \<and> Exists (Parse rest)
      then (squash rest, drop (length (squash rest)) rest)
      else (takeWhile (\<lambda>c. c \<noteq> CHR ''|'') rest, dropWhile (\<lambda>c. c \<noteq> CHR ''|'') rest))"

definition execModifier :: "modifiers \<Rightarrow> string \<Rightarrow> string \<Rightarrow> (string \<times> string) option" where
  "execModifier mods json path =
     (case modifierParts path of (name, rest, hasArgs) \<Rightarrow>
        (case mods name of
           None \<Rightarrow> None
         | Some fn \<Rightarrow>
             (case (if hasArgs then modifierArgs rest else ('''', rest)) of (args, out) \<Rightarrow> Some (out, fn json args))))"

lemma modifierParts_shorter: "modifierParts path = (name, rest, hasArgs) \<Longrightarrow> path \<noteq> [] \<Longrightarrow> length rest < length path"
  using scanTo_ge [of 1 _ path] by (auto simp: modifierParts_def Let_def Suc_le_eq not_le split: if_splits)

lemma modifierArgs_le: "length (snd (modifierArgs rest)) \<le> length rest"
  by (auto simp: modifierArgs_def length_dropWhile_le)

lemma execModifier_shorter:
  assumes "execModifier mods json path = Some (out, res)" and "path \<noteq> []"
  shows "length out < length path"
proof -
  obtain name rest hasArgs where p: "modifierParts path = (name, rest, hasArgs)" by (cases "modifierParts path") auto
  with assms have "length out \<le> length rest"
    using modifierArgs_le [of rest] by (auto simp: execModifier_def split: option.splits prod.splits if_splits)
  with modifierParts_shorter [OF p assms(2)] show ?thesis by simp
qed

section \<open>Comparing with a query\<close>

definition ofBool :: "bool \<Rightarrow> Result" where
  "ofBool b = jsonValue (if b then JTrue else JFalse) '''' ''''"

text \<open>A leading tilde asks for the truth value.\<close>

definition asBool :: "floats \<Rightarrow> string \<Rightarrow> Result \<Rightarrow> string \<times> Result" where
  "asBool fl v res = (if take 1 v = ''~'' then (tl v, ofBool (resultBool fl res)) else (v, res))"

definition stringMatches :: "string \<Rightarrow> string \<Rightarrow> string \<Rightarrow> bool" where
  "stringMatches op s v =
     (if op = ''='' then s = v else if op = ''!='' then s \<noteq> v
      else if op = ''<'' then s < v else if op = ''<='' then s \<le> v
      else if op = ''>'' then v < s else if op = ''>='' then v \<le> s
      else if op = ''%'' then matchLimit s v else if op = ''!%'' then \<not> matchLimit s v
      else False)"

definition numberMatches :: "floats \<Rightarrow> string \<Rightarrow> string \<Rightarrow> string \<Rightarrow> bool" where
  "numberMatches fl op n v =
     (if op = ''='' then fEq fl n v else if op = ''!='' then \<not> fEq fl n v
      else if op = ''<'' then fLess fl n v else if op = ''<='' then fLess fl n v \<or> fEq fl n v
      else if op = ''>'' then fLess fl v n else if op = ''>='' then fLess fl v n \<or> fEq fl n v
      else False)"

definition trueMatches :: "string \<Rightarrow> string \<Rightarrow> bool" where
  "trueMatches op v =
     (if op = ''='' then v = ''true'' else if op = ''!='' then v \<noteq> ''true''
      else if op = ''>'' then v = ''false'' else op = ''>='')"

definition falseMatches :: "string \<Rightarrow> string \<Rightarrow> bool" where
  "falseMatches op v =
     (if op = ''='' then v = ''false'' else if op = ''!='' then v \<noteq> ''false''
      else if op = ''<'' then v = ''true'' else op = ''<='')"

definition queryMatches :: "floats \<Rightarrow> arrayPath \<Rightarrow> Result \<Rightarrow> bool" where
  "queryMatches fl rp res0 =
     (case asBool fl (pValue rp) res0 of (v, res) \<Rightarrow>
        if \<not> Exists res then False
        else if pOp rp = '''' then True
        else (case rType res of
                JString \<Rightarrow> stringMatches (pOp rp) (rStr res) v
              | JNumber \<Rightarrow> numberMatches fl (pOp rp) (rRaw res) v
              | JTrue \<Rightarrow> trueMatches (pOp rp) v
              | JFalse \<Rightarrow> falseMatches (pOp rp) v
              | _ \<Rightarrow> False))"

end
