(* ===== verification/GjsonGet.thy ===== *)
theory GjsonGet
  imports GjsonPath
begin

text \<open>
  \<open>Get\<close> of \<open>gjson.go\<close> with its whole path language: wildcards, all elements and their number,
  queries, pipes, JSON lines, sub-selectors and modifiers. Where the code calls \<open>Get\<close> again, the
  definitions call a function \<open>g\<close>; \<open>fullGet\<close> ties the knot, and \<open>full_get_equation\<close>
  shows that it is the recursion of the code.
\<close>

section \<open>Elements of an array\<close>

definition rawOf :: "floats \<Rightarrow> Result \<Rightarrow> string" where
  "rawOf fl res = (if rRaw res = '''' then resultString (fFormat fl) res else rRaw res)"

fun commaJoin :: "string list \<Rightarrow> string" where
  "commaJoin [] = ''''"
| "commaJoin [x] = x"
| "commaJoin (x # xs) = x @ '','' @ commaJoin xs"

record arrayState =
  aSeen :: nat
  aLog :: "nat list"
  aRes :: string

definition startArray :: arrayState where
  "startArray = \<lparr>aSeen = 0, aLog = [], aRes = ''''\<rparr>"

type_synonym getter = "string \<Rightarrow> string \<Rightarrow> Result"

text \<open>
  \<open>procQuery\<close>: whether the element ends the search, the path, whose rest loses its pipe, the
  results collected so far and the context.
\<close>

definition collect :: "string \<Rightarrow> string \<Rightarrow> string" where
  "collect res raw = (if raw = '''' then res else (if 1 < length res then res @ '','' else res) @ raw)"

definition splitRest :: "arrayPath \<Rightarrow> parseContext \<Rightarrow> arrayPath \<times> parseContext" where
  "splitRest rp c =
     (case splitPossiblePipe (pPath rp) of
        Some (left, right) \<Rightarrow> (rp\<lparr>pPath := left\<rparr>, c\<lparr>cPipe := right, cPiped := True\<rparr>)
      | None \<Rightarrow> (rp, c))"

definition queried :: "getter \<Rightarrow> arrayPath \<Rightarrow> Result \<Rightarrow> Result option" where
  "queried g rp qval =
     (if rType qval = JJSON then Some (g (rRaw qval) (pQuery rp))
      else if pQuery rp \<noteq> '''' then None
      else Some qval)"

definition procQuery :: "floats \<Rightarrow> getter \<Rightarrow> arrayPath \<Rightarrow> string \<Rightarrow> parseContext \<Rightarrow> Result
      \<Rightarrow> bool \<times> arrayPath \<times> string \<times> parseContext" where
  "procQuery fl g rp res0 c qval =
     (let res = (if pAll rp \<and> res0 = '''' then ''['' else res0) in
      case queried g rp qval of
        None \<Rightarrow> (False, rp, res, c)
      | Some v \<Rightarrow>
          if \<not> queryMatches fl rp v then (False, rp, res, c)
          else
            case (if pMore rp then splitRest rp c else (rp, c)) of (rp', c') \<Rightarrow>
              let found = (if pMore rp then g (rRaw qval) (pPath rp') else qval) in
              if pAll rp then (False, rp', collect res (rawOf fl found), c')
              else (True, rp', res, c'\<lparr>cValue := found\<rparr>))"

text \<open>The end of the array: \<open>#\<close> alone is the number of elements, with more it gathers.\<close>

definition gatherOne :: "floats \<Rightarrow> getter \<Rightarrow> string \<Rightarrow> string \<Rightarrow> nat \<Rightarrow> string list" where
  "gatherOne fl g json key i =
     (let k = scanTo (\<lambda>x. \<not> isWs x) json i in
      if length json \<le> k \<or> json ! k = CHR '']'' then []
      else case parseAny json k True of (m, res, ok) \<Rightarrow>
        if ok \<and> Exists (g (rRaw res) key) then [rawOf fl (g (rRaw res) key)] else [])"

definition keyAndContext :: "arrayPath \<Rightarrow> parseContext \<Rightarrow> string \<times> parseContext" where
  "keyAndContext rp c =
     (case splitPossiblePipe (pAlogkey rp) of
        Some (left, right) \<Rightarrow> (left, c\<lparr>cPipe := right, cPiped := True\<rparr>)
      | None \<Rightarrow> (pAlogkey rp, c))"

definition gatherAll :: "floats \<Rightarrow> getter \<Rightarrow> string \<Rightarrow> arrayPath \<Rightarrow> nat list \<Rightarrow> parseContext \<Rightarrow> parseContext" where
  "gatherAll fl g json rp log c =
     (case keyAndContext rp c of (key, c') \<Rightarrow>
        setRaw JJSON (''['' @ commaJoin (concat (map (gatherOne fl g json key) log)) @ '']'') c')"

definition collected :: "arrayPath \<Rightarrow> string \<Rightarrow> parseContext \<Rightarrow> parseContext" where
  "collected rp res c =
     (if Exists (cValue c) then c
      else if res \<noteq> '''' then c\<lparr>cValue := jsonValue JJSON (res @ '']'') ''''\<rparr>
      else if pAll rp then c\<lparr>cValue := jsonValue JJSON ''[]'' ''''\<rparr>
      else c)"

datatype fullFrame = FObject objectPathResult | FArray arrayPath arrayState

datatype fullRound =
    FReturn nat bool parseContext
  | FContinue nat fullFrame parseContext
  | FEnter nat string fullFrame

definition closeArray :: "floats \<Rightarrow> getter \<Rightarrow> string \<Rightarrow> arrayPath \<Rightarrow> arrayState \<Rightarrow> nat \<Rightarrow> parseContext \<Rightarrow> fullRound" where
  "closeArray fl g json rp st k c =
     (if pArrch rp \<and> pPart rp = ''#'' then
        FReturn (Suc k) True
          (if pAlogok rp then gatherAll fl g json rp (aLog st) c
           else setRaw JNumber (Itoa (int (aSeen st) - 1)) c)
      else FReturn (Suc k) False (collected rp (aRes st) c))"

definition elementRound :: "string \<Rightarrow> nat \<Rightarrow> bool \<Rightarrow> bool \<Rightarrow> string \<Rightarrow> fullFrame \<Rightarrow> parseContext \<Rightarrow> fullRound" where
  "elementRound json k pmatch hit rest next c =
     (if (json ! k = CHR ''{'' \<or> json ! k = CHR ''['') \<and> pmatch \<and> \<not> hit then FEnter k rest next
      else case scanValue json k c of
          Broken m \<Rightarrow> FReturn m False c
        | ValueTo m d \<Rightarrow> if hit then FReturn m True d else FContinue m next c)"

definition queryRound :: "floats \<Rightarrow> getter \<Rightarrow> string \<Rightarrow> arrayPath \<Rightarrow> arrayState \<Rightarrow> nat \<Rightarrow> parseContext \<Rightarrow> fullRound" where
  "queryRound fl g json rp st k c =
     (case scanValue json k startContext of
        Broken m \<Rightarrow> FReturn m False c
      | ValueTo m d \<Rightarrow>
          (case procQuery fl g rp (aRes st) c (cValue d) of (found, rp', res, c') \<Rightarrow>
             if found then FReturn m True c' else FContinue m (FArray rp' (st\<lparr>aRes := res\<rparr>)) c'))"

text \<open>A round of \<open>parseArray\<close>. The end of the text counts as a bracket.\<close>

definition fullArrayRound :: "floats \<Rightarrow> getter \<Rightarrow> string \<Rightarrow> arrayPath \<Rightarrow> arrayState \<Rightarrow> nat \<Rightarrow> parseContext \<Rightarrow> fullRound" where
  "fullArrayRound fl g json rp st0 i c =
     (if length json < i then FReturn i False c
      else
        let pmatch = (\<not> pArrch rp \<and> partIndex (pPart rp) = int (aSeen st0));
            hit = (pmatch \<and> \<not> pMore rp);
            st = st0\<lparr>aSeen := Suc (aSeen st0), aLog := (if pAlogok rp then aLog st0 @ [i] else aLog st0)\<rparr>;
            k = scanTo (\<lambda>x. isValueStart x \<or> x = CHR '']'') json i
        in if length json \<le> k \<or> json ! k = CHR '']'' then closeArray fl g json rp st k c
           else if pOn rp then queryRound fl g json rp st k c
           else elementRound json k pmatch hit (pPath rp) (FArray rp st) c)"

text \<open>A round of \<open>parseObject\<close> is the one of \<open>Gjson\<close>.\<close>

definition liftObject :: "objectPathResult \<Rightarrow> parseContext \<Rightarrow> round \<Rightarrow> fullRound" where
  "liftObject rp c r =
     (case r of
        Return j found d \<Rightarrow> FReturn j found d
      | Continue j fr \<Rightarrow> FContinue j (FObject rp) c
      | Enter k rest fr \<Rightarrow> FEnter k rest (FObject rp))"

definition fullRoundOf :: "floats \<Rightarrow> getter \<Rightarrow> string \<Rightarrow> fullFrame \<Rightarrow> nat \<Rightarrow> parseContext \<Rightarrow> fullRound" where
  "fullRoundOf fl g json fr i c =
     (case fr of
        FObject rp \<Rightarrow> liftObject rp c (objectRound matchLimit json rp i c)
      | FArray rp st \<Rightarrow> fullArrayRound fl g json rp st i c)"

definition fullEnter :: "char \<Rightarrow> string \<Rightarrow> parseContext \<Rightarrow> fullFrame \<times> parseContext" where
  "fullEnter b path c =
     (if b = CHR ''{''
      then (let r = parseObjectPath path in (FObject r, setPipe (oMore r) (oPiped r) (oPipe r) c))
      else (let r = parseArrayQuery path in (FArray r startArray, setPipe (pMore r) (pPiped r) (pPipe r) c)))"

text \<open>The loops; as in \<open>Gjson\<close> the fuel bounds the rounds in sequence.\<close>

primrec fullLoop :: "nat \<Rightarrow> floats \<Rightarrow> getter \<Rightarrow> string \<Rightarrow> fullFrame \<Rightarrow> nat \<Rightarrow> parseContext
      \<Rightarrow> (nat \<times> bool \<times> parseContext) option" where
  "fullLoop 0 fl g json fr i c = None"
| "fullLoop (Suc n) fl g json fr i c =
     (case fullRoundOf fl g json fr i c of
        FReturn j found d \<Rightarrow> Some (j, found, d)
      | FContinue j fr' c' \<Rightarrow> fullLoop n fl g json fr' j c'
      | FEnter k rest fr' \<Rightarrow>
          (case fullEnter (json ! k) rest c of
             (inner, c') \<Rightarrow>
               (case fullLoop n fl g json inner (Suc k) c' of
                  None \<Rightarrow> None
                | Some (j, found, d) \<Rightarrow>
                    if found then Some (j, True, d) else fullLoop n fl g json fr' j d)))"

section \<open>Get\<close>

text \<open>The context after the search; the lines of a text are searched as an array without bracket.\<close>

definition scanned :: "floats \<Rightarrow> getter \<Rightarrow> string \<Rightarrow> char \<Rightarrow> string \<Rightarrow> nat \<Rightarrow> parseContext" where
  "scanned fl g json b path i =
     (case fullEnter b path startContext of (fr, c) \<Rightarrow>
        (case fullLoop (length json + 2) fl g json fr i c of
           Some (j, found, d) \<Rightarrow> d
         | None \<Rightarrow> startContext))"

definition searchContext :: "floats \<Rightarrow> getter \<Rightarrow> string \<Rightarrow> string \<Rightarrow> parseContext" where
  "searchContext fl g json path =
     (if take 2 path = ''..'' then scanned fl g json (CHR ''['') (drop 2 path) 0
      else
        let k = firstBracket json in
        if length json \<le> k then startContext else scanned fl g json (json ! k) path (Suc k))"

definition searchGet :: "floats \<Rightarrow> getter \<Rightarrow> string \<Rightarrow> string \<Rightarrow> Result" where
  "searchGet fl g json path =
     (let c = searchContext fl g json path in
      if cPiped c then g (rRaw (cValue c)) (cPipe c) else cValue c)"

text \<open>One member of a sub-selection, with its name in an object; a path that finds nothing gives none.\<close>

definition subName :: "subSelector \<Rightarrow> string" where
  "subName sub =
     (if selName sub \<noteq> '''' then
        (if hd (selName sub) = CHR 0x22 \<and> Valid (selName sub) then selName sub
         else appendJSONString [] (selName sub))
      else if isSimpleName (nameOfLast (selPath sub)) then appendJSONString [] (nameOfLast (selPath sub))
      else appendJSONString [] ''_'')"

definition subMember :: "floats \<Rightarrow> getter \<Rightarrow> string \<Rightarrow> char \<Rightarrow> subSelector \<Rightarrow> string list" where
  "subMember fl g json kind sub =
     (let res = g json (selPath sub) in
      if \<not> Exists res then []
      else [(if kind = CHR ''{'' then subName sub @ '':'' else '''') @
            (if rRaw res \<noteq> '''' then rRaw res
             else if resultString (fFormat fl) res \<noteq> '''' then resultString (fFormat fl) res else ''null'')])"

definition subResult :: "floats \<Rightarrow> getter \<Rightarrow> string \<Rightarrow> char \<Rightarrow> subSelector list \<Rightarrow> Result" where
  "subResult fl g json kind subs =
     jsonValue JJSON ([kind] @ commaJoin (concat (map (subMember fl g json kind) subs)) @
       [if kind = CHR ''{'' then CHR ''}'' else CHR '']'']) ''''"

definition goesOn :: "string \<Rightarrow> bool" where
  "goesOn out = (out \<noteq> '''' \<and> (hd out = CHR ''|'' \<or> hd out = CHR ''.''))"

text \<open>
  A sub-selection that is not closed leaves the empty path, one that something else follows leaves
  that: the search goes on with what is left.
\<close>

definition selectGet :: "floats \<Rightarrow> getter \<Rightarrow> string \<Rightarrow> string \<Rightarrow> Result" where
  "selectGet fl g json path =
     (case parseSubSelectors path of
        None \<Rightarrow> searchGet fl g json ''''
      | Some (subs, out) \<Rightarrow>
          if out = '''' then subResult fl g json (hd path) subs
          else if goesOn out then g (rRaw (subResult fl g json (hd path) subs)) (tl out)
          else searchGet fl g json out)"

definition stepGet :: "floats \<Rightarrow> modifiers \<Rightarrow> getter \<Rightarrow> string \<Rightarrow> string \<Rightarrow> Result" where
  "stepGet fl mods g json path =
     (if 1 < length path \<and> hd path = CHR ''@'' then
        (case execModifier mods json path of
           Some (out, rjson) \<Rightarrow> if goesOn out then g rjson (tl out) else Parse rjson
         | None \<Rightarrow> searchGet fl g json path)
      else if 1 < length path \<and> (hd path = CHR ''['' \<or> hd path = CHR ''{'') then selectGet fl g json path
      else searchGet fl g json path)"

primrec getWithin :: "nat \<Rightarrow> floats \<Rightarrow> modifiers \<Rightarrow> string \<Rightarrow> string \<Rightarrow> Result" where
  "getWithin 0 fl mods json path = emptyResult"
| "getWithin (Suc n) fl mods json path = stepGet fl mods (getWithin n fl mods) json path"

definition fullGet :: "floats \<Rightarrow> modifiers \<Rightarrow> string \<Rightarrow> string \<Rightarrow> Result" where
  "fullGet fl mods json path = getWithin (Suc (length path)) fl mods json path"

definition resultGet :: "floats \<Rightarrow> modifiers \<Rightarrow> Result \<Rightarrow> string \<Rightarrow> Result" where
  "resultGet fl mods t path = fullGet fl mods (rRaw t) path"

text \<open>\<open>getBytes\<close> copies what it finds; no bytes at all give no result.\<close>

definition GetBytes :: "floats \<Rightarrow> modifiers \<Rightarrow> bytes option \<Rightarrow> string \<Rightarrow> Result" where
  "GetBytes fl mods json path =
     (case json of None \<Rightarrow> emptyResult | Some b \<Rightarrow> fullGet fl mods b path)"

section \<open>The searches end\<close>

definition fullProgress :: "string \<Rightarrow> nat \<Rightarrow> fullRound \<Rightarrow> bool" where
  "fullProgress json i r =
     (case r of
        FReturn j found d \<Rightarrow> i \<le> j
      | FContinue j fr c \<Rightarrow> i < j \<and> i \<le> length json
      | FEnter k path fr \<Rightarrow> i \<le> k \<and> k < length json)"

lemma elementRound_progress:
  "i \<le> k \<Longrightarrow> k < length json \<Longrightarrow> fullProgress json i (elementRound json k pmatch hit rest next c)"
  using scanValue_gt [of json k c] scanValue_Broken_ge [of json k c]
  by (auto simp: elementRound_def fullProgress_def split: valueScan.splits dest: less_imp_le)

lemma queryRound_progress:
  "i \<le> k \<Longrightarrow> k < length json \<Longrightarrow> fullProgress json i (queryRound fl g json rp st k c)"
  using scanValue_gt [of json k startContext] scanValue_Broken_ge [of json k startContext]
  by (auto simp: queryRound_def fullProgress_def split: valueScan.splits prod.splits dest: less_imp_le)

lemma liftObject_progress: "progress json i r \<Longrightarrow> fullProgress json i (liftObject rp c r)"
  by (cases r) (auto simp: progress_def fullProgress_def liftObject_def)

lemma fullRound_progress: "fullProgress json i (fullRoundOf fl g json fr i c)"
proof (cases fr)
  case (FObject rp)
  have "progress json i (objectRound matchLimit json rp i c)"
    using oneRound_progress [of json i matchLimit "InObject rp" c] by (simp add: oneRound_def)
  with FObject liftObject_progress show ?thesis by (simp add: fullRoundOf_def)
next
  case (FArray rp st)
  let ?k = "scanTo (\<lambda>x. isValueStart x \<or> x = CHR '']'') json i"
  have k: "i \<le> ?k" by (rule scanTo_ge)
  show ?thesis
  proof (cases "length json < i \<or> length json \<le> ?k \<or> json ! ?k = CHR '']''")
    case True
    with FArray k show ?thesis
      by (auto simp: fullRoundOf_def fullArrayRound_def closeArray_def Let_def fullProgress_def)
  next
    case False
    with FArray k elementRound_progress queryRound_progress show ?thesis
      by (simp add: fullRoundOf_def fullArrayRound_def Let_def)
  qed
qed

lemma fullLoop_ge: "fullLoop n fl g json fr i c = Some (j, found, d) \<Longrightarrow> i \<le> j"
proof (induction n arbitrary: fr i c j found d)
  case (Suc n)
  from Suc.prems fullRound_progress [of json i fl g fr c] show ?case
    by (auto simp: fullProgress_def split: fullRound.splits option.splits prod.splits if_splits dest!: Suc.IH)
qed simp

lemma fullLoop_returns:
  "0 < n \<Longrightarrow> length json + 2 \<le> n + i \<Longrightarrow> \<exists>res. fullLoop n fl g json fr i c = Some res"
proof (induction n arbitrary: fr i c)
  case (Suc n)
  show ?case
  proof (cases "fullRoundOf fl g json fr i c")
    case (FContinue j fr' c')
    with fullRound_progress [of json i fl g fr c] have "i < j" "i \<le> length json"
      by (simp_all add: fullProgress_def)
    with Suc.prems Suc.IH [of j fr' c'] FContinue show ?thesis by simp
  next
    case (FEnter k path fr')
    with fullRound_progress [of json i fl g fr c] have k: "i \<le> k" "k < length json"
      by (simp_all add: fullProgress_def)
    obtain inner c' where e: "fullEnter (json ! k) path c = (inner, c')" by fastforce
    from Suc.prems k have n: "0 < n" "length json + 2 \<le> n + Suc k" by simp_all
    then obtain j found d where r: "fullLoop n fl g json inner (Suc k) c' = Some (j, found, d)"
      using Suc.IH [of "Suc k" inner c'] by auto
    then have "Suc k \<le> j" by (rule fullLoop_ge)
    with n Suc.IH [of j fr' d] have "\<exists>res. fullLoop n fl g json fr' j d = Some res" by simp
    with FEnter e r show ?thesis by (cases found) auto
  qed simp_all
qed simp

section \<open>What is asked again is shorter\<close>

definition agree :: "nat \<Rightarrow> getter \<Rightarrow> getter \<Rightarrow> bool" where
  "agree n g g' \<longleftrightarrow> (\<forall>json path. length path < n \<longrightarrow> g json path = g' json path)"

lemma agreeD: "agree n g g' \<Longrightarrow> length path < n \<Longrightarrow> g json path = g' json path"
  by (simp add: agree_def)

lemma agree_mono: "agree n g g' \<Longrightarrow> m \<le> n \<Longrightarrow> agree m g g'"
  by (simp add: agree_def)

definition objectBelow :: "nat \<Rightarrow> objectPathResult \<Rightarrow> bool" where
  "objectBelow n rp \<longleftrightarrow> (oPiped rp \<longrightarrow> length (oPipe rp) < n) \<and> (oMore rp \<longrightarrow> length (oPath rp) < n)"

definition arrayBelow :: "nat \<Rightarrow> arrayPath \<Rightarrow> bool" where
  "arrayBelow n rp \<longleftrightarrow> (pPiped rp \<longrightarrow> length (pPipe rp) < n) \<and> (pMore rp \<longrightarrow> length (pPath rp) < n) \<and>
     (pAlogok rp \<longrightarrow> length (pAlogkey rp) < n) \<and> (pOn rp \<longrightarrow> length (pQuery rp) < n)"

fun frameBelow :: "nat \<Rightarrow> fullFrame \<Rightarrow> bool" where
  "frameBelow n (FObject rp) = objectBelow n rp"
| "frameBelow n (FArray rp st) = arrayBelow n rp"

definition contextBelow :: "nat \<Rightarrow> parseContext \<Rightarrow> bool" where
  "contextBelow n c \<longleftrightarrow> (cPiped c \<longrightarrow> length (cPipe c) < n)"

fun roundBelow :: "nat \<Rightarrow> fullRound \<Rightarrow> bool" where
  "roundBelow n (FReturn j found d) = contextBelow n d"
| "roundBelow n (FContinue j fr c) = (frameBelow n fr \<and> contextBelow n c)"
| "roundBelow n (FEnter k rest fr) = (length rest < n \<and> frameBelow n fr)"

lemma objectBelow_fields [simp]:
  "objectBelow n \<lparr>oPart = a, oPath = b, oPipe = p, oPiped = q, oWild = w, oMore = m\<rparr> =
     ((q \<longrightarrow> length p < n) \<and> (m \<longrightarrow> length b < n))"
  by (simp add: objectBelow_def)

lemma objectBelow_mono: "objectBelow m rp \<Longrightarrow> m \<le> n \<Longrightarrow> objectBelow n rp"
  by (auto simp: objectBelow_def)

lemma escapedPath_below: "objectBelow (length path) (escapedPath part wild path)"
proof (induction part wild path rule: escapedPath.induct)
  case (2 part wild c cs)
  show ?case
  proof (cases "c = CHR 0x5C")
    case True
    show ?thesis
    proof (cases cs)
      case (Cons e rest)
      have "objectBelow (length path) (escapedPath (part @ [e]) wild rest)" if "path = c # cs" for path
        using objectBelow_mono [OF 2(1) [OF True Cons]] that Cons by simp
      then show ?thesis using True Cons by simp
    qed (use True in \<open>simp add: noPath_def\<close>)
  next
    case False
    have "objectBelow (Suc (length cs)) (escapedPath (part @ [c]) (wild \<or> c = CHR ''*'' \<or> c = CHR ''?'') cs)"
      if "c \<noteq> CHR ''.''" "c \<noteq> CHR ''|''"
      using objectBelow_mono [OF 2(2) [OF False that]] by simp
    with False show ?thesis by (simp add: noPath_def)
  qed
qed (simp add: noPath_def)

lemma objectPathFrom_below: "objectBelow (length path) (objectPathFrom part wild path)"
proof (induction part wild path rule: objectPathFrom.induct)
  case (2 part wild c cs)
  show ?case
  proof (cases "c = CHR 0x5C")
    case True
    show ?thesis
    proof (cases cs)
      case (Cons e rest)
      then show ?thesis using True objectBelow_mono [OF escapedPath_below [of rest "part @ [e]" wild]] by simp
    qed (use True in \<open>simp add: noPath_def\<close>)
  next
    case False
    have "objectBelow (Suc (length cs)) (objectPathFrom (part @ [c]) True cs)"
      if "c \<noteq> CHR ''|''" "c \<noteq> CHR ''.''" "c = CHR ''*'' \<or> c = CHR ''?''"
      using objectBelow_mono [OF 2(1) [OF that]] by simp
    moreover have "objectBelow (Suc (length cs)) (objectPathFrom (part @ [c]) wild cs)"
      if "c \<noteq> CHR ''|''" "c \<noteq> CHR ''.''" "\<not> (c = CHR ''*'' \<or> c = CHR ''?'')"
      using objectBelow_mono [OF 2(2) [OF that False]] by simp
    ultimately show ?thesis using False by (simp add: noPath_def)
  qed
qed (simp add: noPath_def)

lemma parseArrayQuery_arrayBelow: "arrayBelow (length path) (parseArrayQuery path)"
proof (cases "path = []")
  case True
  then show ?thesis by (simp add: parseArrayQuery_def arrayPathLoop.simps arrayBelow_def noArrayPath_def)
next
  case False
  with parseArrayQuery_below [OF False] show ?thesis by (simp add: arrayBelow_def pathBelow_def)
qed

lemma arrayBelow_mono: "arrayBelow m rp \<Longrightarrow> m \<le> n \<Longrightarrow> arrayBelow n rp"
  by (auto simp: arrayBelow_def)

lemma fullEnter_below:
  assumes "fullEnter b path c = (fr, d)" and "length path \<le> n" and "contextBelow n c"
  shows "frameBelow n fr \<and> contextBelow n d"
proof (cases "b = CHR ''{''")
  case True
  have "objectBelow n (parseObjectPath path)"
    unfolding parseObjectPath_def by (rule objectBelow_mono [OF objectPathFrom_below assms(2)])
  with True assms show ?thesis
    by (auto simp: fullEnter_def Let_def setPipe_def contextBelow_def objectBelow_def split: if_splits)
next
  case False
  have "arrayBelow n (parseArrayQuery path)" by (rule arrayBelow_mono [OF parseArrayQuery_arrayBelow assms(2)])
  with False assms show ?thesis
    by (auto simp: fullEnter_def Let_def setPipe_def contextBelow_def arrayBelow_def split: if_splits)
qed

lemma scanValue_context: "scanValue json k c = ValueTo m d \<Longrightarrow> contextBelow n d = contextBelow n c"
  by (auto simp: scanValue_def setString_def setRaw_def setLiteral_def contextBelow_def Let_def split: if_splits prod.splits)

lemma splitRest_below:
  assumes "splitRest rp c = (rp', c')" and "arrayBelow n rp" and "pMore rp" and "contextBelow n c"
  shows "arrayBelow n rp' \<and> contextBelow n c' \<and> pMore rp'"
proof (cases "splitPossiblePipe (pPath rp)")
  case (Some lr)
  then obtain l r where lr: "splitPossiblePipe (pPath rp) = Some (l, r)" by (cases lr) auto
  with splitPossiblePipe_shorter [OF lr] assms show ?thesis
    by (auto simp: splitRest_def arrayBelow_def contextBelow_def)
qed (use assms in \<open>auto simp: splitRest_def\<close>)

lemma procQuery_below:
  assumes "procQuery fl g rp res c v = (found, rp', res', c')" and "arrayBelow n rp" and "contextBelow n c"
  shows "arrayBelow n rp' \<and> contextBelow n c'"
  using assms splitRest_below [of rp c rp' c' n] splitRest_below [of rp c rp' "c'\<lparr>cValue := cValue c\<rparr>" n]
  by (auto simp: procQuery_def Let_def contextBelow_def split: option.splits if_splits prod.splits
      dest: splitRest_below)

lemma procQuery_agree:
  assumes "agree n g g'" and "arrayBelow n rp" and "pOn rp"
  shows "procQuery fl g rp res c v = procQuery fl g' rp res c v"
proof -
  have q: "queried g rp v = queried g' rp v"
    using assms agreeD [OF assms(1)] by (auto simp: queried_def arrayBelow_def)
  have "g (rRaw v) (pPath rp') = g' (rRaw v) (pPath rp')" if "splitRest rp c = (rp', c')" "pMore rp" for rp' c'
  proof (rule agreeD [OF assms(1)])
    have "arrayBelow n rp' \<and> pMore rp'"
      using that(1) assms(2) that(2) splitPossiblePipe_shorter [of "pPath rp"]
      by (auto simp: splitRest_def arrayBelow_def split: option.splits)
    then show "length (pPath rp') < n" by (simp add: arrayBelow_def)
  qed
  with q show ?thesis by (auto simp: procQuery_def Let_def split: option.splits prod.splits)
qed

lemma keyAndContext_below:
  assumes "keyAndContext rp c = (key, d)" and "arrayBelow n rp" and "pAlogok rp" and "contextBelow n c"
  shows "length key < n \<and> contextBelow n d"
proof (cases "splitPossiblePipe (pAlogkey rp)")
  case (Some lr)
  then obtain l r where lr: "splitPossiblePipe (pAlogkey rp) = Some (l, r)" by (cases lr) auto
  with splitPossiblePipe_shorter [OF lr] assms show ?thesis
    by (auto simp: keyAndContext_def arrayBelow_def contextBelow_def)
qed (use assms in \<open>auto simp: keyAndContext_def arrayBelow_def\<close>)

lemma gatherOne_agree: "agree n g g' \<Longrightarrow> length key < n \<Longrightarrow> gatherOne fl g json key i = gatherOne fl g' json key i"
proof -
  assume "agree n g g'" and "length key < n"
  then have "g x key = g' x key" for x by (rule agreeD)
  then show ?thesis by (simp add: gatherOne_def Let_def split: prod.split)
qed

lemma gatherAll_agree:
  assumes "agree n g g'" and "arrayBelow n rp" and "pAlogok rp"
  shows "gatherAll fl g json rp log c = gatherAll fl g' json rp log c"
proof (cases "keyAndContext rp c")
  case (Pair key d)
  have "length key < n"
    using keyAndContext_below [OF _ assms(2,3), of "c\<lparr>cPiped := False\<rparr>"] Pair
    by (auto simp: keyAndContext_def contextBelow_def split: option.splits)
  then have "gatherOne fl g json key = gatherOne fl g' json key" using gatherOne_agree [OF assms(1)] by blast
  then show ?thesis using Pair by (simp add: gatherAll_def)
qed

lemma gatherAll_below:
  "arrayBelow n rp \<Longrightarrow> pAlogok rp \<Longrightarrow> contextBelow n c \<Longrightarrow> contextBelow n (gatherAll fl g json rp log c)"
  by (cases "keyAndContext rp c")
    (simp add: gatherAll_def setRaw_def contextBelow_def [of n "c'\<lparr>cValue := v\<rparr>" for c' v]
      contextBelow_def [symmetric] keyAndContext_below)

lemma closeArray_agree:
  "agree n g g' \<Longrightarrow> arrayBelow n rp \<Longrightarrow> closeArray fl g json rp st k c = closeArray fl g' json rp st k c"
  by (simp add: closeArray_def gatherAll_agree)

lemma collected_below: "contextBelow n c \<Longrightarrow> contextBelow n (collected rp res c)"
  by (simp add: collected_def contextBelow_def)

lemma closeArray_below:
  "arrayBelow n rp \<Longrightarrow> contextBelow n c \<Longrightarrow> roundBelow n (closeArray fl g json rp st k c)"
  by (auto simp: closeArray_def gatherAll_below collected_below) (simp add: setRaw_def contextBelow_def)

lemma elementRound_below:
  "(pmatch \<and> \<not> hit \<longrightarrow> length rest < n) \<Longrightarrow> frameBelow n fr \<Longrightarrow> contextBelow n c \<Longrightarrow>
     roundBelow n (elementRound json k pmatch hit rest fr c)"
  by (auto simp: elementRound_def split: valueScan.splits dest: scanValue_context)

lemma queryRound_below:
  "arrayBelow n rp \<Longrightarrow> contextBelow n c \<Longrightarrow> roundBelow n (queryRound fl g json rp st k c)"
  by (auto simp: queryRound_def split: valueScan.splits prod.splits dest: procQuery_below)

lemma queryRound_agree:
  "agree n g g' \<Longrightarrow> arrayBelow n rp \<Longrightarrow> pOn rp \<Longrightarrow> queryRound fl g json rp st k c = queryRound fl g' json rp st k c"
  by (simp add: queryRound_def procQuery_agree split: valueScan.split)

lemma objectRound_below:
  assumes "objectBelow n rp" and "contextBelow n c"
  shows "roundBelow n (liftObject rp c (objectRound matchLimit json rp i c))"
  using assms
  by (auto simp: objectRound_def valueRound_def liftObject_def Let_def objectBelow_def
      split: keyScan.splits valueScan.splits dest: scanValue_context)

lemma fullRound_below:
  assumes "frameBelow n fr" and "contextBelow n c"
  shows "roundBelow n (fullRoundOf fl g json fr i c)"
proof (cases fr)
  case (FObject rp)
  with assms objectRound_below show ?thesis by (simp add: fullRoundOf_def)
next
  case (FArray rp st)
  with assms have rp: "arrayBelow n rp" by simp
  then have "pMore rp \<longrightarrow> length (pPath rp) < n" by (simp add: arrayBelow_def)
  with FArray rp assms(2) show ?thesis
    by (auto simp: fullRoundOf_def fullArrayRound_def Let_def
        intro!: closeArray_below queryRound_below elementRound_below)
qed

lemma fullRound_agree:
  assumes "agree n g g'" and "frameBelow n fr"
  shows "fullRoundOf fl g json fr i c = fullRoundOf fl g' json fr i c"
proof (cases fr)
  case (FArray rp st)
  with assms have rp: "arrayBelow n rp" by simp
  with FArray assms(1) show ?thesis
    by (simp add: fullRoundOf_def fullArrayRound_def Let_def closeArray_agree [OF assms(1)] queryRound_agree [OF assms(1)])
qed (simp add: fullRoundOf_def)

lemma fullLoop_agree:
  assumes "agree n g g'"
  shows "frameBelow n fr \<Longrightarrow> contextBelow n c \<Longrightarrow>
    fullLoop k fl g json fr i c = fullLoop k fl g' json fr i c
    \<and> (\<forall>j found d. fullLoop k fl g json fr i c = Some (j, found, d) \<longrightarrow> contextBelow n d)"
proof (induction k arbitrary: fr i c)
  case (Suc k)
  note eq = fullRound_agree [OF assms Suc.prems(1), of fl json i c, symmetric]
  note below = fullRound_below [OF Suc.prems, of fl g json i]
  show ?case
  proof (cases "fullRoundOf fl g json fr i c")
    case (FReturn j found d)
    with eq below show ?thesis by simp
  next
    case (FContinue j fr' c')
    with eq below Suc.IH [of fr' c' j] show ?thesis by simp
  next
    case (FEnter m rest fr')
    obtain inner c' where e: "fullEnter (json ! m) rest c = (inner, c')" by fastforce
    have "frameBelow n inner \<and> contextBelow n c'"
      using fullEnter_below [OF e] below FEnter Suc.prems(2) by simp
    then have i: "fullLoop k fl g json inner (Suc m) c' = fullLoop k fl g' json inner (Suc m) c'"
      "\<And>j found d. fullLoop k fl g json inner (Suc m) c' = Some (j, found, d) \<Longrightarrow> contextBelow n d"
      using Suc.IH [of inner c' "Suc m"] by blast+
    have a: "fullLoop k fl g json fr' j d = fullLoop k fl g' json fr' j d"
      "\<And>j' found' d'. fullLoop k fl g json fr' j d = Some (j', found', d') \<Longrightarrow> contextBelow n d'"
      if "contextBelow n d" for j d
      using Suc.IH [of fr' d j] below FEnter that by simp_all
    have r: "fullRoundOf fl g' json fr i c = FEnter m rest fr'" using eq FEnter by simp
    show ?thesis
    proof (cases "fullLoop k fl g json inner (Suc m) c'")
      case None
      with i(1) FEnter r e show ?thesis by simp
    next
      case (Some res)
      obtain j found d where res: "res = (j, found, d)" by (cases res)
      with Some i(2) have d: "contextBelow n d" by blast
      from Some res i(1) have "fullLoop k fl g' json inner (Suc m) c' = Some (j, found, d)" by simp
      with Some res FEnter r e a [OF d] d show ?thesis by (cases found) auto
    qed
  qed
qed simp

section \<open>The recursion of the code\<close>

lemma startContext_below [simp]: "contextBelow n startContext"
  by (simp add: contextBelow_def startContext_def)

lemma scanned_agree:
  assumes "agree n g g'" and "length path \<le> n"
  shows "scanned fl g json b path i = scanned fl g' json b path i" and "contextBelow n (scanned fl g json b path i)"
proof -
  obtain fr c where e: "fullEnter b path startContext = (fr, c)" by fastforce
  have "frameBelow n fr \<and> contextBelow n c" using fullEnter_below [OF e assms(2)] by simp
  then have "fullLoop (length json + 2) fl g json fr i c = fullLoop (length json + 2) fl g' json fr i c
    \<and> (\<forall>j found d. fullLoop (length json + 2) fl g json fr i c = Some (j, found, d) \<longrightarrow> contextBelow n d)"
    using fullLoop_agree [OF assms(1)] by blast
  with e show "scanned fl g json b path i = scanned fl g' json b path i" "contextBelow n (scanned fl g json b path i)"
    by (simp_all add: scanned_def split: option.split)
qed

lemma searchContext_agree:
  assumes "agree n g g'" and "length path \<le> n"
  shows "searchContext fl g json path = searchContext fl g' json path" and "contextBelow n (searchContext fl g json path)"
proof -
  have "length (drop 2 path) \<le> n" using assms(2) by simp
  then show "searchContext fl g json path = searchContext fl g' json path" "contextBelow n (searchContext fl g json path)"
    using scanned_agree [OF assms(1)] assms(2) by (simp_all add: searchContext_def Let_def)
qed

lemma searchGet_agree:
  assumes "agree n g g'" and "length path \<le> n"
  shows "searchGet fl g json path = searchGet fl g' json path"
  using searchContext_agree [OF assms, of fl json] agreeD [OF assms(1)]
  by (simp add: searchGet_def Let_def contextBelow_def)

lemma subResult_agree:
  assumes "agree n g g'" and "selsBelow n subs"
  shows "subResult fl g json kind subs = subResult fl g' json kind subs"
proof -
  have "subMember fl g json kind sub = subMember fl g' json kind sub" if "sub \<in> set subs" for sub
    using agreeD [OF assms(1), of "selPath sub" json] assms(2) that by (simp add: subMember_def selsBelow_def)
  then have "map (subMember fl g json kind) subs = map (subMember fl g' json kind) subs" by simp
  then show ?thesis by (simp only: subResult_def)
qed

lemma selectGet_agree:
  assumes "agree (length path) g g'" and "path \<noteq> []"
  shows "selectGet fl g json path = selectGet fl g' json path"
proof (cases "parseSubSelectors path")
  case None
  with searchGet_agree [OF assms(1)] show ?thesis by (simp add: selectGet_def)
next
  case (Some p)
  then obtain subs out where p: "parseSubSelectors path = Some (subs, out)" by (cases p) auto
  note s = parseSubSelectors_shorter [OF p assms(2)]
  have "g j (tl out) = g' j (tl out)" for j using s(2) by (intro agreeD [OF assms(1)]) simp
  moreover have "searchGet fl g json out = searchGet fl g' json out" using s(2) by (intro searchGet_agree [OF assms(1)]) simp
  ultimately show ?thesis using p subResult_agree [OF assms(1) s(1)] by (simp add: selectGet_def)
qed

lemma stepGet_agree:
  assumes "agree (length path) g g'"
  shows "stepGet fl mods g json path = stepGet fl mods g' json path"
proof -
  have "g rjson (tl out) = g' rjson (tl out)" if "execModifier mods json path = Some (out, rjson)" "1 < length path" for out rjson
  proof (rule agreeD [OF assms])
    have "path \<noteq> []" using that(2) by auto
    from execModifier_shorter [OF that(1) this] show "length (tl out) < length path" by simp
  qed
  moreover have "searchGet fl g json path = searchGet fl g' json path" by (rule searchGet_agree [OF assms]) simp
  moreover have "selectGet fl g json path = selectGet fl g' json path" if "1 < length path"
    using that by (intro selectGet_agree [OF assms]) auto
  ultimately show ?thesis by (auto simp: stepGet_def split: option.split)
qed

lemma getWithin_fuel: "length path < n \<Longrightarrow> length path < m \<Longrightarrow> getWithin n fl mods json path = getWithin m fl mods json path"
proof (induction n arbitrary: m json path)
  case (Suc n)
  then obtain m' where m: "m = Suc m'" by (cases m) auto
  have "getWithin n fl mods j q = getWithin m' fl mods j q" if "length q < length path" for j q
    using Suc.IH [of q m' j] Suc.prems m that by simp
  then have "agree (length path) (getWithin n fl mods) (getWithin m' fl mods)" by (simp add: agree_def)
  then show ?case using stepGet_agree m by simp
qed simp

lemma full_get_step: "fullGet fl mods json path = stepGet fl mods (fullGet fl mods) json path"
proof -
  have "agree (length path) (getWithin (length path) fl mods) (fullGet fl mods)"
    unfolding agree_def fullGet_def by (intro allI impI getWithin_fuel) simp_all
  then have "stepGet fl mods (getWithin (length path) fl mods) json path = stepGet fl mods (fullGet fl mods) json path"
    by (rule stepGet_agree)
  then show ?thesis by (simp only: fullGet_def [of fl mods json path] getWithin.simps)
qed

text \<open>
  C20. The full reader is the recursive program of the code: \<open>Get\<close> satisfies its recursion
  equation for every text and path, because whatever it asks again has a shorter path, and the
  scan in between ends within the length of the text plus two rounds.
\<close>

theorem full_get_equation:
  "fullGet fl mods json path = stepGet fl mods (fullGet fl mods) json path
   \<and> (\<exists>j found d. fullLoop (length json + 2) fl (fullGet fl mods) json fr i c = Some (j, found, d))"
proof
  show "fullGet fl mods json path = stepGet fl mods (fullGet fl mods) json path" by (rule full_get_step)
  show "\<exists>j found d. fullLoop (length json + 2) fl (fullGet fl mods) json fr i c = Some (j, found, d)"
    using fullLoop_returns [of "length json + 2" json i] by fastforce
qed

section \<open>Plain paths\<close>

text \<open>On a path of keys and indices the full reader takes, step by step, the steps of \<open>Gjson\<close>.\<close>

fun sameFrame :: "frame \<Rightarrow> fullFrame \<Rightarrow> bool" where
  "sameFrame (InObject rp) fr = (fr = FObject rp)"
| "sameFrame (InArray r h) fr =
     (\<exists>st. fr = FArray (plainArrayPath r) st \<and> aSeen st = h \<and> aRes st = '''')"

fun sameRound :: "parseContext \<Rightarrow> round \<Rightarrow> fullRound \<Rightarrow> bool" where
  "sameRound c (Return j found d) r = (r = FReturn j found d)"
| "sameRound c (Continue j fr) r = (\<exists>fr'. r = FContinue j fr' c \<and> sameFrame fr fr')"
| "sameRound c (Enter k rest fr) r = (\<exists>fr'. r = FEnter k rest fr' \<and> sameFrame fr fr')"

lemma plainArrayPath_fields [simp]:
  "pPart (plainArrayPath r) = aPart r" "pPath (plainArrayPath r) = aPath r" "pPipe (plainArrayPath r) = aPipe r"
  "pPiped (plainArrayPath r) = aPiped r" "pMore (plainArrayPath r) = aMore r" "pAlogok (plainArrayPath r) = False"
  "pArrch (plainArrayPath r) = False" "pOn (plainArrayPath r) = False" "pAll (plainArrayPath r) = False"
  by (simp_all add: plainArrayPath_def noArrayPath_def)

lemma sameRound_element:
  "sameFrame fr fr' \<Longrightarrow> sameRound c (valueRound json k pmatch hit rest fr c) (elementRound json k pmatch hit rest fr' c)"
  by (auto simp: valueRound_def elementRound_def split: valueScan.split)

lemma sameRound_object: "sameRound c (objectRound matchLimit json rp i c) (liftObject rp c (objectRound matchLimit json rp i c))"
  by (auto simp: objectRound_def valueRound_def liftObject_def Let_def split: keyScan.split valueScan.split)

lemma sameRound_array:
  assumes "aSeen st = h" and "aRes st = ''''"
  shows "sameRound c (arrayRound json r h i c) (fullArrayRound fl g json (plainArrayPath r) st i c)"
  using assms
  by (auto simp: arrayRound_def fullArrayRound_def Let_def closeArray_def collected_def intro!: sameRound_element)

lemma sameRound_one:
  assumes "sameFrame fr fr'" and "plainFrame fr"
  shows "sameRound c (oneRound glob json fr i c) (fullRoundOf fl g json fr' i c)"
proof (cases fr)
  case (InObject rp)
  then have "oneRound glob json fr i c = objectRound matchLimit json rp i c"
    using oneRound_glob [OF assms(2), of glob json i c matchLimit] by (simp add: oneRound_def)
  with InObject assms(1) sameRound_object show ?thesis by (simp add: fullRoundOf_def)
next
  case (InArray r h)
  with assms(1) sameRound_array show ?thesis by (auto simp: fullRoundOf_def oneRound_def)
qed

lemma plainPath_hash: "plainPath path \<Longrightarrow> CHR ''#'' \<notin> set path"
  by (auto simp: plainPath_def list_all_iff)

lemma sameFrame_enter:
  assumes "plainPath path" and "enterAt b path c = (fr, d)" and "fullEnter b path c = (fr', d')"
  shows "sameFrame fr fr' \<and> d' = d"
  using assms(2,3) parseArrayQuery_plain [OF plainPath_hash [OF assms(1)]]
  by (auto simp: enterAt_def fullEnter_def Let_def startArray_def split: if_splits)

lemma sameLoop:
  "sameFrame fr fr' \<Longrightarrow> plainFrame fr \<Longrightarrow> fullLoop n fl g json fr' i c = parseLoop n glob json fr i c"
proof (induction n arbitrary: fr fr' i c)
  case (Suc n)
  note same = sameRound_one [OF Suc.prems, of c glob json i fl g]
  note plain = oneRound_plain [OF Suc.prems(2), of c glob json i]
  show ?case
  proof (cases "oneRound glob json fr i c")
    case (Return j found d)
    with same show ?thesis by simp
  next
    case (Continue j fr1)
    with same obtain fr1' where "fullRoundOf fl g json fr' i c = FContinue j fr1' c" "sameFrame fr1 fr1'" by auto
    with Continue plain Suc.IH [of fr1 fr1' j c] show ?thesis by simp
  next
    case (Enter k rest fr1)
    with same obtain fr1' where f: "fullRoundOf fl g json fr' i c = FEnter k rest fr1'" "sameFrame fr1 fr1'" by auto
    from Enter plain have p: "plainPath rest" "plainFrame fr1" by simp_all
    obtain inner d where e: "enterAt (json ! k) rest c = (inner, d)" by fastforce
    obtain inner' where e': "fullEnter (json ! k) rest c = (inner', d)" and s: "sameFrame inner inner'"
      using sameFrame_enter [OF p(1) e] by (cases "fullEnter (json ! k) rest c") auto
    have "plainFrame inner" using enterAt_plain [OF p(1) e] by simp
    from Suc.IH [OF s this] have i: "fullLoop n fl g json inner' (Suc k) d = parseLoop n glob json inner (Suc k) d" .
    from Suc.IH [OF f(2) p(2)] have "fullLoop n fl g json fr1' = parseLoop n glob json fr1" by (intro ext)
    with Enter f e e' i show ?thesis by (simp split: option.split)
  qed
qed simp

text \<open>
  On paths of keys and indices the full reader is the simple one: all the machinery of queries,
  pipes, sub-selectors and modifiers leaves the result of the two plain loops, for JSON lines too.
\<close>

lemma scanned_plain:
  assumes "plainPath path"
  shows "cValue (scanned fl g json b path i) = searchFrom glob json b path i \<and> \<not> cPiped (scanned fl g json b path i)"
proof -
  obtain fr c where e: "enterAt b path startContext = (fr, c)" by fastforce
  obtain fr' where e': "fullEnter b path startContext = (fr', c)" and s: "sameFrame fr fr'"
    using sameFrame_enter [OF assms e] by (cases "fullEnter b path startContext") auto
  have p: "plainFrame fr" "\<not> cPiped c" using enterAt_plain [OF assms e] by (simp_all add: startContext_def)
  obtain j found d where r: "parseLoop (length json + 2) glob json fr i c = Some (j, found, d)"
    using parseLoop_returns [of "length json + 2" json i glob fr c] by auto
  then have "\<not> cPiped d" using parseLoop_plain [OF p(1)] p(2) by blast
  moreover have "scanned fl g json b path i = d"
    using sameLoop [OF s p(1), of "length json + 2" fl g json i c glob] e' r by (simp add: scanned_def)
  ultimately show ?thesis using e r by (simp add: searchFrom_def)
qed

theorem full_get_plain:
  assumes "plainPath path"
  shows "fullGet fl mods json path = Get glob json path"
proof -
  have "path = [] \<or> hd path \<noteq> CHR ''@'' \<and> hd path \<noteq> CHR ''['' \<and> hd path \<noteq> CHR ''{''"
    using assms by (cases path) (auto simp: plainPath_Cons)
  then have "fullGet fl mods json path = searchGet fl (fullGet fl mods) json path"
    using full_get_step [of fl mods json path] by (auto simp: stepGet_def)
  also have "\<dots> = Get glob json path"
    using scanned_plain [of _ fl "fullGet fl mods" json _ _ glob] assms plainPath_drop [OF assms]
    by (simp add: searchGet_def searchContext_def Get_def Let_def startContext_def)
  finally show ?thesis .
qed

subsection \<open>Witnesses\<close>

definition sampleFloats :: floats where
  "sampleFloats = \<lparr>fNonzero = (\<lambda>s. s \<noteq> ''0''), fSafe = (\<lambda>_. True), fInt64 = (\<lambda>_. 0), fUint64 = (\<lambda>_. 0),
     fLess = (\<lambda>a b. a < b), fEq = (\<lambda>a b. a = b), fFormat = id\<rparr>"

theorem full_get_plain_witness:
  "fullGet sampleFloats (\<lambda>_. None) ''{}'' ''result.nef'' = Get (\<lambda>_ _. False) ''{}'' ''result.nef''"
proof -
  have "plainPath ''result.nef''" by code_simp
  then show ?thesis by (rule full_get_plain)
qed

end
