(* ===== verification/Pretty.thy ===== *)
theory Pretty
  imports GjsonTree GoJsonRead
begin

text \<open>
  The printer of JSON behind the modifiers \<open>@pretty\<close> and \<open>@ugly\<close> of \<open>gjson\<close>,
  \<open>src/pkg/mod/github.com/tidwall/pretty@v1.2.0/pretty.go\<close>. The index \<open>i\<close> of the code into the
  text is the rest of the text here; \<open>buf\<close> is the output so far and \<open>nl\<close> the position in it of
  the last line break.
\<close>

section \<open>Strings, numbers, blanks\<close>

text \<open>
  The bytes from behind an opening quote up to the closing one: it is preceded by an even number of
  backslashes. An unclosed string goes to the end.
\<close>

definition stringEnd :: "string \<Rightarrow> nat" where
  "stringEnd s =
     (case find_index (\<lambda>k. s ! k = CHR 0x22 \<and> \<not> escapedAfter (take k s)) [0..<length s] of
        None \<Rightarrow> length s
      | Some k \<Rightarrow> Suc k)"

function ugly :: "bytes \<Rightarrow> bytes" where
  "ugly [] = []"
| "ugly (c # s) =
     (if ord c \<le> 32 then ugly s
      else if c = CHR 0x22 then c # take (stringEnd s) s @ ugly (drop (stringEnd s) s)
      else c # ugly s)"
  by pat_completeness auto
termination
  by (relation "measure length") auto

definition Ugly :: "bytes \<Rightarrow> bytes" where
  "Ugly json = ugly json"

definition isNaNOrInf :: "string \<Rightarrow> bool" where
  "isNaNOrInf src =
     (src ! 0 \<in> {CHR ''i'', CHR ''I'', CHR ''+'', CHR ''N''}
      \<or> src ! 0 = CHR ''n'' \<and> 1 < length src \<and> src ! 1 \<noteq> CHR ''u'')"

definition numberEnd :: "char \<Rightarrow> bool" where
  "numberEnd c = (ord c \<le> 32 \<or> c \<in> {CHR '','', CHR '':'', CHR '']'', CHR ''}''})"

definition appendTabs :: "bytes \<Rightarrow> string \<Rightarrow> string \<Rightarrow> nat \<Rightarrow> bytes" where
  "appendTabs buf pre indent tabs = buf @ pre @ concat (replicate tabs indent)"

text \<open>A line break takes the place of a blank at the end of the output.\<close>

definition breakLine :: "bytes \<Rightarrow> bytes" where
  "breakLine buf = (if last buf = CHR '' '' then butlast buf else buf) @ [CHR 0x0A]"

section \<open>Sorting members\<close>

text \<open>A member: its key as written, and where it stands in the output.\<close>

record prettyPair =
  pKey :: string
  pStart :: nat
  pEnd :: nat

text \<open>The types in their order, the ranks of \<open>jtype\<close> of this package.\<close>

definition getjtype :: "string \<Rightarrow> nat" where
  "getjtype v =
     (case v of
        [] \<Rightarrow> 0
      | c # _ \<Rightarrow>
          if c = CHR 0x22 then 3 else if c = CHR ''f'' then 1 else if c = CHR ''t'' then 4
          else if c = CHR ''n'' then 0 else if c = CHR ''['' \<or> c = CHR ''{'' then 5 else 2)"

fun parsestrFrom :: "string \<Rightarrow> string \<Rightarrow> string \<Rightarrow> string" where
  "parsestrFrom s seen [] = []"
| "parsestrFrom s seen (c # t) =
     (if c = CHR 0x5C then (case unmarshalString s of None \<Rightarrow> [] | Some str \<Rightarrow> str)
      else if c = CHR 0x22 then seen
      else parsestrFrom s (seen @ [c]) t)"

definition parsestr :: "string \<Rightarrow> string" where
  "parsestr s = parsestrFrom s [] (tl s)"

definition textLess :: "floats \<Rightarrow> string \<Rightarrow> string \<Rightarrow> bool" where
  "textLess fl v1 v2 =
     (if getjtype v1 < getjtype v2 then True
      else if getjtype v1 > getjtype v2 then False
      else if getjtype v1 = 3 then parsestr v1 < parsestr v2
      else if getjtype v1 = 2 then fLess fl v1 v2
      else v1 < v2)"

definition valueText :: "bytes \<Rightarrow> prettyPair \<Rightarrow> string" where
  "valueText buf p =
     (let v = trimSpace (slice buf (pStart p) (pEnd p)) in
      if length (pKey p) + 1 \<le> length v then trimSpace (drop (length (pKey p) + 1) v) else v)"

definition memberLess :: "floats \<Rightarrow> bytes \<Rightarrow> prettyPair \<Rightarrow> prettyPair \<Rightarrow> bool" where
  "memberLess fl buf p q =
     (if textLess fl (pKey p) (pKey q) then True
      else if textLess fl (pKey q) (pKey p) then False
      else textLess fl (valueText buf p) (valueText buf q))"

text \<open>
  \<open>sort.Stable\<close>: each member moves forward while it is less than the one before it. This is the
  insertion sort the library runs on blocks of twenty, and for an order also what it makes of
  more of them.
\<close>

fun moveForward :: "('a \<Rightarrow> 'a \<Rightarrow> bool) \<Rightarrow> 'a list \<Rightarrow> 'a \<Rightarrow> 'a list" where
  "moveForward lt [] x = [x]"
| "moveForward lt (y # ys) x = (if lt x y then y # moveForward lt ys x else x # y # ys)"

definition stableSort :: "('a \<Rightarrow> 'a \<Rightarrow> bool) \<Rightarrow> 'a list \<Rightarrow> 'a list" where
  "stableSort lt xs = rev (foldl (moveForward lt) [] xs)"

definition sortPairs :: "floats \<Rightarrow> bytes \<Rightarrow> prettyPair list \<Rightarrow> bytes" where
  "sortPairs fl buf ps =
     (if ps = [] then buf
      else
        let inOrder = stableSort (memberLess fl buf) ps;
            texts = map (\<lambda>p. slice buf (pStart p) (pEnd p)) inOrder
        in if inOrder = ps then buf
           else take (pStart (hd ps)) buf
             @ concat (map (\<lambda>t. t @ '','' @ [CHR 0x0A]) (butlast texts)) @ last texts)"

section \<open>The layout\<close>

record layout =
  lPretty :: bool
  lWidth :: int
  lPrefix :: string
  lIndent :: string
  lSortKeys :: bool
  lTabs :: nat
  lMax :: int

text \<open>The output, the rest of the text, the position of the last line break, and whether it fits a line.\<close>

type_synonym printed = "bytes \<times> string \<times> int \<times> bool"

definition startsPretty :: "char \<Rightarrow> bool" where
  "startsPretty c =
     (is_digit c \<or> c \<in> {CHR 0x22, CHR ''-'', CHR ''i'', CHR ''I'', CHR ''+'', CHR ''N'', CHR ''n'', CHR ''{'',
        CHR ''['', CHR ''t'', CHR ''f''})"

definition appendPrettyString :: "bytes \<Rightarrow> string \<Rightarrow> bytes \<times> string" where
  "appendPrettyString buf json =
     (let k = Suc (stringEnd (tl json)) in (buf @ take k json, drop k json))"

definition appendPrettyNumber :: "bytes \<Rightarrow> string \<Rightarrow> bytes \<times> string" where
  "appendPrettyNumber buf json =
     (let t = takeWhile (\<lambda>c. \<not> numberEnd c) (tl json) in (buf @ hd json # t, drop (Suc (length t)) json))"

definition closing :: "char \<Rightarrow> char" where
  "closing open = (if open = CHR ''{'' then CHR ''}'' else CHR '']'')"

text \<open>The end of an object or array.\<close>

definition closePretty :: "floats \<Rightarrow> layout \<Rightarrow> char \<Rightarrow> prettyPair list \<Rightarrow> nat \<Rightarrow> bytes \<Rightarrow> int \<Rightarrow> bytes \<times> int" where
  "closePretty fl L open ps n buf nl =
     (if \<not> lPretty L then (buf @ [closing open], nl)
      else
        let buf1 = (if open = CHR ''{'' \<and> lSortKeys L then sortPairs fl buf ps else buf);
            (buf2, nl2) = (if 0 < n then (breakLine buf1, int (length buf1)) else (buf1, nl));
            buf3 = (if last buf2 \<noteq> open then appendTabs buf2 (lPrefix L) (lIndent L) (lTabs L) else buf2)
        in (buf3 @ [closing open], nl2))"

text \<open>The comma and the line break before an element: the output, the place of the element in it, and \<open>nl\<close>.\<close>

definition nextPretty :: "layout \<Rightarrow> char \<Rightarrow> nat \<Rightarrow> bytes \<Rightarrow> int \<Rightarrow> bytes \<times> nat \<times> int" where
  "nextPretty L open n buf nl =
     (let buf1 = (if 0 < n then buf @ '','' @ (if lWidth L \<noteq> -1 \<and> open = CHR ''['' then '' '' else '''') else buf)
      in if lPretty L
         then (appendTabs (breakLine buf1) (lPrefix L) (lIndent L) (lTabs L + 1), length (breakLine buf1), int (length buf1))
         else (buf1, 0, nl))"

text \<open>
  \<open>appendPrettyAny\<close>, \<open>appendPrettyObject\<close> and its loop call each other; \<open>go\<close> is the printer
  for the calls, and \<open>prettyRun\<close> ties the knot, with a bound on the depth of the calls. \<open>open\<close>
  is the bracket of an object or array, with the text behind it. An array is first tried on one
  line.
\<close>

definition oneLine :: "layout \<Rightarrow> int \<Rightarrow> layout" where
  "oneLine L room = L\<lparr>lPretty := False, lIndent := '''', lTabs := 0, lMax := room\<rparr>"

definition deeper :: "layout \<Rightarrow> layout" where
  "deeper L = L\<lparr>lTabs := lTabs L + 1\<rparr>"

datatype call = Any | Object char | Loop char "prettyPair list" nat

type_synonym printer = "call \<Rightarrow> layout \<Rightarrow> bytes \<Rightarrow> string \<Rightarrow> int \<Rightarrow> printed option"

definition appendPrettyAny :: "printer \<Rightarrow> layout \<Rightarrow> bytes \<Rightarrow> string \<Rightarrow> int \<Rightarrow> printed option" where
  "appendPrettyAny go L buf json nl =
     (case dropWhile (\<lambda>c. \<not> startsPretty c) json of
        [] \<Rightarrow> Some (buf, [], nl, True)
      | c # s \<Rightarrow>
          if c = CHR 0x22 then
            (case appendPrettyString buf (c # s) of (buf1, rest) \<Rightarrow> Some (buf1, rest, nl, True))
          else if is_digit c \<or> c = CHR ''-'' \<or> isNaNOrInf (c # s) then
            (case appendPrettyNumber buf (c # s) of (buf1, rest) \<Rightarrow> Some (buf1, rest, nl, True))
          else if c = CHR ''{'' \<or> c = CHR ''['' then go (Object c) L buf s nl
          else if c = CHR ''t'' then Some (buf @ ''true'', drop 4 (c # s), nl, True)
          else if c = CHR ''f'' then Some (buf @ ''false'', drop 5 (c # s), nl, True)
          else Some (buf @ ''null'', drop 4 (c # s), nl, True))"

definition appendPrettyObject :: "printer \<Rightarrow> char \<Rightarrow> layout \<Rightarrow> bytes \<Rightarrow> string \<Rightarrow> int \<Rightarrow> printed option" where
  "appendPrettyObject go open L buf s nl =
     (let room = lWidth L - (int (length buf) - nl);
          lines = go (Loop open [] 0) L (buf @ [open]) s nl in
      if 0 < lWidth L \<and> lPretty L \<and> open = CHR ''['' \<and> lMax L = -1 then
        (if 3 < room then
           (case go (Object open) (oneLine L room) buf s 0 of
              None \<Rightarrow> None
            | Some (buf1, rest, nl1, ok) \<Rightarrow>
                if ok \<and> int (length buf1) - int (length buf) \<le> room then Some (buf1, rest, nl, True) else lines)
         else lines)
      else if 0 < lWidth L \<and> lMax L \<noteq> -1 \<and> open = CHR ''{'' then Some (buf, open # s, nl, False)
      else lines)"

text \<open>One member or element, from its first byte, and the loop after it.\<close>

definition prettyMember ::
  "printer \<Rightarrow> char \<Rightarrow> prettyPair list \<Rightarrow> nat \<Rightarrow> layout \<Rightarrow> bytes \<Rightarrow> string \<Rightarrow> int \<Rightarrow> printed option" where
  "prettyMember go open ps n L buf json nl =
     (case nextPretty L open n buf nl of (buf1, start, nl1) \<Rightarrow>
      case (if open = CHR ''{''
            then (case appendPrettyString buf1 json of (buf2, rest) \<Rightarrow>
                    (buf2 @ '':'' @ (if lPretty L then '' '' else ''''), rest))
            else (buf1, json)) of (buf2, rest2) \<Rightarrow>
        (case go Any (deeper L) buf2 rest2 nl1 of
           None \<Rightarrow> None
         | Some (buf3, rest3, nl3, ok) \<Rightarrow>
             if lMax L \<noteq> -1 \<and> \<not> ok then Some (buf3, rest3, nl3, False)
             else go (Loop open (ps @ [\<lparr>pKey = take (Suc (stringEnd (tl json))) json, pStart = start, pEnd = length buf3\<rparr>])
                    (n + 1)) L buf3 rest3 nl3))"

definition prettyLoop ::
  "floats \<Rightarrow> printer \<Rightarrow> char \<Rightarrow> prettyPair list \<Rightarrow> nat \<Rightarrow> layout \<Rightarrow> bytes \<Rightarrow> string \<Rightarrow> int \<Rightarrow> printed option" where
  "prettyLoop fl go open ps n L buf json nl =
     (case json of
        [] \<Rightarrow> Some (buf, [], nl, open \<noteq> CHR ''{'')
      | c # s \<Rightarrow>
          if ord c \<le> 32 then go (Loop open ps n) L buf s nl
          else if c = closing open then
            (case closePretty fl L open ps n buf nl of (buf1, nl1) \<Rightarrow> Some (buf1, s, nl1, open \<noteq> CHR ''{''))
          else if open = CHR ''['' \<or> c = CHR 0x22 then prettyMember go open ps n L buf json nl
          else go (Loop open ps n) L buf s nl)"

primrec prettyRun :: "nat \<Rightarrow> floats \<Rightarrow> printer" where
  "prettyRun 0 fl = (\<lambda>call L buf json nl. None)"
| "prettyRun (Suc k) fl = (\<lambda>call L buf json nl.
     (case call of
        Any \<Rightarrow> appendPrettyAny (prettyRun k fl) L buf json nl
      | Object open \<Rightarrow> appendPrettyObject (prettyRun k fl) open L buf json nl
      | Loop open ps n \<Rightarrow> prettyLoop fl (prettyRun k fl) open ps n L buf json nl))"

text \<open>\<open>PrettyOptions\<close>; four times the length of the text, plus four, bounds the calls (\<open>pretty_returns\<close>).\<close>

record prettyOptions =
  oWidth :: int
  oPrefix :: string
  oIndent :: string
  oSortKeys :: bool

definition DefaultOptions :: prettyOptions where
  "DefaultOptions = \<lparr>oWidth = 80, oPrefix = '''', oIndent = ''  '', oSortKeys = False\<rparr>"

definition startLayout :: "prettyOptions \<Rightarrow> layout" where
  "startLayout opts = \<lparr>lPretty = True, lWidth = oWidth opts, lPrefix = oPrefix opts, lIndent = oIndent opts,
     lSortKeys = oSortKeys opts, lTabs = 0, lMax = -1\<rparr>"

definition PrettyOptions :: "floats \<Rightarrow> bytes \<Rightarrow> prettyOptions option \<Rightarrow> bytes" where
  "PrettyOptions fl json opts =
     (let o' = (case opts of None \<Rightarrow> DefaultOptions | Some x \<Rightarrow> x) in
      case prettyRun (4 * length json + 4) fl Any (startLayout o') (oPrefix o') json 0 of
        None \<Rightarrow> []
      | Some (buf, rest, nl, ok) \<Rightarrow> if buf \<noteq> [] then buf @ [CHR 0x0A] else buf)"

definition PrettyText :: "floats \<Rightarrow> bytes \<Rightarrow> bytes" where
  "PrettyText fl json = PrettyOptions fl json None"

section \<open>Ugly\<close>

lemma stringEnd_chars:
  assumes "jchars b"
  shows "stringEnd (b @ CHR 0x22 # rest) = Suc (length b)"
proof -
  let ?s = "b @ CHR 0x22 # rest"
  have "\<not> (?s ! k = CHR 0x22 \<and> \<not> escapedAfter (take k ?s))" if "k < length b" for k
  proof -
    have "b ! k = CHR 0x22 \<Longrightarrow> b = take k b @ CHR 0x22 # drop (Suc k) b" using that by (metis id_take_nth_drop)
    then show ?thesis using jchars_quote [OF assms] that by (auto simp: nth_append)
  qed
  then have "find_index (\<lambda>k. ?s ! k = CHR 0x22 \<and> \<not> escapedAfter (take k ?s)) [0..<length ?s] = Some (length b - 0)"
    using jchars_end [OF assms] by (intro find_index_upt) auto
  then show ?thesis by (simp add: stringEnd_def)
qed

lemma ugly_string: "jchars b \<Longrightarrow> ugly (CHR 0x22 # b @ CHR 0x22 # rest) = CHR 0x22 # b @ CHR 0x22 # ugly rest"
  by (simp add: stringEnd_chars)

lemma ugly_dense: "list_all (\<lambda>c. 32 < ord c \<and> c \<noteq> CHR 0x22) x \<Longrightarrow> ugly (x @ rest) = x @ ugly rest"
  by (induction x) auto

lemma ugly_ws: "ws w \<Longrightarrow> ugly (w @ rest) = ugly rest"
  by (induction w) (auto simp: isWs_def)

lemma inNumber_dense: "list_all inNumber s \<Longrightarrow> list_all (\<lambda>c. 32 < ord c \<and> c \<noteq> CHR 0x22) s"
  by (erule list.pred_mono_strong) (auto simp: inNumber_def numStop_def bracketOrQuote_def split: if_splits)

text \<open>The text \<open>u\<close> is what is left of \<open>v\<close>, and nothing more is left out of it.\<close>

definition uglyOf :: "string \<Rightarrow> string \<Rightarrow> bool" where
  "uglyOf v u \<longleftrightarrow> (\<forall>rest. ugly (v @ rest) = u @ ugly rest) \<and> (\<forall>rest. ugly (u @ rest) = u @ ugly rest)"

lemma uglyOf_append: "uglyOf a u \<Longrightarrow> uglyOf b v \<Longrightarrow> uglyOf (a @ b) (u @ v)"
  by (simp add: uglyOf_def)

lemma uglyOf_ws: "ws w \<Longrightarrow> uglyOf w []"
  by (simp add: uglyOf_def ugly_ws)

lemma uglyOf_dense: "list_all (\<lambda>c. 32 < ord c \<and> c \<noteq> CHR 0x22) x \<Longrightarrow> uglyOf x x"
  by (simp add: uglyOf_def ugly_dense)

lemma uglyOf_string: "says b s \<Longrightarrow> uglyOf (CHR 0x22 # b @ [CHR 0x22]) (CHR 0x22 # b @ [CHR 0x22])"
  by (simp add: uglyOf_def ugly_string says_jchars del: ugly.simps)

lemma means_ugly:
  shows "means v x \<Longrightarrow> \<exists>u. uglyOf v u \<and> means u x"
    and "meansMembers m kvs \<Longrightarrow> \<exists>u. uglyOf m u \<and> meansMembers u kvs"
    and "meansElements l xs \<Longrightarrow> \<exists>u. uglyOf l u \<and> meansElements u xs"
proof (induction rule: means_meansMembers_meansElements.inducts)
  case mtrue
  have "uglyOf ''true'' ''true''" by (rule uglyOf_dense) simp
  then show ?case by (blast intro: means_meansMembers_meansElements.mtrue)
next
  case mfalse
  have "uglyOf ''false'' ''false''" by (rule uglyOf_dense) simp
  then show ?case by (blast intro: means_meansMembers_meansElements.mfalse)
next
  case mnull
  have "uglyOf ''null'' ''null''" by (rule uglyOf_dense) simp
  then show ?case by (blast intro: means_meansMembers_meansElements.mnull)
next
  case (mnum s)
  from uglyOf_dense [OF inNumber_dense [OF jnumber_plain [OF mnum]]] mnum show ?case
    by (blast intro: means_meansMembers_meansElements.mnum)
next
  case (mstr b s)
  from uglyOf_string [OF mstr] mstr show ?case by (blast intro: means_meansMembers_meansElements.mstr)
next
  case (memptyObject w)
  have "uglyOf (''{'' @ w @ ''}'') (''{'' @ [] @ ''}'')"
    by (intro uglyOf_append uglyOf_ws memptyObject; rule uglyOf_dense; simp)
  then show ?case using means_meansMembers_meansElements.memptyObject [of "[]"] by auto
next
  case (mobject w m kvs)
  then obtain u where u: "uglyOf m u" "meansMembers u kvs" by blast
  have "uglyOf (''{'' @ w @ m @ ''}'') (''{'' @ [] @ u @ ''}'')"
    by (intro uglyOf_append uglyOf_ws mobject u; rule uglyOf_dense; simp)
  then show ?case using means_meansMembers_meansElements.mobject [OF _ u(2), of "[]"] by auto
next
  case (memptyArray w)
  have "uglyOf (''['' @ w @ '']'') (''['' @ [] @ '']'')"
    by (intro uglyOf_append uglyOf_ws memptyArray; rule uglyOf_dense; simp)
  then show ?case using means_meansMembers_meansElements.memptyArray [of "[]"] by auto
next
  case (marray l xs)
  then obtain u where u: "uglyOf l u" "meansElements u xs" by blast
  have "uglyOf (''['' @ l @ '']'') (''['' @ u @ '']'')"
    by (intro uglyOf_append u; rule uglyOf_dense; simp)
  then show ?case using means_meansMembers_meansElements.marray [OF u(2)] by auto
next
  case (mmember b k w1 w2 v x w3)
  then obtain u where u: "uglyOf v u" "means u x" by blast
  have "uglyOf ((CHR 0x22 # b @ [CHR 0x22]) @ w1 @ '':'' @ w2 @ v @ w3) ((CHR 0x22 # b @ [CHR 0x22]) @ [] @ '':'' @ [] @ u @ [])"
    by (intro uglyOf_append uglyOf_string [OF mmember(1)] uglyOf_ws mmember u; rule uglyOf_dense; simp)
  then show ?case using means_meansMembers_meansElements.mmember [OF mmember(1) _ _ u(2), of "[]" "[]" "[]"] by auto
next
  case (mmembers b k w1 w2 v x w3 w4 m kvs)
  then obtain u u' where u: "uglyOf v u" "means u x" and m: "uglyOf m u'" "meansMembers u' kvs" by blast
  have "uglyOf ((CHR 0x22 # b @ [CHR 0x22]) @ w1 @ '':'' @ w2 @ v @ w3 @ '','' @ w4 @ m)
      ((CHR 0x22 # b @ [CHR 0x22]) @ [] @ '':'' @ [] @ u @ [] @ '','' @ [] @ u')"
    by (intro uglyOf_append uglyOf_string [OF mmembers(1)] uglyOf_ws mmembers u m; rule uglyOf_dense; simp)
  then show ?case using means_meansMembers_meansElements.mmembers [OF mmembers(1) _ _ u(2) _ _ m(2), of "[]" "[]" "[]" "[]"] by auto
next
  case (melement w1 v x w2)
  then obtain u where u: "uglyOf v u" "means u x" by blast
  have "uglyOf (w1 @ v @ w2) ([] @ u @ [])" by (intro uglyOf_append uglyOf_ws melement u)
  then show ?case using means_meansMembers_meansElements.melement [OF _ u(2), of "[]" "[]"] by auto
next
  case (melements w1 v x w2 l xs)
  then obtain u u' where u: "uglyOf v u" "means u x" and m: "uglyOf l u'" "meansElements u' xs" by blast
  have "uglyOf (w1 @ v @ w2 @ '','' @ l) ([] @ u @ [] @ '','' @ u')"
    by (intro uglyOf_append uglyOf_ws melements u m; rule uglyOf_dense; simp)
  then show ?case using means_meansMembers_meansElements.melements [OF _ u(2) _ m(2), of "[]" "[]"] by auto
qed

text \<open>
  \<open>Ugly\<close> takes the blanks out of a JSON text and leaves what it means; done twice it
  changes nothing more.
\<close>

lemma ugly_keeps_meaning:
  assumes "means v x" and "ws w" and "ws w'"
  shows "means (Ugly (w @ v @ w')) x \<and> Ugly (Ugly (w @ v @ w')) = Ugly (w @ v @ w')"
proof -
  obtain u where u: "uglyOf v u" "means u x" using means_ugly(1) [OF assms(1)] by blast
  have "ugly (w @ v @ w') = u" using u(1) ugly_ws [OF assms(2)] ugly_ws [OF assms(3), of "[]"] by (simp add: uglyOf_def)
  moreover have "ugly u = u" using u(1) by (metis append_Nil2 ugly.simps(1) uglyOf_def)
  ultimately show ?thesis using u(2) by (simp add: Ugly_def)
qed

section \<open>Pretty returns\<close>

definition printingDepth :: "call \<Rightarrow> layout \<Rightarrow> nat \<Rightarrow> nat" where
  "printingDepth call L n =
     (case call of Any \<Rightarrow> 4 * n + 1 | Object _ \<Rightarrow> 4 * n + (if lPretty L then 4 else 3) | Loop _ _ _ \<Rightarrow> 4 * n + 2)"

text \<open>How much of the text a call leaves: less, unless the text does not fit the line.\<close>

definition leaves :: "call \<Rightarrow> layout \<Rightarrow> string \<Rightarrow> printed \<Rightarrow> bool" where
  "leaves call L json r =
     (case r of (buf, rest, nl, ok) \<Rightarrow>
        (case call of
           Any \<Rightarrow> length rest \<le> length json \<and> (json \<noteq> [] \<and> (lMax L = -1 \<or> ok) \<longrightarrow> length rest < length json)
         | Object _ \<Rightarrow> length rest \<le> Suc (length json) \<and> (lMax L = -1 \<or> ok \<longrightarrow> length rest \<le> length json)
         | Loop _ _ _ \<Rightarrow> length rest \<le> length json))"

lemma layout_simps [simp]:
  "lMax (deeper L) = lMax L" "lPretty (deeper L) = lPretty L" "lSortKeys (deeper L) = lSortKeys L"
  "lPretty (oneLine L m) = False" "lMax (oneLine L m) = m" "lSortKeys (oneLine L m) = lSortKeys L"
  by (simp_all add: deeper_def oneLine_def)

lemma stringEnd_le: "stringEnd s \<le> length s"
  by (auto simp: stringEnd_def dest!: find_index_Some split: option.splits)

lemma any_total:
  assumes "\<And>call L buf json nl. printingDepth call L (length json) \<le> k \<Longrightarrow> \<exists>r. go call L buf json nl = Some r \<and> leaves call L json r"
    and "4 * length json \<le> k"
  shows "\<exists>r. appendPrettyAny go L buf json nl = Some r \<and> leaves Any L json r"
proof (cases "dropWhile (\<lambda>c. \<not> startsPretty c) json")
  case Nil
  show ?thesis unfolding appendPrettyAny_def Nil by (simp add: leaves_def)
next
  case (Cons c s)
  have len: "length (c # s) \<le> length json" using length_dropWhile_le [of "\<lambda>c. \<not> startsPretty c" json] Cons by simp
  have scalar: "\<exists>r. Some (buf', drop (Suc m) (c # s), nl, True) = Some r \<and> leaves Any L json r" for buf' m
    using len by (auto simp: leaves_def)
  consider (quoted) "c = CHR 0x22"
    | (number) "c \<noteq> CHR 0x22" "is_digit c \<or> c = CHR ''-'' \<or> isNaNOrInf (c # s)"
    | (box) "c \<noteq> CHR 0x22" "\<not> (is_digit c \<or> c = CHR ''-'' \<or> isNaNOrInf (c # s))" "c = CHR ''{'' \<or> c = CHR ''[''"
    | (literal) "c \<noteq> CHR 0x22" "\<not> (is_digit c \<or> c = CHR ''-'' \<or> isNaNOrInf (c # s))" "\<not> (c = CHR ''{'' \<or> c = CHR ''['')"
    by blast
  then show ?thesis
  proof cases
    case quoted
    then show ?thesis unfolding appendPrettyAny_def Cons
      using scalar [of "buf @ take (Suc (stringEnd (tl (c # s)))) (c # s)" "stringEnd (tl (c # s))"]
      by (simp only: list.case if_True appendPrettyString_def Let_def split_conv simp_thms)
  next
    case number
    then show ?thesis unfolding appendPrettyAny_def Cons
      by (simp only: list.case if_True if_False appendPrettyNumber_def Let_def split_conv scalar)
  next
    case literal
    then have "appendPrettyAny go L buf json nl =
        (if c = CHR ''t'' then Some (buf @ ''true'', drop 4 (c # s), nl, True)
         else if c = CHR ''f'' then Some (buf @ ''false'', drop 5 (c # s), nl, True)
         else Some (buf @ ''null'', drop 4 (c # s), nl, True))"
      unfolding appendPrettyAny_def Cons by (simp only: list.case if_False)
    moreover have "Suc 3 = 4" "Suc 4 = 5" by simp_all
    ultimately show ?thesis
      using scalar [of "buf @ ''true''" 3] scalar [of "buf @ ''false''" 4] scalar [of "buf @ ''null''" 3]
      by (cases "c = CHR ''t''"; cases "c = CHR ''f''") (simp_all only: if_True if_False simp_thms)
  next
    case box
    then have go: "appendPrettyAny go L buf json nl = go (Object c) L buf s nl"
      unfolding appendPrettyAny_def Cons by (simp only: list.case if_False if_True)
    have "printingDepth (Object c) L (length s) \<le> k" using assms(2) len by (simp add: printingDepth_def)
    from assms(1) [OF this, of buf nl] obtain r where r: "go (Object c) L buf s nl = Some r" "leaves (Object c) L s r"
      by blast
    have "leaves Any L json r" using r(2) len by (auto simp: leaves_def split: prod.splits)
    with go r(1) show ?thesis by simp
  qed
qed

lemma object_total:
  assumes "\<And>call L buf json nl. printingDepth call L (length json) \<le> k \<Longrightarrow> \<exists>r. go call L buf json nl = Some r \<and> leaves call L json r"
    and "4 * length s + (if lPretty L then 3 else 2) \<le> k"
  shows "\<exists>r. appendPrettyObject go open L buf s nl = Some r \<and> leaves (Object open) L s r"
proof -
  have "printingDepth (Loop open [] 0) L (length s) \<le> k" using assms(2) by (simp add: printingDepth_def split: if_splits)
  from assms(1) [OF this, of "buf @ [open]" nl] obtain r where
    r: "go (Loop open [] 0) L (buf @ [open]) s nl = Some r" "leaves (Loop open [] 0) L s r" by blast
  have lines: "leaves (Object open) L s r" using r(2) by (auto simp: leaves_def split: prod.splits)
  show ?thesis
  proof (cases "0 < lWidth L \<and> lPretty L \<and> open = CHR ''['' \<and> lMax L = -1 \<and> 3 < lWidth L - (int (length buf) - nl)")
    case True
    define m where "m = lWidth L - (int (length buf) - nl)"
    have "printingDepth (Object open) (oneLine L m) (length s) \<le> k" using assms(2) True by (simp add: printingDepth_def)
    from assms(1) [OF this, of buf 0] obtain q where
      q: "go (Object open) (oneLine L m) buf s 0 = Some q" "leaves (Object open) (oneLine L m) s q" by blast
    obtain buf1 rest nl1 ok where t: "q = (buf1, rest, nl1, ok)" by (cases q) auto
    have o: "appendPrettyObject go open L buf s nl =
        (if ok \<and> int (length buf1) - int (length buf) \<le> m then Some (buf1, rest, nl, True) else Some r)"
      using True q(1) r(1) t unfolding appendPrettyObject_def Let_def m_def [symmetric] by simp
    show ?thesis
    proof (cases "ok \<and> int (length buf1) - int (length buf) \<le> m")
      case True
      then show ?thesis using o q(2) t by (simp add: leaves_def)
    next
      case False
      then have "appendPrettyObject go open L buf s nl = Some r" unfolding o by (simp only: if_False)
      then show ?thesis using lines by blast
    qed
  next
    case False
    then have "appendPrettyObject go open L buf s nl =
        (if 0 < lWidth L \<and> lMax L \<noteq> -1 \<and> open = CHR ''{'' then Some (buf, open # s, nl, False) else Some r)"
      using r(1) unfolding appendPrettyObject_def Let_def by auto
    with lines show ?thesis
      by (cases "0 < lWidth L \<and> lMax L \<noteq> -1 \<and> open = CHR ''{''") (simp_all add: leaves_def)
  qed
qed

lemma loop_total:
  assumes "\<And>call L buf json nl. printingDepth call L (length json) \<le> k \<Longrightarrow> \<exists>r. go call L buf json nl = Some r \<and> leaves call L json r"
    and "4 * length json + 1 \<le> k"
  shows "\<exists>r. prettyLoop fl go open ps n L buf json nl = Some r \<and> leaves (Loop open ps n) L json r"
proof (cases json)
  case Nil
  then show ?thesis by (simp add: prettyLoop_def leaves_def)
next
  case (Cons c s)
  have go: "\<exists>r. go (Loop open ps' n') L buf' json' nl' = Some r \<and> leaves (Loop open ps n) L json r"
    if "length json' < length json" for ps' n' buf' json' nl'
  proof -
    have "printingDepth (Loop open ps' n') L (length json') \<le> k" using assms(2) that by (simp add: printingDepth_def)
    from assms(1) [OF this, of buf' nl'] that show ?thesis by (fastforce simp: leaves_def split: prod.splits)
  qed
  have member: "\<exists>r. prettyMember go open ps n L buf json nl = Some r \<and> leaves (Loop open ps n) L json r"
  proof -
    obtain buf1 start nl1 where n: "nextPretty L open n buf nl = (buf1, start, nl1)" by (cases "nextPretty L open n buf nl") auto
    obtain buf2 rest2 where q: "(if open = CHR ''{''
            then (case appendPrettyString buf1 json of (buf2, rest) \<Rightarrow>
                    (buf2 @ '':'' @ (if lPretty L then '' '' else ''''), rest))
            else (buf1, json)) = (buf2, rest2)" by fastforce
    have rest2: "length rest2 \<le> length json" "open = CHR ''{'' \<longrightarrow> length rest2 < length json"
      using q Cons by (auto simp: appendPrettyString_def Let_def split: if_splits)
    have "printingDepth Any (deeper L) (length rest2) \<le> k" using rest2(1) assms(2) by (simp add: printingDepth_def)
    from assms(1) [OF this, of buf2 nl1] obtain r where
      r: "go Any (deeper L) buf2 rest2 nl1 = Some r" "leaves Any (deeper L) rest2 r" by blast
    obtain buf3 rest3 nl3 ok where t: "r = (buf3, rest3, nl3, ok)" by (cases r) auto
    show ?thesis
    proof (cases "lMax L \<noteq> -1 \<and> \<not> ok")
      case True
      then show ?thesis using n q r t rest2 by (auto simp: prettyMember_def leaves_def)
    next
      case False
      have "length rest3 < length json"
      proof (cases "rest2 = []")
        case True
        then show ?thesis using r(2) t Cons by (simp add: leaves_def)
      next
        case ne: False
        then show ?thesis using r(2) t rest2 False by (auto simp: leaves_def)
      qed
      from False n q r(1) t obtain ps' where
        "prettyMember go open ps n L buf json nl = go (Loop open ps' (n + 1)) L buf3 rest3 nl3"
        by (auto simp: prettyMember_def)
      with go [OF \<open>length rest3 < length json\<close>] show ?thesis by simp
    qed
  qed
  consider (skip) "ord c \<le> 32 \<or> ord c > 32 \<and> c \<noteq> closing open \<and> open \<noteq> CHR ''['' \<and> c \<noteq> CHR 0x22"
    | (close) "ord c > 32" "c = closing open"
    | (enter) "ord c > 32" "c \<noteq> closing open" "open = CHR ''['' \<or> c = CHR 0x22"
    by fastforce
  then show ?thesis
  proof cases
    case skip
    then have "prettyLoop fl go open ps n L buf json nl = go (Loop open ps n) L buf s nl"
      using Cons by (auto simp: prettyLoop_def)
    then show ?thesis using go [of s] Cons by simp
  next
    case close
    then show ?thesis using Cons by (cases "closePretty fl L open ps n buf nl") (simp add: prettyLoop_def leaves_def)
  next
    case enter
    then have "prettyLoop fl go open ps n L buf json nl = prettyMember go open ps n L buf json nl"
      using Cons by (auto simp: prettyLoop_def)
    then show ?thesis using member by simp
  qed
qed

text \<open>The bound on the calls of \<open>PrettyOptions\<close> is never reached.\<close>

lemma prettyRun_total:
  "printingDepth call L (length json) \<le> k \<Longrightarrow> \<exists>r. prettyRun k fl call L buf json nl = Some r \<and> leaves call L json r"
proof (induction k arbitrary: call L buf json nl)
  case 0
  then show ?case by (auto simp: printingDepth_def split: call.splits if_splits)
next
  case (Suc k)
  then show ?case
    using any_total [of k "prettyRun k fl" json, OF Suc.IH] object_total [of k "prettyRun k fl" json L, OF Suc.IH]
      loop_total [of k "prettyRun k fl" json, OF Suc.IH]
    by (cases call) (auto simp: printingDepth_def split: if_splits)
qed

theorem pretty_returns: "\<exists>r. prettyRun (4 * length json + 4) fl Any L buf json nl = Some r"
  using prettyRun_total [of Any L json "4 * length json + 4" fl buf nl] by (auto simp: printingDepth_def)

end
