(* ===== verification/PrettyMeans.thy ===== *)
theory PrettyMeans
  imports Pretty GjsonLookup GjsonGet
begin

text \<open>
  \<open>PrettyOptions\<close> leaves what a JSON text means, for every width and every prefix and indentation
  made of blanks: the proof follows the grammar of the text through the printer's calls, on
  several lines and in the attempts to print an array on one.
\<close>

section \<open>Output\<close>

definition blankLayout :: "layout \<Rightarrow> bool" where
  "blankLayout L \<longleftrightarrow> ws (lPrefix L) \<and> ws (lIndent L) \<and> \<not> lSortKeys L"

text \<open>Output that a line break does not shorten.\<close>

definition solid :: "bytes \<Rightarrow> bool" where
  "solid buf \<longleftrightarrow> buf \<noteq> [] \<and> last buf \<noteq> CHR '' ''"

lemma blankLayout_simps [simp]:
  "blankLayout (deeper L) = blankLayout L" "blankLayout L \<Longrightarrow> blankLayout (oneLine L m)"
  by (simp_all add: blankLayout_def deeper_def oneLine_def)

lemma ws_concat: "ws w \<Longrightarrow> ws (concat (replicate n w))"
  by (induction n) simp_all

lemma ws_newline [simp]: "ws [CHR 0x0A]" "isWs (CHR 0x0A)"
  by (simp_all add: ws_def isWs_def)

lemma appendTabs_ws: "ws p \<Longrightarrow> ws i \<Longrightarrow> \<exists>w. ws w \<and> appendTabs buf p i n = buf @ w"
  by (intro exI [of _ "p @ concat (replicate n i)"]) (simp add: appendTabs_def ws_concat)

lemma breakLine_solid: "solid buf \<Longrightarrow> breakLine buf = buf @ [CHR 0x0A]"
  by (simp add: breakLine_def solid_def)

definition comma :: "nat \<Rightarrow> string" where
  "comma n = (if 0 < n then '','' else '''')"

lemma nextPretty_ws:
  assumes "blankLayout L" and "solid buf"
  shows "\<exists>w. ws w \<and> fst (nextPretty L open n buf nl) = buf @ comma n @ w"
proof -
  let ?b = "if 0 < n then buf @ '','' @ (if lWidth L \<noteq> -1 \<and> open = CHR ''['' then '' '' else '''') else buf"
  have blank: "ws '' ''" by (simp add: ws_def isWs_def)
  have b: "\<exists>w. ws w \<and> ?b = buf @ comma n @ w" using blank by (auto simp: comma_def)
  have "breakLine ?b = buf @ comma n @ [CHR 0x0A]"
    using assms(2) by (simp add: comma_def breakLine_def solid_def butlast_append)
  moreover obtain w where "ws w" "appendTabs (breakLine ?b) (lPrefix L) (lIndent L) (lTabs L + 1) = breakLine ?b @ w"
    using appendTabs_ws [of "lPrefix L" "lIndent L"] assms(1) unfolding blankLayout_def by blast
  ultimately have "\<exists>w. ws w \<and> appendTabs (breakLine ?b) (lPrefix L) (lIndent L) (lTabs L + 1) = buf @ comma n @ w"
    by (intro exI [of _ "[CHR 0x0A] @ w"]) simp
  with b show ?thesis by (cases "lPretty L") (simp_all add: nextPretty_def Let_def)
qed

lemma closePretty_ws:
  assumes "blankLayout L" and "solid buf"
  shows "\<exists>w. ws w \<and> fst (closePretty fl L open ps n buf nl) = buf @ w @ [closing open]"
proof (cases "lPretty L")
  case False
  then show ?thesis by (intro exI [of _ "[]"]) (simp add: closePretty_def)
next
  case True
  let ?b = "if 0 < n then breakLine buf else buf"
  have "\<exists>w. ws w \<and> ?b = buf @ w" using breakLine_solid [OF assms(2)] by (cases "0 < n") auto
  then obtain w where w: "ws w" "?b = buf @ w" by blast
  obtain t where t: "ws t" "appendTabs ?b (lPrefix L) (lIndent L) (lTabs L) = ?b @ t"
    using appendTabs_ws [of "lPrefix L" "lIndent L"] assms(1) unfolding blankLayout_def by blast
  have "fst (closePretty fl L open ps n buf nl) =
      (if last ?b \<noteq> open then appendTabs ?b (lPrefix L) (lIndent L) (lTabs L) else ?b) @ [closing open]"
    using True assms(1) by (simp add: closePretty_def blankLayout_def)
  then show ?thesis using w t
    by (cases "last ?b \<noteq> open") (auto intro: exI [of _ "w @ t"] exI [of _ w])
qed

section \<open>Where values begin and end\<close>

lemma dense_solid: "s \<noteq> [] \<Longrightarrow> list_all (\<lambda>c. 32 < ord c \<and> c \<noteq> CHR 0x22) s \<Longrightarrow> solid s"
  unfolding solid_def list_all_iff using last_in_set [of s] by fastforce

lemma means_solid: "means v x \<Longrightarrow> solid v"
proof (erule means.cases)
  fix s
  assume "v = s" and n: "jnumber s"
  then show "solid v"
    using dense_solid [OF _ inNumber_dense [OF jnumber_plain [OF n]]] jnumber_head [OF n] by auto
qed (simp_all add: solid_def)

lemma solid_append [simp]: "solid o' \<Longrightarrow> solid (b @ o')"
  by (simp add: solid_def)

lemma startsPretty_value: "c = CHR ''-'' \<or> is_digit c \<Longrightarrow> startsPretty c \<and> 32 < ord c"
  by (auto simp: startsPretty_def is_digit_def)

lemma means_head: "means v x \<Longrightarrow> \<exists>c s. v = c # s \<and> startsPretty c \<and> 32 < ord c \<and> c \<noteq> CHR '']''"
proof (erule means.cases)
  fix t
  assume "v = t" and n: "jnumber t"
  obtain c s where t: "t = c # s" "c = CHR ''-'' \<or> is_digit c" using jnumber_head [OF n] by blast
  then have "c \<noteq> CHR '']''" by (auto simp: is_digit_def)
  with t startsPretty_value [OF t(2)] \<open>v = t\<close> show "\<exists>c s. v = c # s \<and> startsPretty c \<and> 32 < ord c \<and> c \<noteq> CHR '']''"
    by blast
qed (simp_all add: startsPretty_def)

section \<open>One value\<close>

lemma prettyRun_Some:
  "prettyRun k fl call L buf json nl = Some r \<Longrightarrow>
     \<exists>j. k = Suc j \<and>
       (case call of
          Any \<Rightarrow> appendPrettyAny (prettyRun j fl) L buf json nl
        | Object open \<Rightarrow> appendPrettyObject (prettyRun j fl) open L buf json nl
        | Loop open ps n \<Rightarrow> prettyLoop fl (prettyRun j fl) open ps n L buf json nl) = Some r"
  by (cases k) simp_all

text \<open>A value is printed as a value of the same meaning, unless it does not fit the line.\<close>

definition printed :: "string \<Rightarrow> gvalue \<Rightarrow> bool" where
  "printed v x \<longleftrightarrow> (\<forall>k fl L buf u rest nl buf' rest' nl' ok.
     blankLayout L \<longrightarrow> list_all (\<lambda>c. \<not> startsPretty c) u \<longrightarrow> stops rest \<longrightarrow>
     prettyRun k fl Any L buf (u @ v @ rest) nl = Some (buf', rest', nl', ok) \<longrightarrow> lMax L = -1 \<or> ok \<longrightarrow>
     rest' = rest \<and> (\<exists>out. buf' = buf @ out \<and> means out x))"

lemma dropWhile_skip: "list_all (\<lambda>c. \<not> p c) u \<Longrightarrow> p c \<Longrightarrow> dropWhile (\<lambda>c. \<not> p c) (u @ c # s) = c # s"
  by (induction u) auto

lemma any_skip:
  "dropWhile (\<lambda>c. \<not> startsPretty c) json = dropWhile (\<lambda>c. \<not> startsPretty c) json' \<Longrightarrow>
     appendPrettyAny go L buf json nl = appendPrettyAny go L buf json' nl"
  by (simp only: appendPrettyAny_def)

lemma any_head:
  assumes "startsPretty c"
  shows "appendPrettyAny go L buf (c # s) nl =
    (if c = CHR 0x22 then
       (case appendPrettyString buf (c # s) of (buf1, rest) \<Rightarrow> Some (buf1, rest, nl, True))
     else if is_digit c \<or> c = CHR ''-'' \<or> isNaNOrInf (c # s) then
       (case appendPrettyNumber buf (c # s) of (buf1, rest) \<Rightarrow> Some (buf1, rest, nl, True))
     else if c = CHR ''{'' \<or> c = CHR ''['' then go (Object c) L buf s nl
     else if c = CHR ''t'' then Some (buf @ ''true'', drop 4 (c # s), nl, True)
     else if c = CHR ''f'' then Some (buf @ ''false'', drop 5 (c # s), nl, True)
     else Some (buf @ ''null'', drop 4 (c # s), nl, True))"
proof -
  have "dropWhile (\<lambda>c. \<not> startsPretty c) (c # s) = c # s" using assms by simp
  then show ?thesis unfolding appendPrettyAny_def by (simp only: list.case)
qed

lemma any_at:
  assumes "prettyRun k fl Any L buf (u @ v @ rest) nl = Some r" and "list_all (\<lambda>c. \<not> startsPretty c) u"
    and "v = c # s" and "startsPretty c"
  shows "\<exists>j. appendPrettyAny (prettyRun j fl) L buf (c # s @ rest) nl = Some r"
proof -
  obtain j where j: "appendPrettyAny (prettyRun j fl) L buf (u @ v @ rest) nl = Some r"
    using prettyRun_Some [OF assms(1)] by auto
  have "dropWhile (\<lambda>c. \<not> startsPretty c) (u @ v @ rest) = c # s @ rest"
    using dropWhile_skip [OF assms(2,4)] assms(3) by simp
  moreover have "dropWhile (\<lambda>c. \<not> startsPretty c) (c # s @ rest) = c # s @ rest" using assms(4) by simp
  ultimately have "appendPrettyAny (prettyRun j fl) L buf (c # s @ rest) nl = Some r"
    using j any_skip [of "u @ v @ rest" "c # s @ rest" "prettyRun j fl" L buf nl] by simp
  then show ?thesis by blast
qed

lemma startsPretty_bytes [simp]:
  "startsPretty (CHR 0x22)" "startsPretty (CHR ''t'')" "startsPretty (CHR ''f'')" "startsPretty (CHR ''n'')"
  "startsPretty (CHR ''{'')" "startsPretty (CHR ''['')"
  by (simp_all add: startsPretty_def)

text \<open>A scalar is copied.\<close>

lemma printed_scalar:
  assumes "means v x" and "v = c # s" and "startsPretty c"
    and "\<And>go L buf rest nl. stops rest \<Longrightarrow> appendPrettyAny go L buf (c # s @ rest) nl = Some (buf @ v, rest, nl, True)"
  shows "printed v x"
  unfolding printed_def
proof (intro allI impI)
  fix k fl L buf u rest nl buf' rest' nl' ok
  assume "stops rest" and "list_all (\<lambda>c. \<not> startsPretty c) u"
    and "prettyRun k fl Any L buf (u @ v @ rest) nl = Some (buf', rest', nl', ok)"
  with any_at [OF this(3,2) assms(2,3)] assms(4) [of rest] have "(buf', rest', nl', ok) = (buf @ v, rest, nl, True)"
    by auto
  then show "rest' = rest \<and> (\<exists>out. buf' = buf @ out \<and> means out x)" using assms(1) by blast
qed

lemma printed_string: "says b s \<Longrightarrow> printed (CHR 0x22 # b @ [CHR 0x22]) (GStr s)"
  by (rule printed_scalar [OF mstr, OF _ refl])
    (simp_all add: any_head appendPrettyString_def stringEnd_chars says_jchars)

definition numberByte :: "char \<Rightarrow> bool" where
  "numberByte c = (is_digit c \<or> c \<in> set ''-+.eE'')"

lemma digits_bytes: "list_all is_digit ds \<Longrightarrow> list_all numberByte ds"
  by (erule list.pred_mono_strong) (simp add: numberByte_def)

lemma jnumber_bytes:
  assumes "jnumber s"
  shows "list_all numberByte s"
proof -
  from assms obtain sign i f e where s: "s = sign @ i @ f @ e" "sign \<in> {[], ''-''}" "jint i" "jfrac f" "jexp e"
    by (auto simp: jnumber_def)
  have b: "numberByte (CHR ''-'')" "numberByte (CHR ''+'')" "numberByte (CHR ''.'')" "numberByte (CHR ''e'')"
    "numberByte (CHR ''E'')" "numberByte (CHR ''0'')"
    by (simp_all add: numberByte_def is_digit_def)
  have "list_all numberByte sign" using s(2) b by auto
  moreover have "list_all numberByte i" using s(3) digits_bytes [of i] b by (auto simp: jint_def digits_def)
  moreover have "list_all numberByte f" using s(4) digits_bytes b by (auto simp: jfrac_def digits_def)
  moreover have "list_all numberByte e" using s(5) digits_bytes b by (auto simp: jexp_def digits_def)
  ultimately show ?thesis by (simp add: s(1))
qed

lemma numberByte_inside: "numberByte c \<Longrightarrow> \<not> numberEnd c"
proof -
  assume "numberByte c"
  then consider "is_digit c" | "c \<in> set ''-+.eE''" by (auto simp: numberByte_def)
  then show "\<not> numberEnd c"
  proof cases
    case 1
    then have "48 \<le> ord c" "ord c \<le> 57" by (simp_all add: is_digit_def)
    then show ?thesis by (auto simp: numberEnd_def)
  next
    case 2
    then show ?thesis by (auto simp: numberEnd_def)
  qed
qed

lemma stops_numberEnd: "stops r \<Longrightarrow> r = [] \<or> numberEnd (hd r)"
  using isWs_le by (auto simp: stops_def numberEnd_def)

lemma printed_number:
  assumes "jnumber v"
  shows "printed v (GNum v)"
proof -
  obtain c s where v: "v = c # s" "c = CHR ''-'' \<or> is_digit c" using jnumber_head [OF assms] by blast
  have "list_all numberByte s" using jnumber_bytes [OF assms] v(1) by simp
  then have "list_all (\<lambda>c. \<not> numberEnd c) s" by (rule list.pred_mono_strong) (rule numberByte_inside)
  then have "takeWhile (\<lambda>c. \<not> numberEnd c) (s @ rest) = s" if "stops rest" for rest
    using stops_numberEnd [OF that] by (cases rest) (auto simp: list_all_iff takeWhile_append)
  moreover have "c \<noteq> CHR 0x22" using v(2) by (auto simp: is_digit_def)
  ultimately show ?thesis
    using v startsPretty_value [OF v(2)]
    by (intro printed_scalar [OF mnum [OF assms] v(1)]) (auto simp: any_head appendPrettyNumber_def)
qed

lemma printed_literals: "printed ''true'' (GBool True)" "printed ''false'' (GBool False)" "printed ''null'' GNil"
  by (rule printed_scalar [OF mtrue refl], simp_all add: any_head is_digit_def isNaNOrInf_def)
    (rule printed_scalar [OF mfalse refl], simp_all add: any_head is_digit_def isNaNOrInf_def,
     rule printed_scalar [OF mnull refl], simp_all add: any_head is_digit_def isNaNOrInf_def)

section \<open>Brackets\<close>

definition loopPrinted :: "char \<Rightarrow> string \<Rightarrow> gvalue \<Rightarrow> bool" where
  "loopPrinted c s x \<longleftrightarrow> (\<forall>k fl L buf rest nl buf' rest' nl' ok.
     blankLayout L \<longrightarrow> prettyRun k fl (Loop c [] 0) L (buf @ [c]) (s @ rest) nl = Some (buf', rest', nl', ok) \<longrightarrow>
     lMax L = -1 \<or> ok \<longrightarrow> rest' = rest \<and> (\<exists>out. buf' = buf @ out \<and> means out x))"

lemma object_lines:
  assumes "loopPrinted c s x" and "blankLayout L" and "lMax L = -1 \<or> ok"
    and "prettyRun k fl (Object c) L buf (s @ rest) nl = Some (buf', rest', nl', ok)"
    and "\<not> (0 < lWidth L \<and> lPretty L \<and> c = CHR ''['' \<and> lMax L = -1 \<and> 3 < lWidth L - (int (length buf) - nl))"
  shows "rest' = rest \<and> (\<exists>out. buf' = buf @ out \<and> means out x)"
proof -
  obtain j where j: "appendPrettyObject (prettyRun j fl) c L buf (s @ rest) nl = Some (buf', rest', nl', ok)"
    using prettyRun_Some [OF assms(4)] by auto
  have "appendPrettyObject (prettyRun j fl) c L buf (s @ rest) nl =
      (if 0 < lWidth L \<and> lMax L \<noteq> -1 \<and> c = CHR ''{'' then Some (buf, c # s @ rest, nl, False)
       else prettyRun j fl (Loop c [] 0) L (buf @ [c]) (s @ rest) nl)"
    using assms(5) unfolding appendPrettyObject_def Let_def by auto
  then have "prettyRun j fl (Loop c [] 0) L (buf @ [c]) (s @ rest) nl = Some (buf', rest', nl', ok)"
    using j assms(3) by (auto split: if_splits)
  with assms(1-3) show ?thesis unfolding loopPrinted_def by blast
qed

lemma object_printed:
  assumes "loopPrinted c s x" and "blankLayout L" and "lMax L = -1 \<or> ok"
    and "prettyRun k fl (Object c) L buf (s @ rest) nl = Some (buf', rest', nl', ok)"
  shows "rest' = rest \<and> (\<exists>out. buf' = buf @ out \<and> means out x)"
proof (cases "0 < lWidth L \<and> lPretty L \<and> c = CHR ''['' \<and> lMax L = -1 \<and> 3 < lWidth L - (int (length buf) - nl)")
  case False
  then show ?thesis by (rule object_lines [OF assms])
next
  case True
  define m where "m = lWidth L - (int (length buf) - nl)"
  obtain j where j: "appendPrettyObject (prettyRun j fl) c L buf (s @ rest) nl = Some (buf', rest', nl', ok)"
    using prettyRun_Some [OF assms(4)] by auto
  then obtain buf1 rest1 nl1 ok1 where
    q: "prettyRun j fl (Object c) (oneLine L m) buf (s @ rest) 0 = Some (buf1, rest1, nl1, ok1)"
    using True unfolding appendPrettyObject_def Let_def m_def [symmetric]
    by (auto split: option.splits)
  have e: "(if ok1 \<and> int (length buf1) - int (length buf) \<le> m then Some (buf1, rest1, nl, True)
      else prettyRun j fl (Loop c [] 0) L (buf @ [c]) (s @ rest) nl) = Some (buf', rest', nl', ok)"
    using j q True unfolding appendPrettyObject_def Let_def m_def [symmetric] by simp
  show ?thesis
  proof (cases "ok1 \<and> int (length buf1) - int (length buf) \<le> m")
    case fits: True
    have "rest1 = rest \<and> (\<exists>out. buf1 = buf @ out \<and> means out x)"
      by (rule object_lines [OF assms(1) _ _ q]) (use assms(2) fits in simp_all)
    with e fits show ?thesis by auto
  next
    case False
    with e have "prettyRun j fl (Loop c [] 0) L (buf @ [c]) (s @ rest) nl = Some (buf', rest', nl', ok)"
      by (simp only: if_False)
    with assms(1-3) show ?thesis unfolding loopPrinted_def by blast
  qed
qed

lemma printed_box:
  assumes "c = CHR ''{'' \<or> c = CHR ''[''" and "loopPrinted c s x"
  shows "printed (c # s) x"
  unfolding printed_def
proof (intro allI impI)
  fix k fl L buf u rest nl buf' rest' nl' ok
  assume L: "blankLayout L" "lMax L = -1 \<or> ok" and u: "list_all (\<lambda>c. \<not> startsPretty c) u"
    and run: "prettyRun k fl Any L buf (u @ (c # s) @ rest) nl = Some (buf', rest', nl', ok)"
  have c: "startsPretty c" "c \<noteq> CHR 0x22" "\<not> (is_digit c \<or> c = CHR ''-'' \<or> isNaNOrInf (c # s @ rest))"
    using assms(1) by (auto simp: is_digit_def isNaNOrInf_def)
  obtain j where j: "appendPrettyAny (prettyRun j fl) L buf (c # s @ rest) nl = Some (buf', rest', nl', ok)"
    using any_at [OF run u refl c(1)] by blast
  have "appendPrettyAny (prettyRun j fl) L buf (c # s @ rest) nl = prettyRun j fl (Object c) L buf (s @ rest) nl"
    unfolding any_head [OF c(1)] using c(2,3) assms(1) by (simp only: if_False if_True)
  with j object_printed [OF assms(2) L] show "rest' = rest \<and> (\<exists>out. buf' = buf @ out \<and> means out x)"
    by metis
qed

section \<open>Loops\<close>

text \<open>What lies between members or elements is passed over, the comma of an array excepted.\<close>

lemma loop_skip:
  assumes "prettyRun k fl (Loop open ps n) L buf (w @ json) nl = Some r"
    and "list_all (\<lambda>c. ord c \<le> 32 \<or> open = CHR ''{'' \<and> c = CHR '','') w"
  shows "\<exists>j. prettyRun j fl (Loop open ps n) L buf json nl = Some r"
  using assms
proof (induction w arbitrary: k)
  case (Cons c w)
  obtain j where "prettyLoop fl (prettyRun j fl) open ps n L buf ((c # w) @ json) nl = Some r"
    using prettyRun_Some [OF Cons.prems(1)] by auto
  then have "prettyRun j fl (Loop open ps n) L buf (w @ json) nl = Some r"
    using Cons.prems(2) by (auto simp: prettyLoop_def closing_def split: if_splits)
  with Cons show ?case by simp
qed auto

lemma ws_skip: "ws w \<Longrightarrow> list_all (\<lambda>c. ord c \<le> 32 \<or> open = CHR ''{'' \<and> c = CHR '','') w"
  unfolding ws_def by (erule list.pred_mono_strong) (simp add: isWs_le)

lemma filler_skip: "filler w \<Longrightarrow> list_all (\<lambda>c. ord c \<le> 32 \<or> CHR ''{'' = CHR ''{'' \<and> c = CHR '','') w"
  unfolding filler_def by (erule list.pred_mono_strong) (auto simp: isWs_le)

lemma loop_close:
  assumes "prettyRun k fl (Loop open ps n) L buf (closing open # rest) nl = Some (buf', rest', nl', ok)"
    and "blankLayout L" and "solid buf"
  shows "rest' = rest \<and> (\<exists>w. ws w \<and> buf' = buf @ w @ [closing open])"
proof -
  obtain j where "prettyLoop fl (prettyRun j fl) open ps n L buf (closing open # rest) nl = Some (buf', rest', nl', ok)"
    using prettyRun_Some [OF assms(1)] by auto
  then have "rest' = rest \<and> buf' = fst (closePretty fl L open ps n buf nl)"
    by (auto simp: prettyLoop_def closing_def split: prod.splits if_splits)
  then show ?thesis using closePretty_ws [OF assms(2,3), of fl "open" ps n nl] by simp
qed

text \<open>One element or member: the value is printed, and the loop goes on behind it.\<close>

lemma printedD:
  assumes "printed v x" and "blankLayout L" and "list_all (\<lambda>c. \<not> startsPretty c) u" and "stops rest"
    and "prettyRun k fl Any L buf (u @ v @ rest) nl = Some (buf', rest', nl', ok)" and "lMax L = -1 \<or> ok"
  shows "rest' = rest \<and> (\<exists>out. buf' = buf @ out \<and> means out x)"
  using assms unfolding printed_def by blast

lemma member_runs:
  assumes "prettyMember (prettyRun j fl) open ps n L buf json nl = Some (buf', rest', nl', ok)" and "lMax L = -1 \<or> ok"
    and "(if open = CHR ''{''
          then (case appendPrettyString (fst (nextPretty L open n buf nl)) json of (buf2, rest) \<Rightarrow>
                  (buf2 @ '':'' @ (if lPretty L then '' '' else ''''), rest))
          else (fst (nextPretty L open n buf nl), json)) = (buf2, rest2)"
  shows "\<exists>nl1 buf3 rest3 nl3 ok3 ps'. prettyRun j fl Any (deeper L) buf2 rest2 nl1 = Some (buf3, rest3, nl3, ok3)
    \<and> (lMax L = -1 \<or> ok3) \<and> prettyRun j fl (Loop open ps' (n + 1)) L buf3 rest3 nl3 = Some (buf', rest', nl', ok)"
proof -
  obtain buf1 start nl1 where n: "nextPretty L open n buf nl = (buf1, start, nl1)" by (cases "nextPretty L open n buf nl") auto
  have q: "(if open = CHR ''{''
          then (case appendPrettyString buf1 json of (buf2, rest) \<Rightarrow>
                  (buf2 @ '':'' @ (if lPretty L then '' '' else ''''), rest))
          else (buf1, json)) = (buf2, rest2)"
    using assms(3) unfolding n by (simp only: fst_conv)
  have step: "(case prettyRun j fl Any (deeper L) buf2 rest2 nl1 of
        None \<Rightarrow> None
      | Some (buf3, rest3, nl3, ok3) \<Rightarrow>
          if lMax L \<noteq> -1 \<and> \<not> ok3 then Some (buf3, rest3, nl3, False)
          else prettyRun j fl (Loop open (ps @ [\<lparr>pKey = take (Suc (stringEnd (tl json))) json, pStart = start, pEnd = length buf3\<rparr>])
                 (n + 1)) L buf3 rest3 nl3) = Some (buf', rest', nl', ok)"
    using assms(1) unfolding prettyMember_def n split_conv q .
  then obtain buf3 rest3 nl3 ok3 where r: "prettyRun j fl Any (deeper L) buf2 rest2 nl1 = Some (buf3, rest3, nl3, ok3)"
    by (auto split: option.splits)
  with step assms(2) have ok: "lMax L = -1 \<or> ok3" by (auto split: if_splits)
  then have "\<not> (lMax L \<noteq> -1 \<and> \<not> ok3)" by blast
  with step r have "prettyRun j fl (Loop open (ps @ [\<lparr>pKey = take (Suc (stringEnd (tl json))) json, pStart = start,
      pEnd = length buf3\<rparr>]) (n + 1)) L buf3 rest3 nl3 = Some (buf', rest', nl', ok)"
    by (simp only: option.case split_conv if_False)
  with r ok show ?thesis by blast
qed

lemma element_printed:
  assumes "prettyRun k fl (Loop (CHR ''['') ps n) L buf (w @ u @ v @ rest) nl = Some (buf', rest', nl', ok)"
    and "lMax L = -1 \<or> ok" and "blankLayout L" and "solid buf" and "ws w"
    and "list_all (\<lambda>c. \<not> startsPretty c) u" and "u = [] \<or> 32 < ord (hd u) \<and> hd u \<noteq> CHR '']''"
    and "printed v x" and "means v x" and "stops rest"
  shows "\<exists>j ps' nl1 out w'. means out x \<and> ws w' \<and>
    prettyRun j fl (Loop (CHR ''['') ps' (n + 1)) L (buf @ comma n @ w' @ out) rest nl1 = Some (buf', rest', nl', ok)"
proof -
  obtain c s where v: "v = c # s" "32 < ord c" "c \<noteq> CHR '']''" using means_head [OF assms(9)] by blast
  obtain h t where h: "u @ v @ rest = h # t" "32 < ord h" "h \<noteq> CHR '']''" using v assms(7) by (cases u) auto
  obtain i where "prettyRun i fl (Loop (CHR ''['') ps n) L buf (u @ v @ rest) nl = Some (buf', rest', nl', ok)"
    using loop_skip [OF assms(1) ws_skip [OF assms(5)]] by blast
  then obtain j where "prettyLoop fl (prettyRun j fl) (CHR ''['') ps n L buf (h # t) nl = Some (buf', rest', nl', ok)"
    using prettyRun_Some h(1) by fastforce
  then have m: "prettyMember (prettyRun j fl) (CHR ''['') ps n L buf (u @ v @ rest) nl = Some (buf', rest', nl', ok)"
    using h by (auto simp: prettyLoop_def closing_def)
  obtain w' where w': "ws w'" "fst (nextPretty L (CHR ''['') n buf nl) = buf @ comma n @ w'"
    using nextPretty_ws [OF assms(3,4)] by blast
  from member_runs [OF m assms(2), of "buf @ comma n @ w'" "u @ v @ rest"] w'(2)
  obtain nl1 buf3 rest3 nl3 ok3 ps' where
    r: "prettyRun j fl Any (deeper L) (buf @ comma n @ w') (u @ v @ rest) nl1 = Some (buf3, rest3, nl3, ok3)"
      "lMax L = -1 \<or> ok3" "prettyRun j fl (Loop (CHR ''['') ps' (n + 1)) L buf3 rest3 nl3 = Some (buf', rest', nl', ok)"
    by auto
  from printedD [OF assms(8) _ assms(6,10) r(1)] r(2) assms(3)
  obtain out where "rest3 = rest" "buf3 = (buf @ comma n @ w') @ out" "means out x" by auto
  with r(3) w'(1) show ?thesis by (intro exI [of _ j] exI [of _ ps'] exI [of _ nl3] exI [of _ out] exI [of _ w']) simp
qed

lemma member_printed:
  assumes "prettyRun k fl (Loop (CHR ''{'') ps n) L buf (w @ CHR 0x22 # b @ CHR 0x22 # u @ v @ rest) nl = Some (buf', rest', nl', ok)"
    and "lMax L = -1 \<or> ok" and "blankLayout L" and "solid buf" and "filler w" and "says b key"
    and "list_all (\<lambda>c. \<not> startsPretty c) u" and "printed v x" and "stops rest"
  shows "\<exists>j ps' nl1 out w' w''. means out x \<and> ws w' \<and> ws w'' \<and>
    prettyRun j fl (Loop (CHR ''{'') ps' (n + 1)) L (buf @ comma n @ w' @ CHR 0x22 # b @ CHR 0x22 # CHR '':'' # w'' @ out) rest nl1 =
      Some (buf', rest', nl', ok)"
proof -
  let ?json = "CHR 0x22 # b @ CHR 0x22 # u @ v @ rest"
  obtain i where "prettyRun i fl (Loop (CHR ''{'') ps n) L buf ?json nl = Some (buf', rest', nl', ok)"
    using loop_skip [OF assms(1) filler_skip [OF assms(5)]] by blast
  then obtain j where "prettyLoop fl (prettyRun j fl) (CHR ''{'') ps n L buf ?json nl = Some (buf', rest', nl', ok)"
    using prettyRun_Some by fastforce
  then have m: "prettyMember (prettyRun j fl) (CHR ''{'') ps n L buf ?json nl = Some (buf', rest', nl', ok)"
    by (simp add: prettyLoop_def closing_def)
  obtain w' where w': "ws w'" "fst (nextPretty L (CHR ''{'') n buf nl) = buf @ comma n @ w'"
    using nextPretty_ws [OF assms(3,4)] by blast
  define w'' where "w'' = (if lPretty L then '' '' else '''')"
  have ws: "ws w''" by (simp add: w''_def ws_def isWs_def)
  let ?buf2 = "(buf @ comma n @ w') @ CHR 0x22 # b @ CHR 0x22 # CHR '':'' # w''"
  have "appendPrettyString (buf @ comma n @ w') ?json = ((buf @ comma n @ w') @ CHR 0x22 # b @ [CHR 0x22], u @ v @ rest)"
    using stringEnd_chars [OF says_jchars [OF assms(6)], of "u @ v @ rest"] by (simp add: appendPrettyString_def)
  with member_runs [OF m assms(2), of ?buf2 "u @ v @ rest"] w'(2)
  obtain nl1 buf3 rest3 nl3 ok3 ps' where
    r: "prettyRun j fl Any (deeper L) ?buf2 (u @ v @ rest) nl1 = Some (buf3, rest3, nl3, ok3)"
      "lMax L = -1 \<or> ok3" "prettyRun j fl (Loop (CHR ''{'') ps' (n + 1)) L buf3 rest3 nl3 = Some (buf', rest', nl', ok)"
    by (auto simp: w''_def)
  from printedD [OF assms(8) _ assms(7,9) r(1)] r(2) assms(3)
  obtain out where "rest3 = rest" "buf3 = ?buf2 @ out" "means out x" by auto
  with r(3) w'(1) ws show ?thesis
    by (intro exI [of _ j] exI [of _ ps'] exI [of _ nl3] exI [of _ out] exI [of _ w'] exI [of _ w'']) simp
qed

section \<open>The grammar\<close>

definition elementsPrinted :: "string \<Rightarrow> gvalue list \<Rightarrow> bool" where
  "elementsPrinted l xs \<longleftrightarrow> (\<forall>k fl L buf w rest nl ps n buf' rest' nl' ok.
     blankLayout L \<longrightarrow> solid buf \<longrightarrow> ws w \<longrightarrow> lMax L = -1 \<or> ok \<longrightarrow>
     prettyRun k fl (Loop (CHR ''['') ps n) L buf (w @ comma n @ l @ CHR '']'' # rest) nl = Some (buf', rest', nl', ok) \<longrightarrow>
     rest' = rest \<and> (\<exists>out. buf' = buf @ comma n @ out @ '']'' \<and> meansElements out xs))"

definition membersPrinted :: "string \<Rightarrow> (string \<times> gvalue) list \<Rightarrow> bool" where
  "membersPrinted m kvs \<longleftrightarrow> (\<forall>k fl L buf w rest nl ps n buf' rest' nl' ok.
     blankLayout L \<longrightarrow> solid buf \<longrightarrow> filler w \<longrightarrow> lMax L = -1 \<or> ok \<longrightarrow>
     prettyRun k fl (Loop (CHR ''{'') ps n) L buf (w @ m @ CHR ''}'' # rest) nl = Some (buf', rest', nl', ok) \<longrightarrow>
     rest' = rest \<and> (\<exists>w out. buf' = buf @ comma n @ w @ out @ ''}'' \<and> ws w \<and> meansMembers out kvs))"

lemma elementsPrintedD:
  assumes "elementsPrinted l xs" and "blankLayout L" and "solid buf" and "ws w" and "lMax L = -1 \<or> ok"
    and "prettyRun k fl (Loop (CHR ''['') ps n) L buf (w @ comma n @ l @ CHR '']'' # rest) nl = Some (buf', rest', nl', ok)"
  shows "rest' = rest \<and> (\<exists>out. buf' = buf @ comma n @ out @ '']'' \<and> meansElements out xs)"
  using assms unfolding elementsPrinted_def by blast

lemma membersPrintedD:
  assumes "membersPrinted m kvs" and "blankLayout L" and "solid buf" and "filler w" and "lMax L = -1 \<or> ok"
    and "prettyRun k fl (Loop (CHR ''{'') ps n) L buf (w @ m @ CHR ''}'' # rest) nl = Some (buf', rest', nl', ok)"
  shows "rest' = rest \<and> (\<exists>w out. buf' = buf @ comma n @ w @ out @ ''}'' \<and> ws w \<and> meansMembers out kvs)"
  using assms unfolding membersPrinted_def by blast

lemma comma_Suc [simp]: "comma (n + 1) = '',''" "comma 0 = ''''" "comma (Suc n) = '',''"
  by (simp_all add: comma_def)

lemma ws_not_pretty: "ws w \<Longrightarrow> list_all (\<lambda>c. \<not> startsPretty c) w"
  unfolding ws_def by (erule list.pred_mono_strong) (auto simp: isWs_def startsPretty_def is_digit_def)

lemma mark_not_pretty [simp]: "\<not> startsPretty (CHR '','')" "\<not> startsPretty (CHR '':'')"
  by (simp_all add: startsPretty_def is_digit_def)

lemma stops_after [simp]: "ws w \<Longrightarrow> stops (w @ CHR '','' # s)" "ws w \<Longrightarrow> stops (w @ CHR '']'' # s)" "ws w \<Longrightarrow> stops (w @ CHR ''}'' # s)"
  by (rule stops_ws, assumption, simp add: stops_def)+

text \<open>The first element of the rest of an array: a comma before it is gone over with its blanks.\<close>

lemma first_element:
  assumes "blankLayout L" and "solid buf" and "ws w" and "lMax L = -1 \<or> ok" and "ws w1" and "means v x" and "printed v x"
    and "stops rest"
    and "prettyRun k fl (Loop (CHR ''['') ps n) L buf (w @ comma n @ w1 @ v @ rest) nl = Some (buf', rest', nl', ok)"
  shows "\<exists>j ps' nl1 out w'. means out x \<and> ws w' \<and>
    prettyRun j fl (Loop (CHR ''['') ps' (n + 1)) L (buf @ comma n @ w' @ out) rest nl1 = Some (buf', rest', nl', ok)"
proof (cases "0 < n")
  case True
  then have "prettyRun k fl (Loop (CHR ''['') ps n) L buf (w @ ('','' @ w1) @ v @ rest) nl = Some (buf', rest', nl', ok)"
    using assms(9) by (simp add: comma_def)
  moreover have "list_all (\<lambda>c. \<not> startsPretty c) ('','' @ w1)" using ws_not_pretty [OF assms(5)] by simp
  ultimately show ?thesis using element_printed [OF _ assms(4,1,2,3), of k fl ps n "'','' @ w1" v rest] assms(6-8) by simp
next
  case False
  then have "prettyRun k fl (Loop (CHR ''['') ps n) L buf ((w @ w1) @ [] @ v @ rest) nl = Some (buf', rest', nl', ok)"
    using assms(9) by (simp add: comma_def)
  then show ?thesis
    using element_printed [OF _ assms(4,1,2), of k fl ps n "w @ w1" "[]" v rest nl buf' rest' nl' x] assms(3,5-8) by simp
qed

lemma last_element:
  assumes "ws w1" and "means v x" and "printed v x" and "ws w2"
  shows "elementsPrinted (w1 @ v @ w2) [x]"
  unfolding elementsPrinted_def
proof (intro allI impI)
  fix k fl L buf w rest nl ps n buf' rest' nl' ok
  assume L: "blankLayout L" "solid buf" "ws w" "lMax L = -1 \<or> ok"
    and run: "prettyRun k fl (Loop (CHR ''['') ps n) L buf (w @ comma n @ (w1 @ v @ w2) @ CHR '']'' # rest) nl = Some (buf', rest', nl', ok)"
  from first_element [OF L assms(1-3), of "w2 @ CHR '']'' # rest" k fl ps n nl buf' rest' nl'] run assms(4)
  obtain j ps' nl1 out w' where o: "means out x" "ws w'"
    "prettyRun j fl (Loop (CHR ''['') ps' (n + 1)) L (buf @ comma n @ w' @ out) (w2 @ CHR '']'' # rest) nl1 = Some (buf', rest', nl', ok)"
    by auto
  from loop_skip [OF o(3) ws_skip [OF assms(4)]] obtain i where
    "prettyRun i fl (Loop (CHR ''['') ps' (n + 1)) L (buf @ comma n @ w' @ out) (closing (CHR ''['') # rest) nl1 = Some (buf', rest', nl', ok)"
    by (auto simp: closing_def)
  from loop_close [OF this L(1)] means_solid [OF o(1)] obtain w'' where
    "rest' = rest" "ws w''" "buf' = (buf @ comma n @ w' @ out) @ w'' @ '']''"
    by (auto simp: closing_def)
  with melement [OF o(2,1), of w''] show "rest' = rest \<and> (\<exists>out. buf' = buf @ comma n @ out @ '']'' \<and> meansElements out [x])"
    by (auto intro: exI [of _ "w' @ out @ w''"])
qed

lemma more_elements:
  assumes "ws w1" and "means v x" and "printed v x" and "ws w2" and "elementsPrinted l xs"
  shows "elementsPrinted (w1 @ v @ w2 @ '','' @ l) (x # xs)"
  unfolding elementsPrinted_def
proof (intro allI impI)
  fix k fl L buf w rest nl ps n buf' rest' nl' ok
  assume L: "blankLayout L" "solid buf" "ws w" "lMax L = -1 \<or> ok"
    and run: "prettyRun k fl (Loop (CHR ''['') ps n) L buf (w @ comma n @ (w1 @ v @ w2 @ '','' @ l) @ CHR '']'' # rest) nl = Some (buf', rest', nl', ok)"
  from first_element [OF L assms(1-3), of "w2 @ '','' @ l @ CHR '']'' # rest" k fl ps n nl buf' rest' nl'] run assms(4)
  obtain j ps' nl1 out w' where o: "means out x" "ws w'"
    "prettyRun j fl (Loop (CHR ''['') ps' (n + 1)) L (buf @ comma n @ w' @ out) (w2 @ comma (n + 1) @ l @ CHR '']'' # rest) nl1 = Some (buf', rest', nl', ok)"
    by auto
  have "solid (buf @ comma n @ w' @ out)" using means_solid [OF o(1)] by simp
  from elementsPrintedD [OF assms(5) L(1) this assms(4) L(4) o(3)] obtain out' where
    "rest' = rest" "buf' = (buf @ comma n @ w' @ out) @ '','' @ out' @ '']''" "meansElements out' xs"
    by auto
  with melements [OF o(2,1), of "[]" out' xs]
  show "rest' = rest \<and> (\<exists>out. buf' = buf @ comma n @ out @ '']'' \<and> meansElements out (x # xs))"
    by (auto intro: exI [of _ "w' @ out @ [] @ '','' @ out'"])
qed

text \<open>The first member, up to its value, and what follows it.\<close>

lemma first_member:
  assumes "blankLayout L" and "solid buf" and "filler w" and "lMax L = -1 \<or> ok" and "says b key" and "ws w1" and "ws w2"
    and "printed v x" and "stops rest"
    and "prettyRun k fl (Loop (CHR ''{'') ps n) L buf (w @ (CHR 0x22 # b @ CHR 0x22 # w1 @ '':'' @ w2 @ v) @ rest) nl = Some (buf', rest', nl', ok)"
  shows "\<exists>j ps' nl1 out w' w''. means out x \<and> ws w' \<and> ws w'' \<and>
    prettyRun j fl (Loop (CHR ''{'') ps' (n + 1)) L (buf @ comma n @ w' @ CHR 0x22 # b @ CHR 0x22 # CHR '':'' # w'' @ out) rest nl1 =
      Some (buf', rest', nl', ok)"
proof -
  have "list_all (\<lambda>c. \<not> startsPretty c) (w1 @ '':'' @ w2)" using ws_not_pretty assms(6,7) by simp
  then show ?thesis
    using member_printed [OF _ assms(4,1,2,3,5), of k fl ps n "w1 @ '':'' @ w2" v rest nl buf' rest' nl' x] assms(8-10) by simp
qed

lemma last_member:
  assumes "says b key" and "ws w1" and "ws w2" and "printed v x" and "ws w3"
  shows "membersPrinted (CHR 0x22 # b @ CHR 0x22 # w1 @ '':'' @ w2 @ v @ w3) [(key, x)]"
  unfolding membersPrinted_def
proof (intro allI impI)
  fix k fl L buf w rest nl ps n buf' rest' nl' ok
  assume L: "blankLayout L" "solid buf" "filler w" "lMax L = -1 \<or> ok"
    and run: "prettyRun k fl (Loop (CHR ''{'') ps n) L buf (w @ (CHR 0x22 # b @ CHR 0x22 # w1 @ '':'' @ w2 @ v @ w3) @ CHR ''}'' # rest) nl = Some (buf', rest', nl', ok)"
  from first_member [OF L assms(1-4), of "w3 @ CHR ''}'' # rest" k fl ps n nl buf' rest' nl'] run assms(5)
  obtain j ps' nl1 out w' w'' where o: "means out x" "ws w'" "ws w''"
    "prettyRun j fl (Loop (CHR ''{'') ps' (n + 1)) L (buf @ comma n @ w' @ CHR 0x22 # b @ CHR 0x22 # CHR '':'' # w'' @ out)
      (w3 @ CHR ''}'' # rest) nl1 = Some (buf', rest', nl', ok)"
    by auto
  from loop_skip [OF o(4) filler_skip] assms(5) obtain i where
    "prettyRun i fl (Loop (CHR ''{'') ps' (n + 1)) L (buf @ comma n @ w' @ CHR 0x22 # b @ CHR 0x22 # CHR '':'' # w'' @ out)
      (closing (CHR ''{'') # rest) nl1 = Some (buf', rest', nl', ok)"
    by (auto simp: closing_def)
  from loop_close [OF this L(1)] means_solid [OF o(1)] obtain t where
    "rest' = rest" "ws t" "buf' = (buf @ comma n @ w' @ CHR 0x22 # b @ CHR 0x22 # CHR '':'' # w'' @ out) @ t @ ''}''"
    by (auto simp: closing_def solid_def)
  with mmember [OF assms(1) _ o(3,1), of "[]" t] o(2)
  show "rest' = rest \<and> (\<exists>w out. buf' = buf @ comma n @ w @ out @ ''}'' \<and> ws w \<and> meansMembers out [(key, x)])"
    by (intro conjI exI [of _ w'] exI [of _ "CHR 0x22 # b @ CHR 0x22 # [] @ '':'' @ w'' @ out @ t"]) simp_all
qed

lemma more_members:
  assumes "says b key" and "ws w1" and "ws w2" and "printed v x" and "ws w3" and "ws w4" and "membersPrinted m kvs"
  shows "membersPrinted (CHR 0x22 # b @ CHR 0x22 # w1 @ '':'' @ w2 @ v @ w3 @ '','' @ w4 @ m) ((key, x) # kvs)"
  unfolding membersPrinted_def
proof (intro allI impI)
  fix k fl L buf w rest nl ps n buf' rest' nl' ok
  assume L: "blankLayout L" "solid buf" "filler w" "lMax L = -1 \<or> ok"
    and run: "prettyRun k fl (Loop (CHR ''{'') ps n) L buf (w @ (CHR 0x22 # b @ CHR 0x22 # w1 @ '':'' @ w2 @ v @ w3 @ '','' @ w4 @ m) @ CHR ''}'' # rest) nl = Some (buf', rest', nl', ok)"
  from first_member [OF L assms(1-4), of "w3 @ '','' @ w4 @ m @ CHR ''}'' # rest" k fl ps n nl buf' rest' nl'] run assms(5)
  obtain j ps' nl1 out w' w'' where o: "means out x" "ws w'" "ws w''"
    "prettyRun j fl (Loop (CHR ''{'') ps' (n + 1)) L (buf @ comma n @ w' @ CHR 0x22 # b @ CHR 0x22 # CHR '':'' # w'' @ out)
      ((w3 @ '','' @ w4) @ m @ CHR ''}'' # rest) nl1 = Some (buf', rest', nl', ok)"
    by auto
  have "solid (buf @ comma n @ w' @ CHR 0x22 # b @ CHR 0x22 # CHR '':'' # w'' @ out)"
    using means_solid [OF o(1)] by (simp add: solid_def)
  moreover have "filler (w3 @ '','' @ w4)" using assms(5,6) by simp
  from membersPrintedD [OF assms(7) L(1) calculation this L(4) o(4)] obtain t out' where
    t: "rest' = rest" "buf' = (buf @ comma n @ w' @ CHR 0x22 # b @ CHR 0x22 # CHR '':'' # w'' @ out) @ '','' @ t @ out' @ ''}''"
      "ws t" "meansMembers out' kvs"
    by auto
  with mmembers [OF assms(1) _ o(3,1) _ t(3,4), of "[]" "[]"] o(2)
  show "rest' = rest \<and> (\<exists>w out. buf' = buf @ comma n @ w @ out @ ''}'' \<and> ws w \<and> meansMembers out ((key, x) # kvs))"
    by (intro conjI exI [of _ w'] exI [of _ "CHR 0x22 # b @ CHR 0x22 # [] @ '':'' @ w'' @ out @ [] @ '','' @ t @ out'"])
       simp_all
qed

lemma loop_members:
  assumes "ws w" and "membersPrinted m kvs"
  shows "loopPrinted (CHR ''{'') (w @ m @ ''}'') (GObj kvs)"
  unfolding loopPrinted_def
proof (intro allI impI)
  fix k fl L buf rest nl buf' rest' nl' ok
  assume L: "blankLayout L" "lMax L = -1 \<or> ok"
    and run: "prettyRun k fl (Loop (CHR ''{'') [] 0) L (buf @ [CHR ''{'']) ((w @ m @ ''}'') @ rest) nl = Some (buf', rest', nl', ok)"
  have "prettyRun k fl (Loop (CHR ''{'') [] 0) L (buf @ [CHR ''{'']) (w @ m @ CHR ''}'' # rest) nl = Some (buf', rest', nl', ok)"
    using run by simp
  from membersPrintedD [OF assms(2) L(1) _ _ L(2) this] assms(1) obtain t out where
    "rest' = rest" "buf' = (buf @ [CHR ''{'']) @ t @ out @ ''}''" "ws t" "meansMembers out kvs"
    by (auto simp: solid_def)
  with mobject [of t out kvs] show "rest' = rest \<and> (\<exists>out. buf' = buf @ out \<and> means out (GObj kvs))"
    by (intro conjI exI [of _ "''{'' @ t @ out @ ''}''"]) simp_all
qed

lemma loop_elements:
  assumes "elementsPrinted l xs"
  shows "loopPrinted (CHR ''['') (l @ '']'') (GArr xs)"
  unfolding loopPrinted_def
proof (intro allI impI)
  fix k fl L buf rest nl buf' rest' nl' ok
  assume L: "blankLayout L" "lMax L = -1 \<or> ok"
    and run: "prettyRun k fl (Loop (CHR ''['') [] 0) L (buf @ [CHR ''['']) ((l @ '']'') @ rest) nl = Some (buf', rest', nl', ok)"
  have "prettyRun k fl (Loop (CHR ''['') [] 0) L (buf @ [CHR ''['']) ([] @ comma 0 @ l @ CHR '']'' # rest) nl = Some (buf', rest', nl', ok)"
    using run by simp
  from elementsPrintedD [OF assms L(1) _ _ L(2) this] obtain out where
    "rest' = rest" "buf' = (buf @ [CHR ''['']) @ out @ '']''" "meansElements out xs"
    by (auto simp: solid_def)
  with marray [of out xs] show "rest' = rest \<and> (\<exists>out. buf' = buf @ out \<and> means out (GArr xs))"
    by (intro conjI exI [of _ "''['' @ out @ '']''"]) simp_all
qed

lemma loop_empty:
  assumes "ws w" and "c = CHR ''{'' \<or> c = CHR ''[''" and "\<And>t. ws t \<Longrightarrow> means (c # t @ [closing c]) x"
  shows "loopPrinted c (w @ [closing c]) x"
  unfolding loopPrinted_def
proof (intro allI impI)
  fix k fl L buf rest nl buf' rest' nl' ok
  assume L: "blankLayout L" "lMax L = -1 \<or> ok"
    and run: "prettyRun k fl (Loop c [] 0) L (buf @ [c]) ((w @ [closing c]) @ rest) nl = Some (buf', rest', nl', ok)"
  from run have "prettyRun k fl (Loop c [] 0) L (buf @ [c]) (w @ closing c # rest) nl = Some (buf', rest', nl', ok)" by simp
  from loop_skip [OF this ws_skip [OF assms(1)]] obtain j where
    "prettyRun j fl (Loop c [] 0) L (buf @ [c]) (closing c # rest) nl = Some (buf', rest', nl', ok)" by blast
  from loop_close [OF this L(1)] assms(2) obtain t where "rest' = rest" "ws t" "buf' = (buf @ [c]) @ t @ [closing c]"
    by (auto simp: solid_def)
  with assms(3) [of t] show "rest' = rest \<and> (\<exists>out. buf' = buf @ out \<and> means out x)"
    by (intro conjI exI [of _ "c # t @ [closing c]"]) simp_all
qed

lemma means_printed:
  shows "means v x \<Longrightarrow> printed v x" and "meansMembers m kvs \<Longrightarrow> membersPrinted m kvs"
    and "meansElements l xs \<Longrightarrow> elementsPrinted l xs"
proof (induction rule: means_meansMembers_meansElements.inducts)
  case (memptyObject w)
  have "loopPrinted (CHR ''{'') (w @ [closing (CHR ''{'')]) (GObj [])"
    using memptyObject means_meansMembers_meansElements.memptyObject by (intro loop_empty) (auto simp: closing_def)
  then show ?case using printed_box [of "CHR ''{''"] by (simp add: closing_def)
next
  case (mobject w m kvs)
  then show ?case using printed_box [OF _ loop_members [of w m kvs]] by simp
next
  case (memptyArray w)
  have "loopPrinted (CHR ''['') (w @ [closing (CHR ''['')]) (GArr [])"
    using memptyArray means_meansMembers_meansElements.memptyArray by (intro loop_empty) (auto simp: closing_def)
  then show ?case using printed_box [of "CHR ''[''"] by (simp add: closing_def)
next
  case (marray l xs)
  then show ?case using printed_box [OF _ loop_elements [of l xs]] by simp
next
  case (mmember b k w1 w2 v x w3)
  then show ?case by (intro last_member)
next
  case (mmembers b k w1 w2 v x w3 w4 m kvs)
  then show ?case by (intro more_members)
next
  case (melement w1 v x w2)
  then show ?case by (intro last_element)
next
  case (melements w1 v x w2 l xs)
  then show ?case by (intro more_elements)
qed (simp_all add: printed_literals printed_number printed_string)

definition blankOptions :: "prettyOptions \<Rightarrow> bool" where
  "blankOptions opts \<longleftrightarrow> ws (oPrefix opts) \<and> ws (oIndent opts) \<and> \<not> oSortKeys opts"

lemma PrettyOptions_means:
  assumes "means v x" and "ws w" and "ws w'" and "blankOptions opts"
  shows "\<exists>p out t. PrettyOptions fl (w @ v @ w') (Some opts) = p @ out @ t \<and> ws p \<and> means out x \<and> ws t"
proof -
  obtain buf rest nl ok where r: "prettyRun (4 * length (w @ v @ w') + 4) fl Any (startLayout opts) (oPrefix opts) (w @ v @ w') 0 =
      Some (buf, rest, nl, ok)"
    using pretty_returns [where json = "w @ v @ w'" and fl = fl and L = "startLayout opts" and buf = "oPrefix opts" and nl = 0]
    by (auto simp del: prettyRun.simps)
  have L: "blankLayout (startLayout opts)" "lMax (startLayout opts) = -1"
    using assms(4) by (simp_all add: blankLayout_def blankOptions_def startLayout_def)
  have "stops w'" using stops_ws [OF assms(3), of "[]"] by (simp add: stops_def)
  from printedD [OF means_printed(1) [OF assms(1)] L(1) ws_not_pretty [OF assms(2)] this r] L(2)
  obtain out where out: "buf = oPrefix opts @ out" "means out x" by auto
  have "out \<noteq> []" using means_head [OF out(2)] by auto
  then have "PrettyOptions fl (w @ v @ w') (Some opts) = oPrefix opts @ out @ [CHR 0x0A]"
    using r out(1) by (simp add: PrettyOptions_def del: prettyRun.simps)
  moreover have "ws (oPrefix opts)" using assms(4) by (simp add: blankOptions_def)
  ultimately show ?thesis using out(2)
    by (intro exI [of _ "oPrefix opts"] exI [of _ out] exI [of _ "[CHR 0x0A]"]) simp
qed

lemma DefaultOptions_blank: "blankOptions DefaultOptions"
  by (simp add: blankOptions_def DefaultOptions_def ws_def isWs_def)

lemma PrettyText_default: "PrettyText fl json = PrettyOptions fl json (Some DefaultOptions)"
  by (simp add: PrettyText_def PrettyOptions_def)

text \<open>
  C24. The printer keeps the meaning: for every JSON text between blanks, every width and every
  prefix and indentation of blanks, \<open>PrettyOptions\<close> without sorting gives a JSON text between
  blanks that means the same, so does \<open>PrettyText\<close> with the default options, and \<open>Ugly\<close> gives
  one without blanks around it that means the same and that a second \<open>Ugly\<close> leaves alone.
\<close>

theorem pretty_keeps_meaning:
  assumes "means v x" and "ws w" and "ws w'" and "blankOptions opts"
  shows "(\<exists>p out t. PrettyOptions fl (w @ v @ w') (Some opts) = p @ out @ t \<and> ws p \<and> means out x \<and> ws t)
    \<and> (\<exists>p out t. PrettyText fl (w @ v @ w') = p @ out @ t \<and> ws p \<and> means out x \<and> ws t)
    \<and> means (Ugly (w @ v @ w')) x \<and> Ugly (Ugly (w @ v @ w')) = Ugly (w @ v @ w')"
  using PrettyOptions_means [OF assms] PrettyOptions_means [OF assms(1-3) DefaultOptions_blank, of fl]
    ugly_keeps_meaning [OF assms(1-3)]
  by (simp only: PrettyText_default)

lemma sample_text: "means ''[1, true]'' (GArr [GNum ''1'', GBool True])"
proof -
  from melements [OF _ mnum [OF jnumber_one] _ melement [OF _ mtrue], of "[]" "[]" "'' ''" "[]"]
  have "meansElements ''1, true'' [GNum ''1'', GBool True]" by (simp add: ws_def isWs_def)
  from marray [OF this] show ?thesis by simp
qed

theorem pretty_keeps_meaning_witness:
  "(\<exists>p out t. PrettyOptions sampleFloats ('' '' @ ''[1, true]'' @ '''') (Some DefaultOptions) = p @ out @ t
      \<and> ws p \<and> means out (GArr [GNum ''1'', GBool True]) \<and> ws t)
    \<and> (\<exists>p out t. PrettyText sampleFloats ('' '' @ ''[1, true]'' @ '''') = p @ out @ t
      \<and> ws p \<and> means out (GArr [GNum ''1'', GBool True]) \<and> ws t)
    \<and> means (Ugly ('' '' @ ''[1, true]'' @ '''')) (GArr [GNum ''1'', GBool True])
    \<and> Ugly (Ugly ('' '' @ ''[1, true]'' @ '''')) = Ugly ('' '' @ ''[1, true]'' @ '''')"
  by (rule pretty_keeps_meaning [OF sample_text _ _ DefaultOptions_blank]) (simp_all add: ws_def isWs_def)

end
