(* ===== verification/GjsonMods.thy ===== *)
theory GjsonMods
  imports GjsonGet GjsonLookup PrettyMeans
begin

text \<open>
  The modifiers that \<open>gjson.go\<close> has from the start, and what they make of a JSON text:
  \<open>@reverse\<close>, \<open>@flatten\<close> and \<open>@join\<close> work on the raw texts of the values that \<open>ForEach\<close>
  hands out, without looking into them.
\<close>

section \<open>Helpers\<close>

text \<open>The calls of an iterator that always goes on, as the list of its keys and values.\<close>

definition entries :: "Result \<Rightarrow> (Result \<times> Result) list" where
  "entries t = ForEach (\<lambda>st key value. (st @ [(key, value)], True)) t []"

definition unwrap :: "string \<Rightarrow> string" where
  "unwrap json =
     (let s = trim json in
      if 2 \<le> length s \<and> (s ! 0 = CHR ''['' \<or> s ! 0 = CHR ''{'') then slice s 1 (length s - 1) else s)"

definition cleanWS :: "string \<Rightarrow> string" where
  "cleanWS s = filter isWs s"



section \<open>The modifiers\<close>

definition prettyOption :: "floats \<Rightarrow> prettyOptions \<Rightarrow> Result \<times> Result \<Rightarrow> prettyOptions" where
  "prettyOption fl opts kv =
     (let name = resultString (fFormat fl) (fst kv); text = resultString (fFormat fl) (snd kv) in
      if name = ''sortKeys'' then opts\<lparr>oSortKeys := resultBool fl (snd kv)\<rparr>
      else if name = ''indent'' then opts\<lparr>oIndent := cleanWS text\<rparr>
      else if name = ''prefix'' then opts\<lparr>oPrefix := cleanWS text\<rparr>
      else if name = ''width'' then opts\<lparr>oWidth := sint (resultInt fl (snd kv))\<rparr>
      else opts)"

definition modPretty :: "floats \<Rightarrow> string \<Rightarrow> string \<Rightarrow> string" where
  "modPretty fl json arg =
     (if arg \<noteq> '''' then PrettyOptions fl json (Some (foldl (prettyOption fl) DefaultOptions (entries (Parse arg))))
      else PrettyText fl json)"

definition modThis :: "string \<Rightarrow> string \<Rightarrow> string" where
  "modThis json arg = json"

definition modUgly :: "string \<Rightarrow> string \<Rightarrow> string" where
  "modUgly json arg = Ugly json"

definition modReverse :: "string \<Rightarrow> string \<Rightarrow> string" where
  "modReverse json arg =
     (let res = Parse json in
      if IsArray res then ''['' @ commaJoin (map (\<lambda>kv. rRaw (snd kv)) (rev (entries res))) @ '']''
      else if IsObject res then
        ''{'' @ commaJoin (map (\<lambda>kv. rRaw (fst kv) @ '':'' @ rRaw (snd kv)) (rev (entries res))) @ ''}''
      else json)"

text \<open>An option of an argument, the last of its name; \<open>False\<close> without one.\<close>

definition optionSet :: "floats \<Rightarrow> string \<Rightarrow> string \<Rightarrow> bool" where
  "optionSet fl name arg =
     (if arg = '''' then False
      else foldl (\<lambda>b kv. if resultString (fFormat fl) (fst kv) = name then resultBool fl (snd kv) else b) False
        (entries (Parse arg)))"

definition modValid :: "string \<Rightarrow> string \<Rightarrow> string" where
  "modValid json arg = (if \<not> Valid json then '''' else json)"

text \<open>Values are texts of their own, shorter than the text of the container.\<close>

definition addEntry :: "(Result \<times> Result) list \<Rightarrow> Result \<Rightarrow> Result \<Rightarrow> (Result \<times> Result) list \<times> bool" where
  "addEntry st key value = (st @ [(key, value)], True)"

lemma entries_addEntry: "entries t = ForEach addEntry t []"
  by (simp add: entries_def addEntry_def [abs_def])

lemma slice_length: "length (slice s a b) \<le> length s - a"
  by (simp add: slice_def)

lemma squashLoop_length: "length (snd (squashLoop json s i d)) \<le> length json - s"
  by (induction json s i d rule: squashLoop.induct) (subst squashLoop.simps, auto simp: slice_length)

lemma parseString_length: "length (fst (snd (parseString json (Suc i)))) \<le> length json - i"
  by (auto simp: parseString_def Let_def slice_length)

lemma parseAny_length: "parseAny json i hit = (j, val, ok) \<Longrightarrow> length (rRaw val) \<le> length json - i"
proof (induction json i hit rule: parseAny.induct)
  case (1 json i hit)
  consider (over) "length json \<le> i" | (box) "i < length json" "json ! i = CHR ''{'' \<or> json ! i = CHR ''[''"
    | (quoted) "i < length json" "json ! i = CHR 0x22"
    | (num) "i < length json" "isNumStart (json ! i)"
    | (lit) "i < length json" "isLitStart (json ! i)"
    | (skip) "i < length json" "parseAny json (Suc i) hit = (j, val, ok)"
        "\<not> (json ! i = CHR ''{'' \<or> json ! i = CHR ''['')" "json ! i \<noteq> CHR 0x22" "\<not> isNumStart (json ! i)" "\<not> isLitStart (json ! i)"
    using 1(4) by (subst (asm) parseAny.simps) (auto simp: Let_def split: if_splits)
  then show ?case
  proof cases
    case over
    with 1(4) show ?thesis by (auto simp: parseAny.simps [of json i] emptyResult_def)
  next
    case box
    with 1(4) squashLoop_length [of json i "Suc i" 1] show ?thesis
      by (auto simp: parseAny.simps [of json i] parseSquash_def jsonValue_def emptyResult_def split: prod.splits if_splits)
  next
    case quoted
    then have "\<not> ord (json ! i) \<le> 32" by simp
    with 1(4) quoted parseString_length [of json i] show ?thesis
      by (auto simp: parseAny.simps [of json i] Let_def jsonValue_def emptyResult_def split: prod.splits if_splits)
  next
    case num
    then have "\<not> ord (json ! i) \<le> 32" "json ! i \<noteq> CHR 0x22" "json ! i \<noteq> CHR ''{'' \<and> json ! i \<noteq> CHR ''[''"
      by (auto simp: isNumStart_def is_digit_def)
    with 1(4) num slice_length show ?thesis
      by (auto simp: parseAny.simps [of json i] Let_def parseNumber_def jsonValue_def emptyResult_def split: prod.splits if_splits)
  next
    case lit
    then have c: "\<not> ord (json ! i) \<le> 32" "json ! i \<noteq> CHR 0x22" "json ! i \<noteq> CHR ''{'' \<and> json ! i \<noteq> CHR ''[''"
      "\<not> isNumStart (json ! i)"
      by (auto simp: isLitStart_def isNumStart_def is_digit_def)
    obtain m raw where m: "parseLiteral json i = (m, raw)" "i < m"
      using parseLiteral_gt [of i json] by (cases "parseLiteral json i") auto
    then have raw: "length raw \<le> length json - i" using slice_length by (auto simp: parseLiteral_def Let_def)
    show ?thesis
    proof (cases hit)
      case True
      with 1(4) lit c m raw show ?thesis by (auto simp: parseAny.simps [of json i] Let_def jsonValue_def)
    next
      case False
      with 1(4) lit c m have "parseAny json (Suc m) hit = (j, val, ok)"
        by (simp add: parseAny.simps [of json i] Let_def)
      with 1(2) [OF _ refl _ _ _ _ _ m(1) [symmetric]] False lit c m(2) show ?thesis by fastforce
    qed
  next
    case skip
    with 1(1) [OF _ refl] 1(3) [OF _ refl] show ?thesis
      by (cases "ord (json ! i) \<le> 32") fastforce+
  qed
qed

lemma eachFrom_shorter:
  "(k, v) \<in> set (eachFrom addEntry keys json i st) \<Longrightarrow> 0 < i \<Longrightarrow> (k, v) \<in> set st \<or> length (rRaw v) < length json"
proof (induction "addEntry" keys json i st rule: eachFrom.induct)
  case (1 keys json i st)
  note eq = eachFrom.simps [of "addEntry" keys json i st]
  consider (stop) "eachFrom addEntry keys json i st = st"
    | (skip) "i < length json" "keys \<and> json ! i \<noteq> CHR 0x22" "eachFrom addEntry keys json i st = eachFrom addEntry keys json (Suc i) st"
    | (found) m key j val where "i < length json" "\<not> (keys \<and> json ! i \<noteq> CHR 0x22)"
        "(if keys then keyAt json i else Some (i, noKey)) = Some (m, key)"
        "parseAny json (skipSeparators json m) True = (j, val, True)"
        "eachFrom addEntry keys json i st = eachFrom addEntry keys json (Suc j) (st @ [(key, val)])"
    using eq by (auto simp: addEntry_def split: if_splits option.splits prod.splits)
  then show ?case
  proof cases
    case stop
    with 1(3) show ?thesis by simp
  next
    case skip
    with 1(1) [OF _ skip(2)] 1(3) show ?thesis by simp
  next
    case (found m key j val)
    have "i \<le> m" using found(3) keyAt_gt [of json i m key] by (auto split: if_splits)
    then have pos: "0 < skipSeparators json m" using skipSeparators_ge [of m json] 1(4) by simp
    have "length (rRaw val) < length json"
      using parseAny_length [OF found(4)] pos found(1) by simp
    moreover have "(k, v) \<in> set (st @ [(key, val)]) \<or> length (rRaw v) < length json"
      using 1(2) [OF _ found(2,3) refl, of j "(val, True)" val True "st @ [(key, val)]" True] 1(3) found
      by (simp add: addEntry_def)
    ultimately show ?thesis by auto
  qed
qed

lemma bracketAt_ge: "bracketAt s i = Some (j, keys) \<Longrightarrow> i \<le> j \<and> (s \<noteq> [] \<longrightarrow> i < j)"
  by (induction s i rule: bracketAt.induct) (auto split: if_splits)

lemma entries_shorter:
  assumes "(k, v) \<in> set (entries t)" and "rType t = JJSON" and "rRaw t \<noteq> ''''"
  shows "length (rRaw v) < length (rRaw t)"
proof -
  obtain i keys where "bracketAt (rRaw t) 0 = Some (i, keys)" "(k, v) \<in> set (eachFrom addEntry keys (rRaw t) i [])"
    using assms by (cases "bracketAt (rRaw t) 0") (auto simp: entries_addEntry ForEach_def Exists_def)
  with bracketAt_ge [of "rRaw t" 0 i keys] assms(3) eachFrom_shorter [of k v keys "rRaw t" i "[]"] show ?thesis by simp
qed

lemma Parse_raw_le: "length (rRaw (Parse s)) \<le> length s"
  by (induction s rule: Parse.induct)
     (auto simp: jsonValue_def emptyResult_def dest: valueAt_le split: option.splits)

section \<open>Flatten and join\<close>

text \<open>\<open>modFlatten\<close>: an array among the values gives what is between its brackets.\<close>

function modFlatten :: "floats \<Rightarrow> string \<Rightarrow> string \<Rightarrow> string" where
  "modFlatten fl json arg =
     (let res = Parse json; deep = optionSet fl ''deep'' arg in
      if \<not> IsArray res then json
      else
        ''['' @ commaJoin (filter (\<lambda>raw. raw \<noteq> '''')
          (map (\<lambda>kv. trimSpace
             (if IsArray (snd kv) then (if deep then unwrap (modFlatten fl (rRaw (snd kv)) arg) else unwrap (rRaw (snd kv)))
              else rRaw (snd kv))) (entries res))) @ '']'')"
  by pat_completeness auto

lemma entries_of_Parse:
  assumes "(k, v) \<in> set (entries (Parse json))" and "IsArray (Parse json)"
  shows "length (rRaw v) < length json"
  using entries_shorter [OF assms(1)] assms(2) Parse_raw_le [of json]
  by (cases "rRaw (Parse json) = []") (auto simp: IsArray_def)

termination modFlatten
  by (relation "measure (\<lambda>(fl, json, arg). length json)") (auto dest: entries_of_Parse)

declare modFlatten.simps [simp del]

text \<open>
  \<open>modJoin\<close>: the members of all objects among the values. Without \<open>preserve\<close> each name keeps
  its first place and takes its last value.
\<close>

definition joinMember :: "floats \<Rightarrow> Result list \<times> (string \<rightharpoonup> Result) \<Rightarrow> Result \<times> Result \<Rightarrow> Result list \<times> (string \<rightharpoonup> Result)" where
  "joinMember fl st kv =
     (case st of (keys, kvals) \<Rightarrow>
        let k = resultString (fFormat fl) (fst kv) in
        (if kvals k = None then keys @ [fst kv] else keys, kvals(k \<mapsto> snd kv)))"

definition joinObject :: "floats \<Rightarrow> Result list \<times> (string \<rightharpoonup> Result) \<Rightarrow> Result \<times> Result \<Rightarrow> Result list \<times> (string \<rightharpoonup> Result)" where
  "joinObject fl st kv =
     (if \<not> IsObject (snd kv) then st else foldl (joinMember fl) st (entries (snd kv)))"

definition modJoin :: "floats \<Rightarrow> string \<Rightarrow> string \<Rightarrow> string" where
  "modJoin fl json arg =
     (let res = Parse json in
      if \<not> IsArray res then json
      else if optionSet fl ''preserve'' arg then
        ''{'' @ commaJoin (map (\<lambda>kv. unwrap (rRaw (snd kv))) (filter (\<lambda>kv. IsObject (snd kv)) (entries res))) @ ''}''
      else
        case foldl (joinObject fl) ([], Map.empty) (entries res) of (keys, kvals) \<Rightarrow>
          ''{'' @ commaJoin (map (\<lambda>key. rRaw key @ '':'' @ rRaw (the (kvals (resultString (fFormat fl) key)))) keys) @ ''}'')"

section \<open>The table\<close>

definition defaultModifiers :: "floats \<Rightarrow> modifiers" where
  "defaultModifiers fl =
     [''pretty'' \<mapsto> modPretty fl, ''ugly'' \<mapsto> modUgly, ''reverse'' \<mapsto> modReverse, ''this'' \<mapsto> modThis,
      ''flatten'' \<mapsto> modFlatten fl, ''join'' \<mapsto> modJoin fl, ''valid'' \<mapsto> modValid]"

definition AddModifier :: "string \<Rightarrow> (string \<Rightarrow> string \<Rightarrow> string) \<Rightarrow> modifiers \<Rightarrow> modifiers" where
  "AddModifier name fn mods = mods(name \<mapsto> fn)"

definition ModifierExists :: "string \<Rightarrow> modifiers \<Rightarrow> bool" where
  "ModifierExists name mods = (mods name \<noteq> None)"

section \<open>The values of a JSON text\<close>

text \<open>The result a value of the grammar is handed out as.\<close>

definition resultOf :: "string \<Rightarrow> gvalue \<Rightarrow> Result \<Rightarrow> bool" where
  "resultOf v x t \<longleftrightarrow> rRaw t = v \<and> (rType t = JJSON \<longleftrightarrow> isBox v) \<and> (\<forall>s. x = GStr s \<longrightarrow> rType t = JString \<and> rStr t = s)"

lemma parseAny_literal:
  assumes "drop k json = (h # t) @ rest" and "stops rest" and "list_all (\<lambda>c. 97 \<le> ord c \<and> ord c \<le> 122) t" and "isLitStart h"
  shows "\<exists>ty. parseAny json k True = (k + length (h # t), jsonValue ty (h # t) '''', True) \<and> ty \<noteq> JJSON"
proof -
  have h: "k < length json" "json ! k = h" using drop_nth [of k json h] assms(1) by simp_all
  have "h \<noteq> CHR 0x22 \<and> h \<noteq> CHR ''{'' \<and> h \<noteq> CHR ''['' \<and> \<not> isNumStart h \<and> \<not> ord h \<le> 32"
    using assms(4) by (auto simp: isLitStart_def isNumStart_def is_digit_def)
  then show ?thesis using h assms(4) scan_literal [OF assms(3,1,2)]
    by (subst parseAny.simps) (auto simp: Let_def jsonValue_def)
qed

lemma parseAny_means:
  assumes "means v x" and "drop k json = v @ rest" and "stops rest"
  shows "\<exists>t. parseAny json k True = (k + length v, t, True) \<and> resultOf v x t"
proof (cases "isBox v")
  case True
  then obtain c y e where v: "v = c # y @ [e]" "box c e" "passes y"
    using grammar_box means_grammar(1) [OF assms(1)] by blast
  have at: "k < length json" "json ! k = c" using drop_nth [of k json c] assms(2) v(1) by simp_all
  have "parseSquash json k = (k + length v, v)" using scan_box [OF v(3,2)] assms(2) v(1) by simp
  then have "parseAny json k True = (k + length v, jsonValue JJSON v '''', True)"
    using at v(2) by (subst parseAny.simps) (auto simp: box_def)
  moreover have "x \<noteq> GStr s" for s using assms(1) True by (auto elim: means.cases simp: isBox_def)
  ultimately show ?thesis using True by (auto simp: resultOf_def jsonValue_def)
next
  case False
  from assms(1) show ?thesis
  proof cases
    case mtrue
    then show ?thesis using parseAny_literal [of k json "CHR ''t''" "''rue''" rest] assms(2,3)
      by (auto simp: resultOf_def jsonValue_def isLitStart_def isBox_def)
  next
    case mfalse
    then show ?thesis using parseAny_literal [of k json "CHR ''f''" "''alse''" rest] assms(2,3)
      by (auto simp: resultOf_def jsonValue_def isLitStart_def isBox_def)
  next
    case mnull
    then show ?thesis using parseAny_literal [of k json "CHR ''n''" "''ull''" rest] assms(2,3)
      by (auto simp: resultOf_def jsonValue_def isLitStart_def isBox_def)
  next
    case mnum
    obtain c s where v: "v = c # s" "c = CHR ''-'' \<or> is_digit c" using jnumber_head [OF mnum(2)] by blast
    have "k < length json" "json ! k = c" using drop_nth [of k json c] assms(2) v(1) by simp_all
    moreover have "\<not> ord c \<le> 32" using startsPretty_value [OF v(2)] by simp
    ultimately have "parseAny json k True = (k + length v, jsonValue JNumber v '''', True)"
      using scan_number [OF mnum(2) assms(2,3)] number_starts [of c] v(2)
      by (subst parseAny.simps) (simp add: Let_def)
    then show ?thesis using mnum(1) False by (simp add: resultOf_def jsonValue_def)
  next
    case (mstr b s)
    then have d: "drop k json = CHR 0x22 # b @ CHR 0x22 # rest" using assms(2) by simp
    from parseString_chars [OF d says_jchars [OF mstr(3)]] obtain esc
      where p: "parseString json (Suc k) = (k + length b + 2, CHR 0x22 # b @ [CHR 0x22], esc, True)" "esc \<or> unescape b = b"
      by blast
    have "k < length json" "json ! k = CHR 0x22" using drop_nth [of k json] d by simp_all
    moreover have "slice (CHR 0x22 # b @ [CHR 0x22]) 1 (length (CHR 0x22 # b @ [CHR 0x22]) - 1) = b"
      by (simp add: slice_def)
    ultimately have "parseAny json k True = (k + length v, jsonValue JString v s, True)"
      using p mstr says_unescape [OF mstr(3)] by (subst parseAny.simps) (auto simp: Let_def)
    then show ?thesis using mstr(2) False by (simp add: resultOf_def jsonValue_def)
  qed (use False in \<open>simp_all add: isBox_def\<close>)
qed

text \<open>What is left behind the last value holds no other.\<close>

definition idle :: "char \<Rightarrow> bool" where
  "idle c = (isWs c \<or> c = CHR '']'' \<or> c = CHR ''}'')"

lemma idle_byte: "idle c \<Longrightarrow> c \<noteq> CHR ''{'' \<and> c \<noteq> CHR ''['' \<and> c \<noteq> CHR 0x22 \<and> \<not> isNumStart c \<and> \<not> isLitStart c"
  unfolding idle_def by (elim disjE) (auto simp: isWs_def isNumStart_def isLitStart_def is_digit_def)

lemma parseAny_idle: "list_all idle (drop i json) \<Longrightarrow> \<exists>j. parseAny json i True = (j, emptyResult, False)"
proof (induction "length json - i" arbitrary: i)
  case 0
  then show ?case by (subst parseAny.simps) simp
next
  case (Suc n)
  then have i: "i < length json" by simp
  then have d: "drop i json = json ! i # drop (Suc i) json" by (rule Cons_nth_drop_Suc [symmetric])
  with Suc.prems have b: "idle (json ! i)" "list_all idle (drop (Suc i) json)" by simp_all
  have "parseAny json i True = parseAny json (Suc i) True"
    using i idle_byte [OF b(1)] by (subst parseAny.simps) (simp add: Let_def)
  then show ?case using Suc(1) [of "Suc i"] Suc(2) b(2) by simp
qed

lemma eachFrom_idle: "list_all idle (drop i json) \<Longrightarrow> eachFrom it keys json i st = st"
proof (induction "length json - i" arbitrary: i)
  case 0
  then show ?case by (subst eachFrom.simps) simp
next
  case (Suc n)
  then have i: "i < length json" by simp
  then have d: "drop i json = json ! i # drop (Suc i) json" by (rule Cons_nth_drop_Suc [symmetric])
  with Suc.prems have b: "idle (json ! i)" "list_all idle (drop (Suc i) json)" by simp_all
  show ?case
  proof (cases keys)
    case True
    then show ?thesis using i idle_byte [OF b(1)] Suc(1) [of "Suc i"] Suc(2) b(2) by (subst eachFrom.simps) simp
  next
    case False
    have "list_all idle (drop (skipSeparators json i) json)"
      using skipSeparators_ge [of i json] Suc.prems by (metis append_take_drop_id drop_drop le_add_diff_inverse2 list_all_append)
    then obtain j where "parseAny json (skipSeparators json i) True = (j, emptyResult, False)" using parseAny_idle by blast
    then show ?thesis using False i by (subst eachFrom.simps) simp
  qed
qed

text \<open>The loop of \<open>ForEach\<close> over the elements of an array and the members of an object.\<close>

definition separators :: "string \<Rightarrow> bool" where
  "separators p = list_all (\<lambda>c. isWs c \<or> c = CHR '','' \<or> c = CHR '':'') p"

lemma separators_simps [simp]:
  "separators []" "separators (a @ b) = (separators a \<and> separators b)" "ws w \<Longrightarrow> separators w"
  "separators (CHR '','' # s) = separators s" "separators (CHR '':'' # s) = separators s"
  by (auto simp: separators_def ws_def intro: list.pred_mono_strong)

lemma separators_tl: "separators p \<Longrightarrow> separators (tl p)"
  by (cases p) (simp_all add: separators_def)

lemma skip_separators:
  assumes "drop i json = p @ v @ rest" and "separators p" and "means v x"
  shows "skipSeparators json i = i + length p"
proof -
  let ?p = "\<lambda>c. \<not> (ord c \<le> 32 \<or> c = CHR '','' \<or> c = CHR '':'')"
  obtain c s where v: "v = c # s" "startsPretty c" "32 < ord c" using means_head [OF assms(3)] by blast
  have "list_all (\<lambda>c. \<not> ?p c) p"
    using assms(2) unfolding separators_def by (rule list.pred_mono_strong) (auto simp: isWs_le)
  moreover have "c \<noteq> CHR '','' \<and> c \<noteq> CHR '':''" using v(2) mark_not_pretty by metis
  ultimately show ?thesis
    using scanTo_over [OF assms(1), of ?p] v by (simp add: skipSeparators_def)
qed

text \<open>The values of an array, as they stand in the text.\<close>

definition readAs :: "Result \<Rightarrow> gvalue \<Rightarrow> bool" where
  "readAs t x \<longleftrightarrow> means (rRaw t) x \<and> resultOf (rRaw t) x t"

lemma readAs_result: "means v x \<Longrightarrow> resultOf v x t \<Longrightarrow> readAs t x"
  by (simp add: readAs_def resultOf_def)

definition elementsEach :: "string \<Rightarrow> gvalue list \<Rightarrow> bool" where
  "elementsEach l xs \<longleftrightarrow> (\<forall>json i p rest st. drop i json = p @ l @ CHR '']'' # rest \<longrightarrow> separators p \<longrightarrow> list_all idle rest \<longrightarrow>
     (\<exists>ts. eachFrom addEntry False json i st = st @ map (Pair noKey) ts \<and> list_all2 readAs ts xs))"

lemma each_element:
  assumes "drop i json = p @ v @ rest" and "separators p" and "means v x" and "stops rest"
  shows "\<exists>t. eachFrom addEntry False json i st = eachFrom addEntry False json (Suc (i + length p + length v)) (st @ [(noKey, t)])
    \<and> readAs t x"
proof -
  obtain c s where v: "v = c # s" using means_head [OF assms(3)] by blast
  have i: "i < length json" using assms(1) v by (cases "length json \<le> i") auto
  have d: "drop (i + length p) json = v @ rest" using drop_add [OF assms(1)] .
  obtain t where "parseAny json (i + length p) True = (i + length p + length v, t, True)" "resultOf v x t"
    using parseAny_means [OF assms(3) d assms(4)] by auto
  then show ?thesis using i skip_separators [OF assms(1-3)] readAs_result [OF assms(3)]
    by (intro exI [of _ t]) (subst eachFrom.simps, simp add: addEntry_def)
qed

lemma drop_tl: "drop i json = x @ y # rest \<Longrightarrow> drop (Suc (i + length x)) json = rest"
  using drop_add [of i json "x @ [y]" rest] by simp

lemma drop_over: "drop i json = x @ s \<Longrightarrow> s \<noteq> [] \<Longrightarrow> drop (Suc (i + length x)) json = tl s"
  using drop_tl [of i json x "hd s" "tl s"] by simp

lemma idle_ws: "ws w \<Longrightarrow> list_all idle w"
  unfolding ws_def by (erule list.pred_mono_strong) (simp add: idle_def)

lemma last_each:
  assumes "ws w1" and "means v x" and "ws w2"
  shows "elementsEach (w1 @ v @ w2) [x]"
  unfolding elementsEach_def
proof (intro allI impI)
  fix json i p rest st
  assume d: "drop i json = p @ (w1 @ v @ w2) @ CHR '']'' # rest" and p: "separators p" and r: "list_all idle rest"
  have d': "drop i json = (p @ w1) @ v @ w2 @ CHR '']'' # rest" using d by simp
  obtain t where t: "eachFrom addEntry False json i st =
      eachFrom addEntry False json (Suc (i + length (p @ w1) + length v)) (st @ [(noKey, t)])" "readAs t x"
    using each_element [OF d' _ assms(2), of st] p assms(1,3) by auto
  have "drop (Suc (i + length (p @ w1) + length v)) json = tl (w2 @ CHR '']'' # rest)"
    using drop_over [of i json "(p @ w1) @ v" "w2 @ CHR '']'' # rest"] d by (simp add: add.assoc)
  moreover have "list_all idle (w2 @ CHR '']'' # rest)" using idle_ws [OF assms(3)] r by (simp add: idle_def)
  then have "list_all idle (tl (w2 @ CHR '']'' # rest))" by (cases "w2 @ CHR '']'' # rest") simp_all
  ultimately have "list_all idle (drop (Suc (i + length (p @ w1) + length v)) json)" by (simp only:)
  with t(1) have "eachFrom addEntry False json i st = st @ map (Pair noKey) [t]" using eachFrom_idle by (simp only: list.map)
  then show "\<exists>ts. eachFrom addEntry False json i st = st @ map (Pair noKey) ts \<and> list_all2 readAs ts [x]"
    using t(2) by (intro exI [of _ "[t]"]) simp
qed

lemma more_each:
  assumes "ws w1" and "means v x" and "ws w2" and "elementsEach l xs"
  shows "elementsEach (w1 @ v @ w2 @ '','' @ l) (x # xs)"
  unfolding elementsEach_def
proof (intro allI impI)
  fix json i p rest st
  assume d: "drop i json = p @ (w1 @ v @ w2 @ '','' @ l) @ CHR '']'' # rest" and p: "separators p" and r: "list_all idle rest"
  let ?i = "Suc (i + length (p @ w1) + length v)"
  have d': "drop i json = (p @ w1) @ v @ w2 @ CHR '','' # l @ CHR '']'' # rest" using d by simp
  obtain t where t: "eachFrom addEntry False json i st = eachFrom addEntry False json ?i (st @ [(noKey, t)])" "readAs t x"
    using each_element [OF d' _ assms(2), of st] p assms(1,3) by auto
  have "drop ?i json = tl (w2 @ CHR '','' # l @ CHR '']'' # rest)"
    using drop_over [of i json "(p @ w1) @ v" "w2 @ CHR '','' # l @ CHR '']'' # rest"] d by (simp add: add.assoc)
  then have "drop ?i json = tl (w2 @ '','') @ l @ CHR '']'' # rest" by (cases w2) simp_all
  moreover have "separators (tl (w2 @ '',''))" using separators_tl [of "w2 @ '',''"] assms(3) by simp
  ultimately obtain ts where
    "eachFrom addEntry False json ?i (st @ [(noKey, t)]) = (st @ [(noKey, t)]) @ map (Pair noKey) ts" "list_all2 readAs ts xs"
    using assms(4) r unfolding elementsEach_def by blast
  with t show "\<exists>ts. eachFrom addEntry False json i st = st @ map (Pair noKey) ts \<and> list_all2 readAs ts (x # xs)"
    by (intro exI [of _ "t # ts"]) simp
qed

text \<open>The same for the members of an object, with their keys.\<close>

definition keyAs :: "Result \<Rightarrow> string \<Rightarrow> bool" where
  "keyAs k key \<longleftrightarrow> (\<exists>b. says b key \<and> rRaw k = CHR 0x22 # b @ [CHR 0x22]) \<and> rType k = JString \<and> rStr k = key"

definition memberAs :: "Result \<times> Result \<Rightarrow> string \<times> gvalue \<Rightarrow> bool" where
  "memberAs e kv \<longleftrightarrow> keyAs (fst e) (fst kv) \<and> readAs (snd e) (snd kv)"

definition membersEach :: "string \<Rightarrow> (string \<times> gvalue) list \<Rightarrow> bool" where
  "membersEach m kvs \<longleftrightarrow> (\<forall>json i p rest st. drop i json = p @ m @ CHR ''}'' # rest \<longrightarrow> filler p \<longrightarrow> list_all idle rest \<longrightarrow>
     (\<exists>es. eachFrom addEntry True json i st = st @ es \<and> list_all2 memberAs es kvs))"

lemma each_skip:
  "drop i json = p @ s \<Longrightarrow> filler p \<Longrightarrow> eachFrom it True json i st = eachFrom it True json (i + length p) st"
proof (induction p arbitrary: i)
  case (Cons c p)
  have at: "i < length json" "json ! i = c" using drop_nth [of i json c] Cons.prems(1) by simp_all
  have "c \<noteq> CHR 0x22" using Cons.prems(2) by (auto simp: filler_def isWs_def)
  then have "eachFrom it True json i st = eachFrom it True json (Suc i) st" using at by (subst eachFrom.simps) simp
  also have "\<dots> = eachFrom it True json (Suc i + length p) st"
    using Cons drop_add [of i json "[c]" "p @ s"] by (intro Cons.IH) (simp_all add: filler_def)
  finally show ?case by simp
qed simp

lemma each_member:
  assumes "drop i json = p @ CHR 0x22 # b @ CHR 0x22 # q @ v @ rest" and "filler p" and "says b key" and "separators q"
    and "means v x" and "stops rest"
  shows "\<exists>k t. eachFrom addEntry True json i st =
      eachFrom addEntry True json (Suc (i + length (p @ CHR 0x22 # b @ CHR 0x22 # q @ v))) (st @ [(k, t)])
    \<and> memberAs (k, t) (key, x)"
proof -
  let ?i = "i + length p" and ?raw = "CHR 0x22 # b @ [CHR 0x22]"
  let ?m = "?i + length b + 2"
  have d: "drop ?i json = CHR 0x22 # b @ CHR 0x22 # q @ v @ rest" using drop_add [OF assms(1)] .
  have at: "?i < length json" "json ! ?i = CHR 0x22" using drop_nth [of ?i json "CHR 0x22"] d by simp_all
  from parseString_chars [OF d says_jchars [OF assms(3)]] obtain esc where
    s: "parseString json (Suc ?i) = (?m, ?raw, esc, True)" "esc \<or> unescape b = b" by blast
  have "slice ?raw 1 (length ?raw - 1) = b" by (simp add: slice_def)
  then have k: "keyAt json ?i = Some (?m, jsonValue JString ?raw key)"
    using s says_unescape [OF assms(3)] by (auto simp: keyAt_def Let_def)
  have dm: "drop ?m json = q @ v @ rest" using drop_add [of ?i json ?raw "q @ v @ rest"] d by (simp add: add.assoc)
  note sep = skip_separators [OF dm assms(4,5)]
  obtain t where t: "parseAny json (?m + length q) True = (?m + length q + length v, t, True)" "readAs t x"
    using parseAny_means [OF assms(5) drop_add [OF dm] assms(6)] readAs_result [OF assms(5)] by blast
  have "eachFrom addEntry True json i st = eachFrom addEntry True json ?i st" by (rule each_skip [OF assms(1,2)])
  also have "\<dots> = eachFrom addEntry True json (Suc (?m + length q + length v)) (st @ [(jsonValue JString ?raw key, t)])"
    using at k sep t(1) by (subst eachFrom.simps) (simp add: addEntry_def)
  finally have "eachFrom addEntry True json i st = eachFrom addEntry True json
      (Suc (i + length (p @ CHR 0x22 # b @ CHR 0x22 # q @ v))) (st @ [(jsonValue JString ?raw key, t)])"
    by (simp add: add.assoc)
  moreover have "keyAs (jsonValue JString ?raw key) key" using assms(3) by (auto simp: keyAs_def jsonValue_def)
  ultimately show ?thesis using t(2) by (intro exI [of _ "jsonValue JString ?raw key"] exI [of _ t]) (simp add: memberAs_def)
qed

lemma last_member_each:
  assumes "says b key" and "ws w1" and "ws w2" and "means v x" and "ws w3"
  shows "membersEach (CHR 0x22 # b @ CHR 0x22 # w1 @ '':'' @ w2 @ v @ w3) [(key, x)]"
  unfolding membersEach_def
proof (intro allI impI)
  fix json i p rest st
  assume d: "drop i json = p @ (CHR 0x22 # b @ CHR 0x22 # w1 @ '':'' @ w2 @ v @ w3) @ CHR ''}'' # rest" and p: "filler p"
    and r: "list_all idle rest"
  let ?x = "p @ CHR 0x22 # b @ CHR 0x22 # (w1 @ '':'' @ w2) @ v"
  have "drop i json = p @ CHR 0x22 # b @ CHR 0x22 # (w1 @ '':'' @ w2) @ v @ w3 @ CHR ''}'' # rest" using d by simp
  from each_member [OF this p assms(1) _ assms(4)] assms(2,3,5) obtain k t where
    t: "eachFrom addEntry True json i st = eachFrom addEntry True json (Suc (i + length ?x)) (st @ [(k, t)])"
      "memberAs (k, t) (key, x)" by auto blast
  have "drop (Suc (i + length ?x)) json = tl (w3 @ CHR ''}'' # rest)"
    using drop_over [of i json ?x "w3 @ CHR ''}'' # rest"] d by simp
  moreover have "list_all idle (w3 @ CHR ''}'' # rest)" using idle_ws [OF assms(5)] r by (simp add: idle_def)
  then have "list_all idle (tl (w3 @ CHR ''}'' # rest))" by (cases "w3 @ CHR ''}'' # rest") simp_all
  ultimately have "list_all idle (drop (Suc (i + length ?x)) json)" by (simp only:)
  with t(1) have "eachFrom addEntry True json i st = st @ [(k, t)]" using eachFrom_idle by (simp only:)
  with t(2) show "\<exists>es. eachFrom addEntry True json i st = st @ es \<and> list_all2 memberAs es [(key, x)]"
    by (intro exI [of _ "[(k, t)]"]) simp
qed

lemma filler_tl: "filler p \<Longrightarrow> filler (tl p)"
  by (cases p) (simp_all add: filler_def)

lemma more_members_each:
  assumes "says b key" and "ws w1" and "ws w2" and "means v x" and "ws w3" and "ws w4" and "membersEach m kvs"
  shows "membersEach (CHR 0x22 # b @ CHR 0x22 # w1 @ '':'' @ w2 @ v @ w3 @ '','' @ w4 @ m) ((key, x) # kvs)"
  unfolding membersEach_def
proof (intro allI impI)
  fix json i p rest st
  assume d: "drop i json = p @ (CHR 0x22 # b @ CHR 0x22 # w1 @ '':'' @ w2 @ v @ w3 @ '','' @ w4 @ m) @ CHR ''}'' # rest"
    and p: "filler p" and r: "list_all idle rest"
  let ?x = "p @ CHR 0x22 # b @ CHR 0x22 # (w1 @ '':'' @ w2) @ v" and ?y = "w3 @ '','' @ w4 @ m @ CHR ''}'' # rest"
  have "drop i json = p @ CHR 0x22 # b @ CHR 0x22 # (w1 @ '':'' @ w2) @ v @ ?y" using d by simp
  from each_member [OF this p assms(1) _ assms(4)] assms(2,3,5) obtain k t where
    t: "eachFrom addEntry True json i st = eachFrom addEntry True json (Suc (i + length ?x)) (st @ [(k, t)])"
      "memberAs (k, t) (key, x)" by auto blast
  have "drop (Suc (i + length ?x)) json = tl ?y" using drop_over [of i json ?x ?y] d by simp
  then have "drop (Suc (i + length ?x)) json = tl (w3 @ '','' @ w4) @ m @ CHR ''}'' # rest" by (cases w3) simp_all
  moreover have "filler (w3 @ '','' @ w4)" using assms(5,6) by simp
  then have "filler (tl (w3 @ '','' @ w4))" by (rule filler_tl)
  ultimately obtain es where "eachFrom addEntry True json (Suc (i + length ?x)) (st @ [(k, t)]) = (st @ [(k, t)]) @ es"
      "list_all2 memberAs es kvs"
    using assms(7) r unfolding membersEach_def by blast
  with t show "\<exists>es. eachFrom addEntry True json i st = st @ es \<and> list_all2 memberAs es ((key, x) # kvs)"
    by (intro exI [of _ "(k, t) # es"]) simp
qed

lemma means_each:
  shows "means v x \<Longrightarrow> True" and "meansMembers m kvs \<Longrightarrow> membersEach m kvs" and "meansElements l xs \<Longrightarrow> elementsEach l xs"
  by (induction rule: means_meansMembers_meansElements.inducts)
     (rule TrueI last_each more_each last_member_each more_members_each; assumption?)+

section \<open>Containers\<close>

lemma Parse_box: "ws w \<Longrightarrow> c = CHR ''{'' \<or> c = CHR ''['' \<Longrightarrow> Parse (w @ c # s) = jsonValue JJSON (c # s) ''''"
  by (auto simp: Parse_ws)

lemma entries_JJSON:
  "entries (jsonValue JJSON (CHR ''['' # s) '''') = eachFrom addEntry False (CHR ''['' # s) 1 []"
  "entries (jsonValue JJSON (CHR ''{'' # s) '''') = eachFrom addEntry True (CHR ''{'' # s) 1 []"
  by (simp_all add: entries_addEntry ForEach_def jsonValue_def Exists_def)

lemma array_entries:
  assumes "means v (GArr xs)" and "ws w" and "ws w'"
  shows "IsArray (Parse (w @ v @ w')) \<and> (\<exists>ts. entries (Parse (w @ v @ w')) = map (Pair noKey) ts \<and> list_all2 readAs ts xs)"
proof -
  from assms(1) consider (empty) u where "v = ''['' @ u @ '']''" "xs = []" "ws u"
    | (elements) l where "v = ''['' @ l @ '']''" "meansElements l xs"
    by (auto elim: means.cases)
  then show ?thesis
  proof cases
    case empty
    have "list_all idle (drop 1 (v @ w'))" using empty idle_ws assms(3) by (simp add: idle_def [of "CHR '']''"])
    from eachFrom_idle [OF this, of addEntry False "[]"] have "entries (Parse (w @ v @ w')) = []"
      using empty(1) Parse_box [OF assms(2)] by (simp add: entries_JJSON)
    then show ?thesis using empty Parse_box [OF assms(2)] by (simp add: IsArray_def jsonValue_def)
  next
    case elements
    have "drop 1 (v @ w') = [] @ l @ CHR '']'' # w'" using elements by simp
    then obtain ts where "eachFrom addEntry False (v @ w') 1 [] = [] @ map (Pair noKey) ts" "list_all2 readAs ts xs"
      using means_each(3) [OF elements(2)] idle_ws [OF assms(3)] separators_simps(1) unfolding elementsEach_def by blast
    then show ?thesis using elements Parse_box [OF assms(2)]
      by (auto simp: entries_JJSON IsArray_def)
  qed
qed

lemma object_entries:
  assumes "means v (GObj kvs)" and "ws w" and "ws w'"
  shows "IsObject (Parse (w @ v @ w')) \<and> \<not> IsArray (Parse (w @ v @ w')) \<and> list_all2 memberAs (entries (Parse (w @ v @ w'))) kvs"
proof -
  from assms(1) consider (empty) u where "v = ''{'' @ u @ ''}''" "kvs = []" "ws u"
    | (members) u m where "v = ''{'' @ u @ m @ ''}''" "meansMembers m kvs" "ws u"
    by (auto elim: means.cases)
  then show ?thesis
  proof cases
    case empty
    have "list_all idle (drop 1 (v @ w'))" using empty idle_ws assms(3) by (simp add: idle_def [of "CHR ''}''"])
    from eachFrom_idle [OF this, of addEntry True "[]"] have "entries (Parse (w @ v @ w')) = []"
      using empty(1) Parse_box [OF assms(2)] by (simp add: entries_JJSON)
    then show ?thesis using empty Parse_box [OF assms(2)] by (simp add: IsArray_def IsObject_def jsonValue_def)
  next
    case members
    have "drop 1 (v @ w') = u @ m @ CHR ''}'' # w'" using members by simp
    then obtain es where "eachFrom addEntry True (v @ w') 1 [] = [] @ es" "list_all2 memberAs es kvs"
      using means_each(2) [OF members(2)] idle_ws [OF assms(3)] filler_simps(2) [OF members(3)] unfolding membersEach_def by blast
    then show ?thesis using members Parse_box [OF assms(2)]
      by (auto simp: entries_JJSON IsArray_def IsObject_def)
  qed
qed

lemma jsonValue_type [simp]: "rType (jsonValue t raw str) = t"
  by (simp add: jsonValue_def)

lemma valueAt_scalar:
  assumes "valueAt (c # s) = Some t" and "c \<noteq> CHR ''{''" and "c \<noteq> CHR ''[''"
  shows "rType t \<noteq> JJSON"
proof -
  from assms consider "t = jsonValue JNull (tolit (c # s)) ''''" | "t = jsonValue JTrue (tolit (c # s)) ''''"
    | "t = jsonValue JFalse (tolit (c # s)) ''''" | "t = jsonValue JString (fst (tostr (c # s))) (snd (tostr (c # s)))"
    | "t = jsonValue JNumber (tonum (c # s)) ''''"
    unfolding valueAt_def Let_def list.sel by (metis option.distinct(1) option.inject)
  then show ?thesis by cases simp_all
qed

lemma scalar_type:
  assumes "means v x" and "ws w" and "\<forall>xs. x \<noteq> GArr xs" and "\<forall>kvs. x \<noteq> GObj kvs"
  shows "rType (Parse (w @ v @ w')) \<noteq> JJSON"
proof -
  obtain c s where v: "v = c # s" "startsPretty c" "32 < ord c" using means_head [OF assms(1)] by blast
  have "c \<noteq> CHR ''['' \<and> c \<noteq> CHR ''{''"
  proof (rule ccontr)
    assume c: "\<not> (c \<noteq> CHR ''['' \<and> c \<noteq> CHR ''{'')"
    from assms(1) show False
    proof (rule means.cases)
      fix t
      assume "v = t" and "jnumber t"
      then show False using jnumber_head [of t] v(1) c by (auto simp: is_digit_def)
    qed (use v(1) c assms(3,4) in auto)
  qed
  moreover have "Parse (w @ v @ w') = Parse (c # s @ w')" using Parse_ws [OF assms(2)] v(1) by simp
  ultimately show ?thesis using v(3) valueAt_scalar [of c "s @ w'"]
    by (cases "valueAt (c # s @ w')") (simp_all add: emptyResult_def)
qed

lemma no_array: "means v x \<Longrightarrow> \<forall>xs. x \<noteq> GArr xs \<Longrightarrow> ws w \<Longrightarrow> ws w' \<Longrightarrow> \<not> IsArray (Parse (w @ v @ w'))"
  using scalar_type [of v x w w'] object_entries [of v _ w w'] by (cases x) (auto simp: IsArray_def)

section \<open>Texts put together\<close>

lemma elements_append:
  "meansElements a xs \<Longrightarrow> meansElements b ys \<Longrightarrow> meansElements (a @ '','' @ b) (xs @ ys)"
proof -
  have "(means v x \<longrightarrow> True) \<and> (meansMembers m kvs \<longrightarrow> True) \<and>
      (meansElements a xs \<longrightarrow> meansElements b ys \<longrightarrow> meansElements (a @ '','' @ b) (xs @ ys))" for v x m kvs
  proof (induction rule: means_meansMembers_meansElements.induct)
    case (melement w1 v x w2)
    then show ?case using melements [of w1 v x w2 b ys] by simp
  next
    case (melements w1 v x w2 l xs)
    then show ?case using means_meansMembers_meansElements.melements [of w1 v x w2 "l @ '','' @ b" "xs @ ys"] by simp
  qed simp_all
  then show "meansElements a xs \<Longrightarrow> meansElements b ys \<Longrightarrow> meansElements (a @ '','' @ b) (xs @ ys)" by blast
qed

lemma members_append:
  "meansMembers a kvs \<Longrightarrow> meansMembers b kvs' \<Longrightarrow> meansMembers (a @ '','' @ b) (kvs @ kvs')"
proof -
  have "(means v x \<longrightarrow> True) \<and> (meansMembers a kvs \<longrightarrow> meansMembers b kvs' \<longrightarrow> meansMembers (a @ '','' @ b) (kvs @ kvs')) \<and>
      (meansElements l xs \<longrightarrow> True)" for v x l xs
  proof (induction rule: means_meansMembers_meansElements.induct)
    case (mmember k key w1 w2 v x w3)
    then show ?case using mmembers [of k key w1 w2 v x w3 "[]" b kvs'] by simp
  next
    case (mmembers k key w1 w2 v x w3 w4 m kvs)
    then show ?case
      using means_meansMembers_meansElements.mmembers [of k key w1 w2 v x w3 w4 "m @ '','' @ b" "kvs @ kvs'"] by simp
  qed simp_all
  then show "meansMembers a kvs \<Longrightarrow> meansMembers b kvs' \<Longrightarrow> meansMembers (a @ '','' @ b) (kvs @ kvs')" by blast
qed

lemma joined_elements:
  "list_all2 meansElements ls xss \<Longrightarrow> ls \<noteq> [] \<Longrightarrow> meansElements (commaJoin ls) (concat xss)"
proof (induction ls arbitrary: xss rule: commaJoin.induct)
  case (3 l l' ls)
  then obtain xs xss' where xss: "xss = xs # xss'" "meansElements l xs" "list_all2 meansElements (l' # ls) xss'"
    by (cases xss) auto
  with 3 elements_append [OF xss(2), of "commaJoin (l' # ls)" "concat xss'"] show ?case by simp
qed (auto simp: list_all2_Cons1)

lemma joined_members:
  "list_all2 meansMembers ms kvss \<Longrightarrow> ms \<noteq> [] \<Longrightarrow> meansMembers (commaJoin ms) (concat kvss)"
proof (induction ms arbitrary: kvss rule: commaJoin.induct)
  case (3 m m' ms)
  then obtain kvs kvss' where kvss: "kvss = kvs # kvss'" "meansMembers m kvs" "list_all2 meansMembers (m' # ms) kvss'"
    by (cases kvss) auto
  with 3 members_append [OF kvss(2), of "commaJoin (m' # ms)" "concat kvss'"] show ?case by simp
qed (auto simp: list_all2_Cons1)

lemma array_of:
  assumes "list_all2 meansElements ls xss" and "\<forall>xs \<in> set xss. xs \<noteq> []"
  shows "means (''['' @ commaJoin ls @ '']'') (GArr (concat xss))"
proof (cases "ls = []")
  case True
  then show ?thesis using assms(1) memptyArray [of "[]"] by simp
next
  case False
  then show ?thesis using marray [OF joined_elements [OF assms(1)]] by simp
qed

lemma object_of:
  assumes "list_all2 meansMembers ms kvss"
  shows "means (''{'' @ commaJoin ms @ ''}'') (GObj (concat kvss))"
proof (cases "ms = []")
  case True
  then show ?thesis using assms memptyObject [of "[]"] by simp
next
  case False
  then show ?thesis using mobject [OF _ joined_members [OF assms False], of "[]"] by simp
qed

lemma one_element: "means v x \<Longrightarrow> meansElements v [x]"
  using melement [of "[]" v x "[]"] by simp

lemma one_member: "says b key \<Longrightarrow> means v x \<Longrightarrow> meansMembers ((CHR 0x22 # b @ [CHR 0x22]) @ '':'' @ v) [(key, x)]"
  using mmember [of b key "[]" "[]" v x "[]"] by simp

lemma concat_single: "concat (map (\<lambda>x. [x]) xs) = xs"
  by (induction xs) simp_all

section \<open>Reverse\<close>

text \<open>What \<open>@reverse\<close> does to a value: the elements or members in the other order.\<close>

definition reversed :: "gvalue \<Rightarrow> gvalue" where
  "reversed x = (case x of GArr xs \<Rightarrow> GArr (rev xs) | GObj kvs \<Rightarrow> GObj (rev kvs) | _ \<Rightarrow> x)"

lemma list_all2_same: "(\<And>x y. P x y \<Longrightarrow> Q (f x) (g y)) \<Longrightarrow> list_all2 P xs ys \<Longrightarrow> list_all2 Q (map f xs) (map g ys)"
  by (auto simp: list.rel_map elim: list_all2_mono)

lemma reverse_means:
  assumes "means v x" and "ws w" and "ws w'"
  shows "\<exists>p u q. modReverse (w @ v @ w') arg = p @ u @ q \<and> ws p \<and> means u (reversed x) \<and> ws q"
proof (cases x)
  case (GArr xs)
  from array_entries [OF _ assms(2,3), of v xs] assms(1) GArr obtain ts where
    e: "IsArray (Parse (w @ v @ w'))" "entries (Parse (w @ v @ w')) = map (Pair noKey) ts" "list_all2 readAs ts xs" by blast
  have "list_all2 meansElements (map rRaw (rev ts)) (map (\<lambda>x. [x]) (rev xs))"
    using e(3) by (intro list_all2_same [of readAs]) (simp_all add: readAs_def one_element list_all2_rev)
  from array_of [OF this] have "means (''['' @ commaJoin (map rRaw (rev ts)) @ '']'') (reversed x)"
    using GArr by (simp add: reversed_def concat_single)
  moreover have "modReverse (w @ v @ w') arg = ''['' @ commaJoin (map rRaw (rev ts)) @ '']''"
    using e(1,2) by (simp add: modReverse_def Let_def rev_map comp_def)
  ultimately show ?thesis by (intro exI [of _ "[]"] exI) simp
next
  case (GObj kvs)
  from object_entries [OF _ assms(2,3), of v kvs] assms(1) GObj have
    e: "IsObject (Parse (w @ v @ w'))" "\<not> IsArray (Parse (w @ v @ w'))" "list_all2 memberAs (entries (Parse (w @ v @ w'))) kvs"
    by blast+
  have "list_all2 meansMembers (map (\<lambda>e. rRaw (fst e) @ '':'' @ rRaw (snd e)) (rev (entries (Parse (w @ v @ w')))))
      (map (\<lambda>kv. [kv]) (rev kvs))"
    using e(3) by (intro list_all2_same [of memberAs])
      (auto simp: memberAs_def keyAs_def readAs_def list_all2_rev dest: one_member)
  from object_of [OF this] have
    "means (''{'' @ commaJoin (map (\<lambda>e. rRaw (fst e) @ '':'' @ rRaw (snd e)) (rev (entries (Parse (w @ v @ w'))))) @ ''}'') (reversed x)"
    using GObj by (simp add: reversed_def concat_single)
  then show ?thesis using e(1,2) by (intro exI [of _ "[]"] exI) (simp add: modReverse_def Let_def)
qed (use assms scalar_type [OF assms(1,2)] in \<open>auto simp: reversed_def modReverse_def Let_def IsArray_def IsObject_def\<close>)

section \<open>Flatten\<close>

text \<open>Texts without blanks around them.\<close>

definition tight :: "string \<Rightarrow> bool" where
  "tight s \<longleftrightarrow> s \<noteq> [] \<and> ord (hd s) < 128 \<and> 32 < ord (hd s) \<and> ord (last s) < 128 \<and> 32 < ord (last s)"

lemma ascii_no_space: "32 < n \<Longrightarrow> n < 128 \<Longrightarrow> \<not> isSpaceRune n"
  by (auto simp: isSpaceRune_def)

lemma ws_space: "isWs c \<Longrightarrow> ord c < 128 \<and> isSpaceRune (ord c)"
  unfolding isWs_def by (elim disjE) (simp_all add: isSpaceRune_def)

lemma trimSpaceLeft_ws: "ws w \<Longrightarrow> trimSpaceLeft (w @ s) = trimSpaceLeft s"
proof (induction w)
  case (Cons c w)
  then show ?case using ws_space [of c] by (subst trimSpaceLeft.simps) simp
qed simp

lemma trimSpaceRight_ws: "ws w \<Longrightarrow> trimSpaceRight (s @ w) = trimSpaceRight s"
proof (induction w rule: rev_induct)
  case (snoc c w)
  then show ?case using ws_space [of c] decodeLastRune_ascii [of c "s @ w"]
    by (subst trimSpaceRight.simps) simp
qed simp

lemma trimSpace_around:
  assumes "ws w" and "tight s" and "ws w'"
  shows "trimSpace (w @ s @ w') = s"
proof -
  have "trimSpaceLeft (w @ s @ w') = trimSpaceLeft (s @ w')" by (rule trimSpaceLeft_ws [OF assms(1)])
  also have "\<dots> = s @ w'"
    using assms(2) ascii_no_space by (cases s) (simp_all add: tight_def trimSpaceLeft.simps)
  finally have "trimSpace (w @ s @ w') = trimSpaceRight s" by (simp add: trimSpace_def trimSpaceRight_ws [OF assms(3)])
  also have "\<dots> = s"
  proof -
    have "s \<noteq> []" "ord (last s) < 128" "\<not> isSpaceRune (ord (last s))"
      using assms(2) ascii_no_space by (simp_all add: tight_def)
    then have "\<not> isSpaceRune (fst (decodeLastRune s))" using decodeLastRune_ascii [of "last s" "butlast s"] by simp
    then show ?thesis by (subst trimSpaceRight.simps) simp
  qed
  finally show ?thesis .
qed

lemma trimSpace_ws: "ws w \<Longrightarrow> trimSpace w = []"
  using trimSpaceLeft_ws [of w "[]"] trimSpace_Nil by (simp add: trimSpace_def)

lemma numberByte_ascii: "numberByte c \<Longrightarrow> 32 < ord c \<and> ord c < 128"
proof -
  assume "numberByte c"
  then consider "is_digit c" | "c \<in> set ''-+.eE''" by (auto simp: numberByte_def)
  then show ?thesis by cases (auto simp: is_digit_def)
qed

lemma tight_all: "list_all (\<lambda>c. 32 < ord c \<and> ord c < 128) s \<Longrightarrow> s \<noteq> [] \<Longrightarrow> tight s"
  unfolding tight_def list_all_iff using last_in_set [of s] hd_in_set [of s] by blast

lemma means_tight: "means v x \<Longrightarrow> tight v"
proof (erule means.cases)
  fix s
  assume "v = s" and n: "jnumber s"
  have "list_all (\<lambda>c. 32 < ord c \<and> ord c < 128) s"
    using jnumber_bytes [OF n] by (rule list.pred_mono_strong) (rule numberByte_ascii)
  then show "tight v" using tight_all jnumber_head [OF n] \<open>v = s\<close> by blast
qed (simp_all add: tight_def)

lemma tight_join: "tight a \<Longrightarrow> tight b \<Longrightarrow> tight (a @ x @ b)"
  by (simp add: tight_def)

lemma tight_commaJoin: "ls \<noteq> [] \<Longrightarrow> \<forall>l \<in> set ls. tight l \<Longrightarrow> tight (commaJoin ls)"
proof (induction ls rule: commaJoin.induct)
  case (3 l l' ls)
  then show ?case using tight_join [of l "commaJoin (l' # ls)" "'',''"] by simp
qed simp_all

lemma elements_blank: "meansElements l xs \<Longrightarrow> ws w \<Longrightarrow> meansElements (w @ l) xs"
proof (erule meansElements.cases)
  fix w1 v x w2
  assume "l = w1 @ v @ w2" "xs = [x]" "ws w1" "means v x" "ws w2" "ws w"
  then show ?thesis using melement [of "w @ w1" v x w2] by simp
next
  fix w1 v x w2 l' xs'
  assume "l = w1 @ v @ w2 @ '','' @ l'" "xs = x # xs'" "ws w1" "means v x" "ws w2" "meansElements l' xs'" "ws w"
  then show ?thesis using melements [of "w @ w1" v x w2 l' xs'] by simp
qed

lemma elements_tight: "meansElements l xs \<Longrightarrow> \<exists>w s w'. l = w @ s @ w' \<and> ws w \<and> tight s \<and> meansElements s xs \<and> ws w'"
proof -
  have "(means v x \<longrightarrow> True) \<and> (meansMembers m kvs \<longrightarrow> True) \<and>
      (meansElements l xs \<longrightarrow> (\<exists>w s w'. l = w @ s @ w' \<and> ws w \<and> tight s \<and> meansElements s xs \<and> ws w'))" for v x m kvs
  proof (induction rule: means_meansMembers_meansElements.induct)
    case (melement w1 v x w2)
    then show ?case using means_tight one_element by blast
  next
    case (melements w1 v x w2 l xs)
    then obtain w s w' where l: "l = w @ s @ w'" "ws w" "tight s" "meansElements s xs" "ws w'" by blast
    have "meansElements (v @ w2 @ '','' @ w @ s) (x # xs)"
      using means_meansMembers_meansElements.melements [of "[]" v x w2 "w @ s" xs] melements
        elements_blank [OF l(4,2)] by simp
    moreover have "tight (v @ (w2 @ '','' @ w) @ s)" using tight_join means_tight melements l(3) by blast
    ultimately show ?case using melements(1) l
      by (intro exI [of _ w1] exI [of _ "v @ w2 @ '','' @ w @ s"] exI [of _ w']) simp
  qed simp_all
  then show "meansElements l xs \<Longrightarrow> \<exists>w s w'. l = w @ s @ w' \<and> ws w \<and> tight s \<and> meansElements s xs \<and> ws w'" by blast
qed

fun spread :: "bool \<Rightarrow> gvalue \<Rightarrow> gvalue list" where
  "spread deep (GArr xs) = (if deep then concat (map (spread deep) xs) else xs)"
| "spread deep x = [x]"

text \<open>What \<open>@flatten\<close> does to a value: the elements of its elements, down to the scalars and objects when deep.\<close>

definition flattened :: "bool \<Rightarrow> gvalue \<Rightarrow> gvalue" where
  "flattened deep x = (case x of GArr xs \<Rightarrow> GArr (concat (map (spread deep) xs)) | _ \<Rightarrow> x)"

text \<open>A tight text of elements, or nothing for none.\<close>

definition bodyOf :: "string \<Rightarrow> gvalue list \<Rightarrow> bool" where
  "bodyOf s xs \<longleftrightarrow> (if xs = [] then s = '''' else tight s \<and> meansElements s xs)"

lemma elements_nonempty: "meansElements l xs \<Longrightarrow> xs \<noteq> []"
  by (erule meansElements.cases) simp_all

lemma bodies_joined:
  assumes "list_all2 bodyOf ss xss"
  shows "bodyOf (commaJoin (filter (\<lambda>s. s \<noteq> '''') ss)) (concat xss)"
proof -
  have f: "list_all2 (\<lambda>s xs. tight s \<and> meansElements s xs) (filter (\<lambda>s. s \<noteq> '''') ss) (filter (\<lambda>xs. xs \<noteq> []) xss)
      \<and> concat (filter (\<lambda>xs. xs \<noteq> []) xss) = concat xss"
    using assms by (induction ss xss rule: list_all2_induct) (auto simp: bodyOf_def tight_def split: if_splits)
  show ?thesis
  proof (cases "filter (\<lambda>s. s \<noteq> '''') ss = []")
    case True
    with f have "filter (\<lambda>xs. xs \<noteq> []) xss = []" by simp
    then have "concat xss = []" using f by (metis concat.simps(1))
    then show ?thesis using True by (simp add: bodyOf_def)
  next
    case False
    have l: "list_all2 meansElements (filter (\<lambda>s. s \<noteq> '''') ss) (filter (\<lambda>xs. xs \<noteq> []) xss)"
      using f by (auto elim: list_all2_mono)
    have "list_all2 (\<lambda>s xs. tight s \<and> meansElements s xs) as bs \<Longrightarrow> \<forall>s \<in> set as. tight s" for as bs
      by (induction as bs rule: list_all2_induct) auto
    then have "\<forall>s \<in> set (filter (\<lambda>s. s \<noteq> '''') ss). tight s" using f by blast
    then have "tight (commaJoin (filter (\<lambda>s. s \<noteq> '''') ss))" by (rule tight_commaJoin [OF False])
    moreover have "meansElements (commaJoin (filter (\<lambda>s. s \<noteq> '''') ss)) (concat xss)"
      using joined_elements [OF l False] f by metis
    ultimately show ?thesis using elements_nonempty by (metis bodyOf_def)
  qed
qed

lemma trim_tight: "32 < ord (hd s) \<Longrightarrow> 32 < ord (last s) \<Longrightarrow> s \<noteq> [] \<Longrightarrow> trim s = s"
proof -
  assume s: "32 < ord (hd s)" "32 < ord (last s)" "s \<noteq> []"
  have "trimLeft s = s" using s by (cases s) (simp_all add: trimLeft_def)
  moreover have "trimLeft (rev s) = rev s"
    using s by (cases "rev s") (simp_all add: trimLeft_def hd_rev [symmetric] del: hd_rev)
  ultimately show "trim s = s" by (simp add: trim_def)
qed

lemma unwrap_box: "c = CHR ''['' \<and> e = CHR '']'' \<or> c = CHR ''{'' \<and> e = CHR ''}'' \<Longrightarrow> unwrap (c # l @ [e]) = l"
proof -
  assume c: "c = CHR ''['' \<and> e = CHR '']'' \<or> c = CHR ''{'' \<and> e = CHR ''}''"
  have "trim (c # l @ [e]) = c # l @ [e]" using c by (intro trim_tight) auto
  then show "unwrap (c # l @ [e]) = l" using c by (auto simp: unwrap_def slice_def)
qed

text \<open>The text of an array without its brackets and the blanks in them.\<close>

lemma array_body:
  assumes "means v (GArr xs)"
  shows "bodyOf (trimSpace (unwrap v)) xs"
proof -
  from assms consider (empty) u where "v = ''['' @ u @ '']''" "xs = []" "ws u"
    | (elements) l where "v = ''['' @ l @ '']''" "meansElements l xs"
    by (auto elim: means.cases)
  then show ?thesis
  proof cases
    case empty
    then show ?thesis using unwrap_box [of "CHR ''[''" "CHR '']''" u] trimSpace_ws by (simp add: bodyOf_def)
  next
    case elements
    then obtain w s w' where l: "l = w @ s @ w'" "ws w" "tight s" "meansElements s xs" "ws w'"
      using elements_tight by blast
    have "trimSpace (unwrap v) = s"
      using elements(1) unwrap_box [of "CHR ''[''" "CHR '']''" l] trimSpace_around [OF l(2,3,5)] l(1) by simp
    then show ?thesis using l(3,4) elements_nonempty by (auto simp: bodyOf_def)
  qed
qed

lemma readAs_array: "readAs t x \<Longrightarrow> IsArray t \<longleftrightarrow> (\<exists>xs. x = GArr xs)"
proof -
  assume r: "readAs t x"
  then have m: "means (rRaw t) x" and b: "rType t = JJSON \<longleftrightarrow> isBox (rRaw t)" by (simp_all add: readAs_def resultOf_def)
  obtain c s where v: "rRaw t = c # s" using means_head [OF m] by blast
  have "c = CHR ''['' \<longleftrightarrow> (\<exists>xs. x = GArr xs)"
    using m v
  proof (cases rule: means.cases)
    case mnum
    then show ?thesis using jnumber_head [of "rRaw t"] v by (auto simp: is_digit_def)
  qed auto
  then show ?thesis using b v by (auto simp: IsArray_def isBox_def)
qed

lemma scalar_piece: "means v x \<Longrightarrow> trimSpace v = v"
  using trimSpace_around [of "[]" v "[]"] means_tight by simp

lemma flatten_array:
  assumes "means v (GArr xs)" and "ws w" and "ws w'"
  shows "\<exists>body. modFlatten fl (w @ v @ w') arg = ''['' @ body @ '']''
    \<and> bodyOf body (concat (map (spread (optionSet fl ''deep'' arg)) xs))"
  using assms
proof (induction "length (w @ v @ w')" arbitrary: v xs w w' rule: less_induct)
  case less
  let ?deep = "optionSet fl ''deep'' arg"
  let ?piece = "\<lambda>t. trimSpace (if IsArray t then (if ?deep then unwrap (modFlatten fl (rRaw t) arg) else unwrap (rRaw t)) else rRaw t)"
  from array_entries [OF less(2-4)] obtain ts where
    e: "IsArray (Parse (w @ v @ w'))" "entries (Parse (w @ v @ w')) = map (Pair noKey) ts" "list_all2 readAs ts xs" by blast
  have "bodyOf (?piece t) (spread ?deep x)" if "t \<in> set ts" "readAs t x" for t x
  proof (cases "\<exists>ys. x = GArr ys")
    case True
    then obtain ys where x: "x = GArr ys" by blast
    have m: "means (rRaw t) (GArr ys)" "IsArray t" using that(2) x readAs_array [OF that(2)] by (simp_all add: readAs_def)
    have "length (rRaw t) < length (w @ v @ w')"
      using entries_of_Parse [of noKey t "w @ v @ w'"] e(1,2) that(1) by auto
    then obtain body where body: "modFlatten fl (rRaw t) arg = ''['' @ body @ '']''" "bodyOf body (concat (map (spread ?deep) ys))"
      using less(1) [of "[]" "rRaw t" "[]" ys] m(1) by auto
    have "unwrap (modFlatten fl (rRaw t) arg) = body" using body(1) unwrap_box [of "CHR ''[''" "CHR '']''" body] by simp
    moreover have "trimSpace body = body"
      using body(2) trimSpace_around [of "[]" body "[]"] by (auto simp: bodyOf_def split: if_splits)
    ultimately show ?thesis using m body(2) x array_body [OF m(1)] by (cases ?deep) simp_all
  next
    case False
    then have "\<not> IsArray t" "spread ?deep x = [x]" using readAs_array [OF that(2)] by (auto, cases x) auto
    then show ?thesis
      using that(2) scalar_piece means_tight one_element by (auto simp: readAs_def bodyOf_def)
  qed
  then have "list_all2 bodyOf (map ?piece ts) (map (spread ?deep) xs)"
    using e(3) by (auto simp: list.rel_map intro: list.rel_mono_strong)
  from bodies_joined [OF this] show ?case using e(1,2)
    by (subst modFlatten.simps) (auto simp: Let_def comp_def cong: if_cong)
qed

lemma body_array: "bodyOf s xs \<Longrightarrow> means (''['' @ s @ '']'') (GArr xs)"
  using memptyArray [of "[]"] marray [of s xs] by (auto simp: bodyOf_def split: if_splits)

lemma flatten_means:
  assumes "means v x" and "ws w" and "ws w'"
  shows "\<exists>p u q. modFlatten fl (w @ v @ w') arg = p @ u @ q \<and> ws p \<and> means u (flattened (optionSet fl ''deep'' arg) x) \<and> ws q"
proof (cases "\<exists>xs. x = GArr xs")
  case True
  then obtain xs where x: "x = GArr xs" by blast
  from flatten_array [OF _ assms(2,3), of v xs fl arg] assms(1) x obtain body where
    "modFlatten fl (w @ v @ w') arg = ''['' @ body @ '']''"
    "bodyOf body (concat (map (spread (optionSet fl ''deep'' arg)) xs))" by blast
  then show ?thesis using body_array x
    by (intro exI [of _ "[]"] exI [of _ "''['' @ body @ '']''"]) (simp add: flattened_def)
next
  case False
  then have "modFlatten fl (w @ v @ w') arg = w @ v @ w'" using no_array [OF assms(1) _ assms(2,3)]
    by (subst modFlatten.simps) (simp add: Let_def)
  moreover have "flattened d x = x" for d using False by (cases x) (simp_all add: flattened_def)
  ultimately show ?thesis using assms by auto
qed

section \<open>Join\<close>

lemma firsts_snoc: "rev (remdups (rev (ks @ [k]))) = (if k \<in> set ks then rev (remdups (rev ks)) else rev (remdups (rev ks)) @ [k])"
  by simp

text \<open>What \<open>@join\<close> does to an array: one object, each name at its first place with its last value.\<close>

definition lastValues :: "(string \<times> gvalue) list \<Rightarrow> (string \<times> gvalue) list" where
  "lastValues kvs = map (\<lambda>k. (k, the (map_of (rev kvs) k))) (rev (remdups (rev (map fst kvs))))"

definition membersOf :: "gvalue \<Rightarrow> (string \<times> gvalue) list" where
  "membersOf x = (case x of GObj kvs \<Rightarrow> kvs | _ \<Rightarrow> [])"

definition joined :: "gvalue \<Rightarrow> gvalue" where
  "joined x = (case x of GArr xs \<Rightarrow> GObj (lastValues (concat (map membersOf xs))) | _ \<Rightarrow> x)"

text \<open>What the loop of \<open>modJoin\<close> has collected from the members so far.\<close>

definition gathered :: "Result list \<times> (string \<rightharpoonup> Result) \<Rightarrow> (string \<times> gvalue) list \<Rightarrow> bool" where
  "gathered st kvs \<longleftrightarrow> list_all2 keyAs (fst st) (rev (remdups (rev (map fst kvs))))
     \<and> (\<forall>k. rel_option readAs (snd st k) (map_of (rev kvs) k))"

lemma gathered_None: "gathered st kvs \<Longrightarrow> snd st k = None \<longleftrightarrow> k \<notin> set (map fst kvs)"
proof -
  assume "gathered st kvs"
  then have "rel_option readAs (snd st k) (map_of (rev kvs) k)" by (simp add: gathered_def)
  then have "snd st k = None \<longleftrightarrow> map_of (rev kvs) k = None" by (auto elim: option.rel_cases)
  then show ?thesis by (auto simp: map_of_eq_None_iff)
qed

lemma gathered_member:
  assumes "gathered st kvs" and "memberAs e kv"
  shows "gathered (joinMember fl st e) (kvs @ [kv])"
proof -
  have k: "resultString (fFormat fl) (fst e) = fst kv" "keyAs (fst e) (fst kv)" "readAs (snd e) (snd kv)"
    using assms(2) by (simp_all add: memberAs_def keyAs_def resultString_def)
  have "list_all2 keyAs (fst (joinMember fl st e)) (rev (remdups (rev (map fst (kvs @ [kv])))))"
    using assms(1) k(1,2) gathered_None [OF assms(1), of "fst kv"]
    by (auto simp: joinMember_def gathered_def Let_def firsts_snoc list_all2_appendI simp del: rev_append remdups.simps split: prod.splits)
  moreover have "rel_option readAs (snd (joinMember fl st e) x) (map_of (rev (kvs @ [kv])) x)" for x
    using assms(1) k by (cases kv) (auto simp: joinMember_def gathered_def Let_def split: prod.splits)
  ultimately show ?thesis by (simp add: gathered_def)
qed

lemma gathered_members:
  "list_all2 memberAs es new \<Longrightarrow> gathered st kvs \<Longrightarrow> gathered (foldl (joinMember fl) st es) (kvs @ new)"
proof (induction es new arbitrary: st kvs rule: list_all2_induct)
  case (Cons e es kv new)
  from Cons(3) [OF gathered_member [OF Cons(4,1)]] show ?case by simp
qed simp

lemma readAs_object:
  assumes "readAs t x"
  shows "if IsObject t then (\<exists>kvs. x = GObj kvs \<and> list_all2 memberAs (entries t) kvs) else membersOf x = []"
proof -
  have m: "means (rRaw t) x" and b: "rType t = JJSON \<longleftrightarrow> isBox (rRaw t)" using assms by (simp_all add: readAs_def resultOf_def)
  show ?thesis
  proof (cases "\<exists>kvs. x = GObj kvs")
    case True
    then obtain kvs where x: "x = GObj kvs" by blast
    then obtain s where v: "rRaw t = CHR ''{'' # s" using m by (auto elim: means.cases)
    then have t: "rType t = JJSON" "IsObject t" using b by (simp_all add: isBox_def IsObject_def)
    have "entries t = entries (Parse (rRaw t))" using t(1) v Parse_box [of "[]" "CHR ''{''" s]
      by (simp add: entries_def ForEach_def Exists_def jsonValue_def)
    then show ?thesis using object_entries [of "rRaw t" kvs "[]" "[]"] m x t(2) by simp
  next
    case False
    then have "membersOf x = []" by (cases x) (simp_all add: membersOf_def)
    moreover have "\<not> IsObject t"
    proof
      assume o: "IsObject t"
      then obtain s where v: "rRaw t = CHR ''{'' # s" by (cases "rRaw t") (auto simp: IsObject_def)
      from m False v show False
      proof (cases rule: means.cases)
        case mnum
        then show ?thesis using jnumber_head [of "rRaw t"] v by (auto simp: is_digit_def)
      qed auto
    qed
    ultimately show ?thesis by simp
  qed
qed

lemma gathered_objects:
  "list_all2 readAs ts xs \<Longrightarrow> gathered st kvs \<Longrightarrow>
   gathered (foldl (joinObject fl) st (map (Pair noKey) ts)) (kvs @ concat (map membersOf xs))"
proof (induction ts xs arbitrary: st kvs rule: list_all2_induct)
  case (Cons t ts x xs)
  have "gathered (joinObject fl st (noKey, t)) (kvs @ membersOf x)"
    using readAs_object [OF Cons(1)] Cons(4) gathered_members [OF _ Cons(4)]
    by (auto simp: joinObject_def membersOf_def split: if_splits)
  from Cons(3) [OF this] show ?case by simp
qed simp

lemma gathered_nothing: "gathered ([], Map.empty) []"
  by (simp add: gathered_def)

lemma gathered_text:
  assumes "gathered (keys, kvals) kvs"
  shows "list_all2 meansMembers
    (map (\<lambda>key. rRaw key @ '':'' @ rRaw (the (kvals (resultString fmt key)))) keys) (map (\<lambda>kv. [kv]) (lastValues kvs))"
proof -
  have "meansMembers (rRaw key @ '':'' @ rRaw (the (kvals (resultString fmt key)))) [(k, the (map_of (rev kvs) k))]"
    if "k \<in> set (map fst kvs)" "keyAs key k" for key k
  proof -
    from that(2) obtain b where b: "says b k" "rRaw key = CHR 0x22 # b @ [CHR 0x22]" "resultString fmt key = k"
      by (auto simp: keyAs_def resultString_def)
    from that(1) obtain x where x: "map_of (rev kvs) k = Some x" by (cases "map_of (rev kvs) k") (auto simp: map_of_eq_None_iff)
    moreover have "rel_option readAs (kvals k) (map_of (rev kvs) k)" using assms by (simp add: gathered_def)
    ultimately obtain t where "kvals k = Some t" "readAs t x" by (auto elim: option.rel_cases)
    then show ?thesis using b x one_member [of b k "rRaw t" x] by (simp add: readAs_def)
  qed
  moreover have "list_all2 keyAs keys (rev (remdups (rev (map fst kvs))))" using assms by (simp add: gathered_def)
  ultimately show ?thesis
    by (auto simp: lastValues_def list.rel_map intro!: list.rel_mono_strong [of keyAs])
qed

lemma join_means:
  assumes "means v x" and "ws w" and "ws w'" and "\<not> optionSet fl ''preserve'' arg"
  shows "\<exists>p u q. modJoin fl (w @ v @ w') arg = p @ u @ q \<and> ws p \<and> means u (joined x) \<and> ws q"
proof (cases "\<exists>xs. x = GArr xs")
  case True
  then obtain xs where x: "x = GArr xs" by blast
  from array_entries [OF _ assms(2,3), of v xs] assms(1) x obtain ts where
    e: "IsArray (Parse (w @ v @ w'))" "entries (Parse (w @ v @ w')) = map (Pair noKey) ts" "list_all2 readAs ts xs" by blast
  obtain keys kvals where f: "foldl (joinObject fl) ([], Map.empty) (map (Pair noKey) ts) = (keys, kvals)" by fastforce
  have "gathered (keys, kvals) (concat (map membersOf xs))"
    using gathered_objects [OF e(3) gathered_nothing, of fl] f by simp
  from object_of [OF gathered_text [OF this, of "fFormat fl"]]
  have "means (modJoin fl (w @ v @ w') arg) (joined x)"
    using x e(1,2) f assms(4) by (simp add: modJoin_def Let_def joined_def concat_single)
  then show ?thesis by (intro exI [of _ "[]"] exI) simp
next
  case False
  then have "modJoin fl (w @ v @ w') arg = w @ v @ w'"
    using no_array [OF assms(1) _ assms(2,3)] by (simp add: modJoin_def Let_def)
  moreover have "joined x = x" using False by (cases x) (simp_all add: joined_def)
  ultimately show ?thesis using assms by auto
qed

section \<open>All modifiers\<close>

lemma prettyOption_blank:
  "ws (oPrefix opt) \<Longrightarrow> ws (oIndent opt) \<Longrightarrow>
   ws (oPrefix (foldl (prettyOption fl) opt es)) \<and> ws (oIndent (foldl (prettyOption fl) opt es))
   \<and> oSortKeys (foldl (prettyOption fl) opt es) =
      foldl (\<lambda>b kv. if resultString (fFormat fl) (fst kv) = ''sortKeys'' then resultBool fl (snd kv) else b) (oSortKeys opt) es"
proof (induction es arbitrary: opt)
  case (Cons kv es)
  have "ws (cleanWS s)" for s by (simp add: cleanWS_def ws_def list_all_iff)
  then have "ws (oPrefix (prettyOption fl opt kv)) \<and> ws (oIndent (prettyOption fl opt kv))"
    using Cons.prems by (simp add: prettyOption_def Let_def)
  moreover have "oSortKeys (prettyOption fl opt kv) =
      (if resultString (fFormat fl) (fst kv) = ''sortKeys'' then resultBool fl (snd kv) else oSortKeys opt)"
    by (simp add: prettyOption_def Let_def)
  ultimately show ?case using Cons.IH [of "prettyOption fl opt kv"] by simp
qed simp

lemma modPretty_means:
  assumes "means v x" and "ws w" and "ws w'" and "\<not> optionSet fl ''sortKeys'' arg"
  shows "\<exists>p u q. modPretty fl (w @ v @ w') arg = p @ u @ q \<and> ws p \<and> means u x \<and> ws q"
proof (cases "arg = ''''")
  case True
  then show ?thesis
    using PrettyOptions_means [OF assms(1-3) DefaultOptions_blank, of fl] by (simp add: modPretty_def PrettyText_default)
next
  case False
  have "blankOptions (foldl (prettyOption fl) DefaultOptions (entries (Parse arg)))"
    using prettyOption_blank [of DefaultOptions fl "entries (Parse arg)"] DefaultOptions_blank assms(4) False
    by (simp add: blankOptions_def optionSet_def DefaultOptions_def)
  from PrettyOptions_means [OF assms(1-3) this, of fl] show ?thesis using False by (simp add: modPretty_def)
qed

text \<open>What a modifier makes of a value, and the arguments for which that is claimed.\<close>

definition modified :: "floats \<Rightarrow> string \<times> string \<Rightarrow> gvalue \<Rightarrow> gvalue" where
  "modified fl m x =
     (if fst m = ''reverse'' then reversed x
      else if fst m = ''flatten'' then flattened (optionSet fl ''deep'' (snd m)) x
      else if fst m = ''join'' then joined x
      else x)"

definition covered :: "floats \<Rightarrow> string \<times> string \<Rightarrow> bool" where
  "covered fl m \<longleftrightarrow> (fst m = ''join'' \<longrightarrow> \<not> optionSet fl ''preserve'' (snd m))
     \<and> (fst m = ''pretty'' \<longrightarrow> \<not> optionSet fl ''sortKeys'' (snd m))"

definition textOf :: "string \<Rightarrow> gvalue \<Rightarrow> bool" where
  "textOf json x \<longleftrightarrow> (\<exists>w v w'. json = w @ v @ w' \<and> ws w \<and> means v x \<and> ws w')"

lemma textOf_value: "textOf json x \<Longrightarrow> Value (Parse json) = firsts x"
  unfolding textOf_def using Value_means by blast

lemma default_modifiers:
  assumes "defaultModifiers fl name = Some fn"
  shows "name = ''pretty'' \<and> fn = modPretty fl
    \<or> name = ''ugly'' \<and> fn = modUgly
    \<or> name = ''reverse'' \<and> fn = modReverse
    \<or> name = ''this'' \<and> fn = modThis
    \<or> name = ''flatten'' \<and> fn = modFlatten fl
    \<or> name = ''join'' \<and> fn = modJoin fl
    \<or> name = ''valid'' \<and> fn = modValid"
  using assms by (simp add: defaultModifiers_def split: if_splits)

lemma modifier_text:
  assumes "defaultModifiers fl name = Some fn" and "covered fl (name, arg)" and "textOf json x"
  shows "textOf (fn json arg) (modified fl (name, arg) x)"
proof -
  from assms(3) obtain w v w' where j: "json = w @ v @ w'" "ws w" "means v x" "ws w'" by (auto simp: textOf_def)
  from default_modifiers [OF assms(1)] show ?thesis
  proof (elim disjE conjE)
    assume m: "name = ''pretty''" "fn = modPretty fl"
    then have "textOf (fn json arg) x"
      using modPretty_means [OF j(3,2,4), of fl arg] assms(2) j(1) unfolding textOf_def covered_def fst_conv snd_conv by blast
    then show ?thesis using m by (simp add: modified_def)
  next
    assume m: "name = ''ugly''" "fn = modUgly"
    then have "textOf (Ugly json) x" using ugly_keeps_meaning [OF j(3,2,4)] j(1) unfolding textOf_def
      by (intro exI [of _ "[]"] exI [of _ "Ugly json"]) simp
    then show ?thesis using m by (simp add: modified_def modUgly_def)
  next
    assume m: "name = ''reverse''" "fn = modReverse"
    then have "textOf (fn json arg) (reversed x)"
      using reverse_means [OF j(3,2,4), of arg] j(1) unfolding textOf_def by blast
    then show ?thesis using m by (simp add: modified_def)
  next
    assume m: "name = ''this''" "fn = modThis"
    then show ?thesis using assms(3) by (simp add: modified_def modThis_def)
  next
    assume m: "name = ''flatten''" "fn = modFlatten fl"
    then have "textOf (fn json arg) (flattened (optionSet fl ''deep'' arg) x)"
      using flatten_means [OF j(3,2,4), of fl arg] j(1) unfolding textOf_def by blast
    then show ?thesis using m by (simp add: modified_def)
  next
    assume m: "name = ''join''" "fn = modJoin fl"
    then have "textOf (fn json arg) (joined x)"
      using join_means [OF j(3,2,4), of fl arg] assms(2) j(1) unfolding textOf_def covered_def fst_conv snd_conv by blast
    then show ?thesis using m by (simp add: modified_def)
  next
    assume m: "name = ''valid''" "fn = modValid"
    then show ?thesis using grammar_Valid [OF j(2) means_grammar(1) [OF j(3)] j(4)] assms(3) j(1)
      by (simp add: modified_def modValid_def)
  qed
qed

text \<open>
  The modifiers of the table compute on values: whatever JSON text stands between blanks,
  \<open>@reverse\<close> turns its elements or members round, \<open>@flatten\<close> puts the elements of its elements in
  their place, down to the bottom when asked, \<open>@join\<close> makes one object of its objects with each
  name at its first place and with its last value, and \<open>@pretty\<close>, \<open>@ugly\<close>, \<open>@this\<close> and \<open>@valid\<close>
  leave what it means; the result is again a JSON text between blanks.
\<close>

theorem modifiers_mean:
  assumes "defaultModifiers fl name = Some fn" and "covered fl (name, arg)" and "textOf json x"
  shows "textOf (fn json arg) (modified fl (name, arg) x)"
  using assms by (rule modifier_text)

section \<open>Modifiers in a path\<close>

text \<open>A modifier as it is written in a path, and several, one behind the other.\<close>

definition stage :: "string \<times> string \<Rightarrow> string" where
  "stage m = ''@'' @ fst m @ (if snd m = '''' then '''' else '':'' @ snd m)"

fun chainPath :: "(string \<times> string) list \<Rightarrow> string" where
  "chainPath [] = ''''"
| "chainPath [m] = stage m"
| "chainPath (m # ms) = stage m @ ''|'' @ chainPath ms"

definition ready :: "floats \<Rightarrow> string \<times> string \<Rightarrow> bool" where
  "ready fl m \<longleftrightarrow> defaultModifiers fl (fst m) \<noteq> None \<and> covered fl m
     \<and> (snd m = '''' \<or> (isBox (snd m) \<and> (\<exists>y. means (snd m) y)))"

lemma modifier_name: "defaultModifiers fl name \<noteq> None \<Longrightarrow>
    list_all (\<lambda>c. \<not> (c = CHR '':'' \<or> c = CHR ''|'' \<or> c = CHR ''.'')) name \<and> name \<noteq> []"
proof -
  assume "defaultModifiers fl name \<noteq> None"
  then obtain fn where "defaultModifiers fl name = Some fn" by blast
  from default_modifiers [OF this] show ?thesis by (elim disjE conjE) simp_all
qed

lemma squash_text: "means v y \<Longrightarrow> isBox v \<Longrightarrow> squash (v @ rest) = v"
proof -
  assume v: "means v y" "isBox v"
  then obtain c u e where b: "v = c # u @ [e]" "box c e" "passes u"
    using grammar_box means_grammar(1) [OF v(1)] by blast
  then have "parseSquash (v @ rest) 0 = (length v, v)" using scan_box [OF b(3,2), of 0 "v @ rest" rest] by simp
  then show ?thesis using b(1,2) by (auto simp: squash_def parseSquash_def box_def Let_def)
qed

lemma modifier_parts:
  assumes "defaultModifiers fl name \<noteq> None" and "rest = [] \<or> (\<exists>c r. rest = c # r \<and> (c = CHR '':'' \<or> c = CHR ''|''))"
  shows "modifierParts (''@'' @ name @ rest) =
    (if rest = [] then (name, '''', False)
     else if hd rest = CHR '':'' then (name, tl rest, tl rest \<noteq> '''') else (name, rest, False))"
proof -
  let ?p = "\<lambda>c. c = CHR '':'' \<or> c = CHR ''|'' \<or> c = CHR ''.''" and ?path = "''@'' @ name @ rest"
  have n: "list_all (\<lambda>c. \<not> ?p c) name" using modifier_name [OF assms(1)] by blast
  have "scanTo ?p ?path 1 = 1 + length name"
    using scanTo_over [of 1 ?path name rest ?p] n assms(2) by auto
  moreover have "slice ?path 1 (1 + length name) = name" "drop (1 + length name) ?path = rest"
    by (simp_all add: slice_def)
  moreover have "rest \<noteq> [] \<Longrightarrow> ?path ! (1 + length name) = hd rest" by (cases rest) simp_all
  moreover have "drop (1 + length name + 1) ?path = tl rest" by (cases rest) simp_all
  moreover have "length ?path = 1 + length name + length rest" by simp
  ultimately show ?thesis by (simp add: modifierParts_def Let_def del: append_Cons append_Nil One_nat_def)
qed

lemma modifierArgs_box:
  assumes "means v y" and "isBox v"
  shows "modifierArgs (v @ rest) = (v, rest)"
proof -
  obtain c s where v: "v = c # s" "c = CHR ''{'' \<or> c = CHR ''[''"
    using assms(2) means_head [OF assms(1)] by (auto simp: isBox_def)
  have "Parse (v @ rest) = jsonValue JJSON (v @ rest) ''''" using v Parse_box [of "[]" c "s @ rest"] by simp
  then have "Exists (Parse (v @ rest))" by (simp add: Exists_def)
  moreover have "hd (v @ rest) \<in> {CHR ''{'', CHR ''['', CHR 0x22}" using v by auto
  ultimately show ?thesis using squash_text [OF assms, of rest] unfolding modifierArgs_def by simp
qed

lemma exec_stage:
  assumes "ready fl m" and "defaultModifiers fl (fst m) = Some fn" and "rest = [] \<or> hd rest = CHR ''|''"
  shows "execModifier (defaultModifiers fl) json (stage m @ rest) = Some (rest, fn json (snd m))"
proof (cases "snd m = ''''")
  case True
  have "rest = [] \<or> (\<exists>c r. rest = c # r \<and> (c = CHR '':'' \<or> c = CHR ''|''))" using assms(3) by (cases rest) auto
  moreover have "hd rest \<noteq> CHR '':'' \<or> rest = []" using assms(3) by auto
  ultimately have "modifierParts (''@'' @ fst m @ rest) = (fst m, rest, False)"
    using modifier_parts [of fl "fst m" rest] assms(2) by (cases rest) simp_all
  then show ?thesis using True assms(2) by (simp add: execModifier_def stage_def)
next
  case False
  with assms(1) obtain y where y: "isBox (snd m)" "means (snd m) y" by (auto simp: ready_def)
  have "modifierParts (''@'' @ fst m @ CHR '':'' # snd m @ rest) = (fst m, snd m @ rest, True)"
    using modifier_parts [of fl "fst m" "CHR '':'' # snd m @ rest"] assms(2) False by simp
  then show ?thesis using False assms(2) modifierArgs_box [OF y(2,1)] by (simp add: execModifier_def stage_def)
qed

lemma get_stage:
  assumes "ready fl m" and "defaultModifiers fl (fst m) = Some fn" and "rest = [] \<or> hd rest = CHR ''|''"
  shows "fullGet fl (defaultModifiers fl) json (stage m @ rest) =
    (if rest = [] then Parse (fn json (snd m)) else fullGet fl (defaultModifiers fl) (fn json (snd m)) (tl rest))"
proof -
  have "fst m \<noteq> []" using modifier_name [of fl "fst m"] assms(2) by simp
  then have "1 < length (stage m @ rest)" "hd (stage m @ rest) = CHR ''@''" by (cases "fst m", simp_all add: stage_def)
  then have "fullGet fl (defaultModifiers fl) json (stage m @ rest) =
      (if goesOn rest then fullGet fl (defaultModifiers fl) (fn json (snd m)) (tl rest) else Parse (fn json (snd m)))"
    using exec_stage [OF assms, of json] full_get_step [of fl "defaultModifiers fl" json "stage m @ rest"]
    by (simp add: stepGet_def)
  moreover have "goesOn rest = (rest \<noteq> [])" using assms(3) by (auto simp: goesOn_def)
  ultimately show ?thesis by simp
qed

text \<open>
  C10. Modifiers in a path are applied from the left: \<open>Get\<close> with a path of one or more modifiers of
  the table, joined by pipes, each with no argument or with a JSON object or array as argument
  (\<open>@join\<close> without \<open>preserve\<close> and \<open>@pretty\<close> without \<open>sortKeys\<close>), reads from any JSON text the
  value that the modifiers make of what the text means.
\<close>

theorem chain_means:
  assumes "ms \<noteq> []" and "\<forall>m \<in> set ms. ready fl m" and "textOf json x"
  shows "Value (fullGet fl (defaultModifiers fl) json (chainPath ms)) = firsts (foldl (\<lambda>y m. modified fl m y) x ms)"
  using assms
proof (induction ms arbitrary: json x rule: chainPath.induct)
  case (2 m)
  then obtain fn where fn: "defaultModifiers fl (fst m) = Some fn" by (auto simp: ready_def)
  have "textOf (fn json (snd m)) (modified fl m x)"
    using modifier_text [OF fn, of "snd m" json x] 2 by (simp add: ready_def)
  from textOf_value [OF this] show ?case using get_stage [OF _ fn, of "[]" json] 2 by simp
next
  case (3 m m' ms)
  then obtain fn where fn: "defaultModifiers fl (fst m) = Some fn" by (auto simp: ready_def)
  have "textOf (fn json (snd m)) (modified fl m x)"
    using modifier_text [OF fn, of "snd m" json x] 3 by (simp add: ready_def)
  with 3 have "Value (fullGet fl (defaultModifiers fl) (fn json (snd m)) (chainPath (m' # ms))) =
      firsts (foldl (\<lambda>y m. modified fl m y) (modified fl m x) (m' # ms))" by simp
  then show ?case using get_stage [OF _ fn, of "''|'' @ chainPath (m' # ms)" json] 3 by simp
qed simp

subsection \<open>Witnesses\<close>

lemma sample_array: "textOf '' [1, true]'' (GArr [GNum ''1'', GBool True])"
  using sample_text unfolding textOf_def by (intro exI [of _ "'' ''"] exI [of _ "''[1, true]''"] exI [of _ "[]"]) (simp add: ws_def isWs_def)

theorem modifiers_mean_witness:
  "textOf (modReverse '' [1, true]'' '''') (modified sampleFloats (''reverse'', '''') (GArr [GNum ''1'', GBool True]))
   \<and> modified sampleFloats (''reverse'', '''') (GArr [GNum ''1'', GBool True]) = GArr [GBool True, GNum ''1'']"
proof
  show "textOf (modReverse '' [1, true]'' '''') (modified sampleFloats (''reverse'', '''') (GArr [GNum ''1'', GBool True]))"
    by (rule modifiers_mean [OF _ _ sample_array]) (simp_all add: defaultModifiers_def covered_def)
  show "modified sampleFloats (''reverse'', '''') (GArr [GNum ''1'', GBool True]) = GArr [GBool True, GNum ''1'']"
    by (simp add: modified_def reversed_def)
qed

theorem chain_means_witness:
  "Value (fullGet sampleFloats (defaultModifiers sampleFloats) '' [1, true]'' ''@reverse|@ugly'') = GArr [GBool True, GNum ''1'']"
proof -
  have "\<forall>m \<in> set [(''reverse'', ''''), (''ugly'', '''')]. ready sampleFloats m"
    by (simp add: ready_def defaultModifiers_def covered_def)
  from chain_means [OF _ this sample_array] show ?thesis by (simp add: stage_def modified_def reversed_def)
qed

section \<open>Joining with duplicates\<close>

text \<open>
  With \<open>preserve\<close> the texts of the objects are put side by side: an object without members leaves
  its comma, and the result is no JSON. The argument \<open>true\<close> of the comment in the code sets
  nothing.
\<close>

lemma join_preserve_broken:
  assumes "optionSet fl ''preserve'' arg"
  shows "modJoin fl ''[{},{ }]'' arg = ''{, }'' \<and> \<not> Valid (modJoin fl ''[{},{ }]'' arg)"
proof -
  have "entries (Parse ''[{},{ }]'') = [(noKey, jsonValue JJSON ''{}'' ''''), (noKey, jsonValue JJSON ''{ }'' '''')]"
    by code_simp
  then have "modJoin fl ''[{},{ }]'' arg = ''{, }''"
    using assms
    by (simp add: modJoin_def Let_def IsArray_def IsObject_def jsonValue_def unwrap_def trim_def trimLeft_def slice_def)
  moreover have "\<not> Valid ''{, }''" by code_simp
  ultimately show ?thesis by simp
qed

lemma join_true_sets_nothing: "\<not> optionSet fl ''preserve'' ''true''"
proof -
  have "entries (Parse ''true'') = [(noKey, jsonValue JTrue ''true'' '''')]" by code_simp
  then show ?thesis by (simp add: optionSet_def noKey_def emptyResult_def resultString_def)
qed

end
