(* ===== verification/GjsonTyped.thy ===== *)
theory GjsonTyped
  imports GjsonMods
begin

text \<open>
  The typing of results: the type of every \<open>Result\<close> that \<open>Parse\<close>, \<open>Get\<close> or an iterator hands
  out is the one its first byte announces, and its raw text is a piece of the text that was read.
\<close>

section \<open>Pieces\<close>

definition typeOfByte :: "char \<Rightarrow> jtype option" where
  "typeOfByte c =
     (if c = CHR ''{'' \<or> c = CHR ''['' then Some JJSON
      else if c = CHR 0x22 then Some JString
      else if c = CHR ''t'' then Some JTrue
      else if c = CHR ''f'' then Some JFalse
      else if c = CHR ''n'' then Some JNull
      else if c = CHR ''-'' \<or> is_digit c then Some JNumber
      else None)"

definition wellTyped :: "string \<Rightarrow> Result \<Rightarrow> bool" where
  "wellTyped json t \<longleftrightarrow> t = emptyResult
     \<or> rRaw t \<noteq> '''' \<and> sublist (rRaw t) json \<and> typeOfByte (hd (rRaw t)) = Some (rType t)
       \<and> (rType t \<noteq> JString \<longrightarrow> rStr t = '''')"

text \<open>The raw text of a value that starts at \<open>k\<close>.\<close>

definition piece :: "string \<Rightarrow> nat \<Rightarrow> string \<Rightarrow> bool" where
  "piece json k raw \<longleftrightarrow> k < length json \<and> (\<exists>n. 0 < n \<and> raw = take n (drop k json))"

lemma pieceD: "piece json k raw \<Longrightarrow> raw \<noteq> [] \<and> hd raw = json ! k \<and> sublist raw json"
  using sublist_order.order.trans [OF sublist_take sublist_drop]
  by (auto simp: piece_def hd_drop_conv_nth)

lemma piece_slice: "k < length json \<Longrightarrow> k < j \<Longrightarrow> piece json k (slice json k j)"
  unfolding piece_def slice_def by (intro conjI exI [of _ "j - k"]) simp_all

lemma piece_drop: "k < length json \<Longrightarrow> piece json k (drop k json)"
  by (auto simp: piece_def intro!: exI [of _ "length json"])

lemma squashLoop_piece: "s < length json \<Longrightarrow> s < i \<Longrightarrow> piece json s (snd (squashLoop json s i d))"
proof (induction json s i d rule: squashLoop.induct)
  case (1 json s i d)
  show ?case
  proof (cases "i < length json")
    case True
    have "s < Suc (quoteFrom json i (Suc i))" using quoteFrom_ge [of "Suc i" json i] True 1(6) by simp
    with 1 True show ?thesis by (subst squashLoop.simps) (simp add: piece_slice)
  next
    case False
    with 1 show ?thesis by (subst squashLoop.simps) (simp add: piece_drop)
  qed
qed

lemma parseSquash_piece: "k < length json \<Longrightarrow> piece json k (snd (parseSquash json k))"
  by (simp add: parseSquash_def squashLoop_piece)

lemma parseString_piece: "k < length json \<Longrightarrow> piece json k (fst (snd (parseString json (Suc k))))"
proof -
  assume k: "k < length json"
  let ?i = "scanTo (\<lambda>c. c = CHR 0x22 \<or> c = CHR 0x5C) json (Suc k)"
  have "Suc k \<le> ?i" by (rule scanTo_ge)
  moreover have "Suc ?i \<le> length json \<Longrightarrow> Suc ?i \<le> quoteFrom json 0 (Suc ?i)" by (rule quoteFrom_ge)
  ultimately show ?thesis using k by (auto simp: parseString_def Let_def intro!: piece_slice piece_drop)
qed

lemma parseNumber_piece: "k < length json \<Longrightarrow> piece json k (snd (parseNumber json k))"
  using scanTo_ge [of "Suc k"] by (simp add: parseNumber_def Let_def piece_slice Suc_le_lessD)

lemma parseLiteral_piece: "k < length json \<Longrightarrow> piece json k (snd (parseLiteral json k))"
  using scanTo_ge [of "Suc k"] by (simp add: parseLiteral_def Let_def piece_slice Suc_le_lessD)

lemma typed_piece:
  "piece json k raw \<Longrightarrow> typeOfByte (json ! k) = Some ty \<Longrightarrow> ty \<noteq> JString \<Longrightarrow> wellTyped json (jsonValue ty raw '''')"
  using pieceD [of json k raw] by (simp add: wellTyped_def jsonValue_def)

lemma typed_string: "piece json k raw \<Longrightarrow> json ! k = CHR 0x22 \<Longrightarrow> wellTyped json (jsonValue JString raw s)"
  using pieceD [of json k raw] by (simp add: wellTyped_def jsonValue_def typeOfByte_def)

lemma typed_empty [simp]: "wellTyped json emptyResult"
  by (simp add: wellTyped_def)

lemma typeOfByte_num: "isNumStart c \<Longrightarrow> typeOfByte c = Some JNumber"
proof -
  assume c: "isNumStart c"
  then have "c \<noteq> CHR ''{'' \<and> c \<noteq> CHR ''['' \<and> c \<noteq> CHR 0x22 \<and> c \<noteq> CHR ''t'' \<and> c \<noteq> CHR ''f'' \<and> c \<noteq> CHR ''n''"
    unfolding isNumStart_def by (elim disjE) (auto simp: is_digit_def)
  then show ?thesis using c by (simp add: typeOfByte_def isNumStart_def)
qed

lemma typeOfByte_lit:
  "isLitStart c \<Longrightarrow> typeOfByte c = Some (if c = CHR ''t'' then JTrue else if c = CHR ''f'' then JFalse else JNull)"
  unfolding isLitStart_def by (elim disjE) (simp_all add: typeOfByte_def)

lemmas typeOfByte_starts = typeOfByte_num typeOfByte_lit

section \<open>Iterators\<close>

lemma parseAny_typed: "parseAny json i True = (j, val, ok) \<Longrightarrow> wellTyped json val"
proof (induction "length json - i" arbitrary: i rule: less_induct)
  case less
  consider (over) "length json \<le> i" | (box) "i < length json" "json ! i = CHR ''{'' \<or> json ! i = CHR ''[''"
    | (blank) "i < length json" "ord (json ! i) \<le> 32" "\<not> (json ! i = CHR ''{'' \<or> json ! i = CHR ''['')"
    | (quoted) "i < length json" "json ! i = CHR 0x22"
    | (num) "i < length json" "isNumStart (json ! i)"
    | (lit) "i < length json" "isLitStart (json ! i)"
    | (skip) "i < length json" "parseAny json (Suc i) True = (j, val, ok)"
    using less(2) by (subst (asm) parseAny.simps) (auto simp: Let_def split: if_splits)
  then show ?case
  proof cases
    case over
    with less(2) show ?thesis by (auto simp: parseAny.simps [of json i])
  next
    case box
    then have "wellTyped json (jsonValue JJSON (snd (parseSquash json i)) '''')"
      by (intro typed_piece [OF parseSquash_piece]) (auto simp: typeOfByte_def)
    with box less(2) show ?thesis by (subst (asm) parseAny.simps) (auto split: prod.splits)
  next
    case blank
    with less(2) have "parseAny json (Suc i) True = (j, val, ok)" by (subst (asm) parseAny.simps) (simp add: Let_def)
    with less(1) [of "Suc i"] blank(1) show ?thesis by simp
  next
    case quoted
    then have "wellTyped json (jsonValue JString (fst (snd (parseString json (Suc i)))) s)" for s
      by (intro typed_string [OF parseString_piece])
    with quoted less(2) show ?thesis by (subst (asm) parseAny.simps) (auto simp: Let_def split: prod.splits if_splits)
  next
    case num
    then have "\<not> ord (json ! i) \<le> 32" "json ! i \<noteq> CHR 0x22" "json ! i \<noteq> CHR ''{'' \<and> json ! i \<noteq> CHR ''[''"
      by (auto simp: isNumStart_def is_digit_def)
    moreover have "wellTyped json (jsonValue JNumber (snd (parseNumber json i)) '''')"
      using num by (intro typed_piece [OF parseNumber_piece]) (simp_all add: typeOfByte_starts)
    ultimately show ?thesis using num less(2) by (subst (asm) parseAny.simps) (auto simp: Let_def split: prod.splits)
  next
    case lit
    then have "\<not> ord (json ! i) \<le> 32" "json ! i \<noteq> CHR 0x22" "json ! i \<noteq> CHR ''{'' \<and> json ! i \<noteq> CHR ''[''"
        "\<not> isNumStart (json ! i)"
      by (auto simp: isLitStart_def isNumStart_def is_digit_def)
    moreover have "wellTyped json (jsonValue (if json ! i = CHR ''t'' then JTrue else if json ! i = CHR ''f'' then JFalse else JNull)
        (snd (parseLiteral json i)) '''')"
      using lit by (intro typed_piece [OF parseLiteral_piece]) (simp_all add: typeOfByte_starts)
    ultimately show ?thesis using lit less(2) by (subst (asm) parseAny.simps) (simp add: Let_def split: prod.splits)
  next
    case skip
    with less(1) [of "Suc i"] show ?thesis by simp
  qed
qed

lemma keyAt_typed: "keyAt json i = Some (m, key) \<Longrightarrow> i < length json \<Longrightarrow> json ! i = CHR 0x22 \<Longrightarrow> wellTyped json key"
  using typed_string [OF parseString_piece [of i json]]
  by (auto simp: keyAt_def Let_def split: prod.splits if_splits)

lemma eachFrom_typed:
  "(k, v) \<in> set (eachFrom addEntry keys json i st) \<Longrightarrow> (k, v) \<in> set st \<or> wellTyped json k \<and> wellTyped json v"
proof (induction "addEntry" keys json i st rule: eachFrom.induct)
  case (1 keys json i st)
  note eq = eachFrom.simps [of "addEntry" keys json i st]
  consider (stop) "eachFrom addEntry keys json i st = st"
    | (skip) "i < length json" "keys \<and> json ! i \<noteq> CHR 0x22" "eachFrom addEntry keys json i st = eachFrom addEntry keys json (Suc i) st"
    | (found) m key j val where "i < length json" "\<not> (keys \<and> json ! i \<noteq> CHR 0x22)"
        "(if keys then keyAt json i else Some (i, noKey)) = Some (m, key)"
        "parseAny json (skipSeparators json m) True = (j, val, True)"
        "eachFrom addEntry keys json i st = eachFrom addEntry keys json (Suc j) (st @ [(key, val)])"
    using eq by (auto simp: addEntry_def split: if_splits option.splits prod.splits)
  then show ?case
  proof cases
    case stop
    with 1(3) show ?thesis by simp
  next
    case skip
    with 1(1) [OF _ skip(2)] 1(3) show ?thesis by simp
  next
    case (found m key j val)
    have "wellTyped json key" using found(1-3) keyAt_typed [of json i m key] by (auto simp: noKey_def split: if_splits)
    moreover have "wellTyped json val" by (rule parseAny_typed [OF found(4)])
    moreover have "(k, v) \<in> set (st @ [(key, val)]) \<or> wellTyped json k \<and> wellTyped json v"
      using 1(2) [OF _ found(2,3) refl, of j "(val, True)" val True "st @ [(key, val)]" True] 1(3) found
      by (simp add: addEntry_def)
    ultimately show ?thesis by auto
  qed
qed

text \<open>What a well-typed result hands out is well typed.\<close>

lemma entries_typed:
  assumes "wellTyped json t" and "(k, v) \<in> set (entries t)"
  shows "wellTyped json k \<and> wellTyped json v"
proof -
  have lift: "wellTyped json r" if "wellTyped (rRaw t) r" "t \<noteq> emptyResult" for r
    using that assms(1) sublist_order.order.trans by (auto simp: wellTyped_def)
  have t: "t \<noteq> emptyResult" using assms(2) by (auto simp: entries_addEntry ForEach_def Exists_def emptyResult_def)
  show ?thesis
  proof (cases "rType t = JJSON")
    case True
    then obtain i keys where "(k, v) \<in> set (eachFrom addEntry keys (rRaw t) i [])"
      using assms(2) by (cases "bracketAt (rRaw t) 0") (auto simp: entries_addEntry ForEach_def Exists_def)
    with eachFrom_typed lift t show ?thesis by fastforce
  next
    case False
    with assms show ?thesis
      by (auto simp: entries_addEntry ForEach_def addEntry_def noKey_def split: if_splits)
  qed
qed

section \<open>\<open>Parse\<close> and \<open>Get\<close>\<close>

lemma scanTo_one: "0 < scanTo p json 1"
  using scanTo_ge [of 1 p json] by simp

lemma valueAt_typed:
  assumes "valueAt (c # s) = Some t"
  shows "wellTyped (c # s) t"
proof -
  have start: "piece (c # s) 0 (take n (c # s))" if "0 < n" for n using that by (auto simp: piece_def)
  have whole: "piece (c # s) 0 (c # s)" using piece_drop [of 0 "c # s"] by simp
  have squash: "c = CHR ''{'' \<or> c = CHR ''['' \<Longrightarrow> piece (c # s) 0 (squash (c # s))"
    using squashLoop_piece [of 0 "c # s" 1 1] by (auto simp: squash_def)
  have str: "piece (c # s) 0 (fst (tostr (c # s)))"
    using start whole by (simp add: tostr_def Let_def del: take_Suc_Cons)
  from assms consider (box) "c = CHR ''{'' \<or> c = CHR ''[''" "t = jsonValue JJSON (squash (c # s)) ''''"
    | (nil) "c = CHR ''n''" "t = jsonValue JNull (tolit (c # s)) ''''"
    | (true) "c = CHR ''t''" "t = jsonValue JTrue (tolit (c # s)) ''''"
    | (false) "c = CHR ''f''" "t = jsonValue JFalse (tolit (c # s)) ''''"
    | (quoted) "c = CHR 0x22" "t = jsonValue JString (fst (tostr (c # s))) (snd (tostr (c # s)))"
    | (num) "isNumStart c" "t = jsonValue JNumber (tonum (c # s)) ''''"
    unfolding valueAt_def Let_def list.sel isNumStart_def by (metis option.distinct(1) option.inject)
  then show ?thesis
  proof cases
    case box
    then show ?thesis using typed_piece [OF squash, of JJSON] by (auto simp: typeOfByte_def)
  next
    case num
    then show ?thesis using typed_piece [OF start [OF scanTo_one], of JNumber] by (simp add: tonum_def typeOfByte_num)
  next
    case quoted
    then show ?thesis using typed_string [OF str] by simp
  qed (use typed_piece [OF start [OF scanTo_one]] in \<open>simp_all add: tolit_def typeOfByte_def\<close>)
qed

lemma wellTyped_Cons: "wellTyped s t \<Longrightarrow> wellTyped (c # s) t"
  by (auto simp: wellTyped_def sublist_Cons_right)

lemma Parse_typed: "wellTyped json (Parse json)"
proof (induction json rule: Parse.induct)
  case (2 c s)
  have "wellTyped (c # s) (jsonValue JJSON (c # s) '''')" if "c = CHR ''{'' \<or> c = CHR ''[''"
    using that piece_drop [of 0 "c # s"] by (intro typed_piece) (auto simp: typeOfByte_def)
  with 2 valueAt_typed [of c s] show ?case by (auto intro: wellTyped_Cons split: option.split)
qed simp

lemma scanValue_typed:
  assumes "scanValue json k c = ValueTo m d" and "k < length json" and "isValueStart (json ! k)" and "cValue c = emptyResult"
  shows "wellTyped json (cValue d)"
proof -
  consider (quoted) "json ! k = CHR 0x22" | (box) "json ! k = CHR ''{'' \<or> json ! k = CHR ''[''" "json ! k \<noteq> CHR 0x22"
    | (num) "isNumStart (json ! k)" "json ! k \<noteq> CHR 0x22" "\<not> (json ! k = CHR ''{'' \<or> json ! k = CHR ''['')"
    | (lit) "isLitStart (json ! k)" "\<not> isNumStart (json ! k)" "json ! k \<noteq> CHR 0x22" "\<not> (json ! k = CHR ''{'' \<or> json ! k = CHR ''['')"
    using assms(3) unfolding isValueStart_def by blast
  then show ?thesis
  proof cases
    case quoted
    then have "wellTyped json (jsonValue JString (fst (snd (parseString json (Suc k)))) s)" for s
      using assms(2) by (intro typed_string [OF parseString_piece])
    with quoted assms(1) show ?thesis
      by (auto simp: scanValue_def setString_def jsonValue_def Let_def split: prod.splits if_splits)
  next
    case box
    then have "wellTyped json (jsonValue JJSON (snd (parseSquash json k)) '''')"
      using assms(2) by (intro typed_piece [OF parseSquash_piece]) (auto simp: typeOfByte_def)
    with box assms(1,4) show ?thesis
      by (auto simp: scanValue_def setRaw_def jsonValue_def emptyResult_def split: prod.splits)
  next
    case num
    then have "wellTyped json (jsonValue JNumber (snd (parseNumber json k)) '''')"
      using assms(2) by (intro typed_piece [OF parseNumber_piece]) (simp_all add: typeOfByte_num)
    with num assms(1,4) show ?thesis
      by (auto simp: scanValue_def setRaw_def jsonValue_def emptyResult_def split: prod.splits)
  next
    case lit
    then have "wellTyped json (jsonValue (if json ! k = CHR ''t'' then JTrue else if json ! k = CHR ''f'' then JFalse else JNull)
        (snd (parseLiteral json k)) '''')"
      using assms(2) by (intro typed_piece [OF parseLiteral_piece]) (simp_all add: typeOfByte_lit)
    with lit assms(1,4) show ?thesis
      by (auto simp: scanValue_def setRaw_def setLiteral_def jsonValue_def emptyResult_def Let_def split: prod.splits cong: if_cong)
  qed
qed

text \<open>As long as nothing is found the value of the context stays empty.\<close>

definition typedRound :: "string \<Rightarrow> round \<Rightarrow> bool" where
  "typedRound json r = (case r of Return j found d \<Rightarrow> if found then wellTyped json (cValue d) else cValue d = emptyResult | _ \<Rightarrow> True)"

lemma valueRound_typed:
  "k < length json \<Longrightarrow> isValueStart (json ! k) \<Longrightarrow> cValue c = emptyResult \<Longrightarrow> typedRound json (valueRound json k pmatch hit rest fr c)"
  using scanValue_typed [of json k c] by (auto simp: typedRound_def valueRound_def split: valueScan.split)

lemma oneRound_typed: "cValue c = emptyResult \<Longrightarrow> typedRound json (oneRound glob json fr i c)"
proof (cases fr)
  case (InObject rp)
  assume c: "cValue c = emptyResult"
  have "k < length json \<Longrightarrow> k = scanTo isValueStart json j \<Longrightarrow> typedRound json (valueRound json k p h r f c)" for k j p h r f
    using valueRound_typed scanTo_hit c by metis
  with InObject c show ?thesis
    by (auto simp: oneRound_def objectRound_def Let_def typedRound_def [of json "Return _ _ _"] split: keyScan.split)
next
  case (InArray rp h)
  assume c: "cValue c = emptyResult"
  let ?k = "scanTo (\<lambda>x. isValueStart x \<or> x = CHR '']'') json i"
  have "typedRound json (valueRound json ?k p hit r f c)" if "?k < length json" "json ! ?k \<noteq> CHR '']''" for p hit r f
    using scanTo_hit [OF that(1)] that valueRound_typed [OF that(1) _ c] by blast
  with InArray c show ?thesis
    by (auto simp: oneRound_def arrayRound_def Let_def typedRound_def [of json "Return _ _ _"])
qed

lemma enterAt_value: "enterAt b path c = (fr, d) \<Longrightarrow> cValue d = cValue c"
  by (auto simp: enterAt_def Let_def setPipe_def split: if_splits)

lemma parseLoop_typed:
  "cValue c = emptyResult \<Longrightarrow> parseLoop n glob json fr i c = Some (j, found, d) \<Longrightarrow>
   if found then wellTyped json (cValue d) else cValue d = emptyResult"
proof (induction n arbitrary: fr i c j found d)
  case (Suc n)
  note r = oneRound_typed [OF Suc.prems(1), of json glob fr i]
  show ?case
  proof (cases "oneRound glob json fr i c")
    case (Return j' found' d')
    with Suc.prems(2) r show ?thesis by (simp add: typedRound_def)
  next
    case (Continue j' fr')
    with Suc.prems(2) have "parseLoop n glob json fr' j' c = Some (j, found, d)" by simp
    then show ?thesis by (rule Suc.IH [OF Suc.prems(1)])
  next
    case (Enter k rest fr')
    obtain inner c' where e: "enterAt (json ! k) rest c = (inner, c')" by fastforce
    obtain j1 found1 d1 where i: "parseLoop n glob json inner (Suc k) c' = Some (j1, found1, d1)"
      using Suc.prems(2) Enter e by (auto split: option.splits)
    have "if found1 then wellTyped json (cValue d1) else cValue d1 = emptyResult"
      using Suc.IH [OF _ i] enterAt_value [OF e] Suc.prems(1) by simp
    with Suc.prems(2) Enter e i Suc.IH [of d1 fr' j1 j found d] show ?thesis by (cases found1) simp_all
  qed
qed simp

lemma searchFrom_typed: "wellTyped json (searchFrom glob json b path i)"
proof -
  obtain fr c where e: "enterAt b path startContext = (fr, c)" by fastforce
  then have c: "cValue c = emptyResult" using enterAt_value [OF e] by (simp add: startContext_def)
  show ?thesis
  proof (cases "parseLoop (length json + 2) glob json fr i c")
    case None
    with e show ?thesis by (simp add: searchFrom_def del: parseLoop.simps)
  next
    case (Some res)
    obtain j found d where res: "res = (j, found, d)" by (cases res)
    with parseLoop_typed [OF c, of _ glob json fr i j found d] Some
    have "wellTyped json (cValue d)" by (cases found) (simp_all del: parseLoop.simps)
    with e Some res show ?thesis by (simp add: searchFrom_def del: parseLoop.simps)
  qed
qed

lemma Get_typed: "wellTyped json (Get glob json path)"
  by (simp add: Get_def Let_def searchFrom_typed)

text \<open>
  C25. Results are well typed, whatever bytes are read: a result of \<open>Parse\<close>, of \<open>Get\<close> on keys
  and indices, and every key and value that their \<open>ForEach\<close> hands out is the empty result or has
  a piece of the text as its raw text, the type that the first byte of it announces, and a string
  only if that type is a string.
\<close>

theorem results_typed:
  "wellTyped json (Parse json) \<and> wellTyped json (Get glob json path)
   \<and> list_all (\<lambda>(key, val). wellTyped json key \<and> wellTyped json val)
       (entries (Parse json) @ entries (Get glob json path))"
  using entries_typed [OF Parse_typed] entries_typed [OF Get_typed] Parse_typed Get_typed
  by (auto simp: list_all_iff)

end
