(* ===== verification/GoNet.thy ===== *)
theory GoNet
  imports GoJsonRead
begin

text \<open>
  What the connection string parser of the database driver uses of Go's standard library:
  \<open>strconv.Atoi\<close> with its error, \<open>url.QueryUnescape\<close>, \<open>net.SplitHostPort\<close>,
  \<open>strings.SplitN\<close>, \<open>strings.FieldsFunc\<close>, \<open>strings.IndexAny\<close>, \<open>strings.ToLower\<close>, and the
  arithmetic of \<open>time.Duration\<close>.
\<close>

section \<open>Numbers\<close>

text \<open>\<open>strconv.Atoi\<close>; \<open>None\<close> is its error, for the syntax or the range.\<close>

definition AtoiErr :: "string \<Rightarrow> int option" where
  "AtoiErr s =
     (let neg = (case s of c # _ \<Rightarrow> c = CHR ''-'' | [] \<Rightarrow> False);
          ds = (case s of c # cs \<Rightarrow> if c = CHR ''-'' \<or> c = CHR ''+'' then cs else s | [] \<Rightarrow> []);
          v = (if neg then - int (undec 0 ds) else int (undec 0 ds))
      in if ds = [] \<or> \<not> list_all is_digit ds \<or> v < minInt \<or> maxInt < v then None else Some v)"

text \<open>The value a 64-bit integer keeps of a product.\<close>

definition wrap64 :: "int \<Rightarrow> int" where
  "wrap64 v = sint (word_of_int v :: 64 word)"

lemma wrap64_small: "minInt \<le> v \<Longrightarrow> v \<le> maxInt \<Longrightarrow> wrap64 v = v"
  by (simp add: wrap64_def minInt_def maxInt_def signed_take_bit_int_eq_self sint_sbintrunc')

lemma AtoiErr_range: "AtoiErr s = Some v \<Longrightarrow> minInt \<le> v \<and> v \<le> maxInt"
  by (auto simp: AtoiErr_def Let_def split: if_splits)

lemma AtoiErr_dec: "int n \<le> maxInt \<Longrightarrow> AtoiErr (dec n) = Some (int n)"
proof -
  assume n: "int n \<le> maxInt"
  obtain c cs where d: "dec n = c # cs" using dec_nonempty [of n] by (cases "dec n") auto
  have "c \<noteq> CHR ''-''" "c \<noteq> CHR ''+''" using dec_head_digit [OF d] by simp_all
  moreover have "list_all is_digit (c # cs)" "undec 0 (c # cs) = n" using dec_digits [of n] undec_dec [of n] d by simp_all
  ultimately show ?thesis using n d by (simp add: AtoiErr_def Let_def minInt_def)
qed

section \<open>Texts\<close>

text \<open>\<open>strings.SplitN(s, sep, 2)\<close> for a separator of one byte.\<close>

definition splitTwo :: "char \<Rightarrow> string \<Rightarrow> string list" where
  "splitTwo d s = (if d \<in> set s then [takeWhile (\<lambda>c. c \<noteq> d) s, tl (dropWhile (\<lambda>c. c \<noteq> d) s)] else [s])"

text \<open>\<open>strings.FieldsFunc\<close> for separators of one byte: the pieces between them that are not empty.\<close>

definition fieldsOf :: "char set \<Rightarrow> string \<Rightarrow> string list" where
  "fieldsOf ds s = filter (\<lambda>w. w \<noteq> '''') (foldr (\<lambda>c ws. if c \<in> ds then '''' # ws else (c # hd ws) # tl ws) s [''''])"

text \<open>
  \<open>strings.ToLower\<close>; on a text that is not ASCII the case mapping of Unicode is the function
  \<open>low\<close>.
\<close>

definition ToLower :: "(string \<Rightarrow> string) \<Rightarrow> string \<Rightarrow> string" where
  "ToLower low s = (if list_all (\<lambda>c. ord c < 128) s then toLower s else low s)"

section \<open>Percent encoding\<close>

text \<open>\<open>url.QueryUnescape\<close>: a percent sign takes two hexadecimal digits, a plus is a blank.\<close>

fun queryUnescape :: "string \<Rightarrow> string option" where
  "queryUnescape [] = Some []"
| "queryUnescape (c # s) =
     (if c = CHR ''%'' then
        (case s of
           a # b # t \<Rightarrow>
             if is_hex a \<and> is_hex b then map_option (Cons (char_of (16 * hex_val a + hex_val b))) (queryUnescape t)
             else None
         | _ \<Rightarrow> None)
      else map_option (Cons (if c = CHR ''+'' then CHR '' '' else c)) (queryUnescape s))"

lemma queryUnescape_plain: "list_all (\<lambda>c. c \<noteq> CHR ''%'' \<and> c \<noteq> CHR ''+'') s \<Longrightarrow> queryUnescape s = Some s"
  by (induction s) simp_all

text \<open>\<open>url.QueryEscape\<close>, the way to write any text.\<close>

definition unreserved :: "char \<Rightarrow> bool" where
  "unreserved c = (is_digit c \<or> is_lower c \<or> is_upper c \<or> c \<in> set ''-_.~'')"

definition upperHex :: "nat \<Rightarrow> char" where
  "upperHex n = (if n < 10 then char_of (48 + n) else char_of (55 + n))"

definition escapeByte :: "char \<Rightarrow> string" where
  "escapeByte c =
     (if unreserved c then [c] else if c = CHR '' '' then ''+''
      else [CHR ''%'', upperHex (ord c div 16), upperHex (ord c mod 16)])"

definition queryEscape :: "string \<Rightarrow> string" where
  "queryEscape s = concat (map escapeByte s)"

lemma upperHex_val: "n < 16 \<Longrightarrow> is_hex (upperHex n) \<and> hex_val (upperHex n) = n \<and> unreserved (upperHex n)"
proof -
  assume n: "n < 16"
  then have "ord (upperHex n) = (if n < 10 then 48 + n else 55 + n)" by (simp add: upperHex_def)
  then show "is_hex (upperHex n) \<and> hex_val (upperHex n) = n \<and> unreserved (upperHex n)"
    using n by (auto simp: is_hex_def hex_val_def is_digit_def unreserved_def is_upper_def split: if_splits)
qed

lemma unreserved_plain: "unreserved c \<Longrightarrow> c \<noteq> CHR ''%'' \<and> c \<noteq> CHR ''+'' \<and> c \<notin> set ''@:/?,[]''"
proof -
  assume "unreserved c"
  then consider "is_digit c" | "is_lower c" | "is_upper c" | "c = CHR ''-''" | "c = CHR ''_''" | "c = CHR ''.''" | "c = CHR ''~''"
    unfolding unreserved_def by auto
  then show ?thesis
  proof cases
    case 1
    then have "48 \<le> ord c \<and> ord c \<le> 57" by (simp add: is_digit_def)
    then show ?thesis by auto
  next
    case 2
    then have "97 \<le> ord c" by (simp add: is_lower_def)
    then show ?thesis by auto
  next
    case 3
    then have "65 \<le> ord c \<and> ord c \<le> 90" by (simp add: is_upper_def)
    then show ?thesis by auto
  qed simp_all
qed

lemma queryUnescape_escapeByte: "queryUnescape (escapeByte c @ s) = map_option (Cons c) (queryUnescape s)"
proof -
  have o: "ord c div 16 < 16" using nat_of_char_less_256 [of c] by simp
  have "16 * (ord c div 16) + ord c mod 16 = ord c" by simp
  then have "char_of (16 * hex_val (upperHex (ord c div 16)) + hex_val (upperHex (ord c mod 16))) = c"
    using upperHex_val [OF o] upperHex_val [of "ord c mod 16"] by simp
  then show ?thesis
    using upperHex_val [OF o] upperHex_val [of "ord c mod 16"] unreserved_plain [of c] by (simp add: escapeByte_def)
qed

lemma queryUnescape_escape: "queryUnescape (queryEscape s) = Some s"
  by (induction s) (simp_all add: queryEscape_def queryUnescape_escapeByte)

lemma queryEscape_plain: "list_all (\<lambda>c. c \<notin> set ''@:/?,[]'') (queryEscape s)"
proof -
  have "list_all (\<lambda>c. c \<notin> set ''@:/?,[]'') (escapeByte c)" for c
  proof -
    have o: "ord c div 16 < 16" using nat_of_char_less_256 [of c] by simp
    show ?thesis
      using upperHex_val [OF o] upperHex_val [of "ord c mod 16"] unreserved_plain unfolding escapeByte_def by simp
  qed
  then show ?thesis by (induction s) (simp_all add: queryEscape_def)
qed

section \<open>Host and port\<close>

text \<open>
  \<open>net.SplitHostPort\<close>. \<open>MissingPort\<close> is the error that the address has no port, \<open>BadAddress\<close>
  any other.
\<close>

datatype hostPort = HostPort string string | MissingPort | BadAddress

definition afterLast :: "char \<Rightarrow> string \<Rightarrow> string" where
  "afterLast d s = rev (takeWhile (\<lambda>c. c \<noteq> d) (rev s))"

definition beforeLast :: "char \<Rightarrow> string \<Rightarrow> string" where
  "beforeLast d s = rev (tl (dropWhile (\<lambda>c. c \<noteq> d) (rev s)))"

definition splitHostPort :: "string \<Rightarrow> hostPort" where
  "splitHostPort s =
     (if CHR '':'' \<notin> set s then MissingPort
      else
        let host = beforeLast (CHR '':'') s; port = afterLast (CHR '':'') s in
        if hd s = CHR ''['' then
          (if CHR '']'' \<notin> set s then BadAddress
           else
             let inner = takeWhile (\<lambda>c. c \<noteq> CHR '']'') s; rest = tl (dropWhile (\<lambda>c. c \<noteq> CHR '']'') s) in
             if rest = '''' then MissingPort
             else if length inner + 1 = length host then
               (if CHR ''['' \<in> set (tl s) \<or> CHR '']'' \<in> set rest then BadAddress else HostPort (tl inner) port)
             else if hd rest = CHR '':'' then BadAddress
             else MissingPort)
        else if CHR '':'' \<in> set host then BadAddress
        else if CHR ''['' \<in> set s \<or> CHR '']'' \<in> set s then BadAddress
        else HostPort host port)"

lemma afterLast_split: "CHR '':'' \<notin> set p \<Longrightarrow> afterLast (CHR '':'') (h @ CHR '':'' # p) = p"
  by (simp add: afterLast_def takeWhile_append_stop, subst takeWhile_eq_all_conv [THEN iffD2]) auto

lemma beforeLast_split: "CHR '':'' \<notin> set p \<Longrightarrow> beforeLast (CHR '':'') (h @ CHR '':'' # p) = h"
proof -
  assume p: "CHR '':'' \<notin> set p"
  have "dropWhile (\<lambda>c. c \<noteq> CHR '':'') (rev p @ CHR '':'' # rev h) = CHR '':'' # rev h"
    using p by (subst dropWhile_append2) auto
  then show ?thesis by (simp add: beforeLast_def)
qed

lemma splitHostPort_plain:
  assumes "list_all (\<lambda>c. c \<notin> set '':[]'') h" and "list_all (\<lambda>c. c \<notin> set '':[]'') p" and "h \<noteq> ''''"
  shows "splitHostPort (h @ CHR '':'' # p) = HostPort h p"
proof -
  have "hd h \<noteq> CHR ''[''" using assms(1,3) by (cases h) auto
  moreover have "CHR '':'' \<notin> set p" "CHR '':'' \<notin> set h" "CHR ''['' \<notin> set (h @ p)" "CHR '']'' \<notin> set (h @ p)"
    using assms(1,2) by (auto simp: list_all_iff)
  ultimately show ?thesis
    using assms(3) beforeLast_split [of p h] afterLast_split [of p h] by (simp add: splitHostPort_def Let_def)
qed

end
