(* ===== verification/Sdam.thy ===== *)
theory Sdam
  imports GoNet
begin

text \<open>
  What the database client knows of the servers it talks to: descriptions of servers
  (\<open>mongo/description\<close>), addresses (\<open>mongo/address\<close>) and the machine \<open>fsm\<close> of
  \<open>x/mongo/driver/topology/fsm.go\<close>, which takes the description a monitor has made of one server
  and brings the description of the whole deployment up to date. Then its invariants.
\<close>

section \<open>Addresses\<close>

text \<open>
  \<open>Address.String\<close>: lower case, with the default port where there is none. The error of
  \<open>SplitHostPort\<close> holds the address, so the search in its text can also find the address itself.
\<close>

definition noPortIn :: "string \<Rightarrow> bool" where
  "noPortIn s =
     (splitHostPort s = MissingPort
      \<or> splitHostPort s = BadAddress \<and> sublist ''missing port in address'' s)"

definition canonical :: "(string \<Rightarrow> string) \<Rightarrow> string \<Rightarrow> string" where
  "canonical low a =
     (let s = ToLower low a in
      if s = '''' then ''''
      else if hasSuffix a ''sock'' then s
      else if noPortIn s then s @ '':27017'' else s)"

text \<open>An address that is its own canonical form.\<close>

definition settled :: "(string \<Rightarrow> string) \<Rightarrow> string \<Rightarrow> bool" where
  "settled low a = (canonical low a = a)"

section \<open>Descriptions\<close>

datatype serverKind =
  Unknown | Standalone | RSMember | RSPrimary | RSSecondary | RSArbiter | RSGhost | Mongos | LoadBalancer

datatype topologyKind =
  UnknownTopology | Single | ReplicaSet | ReplicaSetNoPrimary | ReplicaSetWithPrimary | Sharded | LoadBalanced

record topologyVersion =
  tvProcess :: string
  tvCounter :: int

text \<open>An object id is twelve bytes. Times and durations are nanoseconds.\<close>

record serverDesc =
  sdAddr :: string
  sdArbiters :: "string list"
  sdRtt :: "int option"
  sdCompression :: "string list"
  sdCanonical :: string
  sdElection :: string
  sdHeartbeat :: int
  sdHosts :: "string list"
  sdError :: "string option"
  sdUpdated :: int
  sdWritten :: int
  sdMaxBatch :: "32 word"
  sdMaxDocument :: "32 word"
  sdMaxMessage :: "32 word"
  sdMembers :: "string list"
  sdPassives :: "string list"
  sdPrimary :: string
  sdReadOnly :: bool
  sdService :: "string option"
  sdTimeout :: "32 word"
  sdSetName :: string
  sdSetVersion :: "32 word"
  sdTags :: "(string \<times> string) list"
  sdVersion :: "topologyVersion option"
  sdKind :: serverKind
  sdWire :: "(int \<times> int) option"

definition nilObjectID :: string where
  "nilObjectID = replicate 12 (char_of (0 :: nat))"

text \<open>The zero value with an address and an error: \<open>NewServerFromError\<close>.\<close>

definition newServerFromError :: "string \<Rightarrow> string option \<Rightarrow> topologyVersion option \<Rightarrow> serverDesc" where
  "newServerFromError addr err tv =
     \<lparr>sdAddr = addr, sdArbiters = [], sdRtt = None, sdCompression = [], sdCanonical = '''', sdElection = nilObjectID,
      sdHeartbeat = 0, sdHosts = [], sdError = err, sdUpdated = 0, sdWritten = 0, sdMaxBatch = 0, sdMaxDocument = 0,
      sdMaxMessage = 0, sdMembers = [], sdPassives = [], sdPrimary = '''', sdReadOnly = False, sdService = None,
      sdTimeout = 0, sdSetName = '''', sdSetVersion = 0, sdTags = [], sdVersion = tv, sdKind = Unknown, sdWire = None\<rparr>"

definition newDefaultServer :: "string \<Rightarrow> serverDesc" where
  "newDefaultServer addr = newServerFromError addr None None"

definition dataBearing :: "serverDesc \<Rightarrow> bool" where
  "dataBearing s = (sdKind s = RSPrimary \<or> sdKind s = RSSecondary \<or> sdKind s = Mongos \<or> sdKind s = Standalone)"

record topologyDesc =
  tdServers :: "serverDesc list"
  tdSetName :: string
  tdKind :: topologyKind
  tdTimeout :: "32 word"
  tdCompat :: "string option"

record fsm = topologyDesc +
  fsMaxElection :: string
  fsMaxVersion :: "32 word"
  fsCompatible :: bool
  fsCompatErr :: "string option"

definition newFSM :: fsm where
  "newFSM = \<lparr>tdServers = [], tdSetName = '''', tdKind = UnknownTopology, tdTimeout = 0, tdCompat = None,
     fsMaxElection = nilObjectID, fsMaxVersion = 0, fsCompatible = True, fsCompatErr = None\<rparr>"

section \<open>The list of servers\<close>

primrec indexOf :: "('a \<Rightarrow> bool) \<Rightarrow> 'a list \<Rightarrow> nat option" where
  "indexOf p [] = None"
| "indexOf p (x # xs) = (if p x then Some 0 else map_option Suc (indexOf p xs))"

definition findPrimary :: "fsm \<Rightarrow> nat option" where
  "findPrimary f = indexOf (\<lambda>s. sdKind s = RSPrimary) (tdServers f)"

definition findServer :: "(string \<Rightarrow> string) \<Rightarrow> fsm \<Rightarrow> string \<Rightarrow> nat option" where
  "findServer low f addr = indexOf (\<lambda>s. canonical low addr = sdAddr s) (tdServers f)"

definition addServer :: "(string \<Rightarrow> string) \<Rightarrow> string \<Rightarrow> fsm \<Rightarrow> fsm" where
  "addServer low addr f = f\<lparr>tdServers := tdServers f @ [newDefaultServer (canonical low addr)]\<rparr>"

definition removeServer :: "nat \<Rightarrow> fsm \<Rightarrow> fsm" where
  "removeServer i f = f\<lparr>tdServers := take i (tdServers f) @ drop (Suc i) (tdServers f)\<rparr>"

definition removeServerByAddr :: "(string \<Rightarrow> string) \<Rightarrow> string \<Rightarrow> fsm \<Rightarrow> fsm" where
  "removeServerByAddr low addr f = (case findServer low f addr of None \<Rightarrow> f | Some i \<Rightarrow> removeServer i f)"

definition setServer :: "nat \<Rightarrow> serverDesc \<Rightarrow> fsm \<Rightarrow> fsm" where
  "setServer i s f = f\<lparr>tdServers := (tdServers f)[i := s]\<rparr>"

definition replaceServer :: "(string \<Rightarrow> string) \<Rightarrow> serverDesc \<Rightarrow> fsm \<Rightarrow> fsm" where
  "replaceServer low s f = (case findServer low f (sdAddr s) of None \<Rightarrow> f | Some i \<Rightarrow> setServer i s f)"

definition setKind :: "topologyKind \<Rightarrow> fsm \<Rightarrow> fsm" where
  "setKind k f = f\<lparr>tdKind := k\<rparr>"

definition checkIfHasPrimary :: "fsm \<Rightarrow> fsm" where
  "checkIfHasPrimary f =
     (case findPrimary f of Some _ \<Rightarrow> setKind ReplicaSetWithPrimary f | None \<Rightarrow> setKind ReplicaSetNoPrimary f)"

section \<open>Replica sets\<close>

text \<open>The loop over the servers from the last one down, which drops those that are no members.\<close>

primrec pruneServers :: "string list \<Rightarrow> nat \<Rightarrow> fsm \<Rightarrow> fsm" where
  "pruneServers members 0 f = f"
| "pruneServers members (Suc j) f =
     pruneServers members j (if sdAddr (tdServers f ! j) \<in> set members then f else removeServer j f)"

primrec addMembers :: "(string \<Rightarrow> string) \<Rightarrow> string list \<Rightarrow> fsm \<Rightarrow> fsm" where
  "addMembers low [] f = f"
| "addMembers low (m # ms) f = addMembers low ms (if findServer low f m = None then addServer low m f else f)"

definition hasElection :: "serverDesc \<Rightarrow> bool" where
  "hasElection s = (sdSetVersion s \<noteq> 0 \<and> sdElection s \<noteq> nilObjectID)"

definition stalePrimary :: "fsm \<Rightarrow> serverDesc \<Rightarrow> bool" where
  "stalePrimary f s = (hasElection s \<and> (fsMaxVersion f > sdSetVersion s \<or> fsMaxElection f > sdElection s))"

text \<open>A primary that is up to date: the one before it is forgotten, and its members are the servers.\<close>

definition recordElection :: "serverDesc \<Rightarrow> fsm \<Rightarrow> fsm" where
  "recordElection s f =
     (let f1 = (if hasElection s then f\<lparr>fsMaxElection := sdElection s\<rparr> else f) in
      if sdSetVersion s > fsMaxVersion f1 then f1\<lparr>fsMaxVersion := sdSetVersion s\<rparr> else f1)"

definition demotePrimary :: "fsm \<Rightarrow> fsm" where
  "demotePrimary f =
     (case findPrimary f of
        None \<Rightarrow> f
      | Some j \<Rightarrow>
          setServer j (newServerFromError (sdAddr (tdServers f ! j))
            (Some ''was a primary, but a new primary was discovered'') None) f)"

definition installPrimary :: "(string \<Rightarrow> string) \<Rightarrow> serverDesc \<Rightarrow> fsm \<Rightarrow> fsm" where
  "installPrimary low s f =
     (let f1 = replaceServer low s (demotePrimary (recordElection s f)) in
      checkIfHasPrimary (addMembers low (sdMembers s) (pruneServers (sdMembers s) (length (tdServers f1)) f1)))"

definition updateRSFromPrimary :: "(string \<Rightarrow> string) \<Rightarrow> serverDesc \<Rightarrow> fsm \<Rightarrow> fsm" where
  "updateRSFromPrimary low s f =
     (if tdSetName f \<noteq> '''' \<and> tdSetName f \<noteq> sdSetName s
      then checkIfHasPrimary (removeServerByAddr low (sdAddr s) f)
      else
        let f1 = (if tdSetName f = '''' then f\<lparr>tdSetName := sdSetName s\<rparr> else f) in
        if stalePrimary f1 s
        then checkIfHasPrimary (replaceServer low (newServerFromError (sdAddr s)
               (Some ''was a primary, but its set version or election id is stale'') None) f1)
        else installPrimary low s f1)"

definition updateRSWithPrimaryFromMember :: "(string \<Rightarrow> string) \<Rightarrow> serverDesc \<Rightarrow> fsm \<Rightarrow> fsm" where
  "updateRSWithPrimaryFromMember low s f =
     (if tdSetName f \<noteq> sdSetName s then checkIfHasPrimary (removeServerByAddr low (sdAddr s) f)
      else if sdAddr s \<noteq> sdCanonical s then checkIfHasPrimary (removeServerByAddr low (sdAddr s) f)
      else
        let f1 = replaceServer low s f in
        if findPrimary f1 = None then setKind ReplicaSetNoPrimary f1 else f1)"

definition updateRSWithoutPrimary :: "(string \<Rightarrow> string) \<Rightarrow> serverDesc \<Rightarrow> fsm \<Rightarrow> fsm" where
  "updateRSWithoutPrimary low s f =
     (if tdSetName f \<noteq> '''' \<and> tdSetName f \<noteq> sdSetName s then removeServerByAddr low (sdAddr s) f
      else
        let f1 = (if tdSetName f = '''' then f\<lparr>tdSetName := sdSetName s\<rparr> else f);
            f2 = addMembers low (sdMembers s) f1
        in if sdAddr s \<noteq> sdCanonical s then removeServerByAddr low (sdAddr s) f2
           else replaceServer low s f2)"

section \<open>The kinds of deployments\<close>

definition updateUnknownWithStandalone :: "(string \<Rightarrow> string) \<Rightarrow> serverDesc \<Rightarrow> fsm \<Rightarrow> fsm" where
  "updateUnknownWithStandalone low s f =
     (if length (tdServers f) > 1 then removeServerByAddr low (sdAddr s) f
      else replaceServer low s (setKind Single f))"

fun applyToReplicaSetNoPrimary :: "(string \<Rightarrow> string) \<Rightarrow> serverDesc \<Rightarrow> fsm \<Rightarrow> fsm" where
  "applyToReplicaSetNoPrimary low s f =
     (case sdKind s of
        Standalone \<Rightarrow> removeServerByAddr low (sdAddr s) f
      | Mongos \<Rightarrow> removeServerByAddr low (sdAddr s) f
      | RSPrimary \<Rightarrow> updateRSFromPrimary low s f
      | RSSecondary \<Rightarrow> updateRSWithoutPrimary low s f
      | RSArbiter \<Rightarrow> updateRSWithoutPrimary low s f
      | RSMember \<Rightarrow> updateRSWithoutPrimary low s f
      | Unknown \<Rightarrow> replaceServer low s f
      | RSGhost \<Rightarrow> replaceServer low s f
      | LoadBalancer \<Rightarrow> f)"

fun applyToReplicaSetWithPrimary :: "(string \<Rightarrow> string) \<Rightarrow> serverDesc \<Rightarrow> fsm \<Rightarrow> fsm" where
  "applyToReplicaSetWithPrimary low s f =
     (case sdKind s of
        Standalone \<Rightarrow> checkIfHasPrimary (removeServerByAddr low (sdAddr s) f)
      | Mongos \<Rightarrow> checkIfHasPrimary (removeServerByAddr low (sdAddr s) f)
      | RSPrimary \<Rightarrow> updateRSFromPrimary low s f
      | RSSecondary \<Rightarrow> updateRSWithPrimaryFromMember low s f
      | RSArbiter \<Rightarrow> updateRSWithPrimaryFromMember low s f
      | RSMember \<Rightarrow> updateRSWithPrimaryFromMember low s f
      | Unknown \<Rightarrow> checkIfHasPrimary (replaceServer low s f)
      | RSGhost \<Rightarrow> checkIfHasPrimary (replaceServer low s f)
      | LoadBalancer \<Rightarrow> f)"

fun applyToSharded :: "(string \<Rightarrow> string) \<Rightarrow> serverDesc \<Rightarrow> fsm \<Rightarrow> fsm" where
  "applyToSharded low s f =
     (case sdKind s of
        Mongos \<Rightarrow> replaceServer low s f
      | Unknown \<Rightarrow> replaceServer low s f
      | LoadBalancer \<Rightarrow> f
      | _ \<Rightarrow> removeServerByAddr low (sdAddr s) f)"

text \<open>A direct connection; here the description itself may be replaced.\<close>

fun applyToSingle :: "(string \<Rightarrow> string) \<Rightarrow> serverDesc \<Rightarrow> fsm \<Rightarrow> serverDesc \<times> fsm" where
  "applyToSingle low s f =
     (case sdKind s of
        Unknown \<Rightarrow> (s, replaceServer low s f)
      | LoadBalancer \<Rightarrow> (s, f)
      | Standalone \<Rightarrow> (s, if tdSetName f \<noteq> '''' then removeServerByAddr low (sdAddr s) f else replaceServer low s f)
      | Mongos \<Rightarrow> (s, if tdSetName f \<noteq> '''' then removeServerByAddr low (sdAddr s) f else replaceServer low s f)
      | _ \<Rightarrow>
          (let s' = (if tdSetName f \<noteq> '''' \<and> tdSetName f \<noteq> sdSetName s then newDefaultServer (sdAddr s) else s)
           in (s', replaceServer low s' f)))"

fun applyToUnknown :: "(string \<Rightarrow> string) \<Rightarrow> serverDesc \<Rightarrow> fsm \<Rightarrow> fsm" where
  "applyToUnknown low s f =
     (case sdKind s of
        Mongos \<Rightarrow> replaceServer low s (setKind Sharded f)
      | RSPrimary \<Rightarrow> updateRSFromPrimary low s f
      | RSSecondary \<Rightarrow> updateRSWithoutPrimary low s (setKind ReplicaSetNoPrimary f)
      | RSArbiter \<Rightarrow> updateRSWithoutPrimary low s (setKind ReplicaSetNoPrimary f)
      | RSMember \<Rightarrow> updateRSWithoutPrimary low s (setKind ReplicaSetNoPrimary f)
      | Standalone \<Rightarrow> updateUnknownWithStandalone low s f
      | Unknown \<Rightarrow> replaceServer low s f
      | RSGhost \<Rightarrow> replaceServer low s f
      | LoadBalancer \<Rightarrow> f)"

section \<open>\<open>apply\<close>\<close>

definition sessionTimeout :: "fsm \<Rightarrow> serverDesc \<Rightarrow> 32 word" where
  "sessionTimeout f s =
     (if tdTimeout f = 0
      then foldl (\<lambda>t v. if dataBearing v \<and> sdTimeout v < t then sdTimeout v else t) (sdTimeout s) (tdServers f)
      else if dataBearing s \<and> tdTimeout f > sdTimeout s then sdTimeout s else tdTimeout f)"

text \<open>The first server whose wire versions are not among those of the driver, 2 to 13.\<close>

primrec wireError :: "serverDesc list \<Rightarrow> string option" where
  "wireError [] = None"
| "wireError (s # ss) =
     (case sdWire s of
        None \<Rightarrow> wireError ss
      | Some (least, most) \<Rightarrow>
          if most < 2 then Some (''server at '' @ sdAddr s @ '' reports an old wire version'')
          else if 13 < least then Some (''server at '' @ sdAddr s @ '' requires a newer wire version'')
          else wireError ss)"

definition applyKind :: "(string \<Rightarrow> string) \<Rightarrow> serverDesc \<Rightarrow> fsm \<Rightarrow> serverDesc \<times> fsm" where
  "applyKind low s f =
     (case tdKind f of
        UnknownTopology \<Rightarrow> (s, applyToUnknown low s f)
      | Sharded \<Rightarrow> (s, applyToSharded low s f)
      | ReplicaSetNoPrimary \<Rightarrow> (s, applyToReplicaSetNoPrimary low s f)
      | ReplicaSetWithPrimary \<Rightarrow> (s, applyToReplicaSetWithPrimary low s f)
      | Single \<Rightarrow> applyToSingle low s f
      | _ \<Rightarrow> (s, f))"

definition fsmApply :: "(string \<Rightarrow> string) \<Rightarrow> serverDesc \<Rightarrow> fsm \<Rightarrow> serverDesc \<times> fsm" where
  "fsmApply low s f =
     (let f1 = f\<lparr>tdTimeout := sessionTimeout f s, tdCompat := None\<rparr> in
      if findServer low f1 (sdAddr s) = None then (s, f1)
      else
        let (s', f2) = applyKind low s f1 in
        case wireError (tdServers f2) of
          Some err \<Rightarrow> (s, f2\<lparr>fsCompatible := False, fsCompatErr := Some err, tdCompat := Some err\<rparr>)
        | None \<Rightarrow> (s', f2\<lparr>fsCompatible := True, fsCompatErr := None\<rparr>))"

section \<open>What the operations do to the list\<close>

definition addresses :: "'a topologyDesc_scheme \<Rightarrow> string list" where
  "addresses f = map sdAddr (tdServers f)"

definition wellAddressed :: "(string \<Rightarrow> string) \<Rightarrow> 'a topologyDesc_scheme \<Rightarrow> bool" where
  "wellAddressed low f \<longleftrightarrow> distinct (addresses f) \<and> list_all (settled low) (addresses f)"

lemma indexOf_Some: "indexOf p xs = Some i \<Longrightarrow> i < length xs \<and> p (xs ! i)"
  by (induction xs arbitrary: i) (auto split: if_splits)

lemma indexOf_None: "indexOf p xs = None \<longleftrightarrow> (\<forall>x\<in>set xs. \<not> p x)"
  by (induction xs) auto

lemma findServer_None: "findServer low f a = None \<longleftrightarrow> canonical low a \<notin> set (addresses f)"
  by (auto simp: findServer_def indexOf_None addresses_def)

lemma findPrimary_None: "findPrimary f = None \<longleftrightarrow> (\<forall>s\<in>set (tdServers f). sdKind s \<noteq> RSPrimary)"
  by (auto simp: findPrimary_def indexOf_None)

lemma update_by_key:
  assumes "distinct (map k xs)" and "i < length xs"
  shows "xs[i := y] = map (\<lambda>x. if k x = k (xs ! i) then y else x) xs"
proof (rule nth_equalityI)
  fix j assume j: "j < length (xs[i := y])"
  then have "k (xs ! j) = k (xs ! i) \<longleftrightarrow> j = i"
    using assms nth_eq_iff_index_eq [OF assms(1), of j i] by simp
  with j show "xs[i := y] ! j = map (\<lambda>x. if k x = k (xs ! i) then y else x) xs ! j" by (simp add: nth_list_update)
qed simp

lemma remove_by_key:
  "distinct (map k xs) \<Longrightarrow> i < length xs \<Longrightarrow> take i xs @ drop (Suc i) xs = filter (\<lambda>x. k x \<noteq> k (xs ! i)) xs"
proof (induction xs arbitrary: i)
  case (Cons x xs)
  show ?case
  proof (cases i)
    case 0
    have "k z \<noteq> k x" if "z \<in> set xs" for z
      using Cons.prems(1) imageI [OF that, of k] by auto
    then have "filter (\<lambda>z. k z \<noteq> k x) xs = xs" by (simp add: filter_id_conv)
    with 0 show ?thesis by simp
  next
    case (Suc j)
    with Cons.prems have "k x \<noteq> k (xs ! j)" by (metis distinct.simps(2) length_Cons list.simps(9) not_less_eq nth_map nth_mem length_map Suc_less_eq)
    with Cons Suc show ?thesis by simp
  qed
qed simp

lemma removeServerByAddr_list:
  "wellAddressed low f \<Longrightarrow> tdServers (removeServerByAddr low a f) = filter (\<lambda>x. sdAddr x \<noteq> canonical low a) (tdServers f)"
proof -
  assume w: "wellAddressed low f"
  show ?thesis
  proof (cases "findServer low f a")
    case None
    then have "filter (\<lambda>x. sdAddr x \<noteq> canonical low a) (tdServers f) = tdServers f"
      by (force simp: findServer_None addresses_def filter_id_conv)
    with None show ?thesis by (simp add: removeServerByAddr_def)
  next
    case (Some i)
    then have "i < length (tdServers f) \<and> canonical low a = sdAddr (tdServers f ! i)"
      by (auto simp: findServer_def dest: indexOf_Some)
    with Some w show ?thesis
      using remove_by_key [of sdAddr "tdServers f" i]
      by (simp add: removeServerByAddr_def removeServer_def wellAddressed_def addresses_def)
  qed
qed

lemma replaceServer_list:
  assumes "wellAddressed low f" and "settled low (sdAddr s)"
  shows "tdServers (replaceServer low s f) = map (\<lambda>x. if sdAddr x = sdAddr s then s else x) (tdServers f)"
proof (cases "findServer low f (sdAddr s)")
  case None
  then have "sdAddr x \<noteq> sdAddr s" if "x \<in> set (tdServers f)" for x
    using assms(2) imageI [OF that, of sdAddr] by (auto simp: findServer_None addresses_def settled_def)
  then have "map (\<lambda>x. if sdAddr x = sdAddr s then s else x) (tdServers f) = tdServers f" by (intro map_idI) simp
  with None show ?thesis by (simp add: replaceServer_def)
next
  case (Some i)
  then have "i < length (tdServers f) \<and> canonical low (sdAddr s) = sdAddr (tdServers f ! i)"
    by (auto simp: findServer_def dest: indexOf_Some)
  with Some assms show ?thesis
    using update_by_key [of sdAddr "tdServers f" i s]
    by (simp add: replaceServer_def setServer_def wellAddressed_def addresses_def settled_def)
qed

lemma pruneServers_list:
  assumes "distinct (addresses f)" and "n \<le> length (tdServers f)"
  shows "tdServers (pruneServers ms n f) =
    filter (\<lambda>x. sdAddr x \<in> set ms) (take n (tdServers f)) @ drop n (tdServers f)"
  using assms
proof (induction n arbitrary: f)
  case (Suc n)
  let ?f = "if sdAddr (tdServers f ! n) \<in> set ms then f else removeServer n f"
  have l: "tdServers ?f = (if sdAddr (tdServers f ! n) \<in> set ms then tdServers f else take n (tdServers f) @ drop (Suc n) (tdServers f))"
    by (simp add: removeServer_def)
  have "distinct (addresses ?f)"
    using Suc.prems(1) set_take_disj_set_drop_if_distinct [of "addresses f" n "Suc n"]
    by (simp add: addresses_def removeServer_def distinct_take distinct_drop flip: take_map drop_map)
  moreover have "n \<le> length (tdServers ?f)" using Suc.prems(2) by (auto simp: l)
  ultimately have "tdServers (pruneServers ms n ?f) = filter (\<lambda>x. sdAddr x \<in> set ms) (take n (tdServers ?f)) @ drop n (tdServers ?f)"
    by (rule Suc.IH)
  moreover have "take n (tdServers ?f) = take n (tdServers f)" using Suc.prems(2) by (simp add: l)
  moreover have "drop n (tdServers ?f) = (if sdAddr (tdServers f ! n) \<in> set ms then [tdServers f ! n] else []) @ drop (Suc n) (tdServers f)"
    using Suc.prems(2) by (simp add: l Cons_nth_drop_Suc)
  moreover have "take (Suc n) (tdServers f) = take n (tdServers f) @ [tdServers f ! n]"
    using Suc.prems(2) by (simp add: take_Suc_conv_app_nth)
  ultimately show ?case by simp
qed simp

lemma prune_all:
  "distinct (addresses f) \<Longrightarrow> tdServers (pruneServers ms (length (tdServers f)) f) = filter (\<lambda>x. sdAddr x \<in> set ms) (tdServers f)"
  by (simp add: pruneServers_list)

subsection \<open>The other fields\<close>

lemma removeServer_fields [simp]:
  "tdSetName (removeServer i f) = tdSetName f"
  "tdKind (removeServer i f) = tdKind f"
  "fsMaxElection (removeServer i f) = fsMaxElection f"
  "fsMaxVersion (removeServer i f) = fsMaxVersion f"
  by (simp_all add: removeServer_def)

lemma removeServerByAddr_fields [simp]:
  "tdSetName (removeServerByAddr low a f) = tdSetName f"
  "tdKind (removeServerByAddr low a f) = tdKind f"
  "fsMaxElection (removeServerByAddr low a f) = fsMaxElection f"
  "fsMaxVersion (removeServerByAddr low a f) = fsMaxVersion f"
  by (simp_all add: removeServerByAddr_def split: option.split)

lemma setServer_fields [simp]:
  "tdSetName (setServer i s f) = tdSetName f"
  "tdKind (setServer i s f) = tdKind f"
  "fsMaxElection (setServer i s f) = fsMaxElection f"
  "fsMaxVersion (setServer i s f) = fsMaxVersion f"
  by (simp_all add: setServer_def)

lemma replaceServer_fields [simp]:
  "tdSetName (replaceServer low s f) = tdSetName f"
  "tdKind (replaceServer low s f) = tdKind f"
  "fsMaxElection (replaceServer low s f) = fsMaxElection f"
  "fsMaxVersion (replaceServer low s f) = fsMaxVersion f"
  by (simp_all add: replaceServer_def setServer_def split: option.split)

lemma addServer_fields [simp]:
  "tdSetName (addServer low a f) = tdSetName f"
  "tdKind (addServer low a f) = tdKind f"
  "fsMaxElection (addServer low a f) = fsMaxElection f"
  "fsMaxVersion (addServer low a f) = fsMaxVersion f"
  by (simp_all add: addServer_def)

lemma demotePrimary_fields [simp]:
  "tdSetName (demotePrimary f) = tdSetName f"
  "tdKind (demotePrimary f) = tdKind f"
  "fsMaxElection (demotePrimary f) = fsMaxElection f"
  "fsMaxVersion (demotePrimary f) = fsMaxVersion f"
  by (simp_all add: demotePrimary_def setServer_def split: option.split)

lemma pruneServers_fields [simp]:
  "tdSetName (pruneServers ms n f) = tdSetName f"
  "tdKind (pruneServers ms n f) = tdKind f"
  "fsMaxElection (pruneServers ms n f) = fsMaxElection f"
  "fsMaxVersion (pruneServers ms n f) = fsMaxVersion f"
proof -
  show "tdSetName (pruneServers ms n f) = tdSetName f" by (induction n arbitrary: f) simp_all
  show "tdKind (pruneServers ms n f) = tdKind f" by (induction n arbitrary: f) simp_all
  show "fsMaxElection (pruneServers ms n f) = fsMaxElection f" by (induction n arbitrary: f) simp_all
  show "fsMaxVersion (pruneServers ms n f) = fsMaxVersion f" by (induction n arbitrary: f) simp_all
qed

lemma addMembers_fields [simp]:
  "tdSetName (addMembers low ms f) = tdSetName f"
  "tdKind (addMembers low ms f) = tdKind f"
  "fsMaxElection (addMembers low ms f) = fsMaxElection f"
  "fsMaxVersion (addMembers low ms f) = fsMaxVersion f"
proof -
  show "tdSetName (addMembers low ms f) = tdSetName f" by (induction ms arbitrary: f) simp_all
  show "tdKind (addMembers low ms f) = tdKind f" by (induction ms arbitrary: f) simp_all
  show "fsMaxElection (addMembers low ms f) = fsMaxElection f" by (induction ms arbitrary: f) simp_all
  show "fsMaxVersion (addMembers low ms f) = fsMaxVersion f" by (induction ms arbitrary: f) simp_all
qed

lemma setKind_fields [simp]:
  "tdSetName (setKind k f) = tdSetName f"
  "tdKind (setKind k f) = k"
  "fsMaxElection (setKind k f) = fsMaxElection f"
  "fsMaxVersion (setKind k f) = fsMaxVersion f"
  "tdServers (setKind k f) = tdServers f"
  by (simp_all add: setKind_def)

lemma checkIfHasPrimary_fields [simp]:
  "tdSetName (checkIfHasPrimary f) = tdSetName f"
  "fsMaxElection (checkIfHasPrimary f) = fsMaxElection f"
  "fsMaxVersion (checkIfHasPrimary f) = fsMaxVersion f"
  "tdServers (checkIfHasPrimary f) = tdServers f"
  "tdKind (checkIfHasPrimary f) =
     (if \<exists>s\<in>set (tdServers f). sdKind s = RSPrimary then ReplicaSetWithPrimary else ReplicaSetNoPrimary)"
  using findPrimary_None [of f] by (auto simp: checkIfHasPrimary_def split: option.split)

lemma recordElection_fields [simp]:
  "tdSetName (recordElection s f) = tdSetName f"
  "tdKind (recordElection s f) = tdKind f"
  "tdServers (recordElection s f) = tdServers f"
  "fsMaxElection (recordElection s f) = (if hasElection s then sdElection s else fsMaxElection f)"
  "fsMaxVersion (recordElection s f) = max (sdSetVersion s) (fsMaxVersion f)"
  by (auto simp: recordElection_def Let_def max_def)

end
