(* ===== verification/SdamInv.thy ===== *)
theory SdamInv
  imports Sdam
begin

text \<open>
  The invariants of the machine of \<open>Sdam\<close>: what is true of the description of a deployment
  whatever the servers report, in any order.
\<close>

section \<open>The invariant\<close>

definition memberKind :: "serverKind \<Rightarrow> bool" where
  "memberKind k = (k = RSPrimary \<or> k = RSSecondary \<or> k = RSArbiter \<or> k = RSMember)"

text \<open>What a monitor reports: its addresses are canonical, as \<open>NewServer\<close> makes them, and a
  member of a replica set names its set.\<close>

definition goodDesc :: "(string \<Rightarrow> string) \<Rightarrow> serverDesc \<Rightarrow> bool" where
  "goodDesc low s \<longleftrightarrow> settled low (sdAddr s) \<and> list_all (settled low) (sdMembers s)
     \<and> (memberKind (sdKind s) \<longrightarrow> sdSetName s \<noteq> '''')"

definition hasPrimary :: "'a topologyDesc_scheme \<Rightarrow> bool" where
  "hasPrimary f = (\<exists>s\<in>set (tdServers f). sdKind s = RSPrimary)"

text \<open>
  A replica set: distinct canonical addresses, at most one primary, all members of the one set, and
  the primary is that of the newest election seen.
\<close>

definition memberOf :: "string \<Rightarrow> string \<Rightarrow> 32 word \<Rightarrow> serverDesc \<Rightarrow> bool" where
  "memberOf name election version s \<longleftrightarrow>
     sdKind s \<notin> {Standalone, Mongos, LoadBalancer}
     \<and> (memberKind (sdKind s) \<longrightarrow> sdSetName s = name \<and> name \<noteq> '''')
     \<and> (sdKind s = RSPrimary \<and> hasElection s \<longrightarrow> sdElection s = election \<and> sdSetVersion s = version)"

definition replicaServers :: "string \<Rightarrow> string \<Rightarrow> 32 word \<Rightarrow> serverDesc list \<Rightarrow> bool" where
  "replicaServers name election version xs \<longleftrightarrow>
     (\<forall>s\<in>set xs. memberOf name election version s)
     \<and> (\<forall>p\<in>set xs. \<forall>q\<in>set xs. sdKind p = RSPrimary \<and> sdKind q = RSPrimary \<longrightarrow> p = q)"

definition replicaInv :: "(string \<Rightarrow> string) \<Rightarrow> fsm \<Rightarrow> bool" where
  "replicaInv low f \<longleftrightarrow>
     wellAddressed low f \<and> replicaServers (tdSetName f) (fsMaxElection f) (fsMaxVersion f) (tdServers f)"

definition sdamInv :: "(string \<Rightarrow> string) \<Rightarrow> fsm \<Rightarrow> bool" where
  "sdamInv low f \<longleftrightarrow>
     wellAddressed low f \<and>
     (case tdKind f of
        UnknownTopology \<Rightarrow> tdSetName f = '''' \<and> (\<forall>s\<in>set (tdServers f). sdKind s \<in> {Unknown, RSGhost})
      | Sharded \<Rightarrow> \<forall>s\<in>set (tdServers f). sdKind s \<in> {Unknown, RSGhost, Mongos}
      | ReplicaSetNoPrimary \<Rightarrow> replicaInv low f \<and> \<not> hasPrimary f
      | ReplicaSetWithPrimary \<Rightarrow> replicaInv low f \<and> hasPrimary f
      | Single \<Rightarrow> length (tdServers f) \<le> 1
      | _ \<Rightarrow> False)"

section \<open>Operations on a replica set\<close>

lemma addresses_filter: "distinct (map k xs) \<Longrightarrow> distinct (map k (filter p xs))"
  by (induction xs) auto

lemma map_replace_key: "map k (map (\<lambda>x. if k x = k s then s else x) xs) = map k xs"
  by (induction xs) auto

lemma wellAddressed_remove: "wellAddressed low f \<Longrightarrow> wellAddressed low (removeServerByAddr low a f)"
  using removeServerByAddr_list [of low f a]
  by (auto simp: wellAddressed_def addresses_def addresses_filter list_all_iff)

lemma wellAddressed_replace:
  "wellAddressed low f \<Longrightarrow> settled low (sdAddr s) \<Longrightarrow> wellAddressed low (replaceServer low s f)"
  using replaceServer_list [of low f s] map_replace_key [of sdAddr s "tdServers f"] by (simp add: wellAddressed_def addresses_def del: map_map)

lemma replicaServers_subset:
  "replicaServers n e v xs \<Longrightarrow> set ys \<subseteq> set xs \<Longrightarrow> replicaServers n e v ys"
  unfolding replicaServers_def by blast

lemma replicaInv_remove: "replicaInv low f \<Longrightarrow> replicaInv low (removeServerByAddr low a f)"
  using wellAddressed_remove [of low f a] removeServerByAddr_list [of low f a]
  by (auto simp: replicaInv_def elim!: replicaServers_subset)

lemma replicaServers_replace:
  assumes "replicaServers n e v xs" and "sdKind s \<notin> {Standalone, Mongos, LoadBalancer, RSPrimary}"
    and "memberKind (sdKind s) \<Longrightarrow> sdSetName s = n \<and> n \<noteq> ''''"
  shows "replicaServers n e v (map (\<lambda>x. if p x then s else x) xs)"
proof -
  have "\<forall>y\<in>set (map (\<lambda>x. if p x then s else x) xs). y \<in> set xs \<or> y = s" by auto
  moreover have "memberOf n e v s" using assms(2,3) by (simp add: memberOf_def)
  ultimately show ?thesis using assms(1,2) unfolding replicaServers_def by blast
qed

lemma replicaInv_replace:
  assumes "replicaInv low f" and "settled low (sdAddr s)" and "sdKind s \<notin> {Standalone, Mongos, LoadBalancer, RSPrimary}"
    and "memberKind (sdKind s) \<Longrightarrow> sdSetName s = tdSetName f \<and> tdSetName f \<noteq> ''''"
  shows "replicaInv low (replaceServer low s f)"
  using assms wellAddressed_replace [of low f s] replaceServer_list [of low f s]
  by (simp add: replicaInv_def replicaServers_replace)

lemma newServer_fields [simp]:
  "sdKind (newServerFromError a err tv) = Unknown" "sdAddr (newServerFromError a err tv) = a"
  "sdSetName (newServerFromError a err tv) = ''''"
  "sdKind (newDefaultServer a) = Unknown" "sdAddr (newDefaultServer a) = a" "sdSetName (newDefaultServer a) = ''''"
  by (simp_all add: newServerFromError_def newDefaultServer_def)

lemma memberKind_simps [simp]:
  "\<not> memberKind Unknown" "\<not> memberKind RSGhost" "memberKind RSPrimary" "memberKind RSSecondary"
  "memberKind RSArbiter" "memberKind RSMember" "\<not> memberKind Standalone" "\<not> memberKind Mongos" "\<not> memberKind LoadBalancer"
  by (simp_all add: memberKind_def)

lemma replicaServers_add:
  "replicaServers n e v xs \<Longrightarrow> replicaServers n e v (xs @ [newDefaultServer a])"
  by (auto simp: replicaServers_def memberOf_def)

lemma addServer_new:
  assumes "wellAddressed low f" and "settled low a" and "findServer low f a = None"
  shows "wellAddressed low (addServer low a f)"
  using assms by (simp add: wellAddressed_def addServer_def addresses_def findServer_None settled_def)

lemma addMembers_inv:
  assumes "list_all (settled low) ms" and "replicaInv low f"
  shows "replicaInv low (addMembers low ms f)"
  using assms
proof (induction ms arbitrary: f)
  case (Cons m ms)
  have "replicaInv low (addServer low m f)" if "findServer low f m = None"
    using Cons.prems that addServer_new [of low f m] replicaServers_add [of _ _ _ _ "canonical low m"]
    by (simp add: replicaInv_def addServer_def)
  then show ?case using Cons by simp
qed simp

lemma addMembers_servers:
  "\<exists>ys. tdServers (addMembers low ms f) = tdServers f @ ys \<and> (\<forall>y\<in>set ys. sdKind y = Unknown)"
proof (induction ms arbitrary: f)
  case (Cons m ms)
  let ?f = "if findServer low f m = None then addServer low m f else f"
  obtain ys where ys: "tdServers (addMembers low ms ?f) = tdServers ?f @ ys" "\<forall>y\<in>set ys. sdKind y = Unknown"
    using Cons.IH [of ?f] by blast
  show ?case
    using ys by (cases "findServer low f m = None") (auto simp: addServer_def)
qed simp

lemma addMembers_hasPrimary: "hasPrimary (addMembers low ms f) = hasPrimary f"
  using addMembers_servers [of low ms f] by (auto simp: hasPrimary_def)

lemma prune_inv: "replicaInv low f \<Longrightarrow> replicaInv low (pruneServers ms (length (tdServers f)) f)"
  using prune_all [of f ms]
  by (auto simp: replicaInv_def wellAddressed_def addresses_def addresses_filter list_all_iff elim!: replicaServers_subset)

text \<open>The old primary is forgotten.\<close>

lemma demotePrimary_list:
  assumes "wellAddressed low f" and "replicaServers n e v (tdServers f)"
  shows "\<forall>y\<in>set (tdServers (demotePrimary f)). sdKind y \<noteq> RSPrimary \<and> (y \<in> set (tdServers f) \<or> sdKind y = Unknown)"
    and "addresses (demotePrimary f) = addresses f"
proof -
  show "addresses (demotePrimary f) = addresses f"
  proof (cases "findPrimary f")
    case (Some j)
    then have "j < length (tdServers f)" unfolding findPrimary_def by (auto dest: indexOf_Some)
    with Some show ?thesis
      by (simp add: demotePrimary_def setServer_def addresses_def map_update list_update_same_conv)
  qed (simp add: demotePrimary_def)
  show "\<forall>y\<in>set (tdServers (demotePrimary f)). sdKind y \<noteq> RSPrimary \<and> (y \<in> set (tdServers f) \<or> sdKind y = Unknown)"
  proof (cases "findPrimary f")
    case None
    then have "demotePrimary f = f" by (simp add: demotePrimary_def)
    with None show ?thesis by (simp add: findPrimary_None)
  next
    case (Some j)
    then have j: "j < length (tdServers f)" "sdKind (tdServers f ! j) = RSPrimary"
      unfolding findPrimary_def by (auto dest: indexOf_Some)
    let ?u = "newServerFromError (sdAddr (tdServers f ! j)) (Some ''was a primary, but a new primary was discovered'') None"
    have l: "tdServers (demotePrimary f) = map (\<lambda>x. if sdAddr x = sdAddr (tdServers f ! j) then ?u else x) (tdServers f)"
      using Some j(1) assms(1) update_by_key [of sdAddr "tdServers f" j ?u]
      by (simp add: demotePrimary_def setServer_def wellAddressed_def addresses_def)
    have "x = tdServers f ! j" if "x \<in> set (tdServers f)" "sdKind x = RSPrimary" for x
      using assms(2) that j nth_mem [OF j(1)] unfolding replicaServers_def by blast
    then show ?thesis by (auto simp: l)
  qed
qed


lemma replicaServers_election:
  "replicaServers n e v xs \<Longrightarrow> (\<forall>s\<in>set xs. sdKind s \<noteq> RSPrimary) \<Longrightarrow> replicaServers n e' v' xs"
  by (simp add: replicaServers_def memberOf_def)

lemma demote_inv:
  assumes "wellAddressed low f" and "replicaServers n e v (tdServers f)"
  shows "wellAddressed low (demotePrimary f) \<and> replicaServers n e' v' (tdServers (demotePrimary f))
    \<and> (\<forall>y\<in>set (tdServers (demotePrimary f)). sdKind y \<noteq> RSPrimary)"
proof -
  note d = demotePrimary_list [OF assms]
  have "replicaServers n e' v' (tdServers (demotePrimary f))"
    unfolding replicaServers_def
  proof (intro conjI ballI)
    fix y assume y: "y \<in> set (tdServers (demotePrimary f))"
    with d(1) consider "y \<in> set (tdServers f)" "sdKind y \<noteq> RSPrimary" | "sdKind y = Unknown" by blast
    then show "memberOf n e' v' y"
    proof cases
      case 1
      with assms(2) have "memberOf n e v y" by (simp add: replicaServers_def)
      with 1 show ?thesis by (simp add: memberOf_def)
    qed (simp add: memberOf_def)
  qed (use d(1) in blast)
  then show ?thesis using d assms(1) by (simp add: wellAddressed_def)
qed

text \<open>A new primary.\<close>

lemma replicaServers_primary:
  assumes "replicaServers n e v xs" and "\<forall>x\<in>set xs. sdKind x \<noteq> RSPrimary" and "sdKind s = RSPrimary" and "sdSetName s = n" and "n \<noteq> ''''"
    and "hasElection s \<Longrightarrow> sdElection s = e \<and> sdSetVersion s = v"
  shows "replicaServers n e v (map (\<lambda>x. if sdAddr x = sdAddr s then s else x) xs)"
proof -
  have "y \<in> set xs \<or> y = s" if "y \<in> set (map (\<lambda>x. if sdAddr x = sdAddr s then s else x) xs)" for y using that by auto
  moreover have "memberOf n e v s" using assms(3-6) by (simp add: memberOf_def)
  ultimately show ?thesis using assms(1,2) unfolding replicaServers_def by blast
qed

lemma installPrimary_inv:
  assumes "wellAddressed low f" and "replicaServers (sdSetName s) e v (tdServers f)" and "tdSetName f = sdSetName s"
    and "goodDesc low s" and "sdKind s = RSPrimary" and "\<not> stalePrimary f s"
  shows "replicaInv low (installPrimary low s f)"
proof -
  let ?d = "demotePrimary (recordElection s f)"
  let ?r = "replaceServer low s ?d"
  have g: "settled low (sdAddr s)" "list_all (settled low) (sdMembers s)" using assms(4) by (simp_all add: goodDesc_def)
  have d: "wellAddressed low ?d" "replicaServers (sdSetName s) (fsMaxElection ?d) (fsMaxVersion ?d) (tdServers ?d)"
    "\<forall>y\<in>set (tdServers ?d). sdKind y \<noteq> RSPrimary"
    using demote_inv [of low "recordElection s f" "sdSetName s" e v] assms(1,2)
    by (simp_all add: wellAddressed_def addresses_def)
  have "replicaServers (sdSetName s) (fsMaxElection ?d) (fsMaxVersion ?d) (tdServers ?r)"
    unfolding replaceServer_list [OF d(1) g(1)] by (rule replicaServers_primary [OF d(2,3) assms(5)]) (use assms(4-6) in \<open>auto simp: goodDesc_def stalePrimary_def max_def\<close>)
  then have "replicaInv low ?r"
    using wellAddressed_replace [OF d(1) g(1)] assms(3) by (simp add: replicaInv_def)
  then have "replicaInv low (addMembers low (sdMembers s) (pruneServers (sdMembers s) (length (tdServers ?r)) ?r))"
    by (intro addMembers_inv g(2) prune_inv)
  then show ?thesis by (simp add: installPrimary_def Let_def replicaInv_def wellAddressed_def addresses_def)
qed


lemma replicaServers_unnamed: "replicaServers '''' e v xs \<Longrightarrow> replicaServers n e v xs"
  by (simp add: replicaServers_def memberOf_def)

definition kindTold :: "fsm \<Rightarrow> bool" where
  "kindTold f = (tdKind f = (if hasPrimary f then ReplicaSetWithPrimary else ReplicaSetNoPrimary))"

lemma checkIfHasPrimary_told: "kindTold (checkIfHasPrimary f)"
  by (simp add: kindTold_def hasPrimary_def)

lemma checkIfHasPrimary_inv [simp]:
  "replicaInv low (checkIfHasPrimary f) = replicaInv low f" "hasPrimary (checkIfHasPrimary f) = hasPrimary f"
  by (simp_all add: replicaInv_def wellAddressed_def addresses_def hasPrimary_def)

lemma setKind_inv [simp]: "replicaInv low (setKind k f) = replicaInv low f" "hasPrimary (setKind k f) = hasPrimary f"
  by (simp_all add: replicaInv_def wellAddressed_def addresses_def hasPrimary_def)

lemma named_inv:
  assumes "replicaInv low f" and "tdSetName f = '''' \<or> tdSetName f = n"
  shows "replicaInv low (if tdSetName f = '''' then f\<lparr>tdSetName := n\<rparr> else f)"
  using assms replicaServers_unnamed [of "fsMaxElection f" "fsMaxVersion f" "tdServers f" n]
  by (auto simp: replicaInv_def wellAddressed_def addresses_def)

lemma updateRSFromPrimary_inv:
  assumes "replicaInv low f" and "goodDesc low s" and "sdKind s = RSPrimary"
  shows "replicaInv low (updateRSFromPrimary low s f) \<and> kindTold (updateRSFromPrimary low s f)"
proof (cases "tdSetName f \<noteq> '''' \<and> tdSetName f \<noteq> sdSetName s")
  case True
  then show ?thesis
    using replicaInv_remove [OF assms(1)] checkIfHasPrimary_told by (simp add: updateRSFromPrimary_def)
next
  case False
  let ?f = "if tdSetName f = '''' then f\<lparr>tdSetName := sdSetName s\<rparr> else f"
  have i: "replicaInv low ?f" using assms(1) False by (intro named_inv) auto
  have n: "tdSetName ?f = sdSetName s" using False by auto
  have eq: "updateRSFromPrimary low s f =
      (if stalePrimary ?f s
       then checkIfHasPrimary (replaceServer low (newServerFromError (sdAddr s)
              (Some ''was a primary, but its set version or election id is stale'') None) ?f)
       else installPrimary low s ?f)"
    unfolding updateRSFromPrimary_def if_not_P [OF False] Let_def by (rule refl)
  show ?thesis
  proof (cases "stalePrimary ?f s")
    case True
    have "replicaInv low (replaceServer low (newServerFromError (sdAddr s)
              (Some ''was a primary, but its set version or election id is stale'') None) ?f)"
      using assms(2) by (intro replicaInv_replace i) (simp_all add: goodDesc_def)
    then show ?thesis unfolding eq using True checkIfHasPrimary_told by simp
  next
    case False
    have "wellAddressed low ?f" "replicaServers (sdSetName s) (fsMaxElection ?f) (fsMaxVersion ?f) (tdServers ?f)"
      using i n by (simp_all only: replicaInv_def)
    then have "replicaInv low (installPrimary low s ?f)" by (rule installPrimary_inv [OF _ _ n assms(2,3) False])
    moreover have "kindTold (installPrimary low s ?f)"
      unfolding installPrimary_def Let_def by (rule checkIfHasPrimary_told)
    ultimately show ?thesis unfolding eq using False by simp
  qed
qed

lemma remove_hasPrimary:
  "wellAddressed low f \<Longrightarrow> \<not> hasPrimary f \<Longrightarrow> \<not> hasPrimary (removeServerByAddr low a f)"
  using removeServerByAddr_list [of low f a] by (auto simp: hasPrimary_def)

lemma replace_hasPrimary:
  "wellAddressed low f \<Longrightarrow> settled low (sdAddr s) \<Longrightarrow> sdKind s \<noteq> RSPrimary \<Longrightarrow> \<not> hasPrimary f \<Longrightarrow>
    \<not> hasPrimary (replaceServer low s f)"
  using replaceServer_list [of low f s] by (auto simp: hasPrimary_def)

lemma updateRSWithoutPrimary_inv:
  assumes "replicaInv low f" and "\<not> hasPrimary f" and "goodDesc low s"
    and "sdKind s \<in> {RSSecondary, RSArbiter, RSMember}"
  shows "replicaInv low (updateRSWithoutPrimary low s f) \<and> \<not> hasPrimary (updateRSWithoutPrimary low s f)
    \<and> tdKind (updateRSWithoutPrimary low s f) = tdKind f"
proof (cases "tdSetName f \<noteq> '''' \<and> tdSetName f \<noteq> sdSetName s")
  case True
  then show ?thesis
    using replicaInv_remove [OF assms(1)] remove_hasPrimary [of low f "sdAddr s"] assms(1,2)
    by (simp add: updateRSWithoutPrimary_def replicaInv_def)
next
  case False
  let ?f = "if tdSetName f = '''' then f\<lparr>tdSetName := sdSetName s\<rparr> else f"
  let ?g = "addMembers low (sdMembers s) ?f"
  have g: "settled low (sdAddr s)" "list_all (settled low) (sdMembers s)" "sdSetName s \<noteq> ''''"
    using assms(3,4) by (auto simp: goodDesc_def)
  have i: "replicaInv low ?g" using assms(1) False g(2) by (intro addMembers_inv named_inv) auto
  have h: "\<not> hasPrimary ?g" using assms(2) by (simp add: addMembers_hasPrimary) (simp add: hasPrimary_def)
  have w: "wellAddressed low ?g" using i by (simp add: replicaInv_def)
  have n: "tdSetName ?g = sdSetName s" using False by auto
  have "replicaInv low (replaceServer low s ?g)" using assms(4) g n by (intro replicaInv_replace i) auto
  moreover have "\<not> hasPrimary (replaceServer low s ?g)" using assms(4) by (intro replace_hasPrimary w g h) auto
  moreover have "updateRSWithoutPrimary low s f =
      (if sdAddr s \<noteq> sdCanonical s then removeServerByAddr low (sdAddr s) ?g else replaceServer low s ?g)"
    using False by (auto simp: updateRSWithoutPrimary_def Let_def)
  ultimately show ?thesis
    using replicaInv_remove [OF i, of "sdAddr s"] remove_hasPrimary [OF w h, of "sdAddr s"] by simp
qed

lemma updateRSWithPrimaryFromMember_inv:
  assumes "replicaInv low f" and "tdKind f = ReplicaSetWithPrimary" and "goodDesc low s"
    and "sdKind s \<in> {RSSecondary, RSArbiter, RSMember}"
  shows "replicaInv low (updateRSWithPrimaryFromMember low s f) \<and> kindTold (updateRSWithPrimaryFromMember low s f)"
proof (cases "tdSetName f \<noteq> sdSetName s \<or> sdAddr s \<noteq> sdCanonical s")
  case True
  then have "updateRSWithPrimaryFromMember low s f = checkIfHasPrimary (removeServerByAddr low (sdAddr s) f)"
    by (auto simp: updateRSWithPrimaryFromMember_def)
  then show ?thesis using replicaInv_remove [OF assms(1)] checkIfHasPrimary_told by simp
next
  case False
  have "replicaInv low (replaceServer low s f)"
    using assms(1,3,4) False by (intro replicaInv_replace) (auto simp: goodDesc_def)
  then show ?thesis
    using False assms(2) by (auto simp: updateRSWithPrimaryFromMember_def Let_def kindTold_def findPrimary_None hasPrimary_def)
qed


section \<open>Every step keeps the invariant\<close>

lemma sdamInv_told: "replicaInv low f \<Longrightarrow> kindTold f \<Longrightarrow> sdamInv low f"
  by (simp add: sdamInv_def kindTold_def replicaInv_def)

lemma replicaInv_fresh:
  assumes "wellAddressed low f" and "\<forall>s\<in>set (tdServers f). sdKind s \<in> {Unknown, RSGhost}"
  shows "replicaInv low f" and "\<not> hasPrimary f"
proof -
  have "memberOf n e v s" "sdKind s \<noteq> RSPrimary" if "s \<in> set (tdServers f)" for s n e v
    using assms(2) that by (auto simp: memberOf_def)
  then show "replicaInv low f" "\<not> hasPrimary f"
    using assms(1) by (auto simp: replicaInv_def replicaServers_def hasPrimary_def)
qed

lemma among_remove:
  "wellAddressed low f \<Longrightarrow> \<forall>s\<in>set (tdServers f). P s \<Longrightarrow> \<forall>s\<in>set (tdServers (removeServerByAddr low a f)). P s"
  using removeServerByAddr_list [of low f a] by simp

lemma among_replace:
  "wellAddressed low f \<Longrightarrow> settled low (sdAddr s) \<Longrightarrow> \<forall>x\<in>set (tdServers f). P x \<Longrightarrow> P s \<Longrightarrow>
    \<forall>x\<in>set (tdServers (replaceServer low s f)). P x"
  using replaceServer_list [of low f s] by auto

lemma length_replace: "length (tdServers (replaceServer low s f)) = length (tdServers f)"
  by (simp add: replaceServer_def setServer_def split: option.split)

lemma length_remove: "wellAddressed low f \<Longrightarrow> length (tdServers (removeServerByAddr low a f)) \<le> length (tdServers f)"
  using removeServerByAddr_list [of low f a] by simp

lemma unknown_step:
  assumes "sdamInv low f" and "tdKind f = UnknownTopology" and g: "goodDesc low s"
  shows "sdamInv low (applyToUnknown low s f)"
proof -
  have w: "wellAddressed low f" and n: "tdSetName f = ''''"
    and k: "\<forall>s\<in>set (tdServers f). sdKind s \<in> {Unknown, RSGhost}"
    using assms(1,2) by (simp_all add: sdamInv_def)
  have a: "settled low (sdAddr s)" using g by (simp add: goodDesc_def)
  have ws: "wellAddressed low (setKind x f)" for x using w by (simp add: wellAddressed_def addresses_def)
  note fresh = replicaInv_fresh [OF w k]
  note kept = among_replace [OF w a k] among_remove [OF w k]
  have primary: "sdamInv low (updateRSFromPrimary low s f)" if "sdKind s = RSPrimary"
    using updateRSFromPrimary_inv [OF fresh(1) g that] sdamInv_told by blast
  have member: "sdamInv low (updateRSWithoutPrimary low s (setKind ReplicaSetNoPrimary f))"
    if "sdKind s \<in> {RSSecondary, RSArbiter, RSMember}"
  proof -
    have "replicaInv low (setKind ReplicaSetNoPrimary f)" "\<not> hasPrimary (setKind ReplicaSetNoPrimary f)"
      using fresh by simp_all
    from updateRSWithoutPrimary_inv [OF this g that] show ?thesis by (simp add: sdamInv_def replicaInv_def)
  qed
  have mongos: "sdamInv low (replaceServer low s (setKind Sharded f))" if "sdKind s = Mongos"
    using among_replace [OF ws a, of Sharded "\<lambda>s. sdKind s \<in> {Unknown, RSGhost, Mongos}"] k that
      wellAddressed_replace [OF ws a, of Sharded] by (auto simp: sdamInv_def)
  have alone: "sdamInv low (updateUnknownWithStandalone low s f)"
    using kept(2) n wellAddressed_remove [OF w] wellAddressed_replace [OF ws a, of Single] assms(2)
    by (auto simp: sdamInv_def updateUnknownWithStandalone_def length_replace)
  have same: "sdamInv low (replaceServer low s f)" if "sdKind s \<in> {Unknown, RSGhost}"
    using kept(1) that n wellAddressed_replace [OF w a] assms(2) by (simp add: sdamInv_def)
  show ?thesis using assms(1) primary member mongos alone same by (cases "sdKind s") simp_all
qed

lemma sharded_step:
  assumes "sdamInv low f" and "tdKind f = Sharded" and g: "goodDesc low s"
  shows "sdamInv low (applyToSharded low s f)"
proof -
  have w: "wellAddressed low f" and k: "\<forall>s\<in>set (tdServers f). sdKind s \<in> {Unknown, RSGhost, Mongos}"
    using assms(1,2) by (simp_all add: sdamInv_def)
  have a: "settled low (sdAddr s)" using g by (simp add: goodDesc_def)
  have r: "sdamInv low (removeServerByAddr low (sdAddr s) f)"
    using among_remove [OF w k] wellAddressed_remove [OF w] assms(2) by (simp add: sdamInv_def)
  have p: "sdamInv low (replaceServer low s f)" if "sdKind s \<in> {Unknown, Mongos}"
    using among_replace [OF w a k] wellAddressed_replace [OF w a] assms(2) that by (auto simp: sdamInv_def)
  show ?thesis using assms(1) r p by (cases "sdKind s") simp_all
qed

lemma noPrimary_step:
  assumes "sdamInv low f" and "tdKind f = ReplicaSetNoPrimary" and g: "goodDesc low s"
  shows "sdamInv low (applyToReplicaSetNoPrimary low s f)"
proof -
  have i: "replicaInv low f" "\<not> hasPrimary f" using assms(1,2) by (simp_all add: sdamInv_def)
  then have w: "wellAddressed low f" by (simp add: replicaInv_def)
  have a: "settled low (sdAddr s)" using g by (simp add: goodDesc_def)
  have r: "sdamInv low (removeServerByAddr low (sdAddr s) f)"
    using replicaInv_remove [OF i(1)] remove_hasPrimary [OF w i(2)] assms(2) by (simp add: sdamInv_def replicaInv_def)
  have p: "sdamInv low (replaceServer low s f)" if "sdKind s \<in> {Unknown, RSGhost}"
  proof -
    have "replicaInv low (replaceServer low s f)" using that by (intro replicaInv_replace i(1) a) auto
    moreover have "\<not> hasPrimary (replaceServer low s f)" using that by (intro replace_hasPrimary w a i(2)) auto
    ultimately show ?thesis using assms(2) by (simp add: sdamInv_def replicaInv_def)
  qed
  have q: "sdamInv low (updateRSFromPrimary low s f)" if "sdKind s = RSPrimary"
    using updateRSFromPrimary_inv [OF i(1) g that] sdamInv_told by blast
  have m: "sdamInv low (updateRSWithoutPrimary low s f)" if "sdKind s \<in> {RSSecondary, RSArbiter, RSMember}"
    using updateRSWithoutPrimary_inv [OF i g that] assms(2) by (simp add: sdamInv_def replicaInv_def)
  show ?thesis using assms(1) r p q m by (cases "sdKind s") simp_all
qed

lemma withPrimary_step:
  assumes "sdamInv low f" and "tdKind f = ReplicaSetWithPrimary" and g: "goodDesc low s"
  shows "sdamInv low (applyToReplicaSetWithPrimary low s f)"
proof -
  have i: "replicaInv low f" using assms(1,2) by (simp add: sdamInv_def)
  have a: "settled low (sdAddr s)" using g by (simp add: goodDesc_def)
  have told: "sdamInv low (checkIfHasPrimary h)" if "replicaInv low h" for h
    using that checkIfHasPrimary_told by (intro sdamInv_told) simp_all
  have p: "sdamInv low (checkIfHasPrimary (replaceServer low s f))" if "sdKind s \<in> {Unknown, RSGhost}"
    using that by (intro told replicaInv_replace i a) auto
  have q: "sdamInv low (updateRSFromPrimary low s f)" if "sdKind s = RSPrimary"
    using updateRSFromPrimary_inv [OF i g that] sdamInv_told by blast
  have m: "sdamInv low (updateRSWithPrimaryFromMember low s f)" if "sdKind s \<in> {RSSecondary, RSArbiter, RSMember}"
    using updateRSWithPrimaryFromMember_inv [OF i assms(2) g that] sdamInv_told by blast
  show ?thesis using assms(1) told [OF replicaInv_remove [OF i]] p q m by (cases "sdKind s") simp_all
qed

lemma single_step:
  assumes "sdamInv low f" and "tdKind f = Single" and g: "goodDesc low s"
  shows "sdamInv low (snd (applyToSingle low s f))"
proof -
  have w: "wellAddressed low f" and l: "length (tdServers f) \<le> 1" using assms(1,2) by (simp_all add: sdamInv_def)
  have a: "settled low (sdAddr s)" using g by (simp add: goodDesc_def)
  have r: "sdamInv low (removeServerByAddr low (sdAddr s) f)"
    using wellAddressed_remove [OF w] length_remove [OF w, of "sdAddr s"] l assms(2) by (simp add: sdamInv_def)
  have p: "sdamInv low (replaceServer low t f)" if "settled low (sdAddr t)" for t
    using wellAddressed_replace [OF w that] l assms(2) by (simp add: sdamInv_def length_replace)
  show ?thesis using assms(1) r p [OF a] p [of "newDefaultServer (sdAddr s)"] a by (cases "sdKind s") (simp_all add: Let_def)
qed

lemma sdamInv_more:
  "sdamInv low (f\<lparr>tdTimeout := t, tdCompat := c\<rparr>) = sdamInv low f"
  "sdamInv low (f\<lparr>fsCompatible := b, fsCompatErr := e, tdCompat := c\<rparr>) = sdamInv low f"
  "sdamInv low (f\<lparr>fsCompatible := b, fsCompatErr := e\<rparr>) = sdamInv low f"
  by (cases "tdKind f"; simp add: sdamInv_def replicaInv_def wellAddressed_def addresses_def hasPrimary_def)+

lemma applyKind_inv: "sdamInv low f \<Longrightarrow> goodDesc low s \<Longrightarrow> sdamInv low (snd (applyKind low s f))"
  using unknown_step [of low f s] sharded_step [of low f s] noPrimary_step [of low f s] withPrimary_step [of low f s]
    single_step [of low f s] by (cases "tdKind f") (simp_all add: applyKind_def)

lemma fsmApply_inv: "sdamInv low f \<Longrightarrow> goodDesc low s \<Longrightarrow> sdamInv low (snd (fsmApply low s f))"
proof -
  assume a: "sdamInv low f" "goodDesc low s"
  let ?f = "f\<lparr>tdTimeout := sessionTimeout f s, tdCompat := None\<rparr>"
  have "sdamInv low ?f" using a(1) by (simp add: sdamInv_more)
  moreover from this have "sdamInv low (snd (applyKind low s ?f))" using a(2) by (rule applyKind_inv)
  ultimately show ?thesis
    by (auto simp: fsmApply_def Let_def sdamInv_more split: prod.split option.split)
qed


section \<open>Elections\<close>

text \<open>The newest election and set version seen only grow.\<close>

definition grows :: "fsm \<Rightarrow> fsm \<Rightarrow> bool" where
  "grows f g \<longleftrightarrow> fsMaxElection f \<le> fsMaxElection g \<and> fsMaxVersion f \<le> fsMaxVersion g"

lemma installPrimary_fields:
  "fsMaxElection (installPrimary low s f) = (if hasElection s then sdElection s else fsMaxElection f)"
  "fsMaxVersion (installPrimary low s f) = max (sdSetVersion s) (fsMaxVersion f)"
  by (simp_all add: installPrimary_def Let_def)

lemma updateRSFromPrimary_grows: "grows f (updateRSFromPrimary low s f)"
proof -
  have i: "grows f (installPrimary low s g)"
    if "\<not> stalePrimary g s" "fsMaxElection g = fsMaxElection f" "fsMaxVersion g = fsMaxVersion f" for g
    using that by (auto simp: grows_def installPrimary_fields stalePrimary_def not_less)
  show ?thesis unfolding updateRSFromPrimary_def Let_def
    by (cases "tdSetName f = ''''") (use i in \<open>auto simp: grows_def\<close>)
qed

lemma member_grows:
  "grows f (updateRSWithPrimaryFromMember low s f)" "grows f (updateRSWithoutPrimary low s f)"
  by (simp_all add: grows_def updateRSWithPrimaryFromMember_def updateRSWithoutPrimary_def Let_def)

lemma applyKind_grows: "grows f (snd (applyKind low s f))"
proof (cases "tdKind f")
  case UnknownTopology
  have "grows f (updateRSWithoutPrimary low s (setKind ReplicaSetNoPrimary f))"
    using member_grows(2) [of "setKind ReplicaSetNoPrimary f" low s] by (simp add: grows_def)
  with UnknownTopology show ?thesis using updateRSFromPrimary_grows [of f low s]
    by (cases "sdKind s") (simp_all add: applyKind_def updateUnknownWithStandalone_def grows_def)
next
  case Single
  then show ?thesis by (cases "sdKind s") (simp_all add: applyKind_def grows_def Let_def)
next
  case Sharded
  then show ?thesis by (cases "sdKind s") (simp_all add: applyKind_def grows_def)
next
  case ReplicaSetNoPrimary
  then show ?thesis using updateRSFromPrimary_grows [of f low s] member_grows(2) [of f low s]
    by (cases "sdKind s") (simp_all add: applyKind_def, simp_all add: grows_def)
next
  case ReplicaSetWithPrimary
  then show ?thesis using updateRSFromPrimary_grows [of f low s] member_grows(1) [of f low s]
    by (cases "sdKind s") (simp_all add: applyKind_def, simp_all add: grows_def)
qed (simp_all add: applyKind_def grows_def)

lemma fsmApply_grows: "grows f (snd (fsmApply low s f))"
  using applyKind_grows [of "f\<lparr>tdTimeout := sessionTimeout f s, tdCompat := None\<rparr>" low s]
  by (auto simp: fsmApply_def Let_def grows_def split: prod.split option.split)

section \<open>Runs\<close>

text \<open>The start, \<open>Topology.Connect\<close>, and a sequence of descriptions from the monitors.\<close>

definition startFsm :: "(string \<Rightarrow> string) \<Rightarrow> string \<Rightarrow> bool \<Rightarrow> string list \<Rightarrow> fsm" where
  "startFsm low name direct seeds =
     newFSM\<lparr>tdSetName := name,
       tdKind := (if direct then Single else if name \<noteq> '''' then ReplicaSetNoPrimary else UnknownTopology),
       tdServers := map (\<lambda>a. newDefaultServer (canonical low a)) seeds\<rparr>"

primrec runFsm :: "(string \<Rightarrow> string) \<Rightarrow> serverDesc list \<Rightarrow> fsm \<Rightarrow> fsm" where
  "runFsm low [] f = f"
| "runFsm low (s # ss) f = runFsm low ss (snd (fsmApply low s f))"

text \<open>Seeds that name different servers; a direct connection has one.\<close>

definition goodSeeds :: "(string \<Rightarrow> string) \<Rightarrow> bool \<Rightarrow> string list \<Rightarrow> bool" where
  "goodSeeds low direct seeds \<longleftrightarrow> distinct (map (canonical low) seeds) \<and> list_all (\<lambda>a. settled low (canonical low a)) seeds
     \<and> (direct \<longrightarrow> length seeds \<le> 1)"

lemma startFsm_inv: "goodSeeds low direct seeds \<Longrightarrow> sdamInv low (startFsm low name direct seeds)"
proof -
  assume g: "goodSeeds low direct seeds"
  let ?f = "startFsm low name direct seeds"
  have a: "addresses ?f = map (canonical low) seeds" by (simp add: addresses_def startFsm_def)
  have w: "wellAddressed low ?f" using g by (auto simp: wellAddressed_def a goodSeeds_def list_all_iff)
  have k: "\<forall>s\<in>set (tdServers ?f). sdKind s \<in> {Unknown, RSGhost}" by (simp add: startFsm_def)
  have l: "direct \<Longrightarrow> length (tdServers ?f) \<le> 1" using g by (simp add: startFsm_def goodSeeds_def)
  have t: "tdKind ?f = (if direct then Single else if name \<noteq> '''' then ReplicaSetNoPrimary else UnknownTopology)"
    "tdSetName ?f = name" by (simp_all add: startFsm_def)
  show ?thesis using replicaInv_fresh [OF w k] w k l t by (cases direct; cases "name = ''''") (simp_all add: sdamInv_def)
qed

lemma runFsm_inv: "sdamInv low f \<Longrightarrow> list_all (goodDesc low) ss \<Longrightarrow> sdamInv low (runFsm low ss f)"
  by (induction ss arbitrary: f) (simp_all add: fsmApply_inv)

lemma runFsm_grows: "grows f (runFsm low ss f)"
proof (induction ss arbitrary: f)
  case (Cons s ss)
  from fsmApply_grows [of f low s] Cons [of "snd (fsmApply low s f)"] show ?case
    by (auto simp: grows_def intro: order_trans)
qed (simp add: grows_def)


text \<open>
  C31. Whatever the servers report and in whatever order, the description of the deployment stays
  consistent: no server is listed twice; it is a replica set with a primary exactly when one
  listed server, and only one, is a primary, direct connections apart; the members of a replica
  set all belong to the one set; a sharded deployment lists no member of a replica set and no
  standalone server, and a direct connection at most one server.
\<close>

theorem topology_consistent:
  assumes "goodSeeds low direct seeds" and "list_all (goodDesc low) ss"
  shows "distinct (addresses (runFsm low ss (startFsm low name direct seeds)))
    \<and> (tdKind (runFsm low ss (startFsm low name direct seeds)) = ReplicaSetWithPrimary \<longrightarrow>
         (\<exists>!p. p \<in> set (tdServers (runFsm low ss (startFsm low name direct seeds))) \<and> sdKind p = RSPrimary))
    \<and> (tdKind (runFsm low ss (startFsm low name direct seeds)) \<notin> {ReplicaSetWithPrimary, Single} \<longrightarrow>
         \<not> hasPrimary (runFsm low ss (startFsm low name direct seeds)))
    \<and> (tdKind (runFsm low ss (startFsm low name direct seeds)) \<in> {ReplicaSetWithPrimary, ReplicaSetNoPrimary} \<longrightarrow>
         (\<forall>s\<in>set (tdServers (runFsm low ss (startFsm low name direct seeds))). memberKind (sdKind s) \<longrightarrow>
            sdSetName s = tdSetName (runFsm low ss (startFsm low name direct seeds))))
    \<and> (tdKind (runFsm low ss (startFsm low name direct seeds)) = Sharded \<longrightarrow>
         (\<forall>s\<in>set (tdServers (runFsm low ss (startFsm low name direct seeds))). \<not> memberKind (sdKind s) \<and> sdKind s \<noteq> Standalone))
    \<and> (tdKind (runFsm low ss (startFsm low name direct seeds)) = Single \<longrightarrow>
         length (tdServers (runFsm low ss (startFsm low name direct seeds))) \<le> 1)"
proof -
  let ?f = "runFsm low ss (startFsm low name direct seeds)"
  have i: "sdamInv low ?f" by (rule runFsm_inv [OF startFsm_inv [OF assms(1)] assms(2)])
  have d: "distinct (addresses ?f)" using i by (simp add: sdamInv_def wellAddressed_def)
  have w: "replicaInv low ?f \<and> hasPrimary ?f" if "tdKind ?f = ReplicaSetWithPrimary" using i that by (simp add: sdamInv_def)
  have n: "replicaInv low ?f \<and> \<not> hasPrimary ?f" if "tdKind ?f = ReplicaSetNoPrimary" using i that by (simp add: sdamInv_def)
  have u: "\<exists>!p. p \<in> set (tdServers ?f) \<and> sdKind p = RSPrimary" if "tdKind ?f = ReplicaSetWithPrimary"
    using w [OF that] unfolding replicaInv_def replicaServers_def hasPrimary_def by blast
  have h: "\<not> hasPrimary ?f" if "tdKind ?f \<notin> {ReplicaSetWithPrimary, Single}"
    using i n that by (cases "tdKind ?f") (auto simp: sdamInv_def hasPrimary_def)
  have m: "sdSetName s = tdSetName ?f"
    if "tdKind ?f \<in> {ReplicaSetWithPrimary, ReplicaSetNoPrimary}" "s \<in> set (tdServers ?f)" "memberKind (sdKind s)" for s
    using w n that by (auto simp: replicaInv_def replicaServers_def memberOf_def)
  have s: "\<not> memberKind (sdKind s) \<and> sdKind s \<noteq> Standalone" if "tdKind ?f = Sharded" "s \<in> set (tdServers ?f)" for s
    using i that by (auto simp: sdamInv_def)
  have l: "length (tdServers ?f) \<le> 1" if "tdKind ?f = Single" using i that by (simp add: sdamInv_def)
  show ?thesis using d u h m s l by blast
qed

text \<open>
  C32. The client never goes back to a deposed primary: once it has listed a primary with an
  election id, every primary with an election id that it lists later has at least that election id
  and that set version, whatever old primaries keep reporting.
\<close>

theorem no_older_primary:
  assumes "goodSeeds low direct seeds" and "list_all (goodDesc low) rs" and "list_all (goodDesc low) ss"
    and "tdKind (runFsm low rs (startFsm low name direct seeds)) = ReplicaSetWithPrimary" and "p \<in> set (tdServers (runFsm low rs (startFsm low name direct seeds)))" and "sdKind p = RSPrimary" and "hasElection p"
    and "tdKind (runFsm low ss (runFsm low rs (startFsm low name direct seeds))) = ReplicaSetWithPrimary" and "q \<in> set (tdServers (runFsm low ss (runFsm low rs (startFsm low name direct seeds))))"
    and "sdKind q = RSPrimary" and "hasElection q"
  shows "sdElection p \<le> sdElection q \<and> sdSetVersion p \<le> sdSetVersion q"
proof -
  let ?f = "runFsm low rs (startFsm low name direct seeds)"
  have i: "sdamInv low ?f" by (rule runFsm_inv [OF startFsm_inv [OF assms(1)] assms(2)])
  have "sdamInv low (runFsm low ss ?f)" by (rule runFsm_inv [OF i assms(3)])
  then have "sdElection q = fsMaxElection (runFsm low ss ?f) \<and> sdSetVersion q = fsMaxVersion (runFsm low ss ?f)"
    using assms(8-11) by (simp add: sdamInv_def replicaInv_def replicaServers_def memberOf_def)
  moreover have "sdElection p = fsMaxElection ?f \<and> sdSetVersion p = fsMaxVersion ?f"
    using i assms(4-7) by (simp add: sdamInv_def replicaInv_def replicaServers_def memberOf_def)
  ultimately show ?thesis using runFsm_grows [of ?f low ss] by (simp add: grows_def)
qed

subsection \<open>Witnesses\<close>

definition sampleMember :: "serverKind \<Rightarrow> string \<Rightarrow> string \<Rightarrow> 32 word \<Rightarrow> serverDesc" where
  "sampleMember kind addr election version =
     (newDefaultServer addr)\<lparr>sdKind := kind, sdSetName := ''rs'', sdSetVersion := version, sdElection := election,
       sdCanonical := addr, sdMembers := [''a:1'', ''b:1'']\<rparr>"

definition sampleElection :: "char \<Rightarrow> string" where
  "sampleElection c = replicate 11 (char_of (0 :: nat)) @ [c]"

definition oldPrimary :: serverDesc where
  "oldPrimary = sampleMember RSPrimary ''a:1'' (sampleElection (CHR ''1'')) 1"

definition newPrimary :: serverDesc where
  "newPrimary = sampleMember RSPrimary ''b:1'' (sampleElection (CHR ''2'')) 1"

lemma sample_settled: "settled id ''a:1''" "settled id ''b:1''"
  by code_simp+

lemma sample_good: "goodDesc id oldPrimary" "goodDesc id newPrimary"
  using sample_settled by (simp_all add: goodDesc_def oldPrimary_def newPrimary_def sampleMember_def)

lemma sample_seeds: "goodSeeds id False [''a:1'']"
  using sample_settled by (simp add: goodSeeds_def settled_def)

theorem topology_consistent_witness:
  "\<exists>!p. p \<in> set (tdServers (runFsm id [oldPrimary] (startFsm id '''' False [''a:1'']))) \<and> sdKind p = RSPrimary"
proof -
  have "list_all (goodDesc id) [oldPrimary]" using sample_good by simp
  from topology_consistent [OF sample_seeds this, of "''''"]
  have "tdKind (runFsm id [oldPrimary] (startFsm id '''' False [''a:1''])) = ReplicaSetWithPrimary \<longrightarrow>
    (\<exists>!p. p \<in> set (tdServers (runFsm id [oldPrimary] (startFsm id '''' False [''a:1'']))) \<and> sdKind p = RSPrimary)" by blast
  moreover have "tdKind (runFsm id [oldPrimary] (startFsm id '''' False [''a:1''])) = ReplicaSetWithPrimary" by code_simp
  ultimately show ?thesis by blast
qed

theorem no_older_primary_witness:
  "sdElection oldPrimary \<le> sdElection newPrimary \<and> sdSetVersion oldPrimary \<le> sdSetVersion newPrimary"
proof (rule no_older_primary [OF sample_seeds])
  show "list_all (goodDesc id) [oldPrimary]" "list_all (goodDesc id) [newPrimary]" using sample_good by simp_all
  show "tdKind (runFsm id [oldPrimary] (startFsm id '''' False [''a:1''])) = ReplicaSetWithPrimary"
    "tdKind (runFsm id [newPrimary] (runFsm id [oldPrimary] (startFsm id '''' False [''a:1'']))) = ReplicaSetWithPrimary" by code_simp+
  show "oldPrimary \<in> set (tdServers (runFsm id [oldPrimary] (startFsm id '''' False [''a:1''])))" by code_simp
  show "newPrimary \<in> set (tdServers (runFsm id [newPrimary] (runFsm id [oldPrimary] (startFsm id '''' False [''a:1'']))))" by code_simp
  show "sdKind oldPrimary = RSPrimary" "sdKind newPrimary = RSPrimary" "hasElection oldPrimary" "hasElection newPrimary" by code_simp+
qed

end
