(* ===== verification/ConnString.thy ===== *)
theory ConnString
  imports GoNet "HOL-Library.AList"
begin

text \<open>
  The connection string parser of the database driver,
  \<open>src/pkg/mod/go.mongodb.org/mongo-driver@v1.7.3/x/mongo/driver/connstring/connstring.go\<close>,
  with the lookup of SRV hosts, \<open>x/mongo/driver/dns/dns.go\<close>. The server hands it the string that
  \<open>mongoURI\<close> puts together from the configuration file.

  The fields of the struct \<open>ConnString\<close> stand in records by subject. A field \<open>X\<close> that the code
  always sets together with its flag \<open>XSet\<close> is an option here. An error is the text of its innermost
  message; a Go map is an association list with one entry per key; durations are the nanoseconds of \<open>time.Duration\<close>.
\<close>

section \<open>The parsed string\<close>

datatype connectMode = AutoConnect | SingleConnect

record authPart =
  auMechanism :: string
  auProperties :: "(string \<times> string) list option"
  auSource :: string
  auSourceSet :: bool
  auUsername :: "string option"
  auPassword :: "string option"

record tlsPart =
  tlSSL :: bool
  tlSSLSet :: bool
  tlBoth :: "bool option"
  tlKeyFile :: "string option"
  tlKeyPassword :: "string option"
  tlCertFile :: "string option"
  tlPrivateFile :: "string option"
  tlInsecure :: "bool option"
  tlCaFile :: "string option"
  tlNoOCSP :: "bool option"

record concernPart =
  ccW :: string
  ccNumber :: int
  ccNumberSet :: bool
  ccJournal :: "bool option"
  ccTimeout :: int
  ccTimeoutSet :: bool
  ccReadLevel :: string
  ccReadPreference :: string
  ccTagSets :: "(string \<times> string) list list"
  ccStaleness :: "int option"

record topologyPart =
  tpConnect :: "connectMode option"
  tpDirect :: "bool option"
  tpBalanced :: "bool option"
  tpReplicaSet :: string

record tuningPart =
  tuAppName :: string
  tuCompressors :: "string list"
  tuConnectTimeout :: "int option"
  tuHeartbeat :: "int option"
  tuLocalThreshold :: "int option"
  tuMaxIdle :: "int option"
  tuMaxPool :: "64 word option"
  tuMinPool :: "64 word option"
  tuRetryWrites :: "bool option"
  tuRetryReads :: "bool option"
  tuSelection :: "int option"
  tuSocket :: "int option"
  tuZlib :: "int option"
  tuZstd :: "int option"

record connString =
  csScheme :: string
  csHosts :: "string list"
  csDatabase :: string
  csAuth :: authPart
  csTls :: tlsPart
  csConcern :: concernPart
  csTopology :: topologyPart
  csTuning :: tuningPart
  csOptions :: "string \<Rightarrow> string list"
  csUnknown :: "string \<Rightarrow> string list"

definition noConnString :: connString where
  "noConnString =
     \<lparr>csScheme = '''', csHosts = [], csDatabase = '''',
      csAuth = \<lparr>auMechanism = '''', auProperties = None, auSource = '''', auSourceSet = False, auUsername = None, auPassword = None\<rparr>,
      csTls = \<lparr>tlSSL = False, tlSSLSet = False, tlBoth = None, tlKeyFile = None, tlKeyPassword = None, tlCertFile = None,
        tlPrivateFile = None, tlInsecure = None, tlCaFile = None, tlNoOCSP = None\<rparr>,
      csConcern = \<lparr>ccW = '''', ccNumber = 0, ccNumberSet = False, ccJournal = None, ccTimeout = 0, ccTimeoutSet = False,
        ccReadLevel = '''', ccReadPreference = '''', ccTagSets = [], ccStaleness = None\<rparr>,
      csTopology = \<lparr>tpConnect = None, tpDirect = None, tpBalanced = None, tpReplicaSet = ''''\<rparr>,
      csTuning = \<lparr>tuAppName = '''', tuCompressors = [], tuConnectTimeout = None, tuHeartbeat = None, tuLocalThreshold = None,
        tuMaxIdle = None, tuMaxPool = None, tuMinPool = None, tuRetryWrites = None, tuRetryReads = None, tuSelection = None,
        tuSocket = None, tuZlib = None, tuZstd = None\<rparr>,
      csOptions = (\<lambda>_. []), csUnknown = (\<lambda>_. [])\<rparr>"

definition inAuth :: "(authPart \<Rightarrow> authPart) \<Rightarrow> connString \<Rightarrow> connString" where
  "inAuth f u = u\<lparr>csAuth := f (csAuth u)\<rparr>"

definition inTls :: "(tlsPart \<Rightarrow> tlsPart) \<Rightarrow> connString \<Rightarrow> connString" where
  "inTls f u = u\<lparr>csTls := f (csTls u)\<rparr>"

definition inConcern :: "(concernPart \<Rightarrow> concernPart) \<Rightarrow> connString \<Rightarrow> connString" where
  "inConcern f u = u\<lparr>csConcern := f (csConcern u)\<rparr>"

definition inTopology :: "(topologyPart \<Rightarrow> topologyPart) \<Rightarrow> connString \<Rightarrow> connString" where
  "inTopology f u = u\<lparr>csTopology := f (csTopology u)\<rparr>"

definition inTuning :: "(tuningPart \<Rightarrow> tuningPart) \<Rightarrow> connString \<Rightarrow> connString" where
  "inTuning f u = u\<lparr>csTuning := f (csTuning u)\<rparr>"

lemmas in_parts = inAuth_def inTls_def inConcern_def inTopology_def inTuning_def

definition userName :: "connString \<Rightarrow> string" where
  "userName u = (case auUsername (csAuth u) of None \<Rightarrow> '''' | Some s \<Rightarrow> s)"

definition passWord :: "connString \<Rightarrow> string" where
  "passWord u = (case auPassword (csAuth u) of None \<Rightarrow> '''' | Some s \<Rightarrow> s)"

text \<open>What the outside answers: the DNS lookups, and the case mapping of Unicode.\<close>

record mongoEnv =
  lookupSRV :: "string \<Rightarrow> (string \<times> nat) list option"
  lookupTXT :: "string \<Rightarrow> string list"
  lowerUnicode :: "string \<Rightarrow> string"

section \<open>Options\<close>

text \<open>A setter of an option takes the key as written and the value.\<close>

type_synonym setter = "string \<Rightarrow> string \<Rightarrow> connString \<Rightarrow> string + connString"

definition badValue :: "string \<Rightarrow> string \<Rightarrow> string" where
  "badValue key val = ''invalid value for '' @ key @ '': '' @ val"

definition plainSetter :: "(string \<Rightarrow> connString \<Rightarrow> connString) \<Rightarrow> setter" where
  "plainSetter f key val u = Inr (f val u)"

text \<open>An option that takes a number that is not negative.\<close>

definition countSetter :: "(int \<Rightarrow> connString \<Rightarrow> connString) \<Rightarrow> setter" where
  "countSetter f key val u =
     (case AtoiErr val of
        None \<Rightarrow> Inl (badValue key val)
      | Some n \<Rightarrow> if n < 0 then Inl (badValue key val) else Inr (f n u))"

definition boolSetter :: "(bool \<Rightarrow> connString \<Rightarrow> connString) \<Rightarrow> setter" where
  "boolSetter f key val u =
     (if val = ''true'' then Inr (f True u)
      else if val = ''false'' then Inr (f False u)
      else Inl (badValue key val))"

definition millis :: "int \<Rightarrow> int" where
  "millis n = wrap64 (n * 1000000)"

definition seconds :: "int \<Rightarrow> int" where
  "seconds n = wrap64 (n * 1000000000)"

text \<open>Pairs \<open>name:value\<close> between commas; the loop of \<open>authMechanismProperties\<close>.\<close>

primrec mechanismProps :: "string list \<Rightarrow> (string \<times> string) list \<Rightarrow> (string \<times> string) list option" where
  "mechanismProps [] m = Some m"
| "mechanismProps (p # ps) m =
     (case splitTwo (CHR '':'') p of
        [k, v] \<Rightarrow> if k = '''' then None else mechanismProps ps (AList.update k v m)
      | _ \<Rightarrow> None)"

definition credentialOptions :: "(string \<times> setter) list" where
  "credentialOptions =
     [(''appname'', plainSetter (\<lambda>v. inTuning (\<lambda>t. t\<lparr>tuAppName := v\<rparr>))),
      (''authmechanism'', plainSetter (\<lambda>v. inAuth (\<lambda>a. a\<lparr>auMechanism := v\<rparr>))),
      (''authmechanismproperties'', \<lambda>key val u.
         (case mechanismProps (splitOn (CHR '','') val) [] of
            None \<Rightarrow> Inl ''invalid authMechanism property''
          | Some m \<Rightarrow> Inr (inAuth (\<lambda>a. a\<lparr>auProperties := Some m\<rparr>) u))),
      (''authsource'', plainSetter (\<lambda>v. inAuth (\<lambda>a. a\<lparr>auSource := v, auSourceSet := True\<rparr>))),
      (''compressors'', plainSetter (\<lambda>v. inTuning (\<lambda>t. t\<lparr>tuCompressors := splitOn (CHR '','') v\<rparr>)))]"

definition connectValue :: "(string \<Rightarrow> string) \<Rightarrow> setter" where
  "connectValue low key val u =
     (let v = ToLower low val in
      if v = ''automatic'' \<or> v = ''direct'' then
        (let mode = (if v = ''direct'' then SingleConnect
             else (case tpConnect (csTopology u) of None \<Rightarrow> AutoConnect | Some m \<Rightarrow> m))
         in case tpDirect (csTopology u) of
              Some d \<Rightarrow>
                if d \<noteq> (mode = SingleConnect) then Inl (''options connect='' @ val @ '' and directConnection conflict'')
                else Inr (inTopology (\<lambda>t. t\<lparr>tpConnect := Some mode\<rparr>) u)
            | None \<Rightarrow> Inr (inTopology (\<lambda>t. t\<lparr>tpConnect := Some mode\<rparr>) u))
      else Inl (''invalid 'connect' value: '' @ val))"

definition directValue :: "(string \<Rightarrow> string) \<Rightarrow> setter" where
  "directValue low key val u =
     (let v = ToLower low val in
      if v = ''true'' \<or> v = ''false'' then
        (let direct = (v = ''true'' \<or> tpDirect (csTopology u) = Some True)
         in case tpConnect (csTopology u) of
              Some m \<Rightarrow>
                if m \<noteq> (if direct then SingleConnect else AutoConnect)
                then Inl (''options connect and directConnection='' @ val @ '' conflict'')
                else Inr (inTopology (\<lambda>t. t\<lparr>tpDirect := Some direct\<rparr>) u)
            | None \<Rightarrow> Inr (inTopology (\<lambda>t. t\<lparr>tpDirect := Some direct\<rparr>) u))
      else Inl (''invalid 'directConnection' value: '' @ val))"

definition connectOptions :: "(string \<Rightarrow> string) \<Rightarrow> (string \<times> setter) list" where
  "connectOptions low = [(''connect'', connectValue low), (''directconnection'', directValue low)]"

definition timingOptions :: "(string \<times> setter) list" where
  "timingOptions =
     [(''connecttimeoutms'', countSetter (\<lambda>n. inTuning (\<lambda>t. t\<lparr>tuConnectTimeout := Some (millis n)\<rparr>))),
      (''heartbeatintervalms'', countSetter (\<lambda>n. inTuning (\<lambda>t. t\<lparr>tuHeartbeat := Some (millis n)\<rparr>))),
      (''heartbeatfrequencyms'', countSetter (\<lambda>n. inTuning (\<lambda>t. t\<lparr>tuHeartbeat := Some (millis n)\<rparr>))),
      (''journal'', boolSetter (\<lambda>b. inConcern (\<lambda>c. c\<lparr>ccJournal := Some b\<rparr>))),
      (''loadbalanced'', boolSetter (\<lambda>b. inTopology (\<lambda>t. t\<lparr>tpBalanced := Some b\<rparr>))),
      (''localthresholdms'', countSetter (\<lambda>n. inTuning (\<lambda>t. t\<lparr>tuLocalThreshold := Some (millis n)\<rparr>))),
      (''maxidletimems'', countSetter (\<lambda>n. inTuning (\<lambda>t. t\<lparr>tuMaxIdle := Some (millis n)\<rparr>))),
      (''maxpoolsize'', countSetter (\<lambda>n. inTuning (\<lambda>t. t\<lparr>tuMaxPool := Some (word_of_int n)\<rparr>))),
      (''minpoolsize'', countSetter (\<lambda>n. inTuning (\<lambda>t. t\<lparr>tuMinPool := Some (word_of_int n)\<rparr>)))]"

primrec tagPairs :: "string list \<Rightarrow> (string \<times> string) list \<Rightarrow> (string \<times> string) list option" where
  "tagPairs [] m = Some m"
| "tagPairs (item # items) m =
     (case splitOn (CHR '':'') item of [k, v] \<Rightarrow> tagPairs items (AList.update k v m) | _ \<Rightarrow> None)"

definition tagsValue :: setter where
  "tagsValue key val u =
     (if val = '''' then Inr u
      else case tagPairs (splitOn (CHR '','') val) [] of
          None \<Rightarrow> Inl (badValue key val)
        | Some m \<Rightarrow> Inr (inConcern (\<lambda>c. c\<lparr>ccTagSets := ccTagSets c @ [m]\<rparr>) u))"

definition readOptions :: "(string \<times> setter) list" where
  "readOptions =
     [(''readconcernlevel'', plainSetter (\<lambda>v. inConcern (\<lambda>c. c\<lparr>ccReadLevel := v\<rparr>))),
      (''readpreference'', plainSetter (\<lambda>v. inConcern (\<lambda>c. c\<lparr>ccReadPreference := v\<rparr>))),
      (''readpreferencetags'', tagsValue),
      (''maxstaleness'', countSetter (\<lambda>n. inConcern (\<lambda>c. c\<lparr>ccStaleness := Some (seconds n)\<rparr>))),
      (''maxstalenessseconds'', countSetter (\<lambda>n. inConcern (\<lambda>c. c\<lparr>ccStaleness := Some (seconds n)\<rparr>))),
      (''replicaset'', plainSetter (\<lambda>v. inTopology (\<lambda>t. t\<lparr>tpReplicaSet := v\<rparr>))),
      (''retrywrites'', boolSetter (\<lambda>b. inTuning (\<lambda>t. t\<lparr>tuRetryWrites := Some b\<rparr>))),
      (''retryreads'', boolSetter (\<lambda>b. inTuning (\<lambda>t. t\<lparr>tuRetryReads := Some b\<rparr>))),
      (''serverselectiontimeoutms'', countSetter (\<lambda>n. inTuning (\<lambda>t. t\<lparr>tuSelection := Some (millis n)\<rparr>))),
      (''sockettimeoutms'', countSetter (\<lambda>n. inTuning (\<lambda>t. t\<lparr>tuSocket := Some (millis n)\<rparr>)))]"

definition tlsValue :: setter where
  "tlsValue key val u =
     (if val \<noteq> ''true'' \<and> val \<noteq> ''false'' then Inl (badValue key val)
      else
        let b = (val = ''true'') in
        if tlBoth (csTls u) = Some (\<not> b) then Inl ''tls and ssl options, when both specified, must be equivalent''
        else Inr (inTls (\<lambda>t. t\<lparr>tlSSL := b, tlBoth := Some b, tlSSLSet := True\<rparr>) u))"

text \<open>An option that asks for TLS by itself.\<close>

definition withTls :: "(tlsPart \<Rightarrow> tlsPart) \<Rightarrow> connString \<Rightarrow> connString" where
  "withTls f = inTls (\<lambda>t. f (t\<lparr>tlSSL := True, tlSSLSet := True\<rparr>))"

definition tlsOptions :: "(string \<times> setter) list" where
  "tlsOptions =
     [(''ssl'', tlsValue),
      (''tls'', tlsValue),
      (''sslclientcertificatekeyfile'', plainSetter (\<lambda>v. withTls (\<lambda>t. t\<lparr>tlKeyFile := Some v\<rparr>))),
      (''tlscertificatekeyfile'', plainSetter (\<lambda>v. withTls (\<lambda>t. t\<lparr>tlKeyFile := Some v\<rparr>))),
      (''sslclientcertificatekeypassword'', plainSetter (\<lambda>v. inTls (\<lambda>t. t\<lparr>tlKeyPassword := Some v\<rparr>))),
      (''tlscertificatekeyfilepassword'', plainSetter (\<lambda>v. inTls (\<lambda>t. t\<lparr>tlKeyPassword := Some v\<rparr>))),
      (''tlscertificatefile'', plainSetter (\<lambda>v. withTls (\<lambda>t. t\<lparr>tlCertFile := Some v\<rparr>))),
      (''tlsprivatekeyfile'', plainSetter (\<lambda>v. withTls (\<lambda>t. t\<lparr>tlPrivateFile := Some v\<rparr>))),
      (''sslinsecure'', boolSetter (\<lambda>b. inTls (\<lambda>t. t\<lparr>tlInsecure := Some b\<rparr>))),
      (''tlsinsecure'', boolSetter (\<lambda>b. inTls (\<lambda>t. t\<lparr>tlInsecure := Some b\<rparr>))),
      (''sslcertificateauthorityfile'', plainSetter (\<lambda>v. withTls (\<lambda>t. t\<lparr>tlCaFile := Some v\<rparr>))),
      (''tlscafile'', plainSetter (\<lambda>v. withTls (\<lambda>t. t\<lparr>tlCaFile := Some v\<rparr>))),
      (''tlsdisableocspendpointcheck'', boolSetter (\<lambda>b. withTls (\<lambda>t. t\<lparr>tlNoOCSP := Some b\<rparr>)))]"

text \<open>\<open>w\<close> is a number of servers or a tag.\<close>

definition wValue :: setter where
  "wValue key val u =
     (case AtoiErr val of
        Some n \<Rightarrow>
          if n < 0 then Inl (badValue key val)
          else Inr (inConcern (\<lambda>c. c\<lparr>ccNumber := n, ccNumberSet := True, ccW := ''''\<rparr>) u)
      | None \<Rightarrow> Inr (inConcern (\<lambda>c. c\<lparr>ccW := val, ccNumberSet := False\<rparr>) u))"

text \<open>\<open>wtimeout\<close> gives way to \<open>wtimeoutms\<close>, and leaves the flag unset.\<close>

definition wtimeoutValue :: setter where
  "wtimeoutValue key val u =
     (if ccTimeoutSet (csConcern u) then Inr u
      else countSetter (\<lambda>n. inConcern (\<lambda>c. c\<lparr>ccTimeout := millis n\<rparr>)) key val u)"

definition levelSetter :: "int \<Rightarrow> (int \<Rightarrow> connString \<Rightarrow> connString) \<Rightarrow> setter" where
  "levelSetter most f key val u =
     (case AtoiErr val of
        None \<Rightarrow> Inl (badValue key val)
      | Some n \<Rightarrow> if n < -1 \<or> most < n then Inl (badValue key val) else Inr (f (if n = -1 then 6 else n) u))"

definition concernOptions :: "(string \<times> setter) list" where
  "concernOptions =
     [(''w'', wValue),
      (''wtimeoutms'', countSetter (\<lambda>n. inConcern (\<lambda>c. c\<lparr>ccTimeout := millis n, ccTimeoutSet := True\<rparr>))),
      (''wtimeout'', wtimeoutValue),
      (''zlibcompressionlevel'', levelSetter 9 (\<lambda>n. inTuning (\<lambda>t. t\<lparr>tuZlib := Some n\<rparr>))),
      (''zstdcompressionlevel'', levelSetter 22 (\<lambda>n. inTuning (\<lambda>t. t\<lparr>tuZstd := Some n\<rparr>)))]"

definition optionTable :: "(string \<Rightarrow> string) \<Rightarrow> (string \<times> setter) list" where
  "optionTable low =
     credentialOptions @ connectOptions low @ timingOptions @ readOptions @ tlsOptions @ concernOptions"

definition applyOption :: "(string \<Rightarrow> string) \<Rightarrow> string \<Rightarrow> string \<Rightarrow> string \<Rightarrow> connString \<Rightarrow> string + connString" where
  "applyOption low name key val u =
     (case map_of (optionTable low) name of
        Some f \<Rightarrow> f key val u
      | None \<Rightarrow> Inr (u\<lparr>csUnknown := (csUnknown u)(name := csUnknown u name @ [val])\<rparr>))"

text \<open>Every option given is kept under its key, an unknown one also on its own list.\<close>

definition addOption :: "(string \<Rightarrow> string) \<Rightarrow> string \<Rightarrow> connString \<Rightarrow> string + connString" where
  "addOption low p u =
     (case splitTwo (CHR ''='') p of
        [k, v] \<Rightarrow>
          if k = '''' then Inl ''invalid option''
          else
            (case (queryUnescape k, queryUnescape v) of
               (None, _) \<Rightarrow> Inl (''invalid option key '' @ k)
             | (Some key, None) \<Rightarrow> Inl (''invalid option value '' @ v)
             | (Some key, Some val) \<Rightarrow>
                 let name = ToLower low key in
                 (case applyOption low name key val u of
                    Inl err \<Rightarrow> Inl err
                  | Inr u' \<Rightarrow> Inr (u'\<lparr>csOptions := (csOptions u')(name := csOptions u' name @ [val])\<rparr>)))
      | _ \<Rightarrow> Inl ''invalid option'')"

primrec addOptions :: "(string \<Rightarrow> string) \<Rightarrow> string list \<Rightarrow> connString \<Rightarrow> string + connString" where
  "addOptions low [] u = Inr u"
| "addOptions low (p # ps) u = (case addOption low p u of Inl err \<Rightarrow> Inl err | Inr u' \<Rightarrow> addOptions low ps u')"

section \<open>Hosts\<close>

definition addHost :: "string \<Rightarrow> connString \<Rightarrow> string + connString" where
  "addHost host u =
     (if host = '''' then Inr u
      else case queryUnescape host of
          None \<Rightarrow> Inl (''invalid host '' @ host)
        | Some h \<Rightarrow>
            (case splitHostPort h of
               BadAddress \<Rightarrow> Inl (''invalid host '' @ host)
             | MissingPort \<Rightarrow> Inr (u\<lparr>csHosts := csHosts u @ [h]\<rparr>)
             | HostPort _ port \<Rightarrow>
                 if port = '''' then Inr (u\<lparr>csHosts := csHosts u @ [h]\<rparr>)
                 else
                   (case AtoiErr port of
                      None \<Rightarrow> Inl ''port must be an integer''
                    | Some d \<Rightarrow>
                        if d \<le> 0 \<or> 65536 \<le> d then Inl ''port must be in the range [1, 65535]''
                        else Inr (u\<lparr>csHosts := csHosts u @ [h]\<rparr>))))"

primrec addHosts :: "string list \<Rightarrow> connString \<Rightarrow> string + connString" where
  "addHosts [] u = Inr u"
| "addHosts (h # hs) u = (case addHost h u of Inl err \<Rightarrow> Inl err | Inr u' \<Rightarrow> addHosts hs u')"

subsection \<open>Hosts from DNS\<close>

text \<open>The name of a record must have the labels of the host behind its first one as its end.\<close>

definition validateSRVResult :: "string \<Rightarrow> string \<Rightarrow> string option" where
  "validateSRVResult srv host =
     (let input = splitOn (CHR ''.'') host; found = splitOn (CHR ''.'') srv;
          offset = length found - (length input - 1)
      in if length found < 2 then Some ''DNS name must contain at least 2 labels''
         else if length found < length input then Some ''Domain suffix from SRV record not matched input domain''
         else if tl input \<noteq> drop offset found then Some ''Domain suffix from SRV record not matched input domain''
         else None)"

primrec seedHosts :: "string \<Rightarrow> bool \<Rightarrow> (string \<times> nat) list \<Rightarrow> string + string list" where
  "seedHosts host stopOnErr [] = Inr []"
| "seedHosts host stopOnErr (a # as) =
     (let target = trimSuffix (fst a) ''.'' in
      case validateSRVResult target host of
        Some err \<Rightarrow> if stopOnErr then Inl err else seedHosts host stopOnErr as
      | None \<Rightarrow>
          (case seedHosts host stopOnErr as of
             Inl err \<Rightarrow> Inl err
           | Inr hs \<Rightarrow> Inr ((target @ '':'' @ dec (snd a)) # hs)))"

definition fetchSeedlistFromSRV :: "mongoEnv \<Rightarrow> string \<Rightarrow> bool \<Rightarrow> string + string list" where
  "fetchSeedlistFromSRV e host stopOnErr =
     (case splitHostPort host of
        HostPort _ _ \<Rightarrow> Inl ''URI with srv must not include a port number''
      | _ \<Rightarrow>
          (case lookupSRV e host of
             None \<Rightarrow> Inl ''lookup of SRV records failed''
           | Some addresses \<Rightarrow> seedHosts (trimSuffix host ''.'') stopOnErr addresses))"

definition ParseHosts :: "mongoEnv \<Rightarrow> string \<Rightarrow> bool \<Rightarrow> string + string list" where
  "ParseHosts e host stopOnErr =
     (case splitOn (CHR '','') host of
        [h] \<Rightarrow> fetchSeedlistFromSRV e h stopOnErr
      | _ \<Rightarrow> Inl ''URI with SRV must include one and only one hostname'')"

definition allowedTXTOptions :: "string list" where
  "allowedTXTOptions = [''authsource'', ''replicaset'', ''loadbalanced'']"

primrec validateTXTResult :: "(string \<Rightarrow> string) \<Rightarrow> string list \<Rightarrow> string option" where
  "validateTXTResult low [] = None"
| "validateTXTResult low (p # ps) =
     (case splitTwo (CHR ''='') p of
        [k, v] \<Rightarrow>
          if ToLower low k \<notin> set allowedTXTOptions then Some (''Cannot specify option '' @ k @ '' in TXT record'')
          else validateTXTResult low ps
      | _ \<Rightarrow> Some ''Invalid TXT record'')"

definition argSeparators :: "char set" where
  "argSeparators = {CHR '';'', CHR ''&''}"

definition GetConnectionArgsFromTXT :: "mongoEnv \<Rightarrow> string \<Rightarrow> string + string list" where
  "GetConnectionArgsFromTXT e host =
     (case lookupTXT e host of
        [] \<Rightarrow> Inr []
      | [r] \<Rightarrow>
          (let args = fieldsOf argSeparators r in
           case validateTXTResult (lowerUnicode e) args of Some err \<Rightarrow> Inl err | None \<Rightarrow> Inr args)
      | _ \<Rightarrow> Inl ''multiple records from TXT not supported'')"

section \<open>The parser\<close>

definition parseScheme :: "string \<Rightarrow> (string \<times> string) option" where
  "parseScheme uri =
     (if hasPrefix uri ''mongodb+srv://'' then Some (''mongodb+srv'', drop 14 uri)
      else if hasPrefix uri ''mongodb://'' then Some (''mongodb'', drop 10 uri)
      else None)"

text \<open>The user, the password and the rest of the string, from what stands before the first at sign.\<close>

definition parseUser :: "string \<Rightarrow> connString \<Rightarrow> string + connString \<times> string" where
  "parseUser uri u =
     (case splitTwo (CHR ''@'') uri of
        [info, rest] \<Rightarrow>
          (case (case splitTwo (CHR '':'') info of [name, pass] \<Rightarrow> (name, Some pass) | _ \<Rightarrow> (info, None)) of
             (name, pass) \<Rightarrow>
               if CHR ''/'' \<in> set name then Inl ''unescaped slash in username''
               else case queryUnescape name of
                   None \<Rightarrow> Inl ''invalid username''
                 | Some user \<Rightarrow>
                     (case pass of
                        None \<Rightarrow> Inr (inAuth (\<lambda>a. a\<lparr>auUsername := Some user\<rparr>) u, rest)
                      | Some word \<Rightarrow>
                          if CHR '':'' \<in> set word then Inl ''unescaped colon in password''
                          else if CHR ''/'' \<in> set word then Inl ''unescaped slash in password''
                          else (case queryUnescape word of
                              None \<Rightarrow> Inl ''invalid password''
                            | Some w \<Rightarrow> Inr (inAuth (\<lambda>a. a\<lparr>auUsername := Some user, auPassword := Some w\<rparr>) u, rest))))
      | _ \<Rightarrow> Inr (u, uri))"

text \<open>The hosts, up to a slash or the end.\<close>

definition parseHostList :: "string \<Rightarrow> string + string \<times> string" where
  "parseHostList uri =
     (let hosts = takeWhile (\<lambda>c. c \<notin> set ''/?@'') uri; rest = dropWhile (\<lambda>c. c \<notin> set ''/?@'') uri in
      if rest \<noteq> '''' \<and> hd rest = CHR ''@'' then Inl ''unescaped @ sign in user info''
      else if rest \<noteq> '''' \<and> hd rest = CHR ''?'' then Inl ''must have a / before the query ?''
      else Inr (hosts, rest))"

definition extractDatabaseFromURI :: "string \<Rightarrow> string + string \<times> string" where
  "extractDatabaseFromURI uri =
     (if uri = '''' then Inr ('''', '''')
      else if hd uri \<noteq> CHR ''/'' then Inl ''must have a / separator between hosts and path''
      else if tl uri = '''' then Inr ('''', '''')
      else
        let database = takeWhile (\<lambda>c. c \<noteq> CHR ''?'') (tl uri) in
        case queryUnescape database of
          None \<Rightarrow> Inl (''invalid database '' @ database)
        | Some db \<Rightarrow> Inr (dropWhile (\<lambda>c. c \<noteq> CHR ''?'') (tl uri), db))"

text \<open>The error of this function is overwritten by its caller before it is looked at.\<close>

definition extractQueryArgsFromURI :: "string \<Rightarrow> string list \<times> string option" where
  "extractQueryArgsFromURI uri =
     (if uri = '''' then ([], None)
      else if hd uri \<noteq> CHR ''?'' then ([], Some ''must have a ? separator between path and query'')
      else (fieldsOf argSeparators (tl uri), None))"

text \<open>The source of the credentials, when the string does not name one.\<close>

definition orSource :: "string \<Rightarrow> string \<Rightarrow> connString \<Rightarrow> connString" where
  "orSource db fallback u =
     (if auSource (csAuth u) = ''''
      then inAuth (\<lambda>a. a\<lparr>auSource := (if db = '''' then fallback else db)\<rparr>) u else u)"

definition externalSource :: "connString \<Rightarrow> string + connString" where
  "externalSource u =
     (if auSource (csAuth u) = '''' then Inr (inAuth (\<lambda>a. a\<lparr>auSource := ''$external''\<rparr>) u)
      else if auSource (csAuth u) \<noteq> ''$external'' then Inl ''auth source must be $external''
      else Inr u)"

definition serviceName :: "authPart \<Rightarrow> authPart" where
  "serviceName a =
     (case auProperties a of
        None \<Rightarrow> a\<lparr>auProperties := Some [(''SERVICE_NAME'', ''mongodb'')]\<rparr>
      | Some m \<Rightarrow>
          if map_of m ''SERVICE_NAME'' = None \<or> map_of m ''SERVICE_NAME'' = Some ''''
          then a\<lparr>auProperties := Some (AList.update ''SERVICE_NAME'' ''mongodb'' m)\<rparr> else a)"

definition setDefaultAuthParams :: "(string \<Rightarrow> string) \<Rightarrow> string \<Rightarrow> connString \<Rightarrow> string + connString" where
  "setDefaultAuthParams low db u =
     (let mechanism = ToLower low (auMechanism (csAuth u)) in
      if auSourceSet (csAuth u) \<and> auSource (csAuth u) = '''' then Inl ''authSource must be non-empty when supplied in a URI''
      else if mechanism = ''plain'' then Inr (orSource db ''$external'' u)
      else if mechanism = ''gssapi'' then externalSource (inAuth serviceName u)
      else if mechanism = ''mongodb-aws'' \<or> mechanism = ''mongodb-x509'' then externalSource u
      else if mechanism \<in> {''mongodb-cr'', ''scram-sha-1'', ''scram-sha-256''} then Inr (orSource db ''admin'' u)
      else if mechanism = '''' then
        Inr (if auProperties (csAuth u) \<noteq> None \<or> userName u \<noteq> '''' \<or> auPassword (csAuth u) \<noteq> None
             then orSource db ''admin'' u else u)
      else Inl ''invalid auth mechanism'')"

text \<open>The hosts to add and the arguments in front of those of the string, from DNS for an SRV string.\<close>

definition resolveHosts :: "mongoEnv \<Rightarrow> string \<Rightarrow> string \<Rightarrow> connString \<Rightarrow> string + string list \<times> string list \<times> connString" where
  "resolveHosts e scheme hosts u =
     (if scheme \<noteq> ''mongodb+srv'' then Inr (splitOn (CHR '','') hosts, [], u)
      else case ParseHosts e hosts True of
          Inl err \<Rightarrow> Inl err
        | Inr hs \<Rightarrow>
            (case GetConnectionArgsFromTXT e hosts of
               Inl err \<Rightarrow> Inl err
             | Inr args \<Rightarrow> Inr (hs, args, inTls (\<lambda>t. t\<lparr>tlSSL := True, tlSSLSet := True\<rparr>) u)))"

definition parsePath :: "mongoEnv \<Rightarrow> string list \<Rightarrow> string \<Rightarrow> connString \<Rightarrow> string + connString" where
  "parsePath e args uri u =
     (case extractDatabaseFromURI uri of
        Inl err \<Rightarrow> Inl err
      | Inr (query, db) \<Rightarrow>
          (case addOptions (lowerUnicode e) (args @ fst (extractQueryArgsFromURI query)) (u\<lparr>csDatabase := db\<rparr>) of
             Inl err \<Rightarrow> Inl err
           | Inr u' \<Rightarrow> setDefaultAuthParams (lowerUnicode e) db u'))"

definition parseRest :: "mongoEnv \<Rightarrow> string \<Rightarrow> connString \<Rightarrow> string + connString" where
  "parseRest e uri u =
     (case parseHostList uri of
        Inl err \<Rightarrow> Inl err
      | Inr (hosts, rest) \<Rightarrow>
          (case resolveHosts e (csScheme u) hosts u of
             Inl err \<Rightarrow> Inl err
           | Inr (hs, args, u1) \<Rightarrow>
               (case addHosts hs u1 of
                  Inl err \<Rightarrow> Inl err
                | Inr u2 \<Rightarrow>
                    if csHosts u2 = [] then Inl ''must have at least 1 host'' else parsePath e args rest u2)))"

definition parseConn :: "mongoEnv \<Rightarrow> string \<Rightarrow> string + connString" where
  "parseConn e uri =
     (case parseScheme uri of
        None \<Rightarrow> Inl ''scheme must be mongodb or mongodb+srv''
      | Some (scheme, rest) \<Rightarrow>
          (case parseUser rest (noConnString\<lparr>csScheme := scheme\<rparr>) of
             Inl err \<Rightarrow> Inl err
           | Inr (u, rest') \<Rightarrow> parseRest e rest' u))"

section \<open>Validation\<close>

definition needsBoth :: "string \<Rightarrow> connString \<Rightarrow> string option" where
  "needsBoth name u =
     (if userName u = '''' then Some (''username required for '' @ name)
      else if passWord u = '''' then Some (''password required for '' @ name)
      else if auProperties (csAuth u) \<noteq> None then Some (name @ '' cannot have mechanism properties'')
      else None)"

text \<open>The properties given for a mechanism all have allowed names.\<close>

definition propsWithin :: "string set \<Rightarrow> connString \<Rightarrow> bool" where
  "propsWithin names u = (case auProperties (csAuth u) of None \<Rightarrow> True | Some m \<Rightarrow> list_all (\<lambda>kv. fst kv \<in> names) m)"

definition noProps :: "connString \<Rightarrow> bool" where
  "noProps u = (case auProperties (csAuth u) of None \<Rightarrow> True | Some m \<Rightarrow> m = [])"

definition validateAuth :: "(string \<Rightarrow> string) \<Rightarrow> connString \<Rightarrow> string option" where
  "validateAuth low u =
     (let mechanism = ToLower low (auMechanism (csAuth u)) in
      if mechanism = ''mongodb-cr'' then needsBoth ''MONGO-CR'' u
      else if mechanism = ''mongodb-x509'' then
        (if passWord u \<noteq> '''' then Some ''password cannot be specified for MONGO-X509''
         else if auProperties (csAuth u) \<noteq> None then Some ''MONGO-X509 cannot have mechanism properties''
         else None)
      else if mechanism = ''mongodb-aws'' then
        (if userName u \<noteq> '''' \<and> passWord u = '''' then Some ''username without password is invalid for MONGODB-AWS''
         else if userName u = '''' \<and> passWord u \<noteq> '''' then Some ''password without username is invalid for MONGODB-AWS''
         else if \<not> propsWithin {''AWS_SESSION_TOKEN''} u then Some ''invalid auth property for MONGODB-AWS''
         else if \<not> noProps u \<and> userName u = '''' \<and> passWord u = ''''
         then Some ''token without username and password is invalid for MONGODB-AWS''
         else None)
      else if mechanism = ''gssapi'' then
        (if userName u = '''' then Some ''username required for GSSAPI''
         else if \<not> propsWithin {''SERVICE_NAME'', ''CANONICALIZE_HOST_NAME'', ''SERVICE_REALM''} u
         then Some ''invalid auth property for GSSAPI''
         else None)
      else if mechanism = ''plain'' then needsBoth ''PLAIN'' u
      else if mechanism = ''scram-sha-1'' then needsBoth ''SCRAM-SHA-1'' u
      else if mechanism = ''scram-sha-256'' then needsBoth ''SCRAM-SHA-256'' u
      else if mechanism = '''' then
        (if auUsername (csAuth u) = Some '''' then Some ''username required if URI contains user info'' else None)
      else Some ''invalid auth mechanism'')"

definition validateSSL :: "connString \<Rightarrow> string option" where
  "validateSSL u =
     (let t = csTls u in
      if \<not> tlSSL t then None
      else if tlKeyFile t \<noteq> None then
        (if tlCertFile t \<noteq> None \<or> tlPrivateFile t \<noteq> None
         then Some ''the tlsCertificateKeyFile URI option cannot be provided along with tlsCertificateFile or tlsPrivateKeyFile''
         else None)
      else if tlCertFile t \<noteq> None \<and> tlPrivateFile t = None
      then Some ''the tlsPrivateKeyFile URI option must be provided if the tlsCertificateFile option is specified''
      else if tlPrivateFile t \<noteq> None \<and> tlCertFile t = None
      then Some ''the tlsCertificateFile URI option must be provided if the tlsPrivateKeyFile option is specified''
      else if tlInsecure t \<noteq> None \<and> tlNoOCSP t \<noteq> None
      then Some ''the tlsInsecure URI option cannot be provided along with tlsDisableOCSPEndpointCheck''
      else None)"

definition askedDirect :: "connString \<Rightarrow> bool" where
  "askedDirect u = (tpConnect (csTopology u) = Some SingleConnect \<or> tpDirect (csTopology u) = Some True)"

definition validateTopology :: "connString \<Rightarrow> string option" where
  "validateTopology u =
     (let balanced = (tpBalanced (csTopology u) = Some True) in
      if askedDirect u \<and> 1 < length (csHosts u)
      then Some ''a direct connection cannot be made if multiple hosts are specified''
      else if askedDirect u \<and> csScheme u = ''mongodb+srv''
      then Some ''a direct connection cannot be made if an SRV URI is used''
      else if askedDirect u \<and> balanced then Some ''loadBalanced cannot be set to true if the direct connection option is specified''
      else if balanced \<and> 1 < length (csHosts u) then Some ''loadBalanced cannot be set to true if multiple hosts are specified''
      else if balanced \<and> tpReplicaSet (csTopology u) \<noteq> ''''
      then Some ''loadBalanced cannot be set to true if a replica set name is specified''
      else None)"

definition validateConn :: "(string \<Rightarrow> string) \<Rightarrow> connString \<Rightarrow> string option" where
  "validateConn low u =
     (case validateAuth low u of
        Some err \<Rightarrow> Some err
      | None \<Rightarrow>
          (case validateSSL u of
             Some err \<Rightarrow> Some err
           | None \<Rightarrow>
               if ccNumberSet (csConcern u) \<and> ccNumber (csConcern u) = 0 \<and> ccJournal (csConcern u) = Some True
               then Some ''a write concern cannot have both w=0 and j=true''
               else validateTopology u))"

definition ParseAndValidate :: "mongoEnv \<Rightarrow> string \<Rightarrow> string + connString" where
  "ParseAndValidate e uri =
     (case parseConn e uri of
        Inl err \<Rightarrow> Inl (''error parsing uri: '' @ err)
      | Inr u \<Rightarrow> (case validateConn (lowerUnicode e) u of Some err \<Rightarrow> Inl (''error validating uri: '' @ err) | None \<Rightarrow> Inr u))"

section \<open>Every accepted string\<close>

lemma splitTwo_cases: "splitTwo d s = [a, b] \<Longrightarrow> s = a @ d # b \<and> d \<notin> set a"
proof -
  assume "splitTwo d s = [a, b]"
  then have d: "d \<in> set s" and ab: "a = takeWhile (\<lambda>c. c \<noteq> d) s" "b = tl (dropWhile (\<lambda>c. c \<noteq> d) s)"
    by (auto simp: splitTwo_def split: if_splits)
  have "dropWhile (\<lambda>c. c \<noteq> d) s \<noteq> []" using d by (simp add: dropWhile_eq_Nil_conv)
  then have "dropWhile (\<lambda>c. c \<noteq> d) s = d # b" using ab(2) hd_dropWhile [of "\<lambda>c. c \<noteq> d" s] by (cases "dropWhile (\<lambda>c. c \<noteq> d) s") auto
  then have "s = a @ d # b" using ab(1) takeWhile_dropWhile_id [of "\<lambda>c. c \<noteq> d" s] by simp
  moreover have "d \<notin> set a" using ab(1) set_takeWhileD [of d "\<lambda>c. c \<noteq> d" s] by auto
  ultimately show ?thesis by blast
qed

lemma splitTwo_split: "d \<notin> set a \<Longrightarrow> splitTwo d (a @ d # b) = [a, b]"
  by (simp add: splitTwo_def takeWhile_append_stop dropWhile_append)

lemma splitTwo_single: "d \<notin> set s \<Longrightarrow> splitTwo d s = [s]"
  by (simp add: splitTwo_def)

text \<open>A host is a name or address, with a port between 1 and 65535 or none.\<close>

definition goodHost :: "string \<Rightarrow> bool" where
  "goodHost h =
     (h \<noteq> '''' \<and>
      (case splitHostPort h of
         BadAddress \<Rightarrow> False
       | MissingPort \<Rightarrow> True
       | HostPort _ port \<Rightarrow> port = '''' \<or> (case AtoiErr port of None \<Rightarrow> False | Some d \<Rightarrow> 1 \<le> d \<and> d \<le> 65535)))"

text \<open>The settings that a parsed string can have.\<close>

definition inRange :: "int \<Rightarrow> int \<Rightarrow> int option \<Rightarrow> bool" where
  "inRange low high x = (case x of None \<Rightarrow> True | Some n \<Rightarrow> low \<le> n \<and> n \<le> high)"

definition goodSettings :: "connString \<Rightarrow> bool" where
  "goodSettings u \<longleftrightarrow>
     inRange 0 9 (tuZlib (csTuning u)) \<and> inRange 0 22 (tuZstd (csTuning u))
     \<and> inRange 0 maxInt (map_option uint (tuMaxPool (csTuning u))) \<and> inRange 0 maxInt (map_option uint (tuMinPool (csTuning u)))
     \<and> 0 \<le> ccNumber (csConcern u) \<and> (ccNumberSet (csConcern u) \<longrightarrow> ccW (csConcern u) = '''')
     \<and> (tpConnect (csTopology u) \<noteq> None \<longrightarrow> tpDirect (csTopology u) \<noteq> None \<longrightarrow>
          (tpConnect (csTopology u) = Some SingleConnect) = (tpDirect (csTopology u) = Some True))
     \<and> (tlSSL (csTls u) \<longrightarrow> tlSSLSet (csTls u))"

text \<open>A setter keeps them, and leaves the hosts and the lists of options alone.\<close>

definition sameFrame :: "connString \<Rightarrow> connString \<Rightarrow> bool" where
  "sameFrame u u' \<longleftrightarrow> csScheme u' = csScheme u \<and> csHosts u' = csHosts u \<and> csDatabase u' = csDatabase u
     \<and> csOptions u' = csOptions u"

definition keepsSettings :: "setter \<Rightarrow> bool" where
  "keepsSettings f \<longleftrightarrow> (\<forall>key val u u'. goodSettings u \<longrightarrow> f key val u = Inr u' \<longrightarrow> goodSettings u' \<and> sameFrame u u')"

lemma keepsSettingsD: "keepsSettings f \<Longrightarrow> f key val u = Inr u' \<Longrightarrow> goodSettings u \<Longrightarrow> goodSettings u' \<and> sameFrame u u'"
  unfolding keepsSettings_def by blast

lemma keeps_plain: "(\<And>v u. goodSettings u \<Longrightarrow> goodSettings (f v u) \<and> sameFrame u (f v u)) \<Longrightarrow> keepsSettings (plainSetter f)"
  by (simp add: keepsSettings_def plainSetter_def)

lemma keeps_count:
  "(\<And>n u. 0 \<le> n \<Longrightarrow> n \<le> maxInt \<Longrightarrow> goodSettings u \<Longrightarrow> goodSettings (f n u) \<and> sameFrame u (f n u)) \<Longrightarrow> keepsSettings (countSetter f)"
  by (auto simp: keepsSettings_def countSetter_def dest: AtoiErr_range split: option.splits if_splits)

lemma keeps_bool: "(\<And>b u. goodSettings u \<Longrightarrow> goodSettings (f b u) \<and> sameFrame u (f b u)) \<Longrightarrow> keepsSettings (boolSetter f)"
  by (auto simp: keepsSettings_def boolSetter_def split: if_splits)

lemma keeps_level:
  "(\<And>n u. 0 \<le> n \<Longrightarrow> n \<le> most \<Longrightarrow> goodSettings u \<Longrightarrow> goodSettings (f n u) \<and> sameFrame u (f n u)) \<Longrightarrow> 6 \<le> most \<Longrightarrow>
   keepsSettings (levelSetter most f)"
  by (auto simp: keepsSettings_def levelSetter_def split: option.splits if_splits)

lemma pool_word: "0 \<le> n \<Longrightarrow> n \<le> maxInt \<Longrightarrow> uint (word_of_int n :: 64 word) = n"
  by (simp add: maxInt_def uint_word_of_int take_bit_int_eq_self)

lemmas good_parts = goodSettings_def in_parts withTls_def inRange_def sameFrame_def

lemma keeps_credential: "list_all (\<lambda>kf. keepsSettings (snd kf)) credentialOptions"
  by (auto simp: credentialOptions_def good_parts keepsSettings_def plainSetter_def split: option.splits)

lemma keeps_connect: "list_all (\<lambda>kf. keepsSettings (snd kf)) (connectOptions low)"
  by (auto simp: connectOptions_def connectValue_def directValue_def good_parts keepsSettings_def Let_def
      split: option.splits if_splits)

lemma keeps_timing: "list_all (\<lambda>kf. keepsSettings (snd kf)) timingOptions"
  by (auto simp: timingOptions_def good_parts pool_word intro!: keeps_count keeps_bool)

lemma keeps_read: "list_all (\<lambda>kf. keepsSettings (snd kf)) readOptions"
proof -
  have "keepsSettings tagsValue"
    by (auto simp: keepsSettings_def tagsValue_def good_parts split: option.splits if_splits)
  then show ?thesis by (auto simp: readOptions_def good_parts intro!: keeps_count keeps_bool keeps_plain)
qed

lemma keeps_tls: "list_all (\<lambda>kf. keepsSettings (snd kf)) tlsOptions"
proof -
  have "keepsSettings tlsValue"
    by (auto simp: keepsSettings_def tlsValue_def good_parts Let_def split: if_splits)
  then show ?thesis by (auto simp: tlsOptions_def good_parts intro!: keeps_bool keeps_plain)
qed

lemma keeps_concern: "list_all (\<lambda>kf. keepsSettings (snd kf)) concernOptions"
proof -
  have "keepsSettings wValue"
    by (auto simp: keepsSettings_def wValue_def good_parts split: option.splits if_splits)
  moreover have "keepsSettings wtimeoutValue"
    by (auto simp: keepsSettings_def wtimeoutValue_def countSetter_def good_parts split: option.splits if_splits)
  ultimately show ?thesis by (auto simp: concernOptions_def good_parts intro!: keeps_count keeps_level)
qed

lemma optionTable_keeps: "map_of (optionTable low) name = Some f \<Longrightarrow> keepsSettings f"
proof -
  assume "map_of (optionTable low) name = Some f"
  then have "(name, f) \<in> set (optionTable low)" by (rule map_of_SomeD)
  moreover have "list_all (\<lambda>kf. keepsSettings (snd kf)) (optionTable low)"
    using keeps_credential keeps_connect keeps_timing keeps_read keeps_tls keeps_concern by (simp add: optionTable_def)
  ultimately show ?thesis by (auto simp: list_all_iff)
qed

lemma goodSettings_more [simp]:
  "goodSettings (u\<lparr>csOptions := o'\<rparr>) = goodSettings u" "goodSettings (u\<lparr>csUnknown := o'\<rparr>) = goodSettings u"
  "goodSettings (u\<lparr>csDatabase := db\<rparr>) = goodSettings u" "goodSettings (u\<lparr>csHosts := hs\<rparr>) = goodSettings u"
  "goodSettings (inAuth f u) = goodSettings u"
  by (simp_all add: good_parts)

lemma addOption_good:
  assumes "addOption low p u = Inr u'" and "goodSettings u"
  shows "goodSettings u' \<and> csHosts u' = csHosts u \<and> csScheme u' = csScheme u \<and> csDatabase u' = csDatabase u"
proof -
  from assms(1) obtain key val name u1 where u1: "applyOption low name key val u = Inr u1"
      "u' = u1\<lparr>csOptions := (csOptions u1)(name := csOptions u1 name @ [val])\<rparr>"
    unfolding addOption_def Let_def by (auto split: list.splits option.splits sum.splits if_splits)
  show ?thesis
  proof (cases "map_of (optionTable low) name")
    case None
    with u1 assms(2) show ?thesis by (auto simp: applyOption_def)
  next
    case (Some f)
    with u1(1) have "goodSettings u1 \<and> sameFrame u u1"
      using keepsSettingsD [OF optionTable_keeps [OF Some] _ assms(2)] by (simp add: applyOption_def)
    with u1(2) show ?thesis by (simp add: sameFrame_def)
  qed
qed

lemma addOptions_good:
  "addOptions low ps u = Inr u' \<Longrightarrow> goodSettings u \<Longrightarrow>
   goodSettings u' \<and> csHosts u' = csHosts u \<and> csScheme u' = csScheme u \<and> csDatabase u' = csDatabase u"
proof (induction ps arbitrary: u)
  case (Cons p ps)
  then obtain u1 where u1: "addOption low p u = Inr u1" "addOptions low ps u1 = Inr u'" by (auto split: sum.splits)
  from addOption_good [OF u1(1) Cons.prems(2)] Cons.IH [OF u1(2)] show ?case by simp
qed simp

lemma queryUnescape_Nil: "queryUnescape s = Some [] \<Longrightarrow> s = []"
  by (induction s rule: queryUnescape.induct) (auto split: list.splits if_splits)

lemma addHost_good:
  "addHost h u = Inr u' \<Longrightarrow> list_all goodHost (csHosts u) \<Longrightarrow>
   list_all goodHost (csHosts u') \<and> (goodSettings u' = goodSettings u) \<and> csScheme u' = csScheme u"
  using queryUnescape_Nil [of h]
  by (auto simp: addHost_def goodHost_def split: if_splits option.splits hostPort.splits)

lemma addHosts_good:
  "addHosts hs u = Inr u' \<Longrightarrow> list_all goodHost (csHosts u) \<Longrightarrow>
   list_all goodHost (csHosts u') \<and> (goodSettings u' = goodSettings u) \<and> csScheme u' = csScheme u"
proof (induction hs arbitrary: u)
  case (Cons h hs)
  then obtain u1 where u1: "addHost h u = Inr u1" "addHosts hs u1 = Inr u'" by (auto split: sum.splits)
  from addHost_good [OF u1(1) Cons.prems(2)] Cons.IH [OF u1(2)] show ?case by simp
qed simp

text \<open>Steps that change the credentials only.\<close>

lemma inAuth_id: "inAuth (\<lambda>a. a) u = u"
  by (simp add: inAuth_def)

lemma same_auth: "\<exists>f. u = inAuth f u"
  using inAuth_id [of u] by metis

lemma inAuth_comp: "inAuth f (inAuth g u) = inAuth (\<lambda>a. f (g a)) u"
  by (simp add: inAuth_def)

lemma inAuth_frame [simp]:
  "csHosts (inAuth f u) = csHosts u" "csScheme (inAuth f u) = csScheme u" "csDatabase (inAuth f u) = csDatabase u"
  "csTls (inAuth f u) = csTls u" "csTopology (inAuth f u) = csTopology u" "csConcern (inAuth f u) = csConcern u"
  "csTuning (inAuth f u) = csTuning u" "csOptions (inAuth f u) = csOptions u" "csAuth (inAuth f u) = f (csAuth u)"
  by (simp_all add: inAuth_def)

lemma orSource_auth: "\<exists>f. orSource db fallback u = inAuth f u"
  unfolding orSource_def using same_auth [of u] by auto

lemma externalSource_auth: "externalSource u = Inr u' \<Longrightarrow> \<exists>f. u' = inAuth f u"
  unfolding externalSource_def using same_auth [of u] by (auto split: if_splits)

lemma defaultAuth_auth:
  assumes "setDefaultAuthParams low db u = Inr u'"
  shows "\<exists>f. u' = inAuth f u"
proof -
  from assms consider (set) fallback where "u' = orSource db fallback u" | (external) "externalSource u = Inr u'"
    | (gssapi) "externalSource (inAuth serviceName u) = Inr u'" | (same) "u' = u"
    unfolding setDefaultAuthParams_def Let_def by (auto split: if_splits)
  then show ?thesis
  proof cases
    case gssapi
    from externalSource_auth [OF this] show ?thesis by (auto simp: inAuth_comp)
  next
    case same
    then show ?thesis using same_auth [of u] by simp
  qed (auto simp: orSource_auth externalSource_auth)
qed

lemma parseUser_auth: "parseUser uri u = Inr (u', rest) \<Longrightarrow> \<exists>f. u' = inAuth f u"
  unfolding parseUser_def using same_auth [of u] by (auto split: list.splits option.splits if_splits)

lemma parseConn_good:
  assumes "parseConn e uri = Inr u"
  shows "goodSettings u \<and> csHosts u \<noteq> [] \<and> list_all goodHost (csHosts u) \<and> csScheme u \<in> {''mongodb'', ''mongodb+srv''}"
proof -
  from assms obtain scheme rest u0 rest' where p: "parseScheme uri = Some (scheme, rest)"
    "parseUser rest (noConnString\<lparr>csScheme := scheme\<rparr>) = Inr (u0, rest')" "parseRest e rest' u0 = Inr u"
    by (auto simp: parseConn_def split: option.splits sum.splits)
  have s: "scheme \<in> {''mongodb'', ''mongodb+srv''}" using p(1) by (auto simp: parseScheme_def split: if_splits)
  have u0: "goodSettings u0" "csHosts u0 = []" "csScheme u0 = scheme"
    using parseUser_auth [OF p(2)] by (auto simp: noConnString_def good_parts maxInt_def)
  from p(3) obtain hosts tail hs args u1 u2 where r: "parseHostList rest' = Inr (hosts, tail)"
    "resolveHosts e (csScheme u0) hosts u0 = Inr (hs, args, u1)" "addHosts hs u1 = Inr u2" "csHosts u2 \<noteq> []"
    "parsePath e args tail u2 = Inr u"
    by (auto simp: parseRest_def split: sum.splits if_splits)
  have u1: "goodSettings u1" "csHosts u1 = csHosts u0" "csScheme u1 = csScheme u0"
    using r(2) u0(1) by (auto simp: resolveHosts_def good_parts split: sum.splits if_splits)
  have u2: "list_all goodHost (csHosts u2)" "goodSettings u2" "csScheme u2 = csScheme u1"
    using addHosts_good [OF r(3)] u1 u0(2) by simp_all
  from r(5) obtain query db u3 where
    "addOptions (lowerUnicode e) (args @ fst (extractQueryArgsFromURI query)) (u2\<lparr>csDatabase := db\<rparr>) = Inr u3"
    "setDefaultAuthParams (lowerUnicode e) db u3 = Inr u"
    by (auto simp: parsePath_def split: sum.splits)
  with addOptions_good [OF this(1)] defaultAuth_auth [OF this(2)] s u0 u1 u2 r(4) show ?thesis by auto
qed

lemma accepted_sound:
  assumes "ParseAndValidate e uri = Inr u"
  shows "csHosts u \<noteq> [] \<and> list_all goodHost (csHosts u) \<and> goodSettings u
    \<and> (askedDirect u \<longrightarrow> length (csHosts u) = 1 \<and> csScheme u = ''mongodb'' \<and> tpBalanced (csTopology u) \<noteq> Some True)
    \<and> (tpBalanced (csTopology u) = Some True \<longrightarrow> length (csHosts u) = 1 \<and> tpReplicaSet (csTopology u) = '''')
    \<and> \<not> (ccNumberSet (csConcern u) \<and> ccNumber (csConcern u) = 0 \<and> ccJournal (csConcern u) = Some True)
    \<and> (auMechanism (csAuth u) = '''' \<longrightarrow> auUsername (csAuth u) \<noteq> Some '''')"
proof -
  from assms have p: "parseConn e uri = Inr u" and v: "validateConn (lowerUnicode e) u = None"
    by (auto simp: ParseAndValidate_def split: sum.splits option.splits)
  from v have a: "validateAuth (lowerUnicode e) u = None" and t: "validateTopology u = None"
    and w: "\<not> (ccNumberSet (csConcern u) \<and> ccNumber (csConcern u) = 0 \<and> ccJournal (csConcern u) = Some True)"
    by (auto simp: validateConn_def split: option.splits if_splits)
  have l: "auMechanism (csAuth u) = '''' \<longrightarrow> auUsername (csAuth u) \<noteq> Some ''''"
    using a by (auto simp: validateAuth_def ToLower_def toLower_def Let_def)
  note g = parseConn_good [OF p]
  then have one: "\<not> 1 < length (csHosts u) \<Longrightarrow> length (csHosts u) = 1" by (cases "csHosts u") auto
  have "askedDirect u \<longrightarrow> length (csHosts u) = 1 \<and> csScheme u = ''mongodb'' \<and> tpBalanced (csTopology u) \<noteq> Some True"
    using t one g by (auto simp: validateTopology_def Let_def split: if_splits)
  moreover have "tpBalanced (csTopology u) = Some True \<longrightarrow> length (csHosts u) = 1 \<and> tpReplicaSet (csTopology u) = ''''"
    using t one by (auto simp: validateTopology_def Let_def split: if_splits)
  ultimately show ?thesis using g w l by blast
qed

section \<open>What is read from a string\<close>

lemma splitOn_single: "d \<notin> set s \<Longrightarrow> splitOn d s = [s]"
  by (induction s) auto

definition credentials :: "string \<Rightarrow> string \<Rightarrow> string \<Rightarrow> authPart" where
  "credentials user pass db = \<lparr>auMechanism = '''', auProperties = None, auSource = (if db = '''' then ''admin'' else db),
     auSourceSet = False, auUsername = Some user, auPassword = Some pass\<rparr>"

definition plainConn :: "string \<Rightarrow> string \<Rightarrow> string \<Rightarrow> string \<Rightarrow> connString" where
  "plainConn user pass host db =
     noConnString\<lparr>csScheme := ''mongodb'', csHosts := [host], csDatabase := db, csAuth := credentials user pass db\<rparr>"

text \<open>A host name or address as it can stand in a string.\<close>

definition hostText :: "string \<Rightarrow> bool" where
  "hostText h = (h \<noteq> '''' \<and> list_all (\<lambda>c. c \<notin> set ''%+@:/?,[]'') h)"

lemma parseScheme_mongodb: "parseScheme (''mongodb://'' @ s) = Some (''mongodb'', s)"
  by (simp add: parseScheme_def hasPrefix_def)

lemma parseUser_plain:
  assumes "list_all (\<lambda>c. c \<notin> set ''@:/'') U" and "list_all (\<lambda>c. c \<notin> set ''@:/'') P"
    and "queryUnescape U = Some user" and "queryUnescape P = Some pass"
  shows "parseUser (U @ '':'' @ P @ ''@'' @ R) u = Inr (inAuth (\<lambda>a. a\<lparr>auUsername := Some user, auPassword := Some pass\<rparr>) u, R)"
proof -
  have c: "CHR ''@'' \<notin> set (U @ CHR '':'' # P)" "CHR '':'' \<notin> set U" "CHR '':'' \<notin> set P" "CHR ''/'' \<notin> set U" "CHR ''/'' \<notin> set P"
    using assms(1,2) by (auto simp: list_all_iff)
  have "splitTwo (CHR ''@'') ((U @ CHR '':'' # P) @ CHR ''@'' # R) = [U @ CHR '':'' # P, R]" by (rule splitTwo_split [OF c(1)])
  moreover have "splitTwo (CHR '':'') (U @ CHR '':'' # P) = [U, P]" by (rule splitTwo_split [OF c(2)])
  ultimately show ?thesis using c assms(3,4) by (simp add: parseUser_def)
qed

lemma parseHostList_plain:
  "list_all (\<lambda>c. c \<notin> set ''/?@'') h \<Longrightarrow> parseHostList (h @ ''/'' @ D) = Inr (h, CHR ''/'' # D)"
proof -
  assume h: "list_all (\<lambda>c. c \<notin> set ''/?@'') h"
  have "takeWhile (\<lambda>c. c \<notin> set ''/?@'') (h @ CHR ''/'' # D) = h"
    using h by (subst takeWhile_append2) (auto simp: list_all_iff)
  moreover have "dropWhile (\<lambda>c. c \<notin> set ''/?@'') (h @ CHR ''/'' # D) = CHR ''/'' # D"
    using h by (subst dropWhile_append2) (auto simp: list_all_iff)
  ultimately show ?thesis by (simp add: parseHostList_def)
qed

lemma port_digits: "list_all (\<lambda>c. c \<notin> set ''%+@:/?,[]'') (dec n)"
  using dec_digits [of n] by (rule list.pred_mono_strong) (auto simp: is_digit_def)

lemma addHost_plain:
  assumes "hostText h" and "1 \<le> n" and "n \<le> 65535"
  shows "addHost (h @ '':'' @ dec n) u = Inr (u\<lparr>csHosts := csHosts u @ [h @ '':'' @ dec n]\<rparr>)"
proof -
  have h: "list_all (\<lambda>c. c \<notin> set ''%+@:/?,[]'') h" "h \<noteq> []" using assms(1) by (simp_all add: hostText_def)
  have "queryUnescape (h @ '':'' @ dec n) = Some (h @ '':'' @ dec n)"
    by (rule queryUnescape_plain) (use h(1) port_digits [of n] in \<open>auto simp: list_all_iff\<close>)
  moreover have "splitHostPort (h @ CHR '':'' # dec n) = HostPort h (dec n)"
    by (rule splitHostPort_plain) (use h port_digits [of n] in \<open>auto simp: list_all_iff\<close>)
  moreover have "AtoiErr (dec n) = Some (int n)" using assms(3) by (intro AtoiErr_dec) (simp add: maxInt_def)
  ultimately show ?thesis using h(2) assms(2,3) by (simp add: addHost_def)
qed

lemma parsePath_plain:
  assumes "list_all (\<lambda>c. c \<noteq> CHR ''?'') D" and "queryUnescape D = Some db"
  shows "parsePath e [] (CHR ''/'' # D) u = setDefaultAuthParams (lowerUnicode e) db (u\<lparr>csDatabase := db\<rparr>)"
proof (cases "D = []")
  case True
  then show ?thesis using assms(2) by (simp add: parsePath_def extractDatabaseFromURI_def extractQueryArgsFromURI_def)
next
  case False
  have "takeWhile (\<lambda>c. c \<noteq> CHR ''?'') D = D" "dropWhile (\<lambda>c. c \<noteq> CHR ''?'') D = []"
    using assms(1) by (auto simp: takeWhile_eq_all_conv dropWhile_eq_Nil_conv list_all_iff)
  then have "extractDatabaseFromURI (CHR ''/'' # D) = Inr ('''', db)"
    using False assms(2) by (simp add: extractDatabaseFromURI_def Let_def del: takeWhile_eq_all_conv)
  then show ?thesis by (simp add: parsePath_def extractQueryArgsFromURI_def)
qed

lemma parse_plain:
  assumes "list_all (\<lambda>c. c \<notin> set ''@:/'') U" and "list_all (\<lambda>c. c \<notin> set ''@:/'') P" and "list_all (\<lambda>c. c \<noteq> CHR ''?'') D"
    and "queryUnescape U = Some user" and "queryUnescape P = Some pass" and "queryUnescape D = Some db"
    and "hostText h" and "1 \<le> n" and "n \<le> 65535"
  shows "parseConn e (''mongodb://'' @ U @ '':'' @ P @ ''@'' @ (h @ '':'' @ dec n) @ ''/'' @ D) =
    Inr (plainConn user pass (h @ '':'' @ dec n) db)"
proof -
  let ?h = "h @ '':'' @ dec n"
  let ?u = "inAuth (\<lambda>a. a\<lparr>auUsername := Some user, auPassword := Some pass\<rparr>) (noConnString\<lparr>csScheme := ''mongodb''\<rparr>)"
  have plain: "list_all (\<lambda>c. c \<notin> set ''/?@'') ?h" "CHR '','' \<notin> set ?h"
    using assms(7) port_digits [of n] by (auto simp: hostText_def list_all_iff)
  have u: "parseUser (U @ '':'' @ P @ ''@'' @ ?h @ ''/'' @ D) (noConnString\<lparr>csScheme := ''mongodb''\<rparr>) = Inr (?u, ?h @ ''/'' @ D)"
    by (rule parseUser_plain [OF assms(1,2,4,5)])
  have hosts: "resolveHosts e (csScheme ?u) ?h ?u = Inr ([?h], [], ?u)"
    using splitOn_single [OF plain(2)] by (simp add: resolveHosts_def)
  have "addHosts [?h] ?u = Inr (?u\<lparr>csHosts := [?h]\<rparr>)"
    using addHost_plain [OF assms(7-9), of ?u] by (simp add: noConnString_def)
  then have "parseRest e (?h @ ''/'' @ D) ?u =
      setDefaultAuthParams (lowerUnicode e) db (?u\<lparr>csHosts := [?h], csDatabase := db\<rparr>)"
    using parseHostList_plain [OF plain(1), of D] hosts parsePath_plain [OF assms(3,6), of e]
    by (simp add: parseRest_def)
  also have "\<dots> = Inr (plainConn user pass ?h db)"
    by (simp add: setDefaultAuthParams_def noConnString_def inAuth_def ToLower_def toLower_def Let_def orSource_def
        plainConn_def credentials_def)
  finally show ?thesis using u parseScheme_mongodb by (simp add: parseConn_def)
qed

lemma plainConn_valid: "user \<noteq> '''' \<Longrightarrow> validateConn low (plainConn user pass h db) = None"
  by (simp add: validateConn_def plainConn_def noConnString_def credentials_def validateAuth_def validateSSL_def
      validateTopology_def askedDirect_def ToLower_def toLower_def Let_def)

text \<open>
  C28. Escaped credentials arrive: from a connection string whose user, password and database are
  written with \<open>url.QueryEscape\<close>, whatever bytes they hold, the parser reads back exactly these,
  the one host with its port, and no options; the credentials are checked against that database.
\<close>

theorem escaped_uri_roundtrip:
  assumes "user \<noteq> ''''" and "hostText h" and "1 \<le> n" and "n \<le> 65535"
  shows "ParseAndValidate e (''mongodb://'' @ queryEscape user @ '':'' @ queryEscape pass @ ''@'' @ (h @ '':'' @ dec n) @ ''/''
      @ queryEscape db) = Inr (plainConn user pass (h @ '':'' @ dec n) db)"
proof -
  have e: "list_all (\<lambda>c. c \<notin> set ''@:/'') (queryEscape s)" "list_all (\<lambda>c. c \<noteq> CHR ''?'') (queryEscape s)" for s
    using queryEscape_plain [of s] by (auto simp: list_all_iff)
  show ?thesis
    using parse_plain [OF e(1) e(1) e(2) queryUnescape_escape queryUnescape_escape queryUnescape_escape assms(2-4), where e = e]
      plainConn_valid [OF assms(1)] by (simp add: ParseAndValidate_def)
qed

text \<open>
  C27. What the parser accepts can be used: a connection string that passes has at least one host,
  each with a port from 1 to 65535 or none; a zlib level from 0 to 9 and a zstd level from 0 to 22,
  as far as it has them; pool sizes that fit an \<open>int64\<close>; a write concern that is
  a number not below zero or a mode, not both; \<open>connect\<close> and \<open>directConnection\<close> in agreement; no
  direct or load-balanced connection to several hosts, no unacknowledged write that asks for the
  journal, and no empty user name when no mechanism is named. Of durations nothing is said: they
  can wrap into negative ones (\<open>millis_negative\<close>).
\<close>

theorem connection_string_sound:
  assumes "ParseAndValidate e uri = Inr u"
  shows "csHosts u \<noteq> [] \<and> list_all goodHost (csHosts u) \<and> goodSettings u
    \<and> (askedDirect u \<longrightarrow> length (csHosts u) = 1 \<and> csScheme u = ''mongodb'' \<and> tpBalanced (csTopology u) \<noteq> Some True)
    \<and> (tpBalanced (csTopology u) = Some True \<longrightarrow> length (csHosts u) = 1 \<and> tpReplicaSet (csTopology u) = '''')
    \<and> \<not> (ccNumberSet (csConcern u) \<and> ccNumber (csConcern u) = 0 \<and> ccJournal (csConcern u) = Some True)
    \<and> (auMechanism (csAuth u) = '''' \<longrightarrow> auUsername (csAuth u) \<noteq> Some '''')"
  using assms by (rule accepted_sound)

section \<open>Durations\<close>

text \<open>Milliseconds are multiplied into nanoseconds without a check.\<close>

lemma millis_exact: "0 \<le> n \<Longrightarrow> n \<le> maxInt \<Longrightarrow> millis n = n * 1000000 \<longleftrightarrow> n \<le> 9223372036854"
proof
  assume n: "0 \<le> n" "n \<le> 9223372036854"
  then show "millis n = n * 1000000" unfolding millis_def by (intro wrap64_small) (simp_all add: minInt_def maxInt_def)
next
  assume "millis n = n * 1000000"
  moreover have "millis n < 9223372036854775808"
    using sint_lt [of "word_of_int (n * 1000000) :: 64 word"] by (simp add: millis_def wrap64_def)
  ultimately show "n \<le> 9223372036854" by simp
qed

lemma millis_negative: "millis 9223372036855 = - 9223372036854551616"
  by (simp add: millis_def wrap64_def sint_sbintrunc' signed_take_bit_eq_take_bit_minus take_bit_eq_mod bit_iff_odd)

text \<open>The option \<open>wtimeout\<close> sets the time but not the flag.\<close>

lemma wtimeout_unflagged:
  "int n \<le> maxInt \<Longrightarrow> wtimeoutValue key (dec n) noConnString = Inr (inConcern (\<lambda>c. c\<lparr>ccTimeout := millis (int n)\<rparr>) noConnString)"
  by (simp add: wtimeoutValue_def countSetter_def AtoiErr_dec) (simp add: noConnString_def)

subsection \<open>Witnesses\<close>

definition sampleEnv :: mongoEnv where
  "sampleEnv = \<lparr>lookupSRV = (\<lambda>_. None), lookupTXT = (\<lambda>_. []), lowerUnicode = id\<rparr>"

lemma sample_host: "hostText ''db''"
  by (simp add: hostText_def)

theorem escaped_uri_roundtrip_witness:
  "ParseAndValidate sampleEnv (''mongodb://'' @ queryEscape ''neo'' @ '':'' @ queryEscape ''a:b/c@d+e'' @ ''@'' @ (''db'' @ '':'' @ dec 27017)
      @ ''/'' @ queryEscape ''fura'') = Inr (plainConn ''neo'' ''a:b/c@d+e'' (''db'' @ '':'' @ dec 27017) ''fura'')"
  by (rule escaped_uri_roundtrip) (simp_all add: sample_host)

lemma sample_accepted: "ParseAndValidate sampleEnv (''mongodb://'' @ ''neo'' @ '':'' @ ''p+w'' @ ''@'' @ (''db'' @ '':'' @ dec 27017) @ ''/'' @ ''fura'')
    = Inr (plainConn ''neo'' ''p w'' (''db'' @ '':'' @ dec 27017) ''fura'')"
proof -
  have "parseConn sampleEnv (''mongodb://'' @ ''neo'' @ '':'' @ ''p+w'' @ ''@'' @ (''db'' @ '':'' @ dec 27017) @ ''/'' @ ''fura'')
    = Inr (plainConn ''neo'' ''p w'' (''db'' @ '':'' @ dec 27017) ''fura'')"
    by (rule parse_plain) (simp_all add: sample_host)
  then show ?thesis by (simp add: ParseAndValidate_def plainConn_valid del: append_Cons append_Nil)
qed

theorem connection_string_sound_witness:
  "csHosts (plainConn ''neo'' ''p w'' (''db'' @ '':'' @ dec 27017) ''fura'') \<noteq> []
   \<and> list_all goodHost (csHosts (plainConn ''neo'' ''p w'' (''db'' @ '':'' @ dec 27017) ''fura''))"
  using connection_string_sound [OF sample_accepted] by blast

end
