(* ===== verification/MongoClient.thy ===== *)
theory MongoClient
  imports ConnString Config
begin

text \<open>
  The options of the database client, \<open>mongo/options/clientoptions.go\<close> of the driver: \<open>ApplyURI\<close>
  takes them from the parsed connection string, \<open>Validate\<close> looks for contradictions. Then what
  \<open>intializeMongoOnlineClient\<close> makes of the configuration file. An option that is not set is
  \<open>None\<close>; reading certificates is a parameter.
\<close>

section \<open>Options\<close>

record driverEnv = mongoEnv +
  caFile :: "string \<Rightarrow> string option"
  keyPairFile :: "string \<Rightarrow> string \<Rightarrow> string + string"
  keyPairFiles :: "string \<Rightarrow> string \<Rightarrow> string \<Rightarrow> string + string"

datatype readMode = Primary | PrimaryPreferred | Secondary | SecondaryPreferred | Nearest

record readPref =
  rpMode :: readMode
  rpTagSets :: "(string \<times> string) list list"
  rpStaleness :: "int option"

datatype writeW = NoW | WNumber int | WTag string

record writeConcern =
  wcW :: writeW
  wcJ :: bool
  wcTimeout :: int

record credential =
  crMechanism :: string
  crProperties :: "(string \<times> string) list option"
  crSource :: string
  crUsername :: string
  crPassword :: string
  crPasswordSet :: bool

record tlsConfig =
  tcInsecure :: bool
  tcCa :: "string option"
  tcSubject :: "string option"

record clientOptions =
  coAppName :: "string option"
  coAuth :: "credential option"
  coDirect :: "bool option"
  coConnectTimeout :: "int option"
  coCompressors :: "string list"
  coZlib :: "int option"
  coZstd :: "int option"
  coHeartbeat :: "int option"
  coHosts :: "string list"
  coBalanced :: "bool option"
  coLocalThreshold :: "int option"
  coMaxIdle :: "int option"
  coMaxPool :: "64 word option"
  coMinPool :: "64 word option"
  coReadConcern :: "string option"
  coReadPref :: "readPref option"
  coRetryWrites :: "bool option"
  coRetryReads :: "bool option"
  coReplicaSet :: "string option"
  coSelection :: "int option"
  coSocket :: "int option"
  coTls :: "tlsConfig option"
  coWriteConcern :: "writeConcern option"
  coNoOCSP :: "bool option"
  coError :: "string option"
  coScheme :: "string option"

text \<open>\<open>options.Client()\<close>.\<close>

definition emptyOptions :: clientOptions where
  "emptyOptions =
     \<lparr>coAppName = None, coAuth = None, coDirect = None, coConnectTimeout = None, coCompressors = [], coZlib = None,
      coZstd = None, coHeartbeat = None, coHosts = [], coBalanced = None, coLocalThreshold = None, coMaxIdle = None,
      coMaxPool = None, coMinPool = None, coReadConcern = None, coReadPref = None, coRetryWrites = None,
      coRetryReads = None, coReplicaSet = None, coSelection = None, coSocket = None, coTls = None,
      coWriteConcern = None, coNoOCSP = None, coError = None, coScheme = None\<rparr>"

section \<open>Read preference and write concern\<close>

definition ModeFromString :: "(string \<Rightarrow> string) \<Rightarrow> string \<Rightarrow> readMode option" where
  "ModeFromString low s =
     map_of [(''primary'', Primary), (''primarypreferred'', PrimaryPreferred), (''secondary'', Secondary),
       (''secondarypreferred'', SecondaryPreferred), (''nearest'', Nearest)] (ToLower low s)"

text \<open>The mode primary takes no options. Tag sets and staleness count as options when they are given.\<close>

definition newReadPref :: "readMode \<Rightarrow> (string \<times> string) list list \<Rightarrow> int \<Rightarrow> string + readPref" where
  "newReadPref mode sets staleness =
     (if mode = Primary \<and> (sets \<noteq> [] \<or> staleness \<noteq> 0)
      then Inl ''can not specify tags, max staleness, or hedge with mode primary''
      else Inr \<lparr>rpMode = mode, rpTagSets = sets, rpStaleness = (if staleness \<noteq> 0 then Some staleness else None)\<rparr>)"

text \<open>The option, or the error with whether it also unsets the option.\<close>

definition readPrefOf :: "(string \<Rightarrow> string) \<Rightarrow> concernPart \<Rightarrow> string \<times> bool + readPref option" where
  "readPrefOf low c =
     (if ccReadPreference c = '''' \<and> ccTagSets c = [] \<and> ccStaleness c = None then Inr None
      else case ModeFromString low (ccReadPreference c) of
          None \<Rightarrow> Inl (''unknown read preference '' @ ccReadPreference c, False)
        | Some mode \<Rightarrow>
            (case newReadPref mode (ccTagSets c) (case ccStaleness c of None \<Rightarrow> 0 | Some d \<Rightarrow> d) of
               Inl err \<Rightarrow> Inl (err, True)
             | Inr r \<Rightarrow> Inr (Some r)))"

definition writeConcernOf :: "concernPart \<Rightarrow> writeConcern option" where
  "writeConcernOf c =
     (if ccJournal c = None \<and> ccW c = '''' \<and> \<not> ccNumberSet c \<and> \<not> ccTimeoutSet c then None
      else Some \<lparr>wcW = (if ccW c \<noteq> '''' then WTag (ccW c) else if ccNumberSet c then WNumber (ccNumber c) else NoW),
        wcJ = (ccJournal c = Some True), wcTimeout = (if ccTimeoutSet c then ccTimeout c else 0)\<rparr>)"

definition validWriteConcern :: "writeConcern \<Rightarrow> bool" where
  "validWriteConcern w = (wcJ w \<longrightarrow> wcW w \<noteq> WNumber 0)"

section \<open>Credentials and TLS\<close>

definition hasAuthParameters :: "connString \<Rightarrow> bool" where
  "hasAuthParameters u =
     (let a = csAuth u in auMechanism a \<noteq> '''' \<or> auProperties a \<noteq> None \<or> auUsername a \<noteq> None \<or> auPassword a \<noteq> None)"

definition credentialOf :: "connString \<Rightarrow> credential" where
  "credentialOf u =
     \<lparr>crMechanism = auMechanism (csAuth u), crProperties = auProperties (csAuth u), crSource = auSource (csAuth u),
      crUsername = userName u, crPassword = passWord u, crPasswordSet = (auPassword (csAuth u) \<noteq> None)\<rparr>"

text \<open>The parts of the subject of a certificate, in the other order.\<close>

primrec commaText :: "string list \<Rightarrow> string" where
  "commaText [] = ''''"
| "commaText (w # rest) = (if rest = [] then w else w @ '','' @ commaText rest)"

definition extractX509UsernameFromSubject :: "string \<Rightarrow> string" where
  "extractX509UsernameFromSubject subject = commaText (rev (splitOn (CHR '','') subject))"

text \<open>The certificates asked for: an error, or the subject of the one read.\<close>

definition readKeyPair :: "driverEnv \<Rightarrow> tlsPart \<Rightarrow> string + string" where
  "readKeyPair e t =
     (let pass = (case tlKeyPassword t of None \<Rightarrow> '''' | Some p \<Rightarrow> p) in
      case tlKeyFile t of
        Some f \<Rightarrow> keyPairFile e f pass
      | None \<Rightarrow>
          if tlCertFile t \<noteq> None \<or> tlPrivateFile t \<noteq> None
          then keyPairFiles e (case tlCertFile t of None \<Rightarrow> '''' | Some f \<Rightarrow> f)
                 (case tlPrivateFile t of None \<Rightarrow> '''' | Some f \<Rightarrow> f) pass
          else Inr '''')"

definition applyTls :: "driverEnv \<Rightarrow> tlsPart \<Rightarrow> clientOptions \<Rightarrow> string + clientOptions" where
  "applyTls e t c =
     (if \<not> tlSSL t then Inr c
      else case (case tlCaFile t of None \<Rightarrow> None | Some f \<Rightarrow> caFile e f) of
          Some err \<Rightarrow> Inl err
        | None \<Rightarrow>
            (case readKeyPair e t of
               Inl err \<Rightarrow> Inl err
             | Inr subject \<Rightarrow>
                 Inr (c\<lparr>coAuth := (case coAuth c of
                           None \<Rightarrow> None
                         | Some cr \<Rightarrow>
                             if ToLower (lowerUnicode e) (crMechanism cr) = ''mongodb-x509'' \<and> crUsername cr = ''''
                             then Some (cr\<lparr>crUsername := extractX509UsernameFromSubject subject\<rparr>) else Some cr),
                        coTls := Some \<lparr>tcInsecure = (tlInsecure t = Some True), tcCa = tlCaFile t,
                          tcSubject = (if tlKeyFile t \<noteq> None \<or> tlCertFile t \<noteq> None \<or> tlPrivateFile t \<noteq> None then Some subject else None)\<rparr>\<rparr>)))"

section \<open>\<open>ApplyURI\<close>\<close>

text \<open>A value of the string takes the place of the option, where it is set.\<close>

definition over :: "'a option \<Rightarrow> 'a option \<Rightarrow> 'a option" where
  "over new old = (case new of None \<Rightarrow> old | Some x \<Rightarrow> Some x)"

definition nonEmpty :: "string \<Rightarrow> string option" where
  "nonEmpty s = (if s = '''' then None else Some s)"

text \<open>Up to the read concern.\<close>

definition applyBasics :: "connString \<Rightarrow> clientOptions \<Rightarrow> clientOptions" where
  "applyBasics u c =
     (let t = csTuning u; names = tuCompressors t in
      c\<lparr>coScheme := Some (csScheme u),
        coAppName := over (nonEmpty (tuAppName t)) (coAppName c),
        coAuth := (if hasAuthParameters u then Some (credentialOf u) else coAuth c),
        coDirect := over (tpDirect (csTopology u)) (over (map_option (\<lambda>m. m = SingleConnect) (tpConnect (csTopology u))) (coDirect c)),
        coConnectTimeout := over (tuConnectTimeout t) (coConnectTimeout c),
        coCompressors := (if names = [] then coCompressors c else names),
        coZlib := (if ''zlib'' \<in> set names then Some 6 else coZlib c),
        coZstd := (if ''zstd'' \<in> set names then Some 6 else coZstd c),
        coHeartbeat := over (tuHeartbeat t) (coHeartbeat c),
        coHosts := csHosts u,
        coBalanced := over (tpBalanced (csTopology u)) (coBalanced c),
        coLocalThreshold := over (tuLocalThreshold t) (coLocalThreshold c),
        coMaxIdle := over (tuMaxIdle t) (coMaxIdle c),
        coMaxPool := over (tuMaxPool t) (coMaxPool c),
        coMinPool := over (tuMinPool t) (coMinPool c),
        coReadConcern := over (nonEmpty (ccReadLevel (csConcern u))) (coReadConcern c)\<rparr>)"

text \<open>Between the read preference and TLS.\<close>

definition applyLimits :: "connString \<Rightarrow> clientOptions \<Rightarrow> clientOptions" where
  "applyLimits u c =
     c\<lparr>coRetryWrites := over (tuRetryWrites (csTuning u)) (coRetryWrites c),
       coRetryReads := over (tuRetryReads (csTuning u)) (coRetryReads c),
       coReplicaSet := over (nonEmpty (tpReplicaSet (csTopology u))) (coReplicaSet c),
       coSelection := over (tuSelection (csTuning u)) (coSelection c),
       coSocket := over (tuSocket (csTuning u)) (coSocket c)\<rparr>"

text \<open>Behind TLS.\<close>

definition applyConcern :: "connString \<Rightarrow> clientOptions \<Rightarrow> clientOptions" where
  "applyConcern u c =
     c\<lparr>coWriteConcern := over (writeConcernOf (csConcern u)) (coWriteConcern c),
       coZlib := over (tuZlib (csTuning u)) (coZlib c),
       coZstd := over (tuZstd (csTuning u)) (coZstd c),
       coNoOCSP := over (tlNoOCSP (csTls u)) (coNoOCSP c)\<rparr>"

definition ApplyURI :: "driverEnv \<Rightarrow> string \<Rightarrow> clientOptions \<Rightarrow> clientOptions" where
  "ApplyURI e uri c =
     (if coError c \<noteq> None then c
      else case ParseAndValidate (mongoEnv.truncate e) uri of
          Inl err \<Rightarrow> c\<lparr>coError := Some err\<rparr>
        | Inr u \<Rightarrow>
            (let c1 = applyBasics u c in
             case readPrefOf (lowerUnicode e) (csConcern u) of
               Inl (err, unset) \<Rightarrow> c1\<lparr>coReadPref := (if unset then None else coReadPref c1), coError := Some err\<rparr>
             | Inr r \<Rightarrow>
                 (let c2 = applyLimits u (c1\<lparr>coReadPref := over r (coReadPref c1)\<rparr>) in
                  case applyTls e (csTls u) c2 of
                    Inl err \<Rightarrow> c2\<lparr>coError := Some err\<rparr>
                  | Inr c3 \<Rightarrow> applyConcern u c3)))"

definition SetMaxPoolSize :: "64 word \<Rightarrow> clientOptions \<Rightarrow> clientOptions" where
  "SetMaxPoolSize n c = c\<lparr>coMaxPool := Some n\<rparr>"

text \<open>\<open>Validate\<close>: of several contradictions of a load-balanced client the last one is kept.\<close>

definition validateOptions :: "clientOptions \<Rightarrow> string option" where
  "validateOptions c =
     (if coError c \<noteq> None then coError c
      else if coDirect c = Some True \<and> 1 < length (coHosts c)
      then Some ''a direct connection cannot be made if multiple hosts are specified''
      else if coDirect c = Some True \<and> coScheme c = Some ''mongodb+srv''
      then Some ''a direct connection cannot be made if an SRV URI is used''
      else if coBalanced c = Some True then
        (if coDirect c \<noteq> None then Some ''loadBalanced cannot be set to true if the direct connection option is specified''
         else if coReplicaSet c \<noteq> None then Some ''loadBalanced cannot be set to true if a replica set name is specified''
         else if 1 < length (coHosts c) then Some ''loadBalanced cannot be set to true if multiple hosts are specified''
         else None)
      else None)"

section \<open>The options are consistent\<close>

lemma applyTls_keeps:
  "applyTls e t c = Inr c' \<Longrightarrow> coError c' = coError c \<and> coHosts c' = coHosts c \<and> coScheme c' = coScheme c
     \<and> coDirect c' = coDirect c \<and> coBalanced c' = coBalanced c \<and> coReplicaSet c' = coReplicaSet c
     \<and> coWriteConcern c' = coWriteConcern c"
  by (auto simp: applyTls_def split: if_splits option.splits sum.splits)

lemma over_simps [simp]: "over x None = x" "over None y = y"
  by (cases x) (simp_all add: over_def)

lemma emptyOptions_error: "coError emptyOptions = None"
  by (simp add: emptyOptions_def)

lemma ApplyURI_fields:
  assumes "coError (ApplyURI e uri emptyOptions) = None"
  obtains u where "ParseAndValidate (mongoEnv.truncate e) uri = Inr u"
    and "coHosts (ApplyURI e uri emptyOptions) = csHosts u" and "coScheme (ApplyURI e uri emptyOptions) = Some (csScheme u)"
    and "coDirect (ApplyURI e uri emptyOptions)
      = over (tpDirect (csTopology u)) (map_option (\<lambda>m. m = SingleConnect) (tpConnect (csTopology u)))"
    and "coBalanced (ApplyURI e uri emptyOptions) = tpBalanced (csTopology u)"
    and "coReplicaSet (ApplyURI e uri emptyOptions) = nonEmpty (tpReplicaSet (csTopology u))"
    and "coWriteConcern (ApplyURI e uri emptyOptions) = writeConcernOf (csConcern u)"
proof -
  let ?c = "ApplyURI e uri emptyOptions"

  have eq: "?c = (case ParseAndValidate (mongoEnv.truncate e) uri of
          Inl err \<Rightarrow> emptyOptions\<lparr>coError := Some err\<rparr>
        | Inr u \<Rightarrow>
            (let c1 = applyBasics u emptyOptions in
             case readPrefOf (lowerUnicode e) (csConcern u) of
               Inl (err, unset) \<Rightarrow> c1\<lparr>coReadPref := (if unset then None else coReadPref c1), coError := Some err\<rparr>
             | Inr r \<Rightarrow>
                 (let c2 = applyLimits u (c1\<lparr>coReadPref := over r (coReadPref c1)\<rparr>) in
                  case applyTls e (csTls u) c2 of
                    Inl err \<Rightarrow> c2\<lparr>coError := Some err\<rparr>
                  | Inr c3 \<Rightarrow> applyConcern u c3)))"
    by (simp add: ApplyURI_def emptyOptions_error)
  obtain u where u: "ParseAndValidate (mongoEnv.truncate e) uri = Inr u"
    using assms eq by (cases "ParseAndValidate (mongoEnv.truncate e) uri") simp_all
  obtain r where r: "readPrefOf (lowerUnicode e) (csConcern u) = Inr r"
    using assms eq u by (cases "readPrefOf (lowerUnicode e) (csConcern u)") (auto simp: Let_def)
  let ?c1 = "applyBasics u emptyOptions"
  let ?c2 = "applyLimits u (?c1\<lparr>coReadPref := over r (coReadPref ?c1)\<rparr>)"
  obtain c3 where c3: "applyTls e (csTls u) ?c2 = Inr c3"
    using assms eq u r by (cases "applyTls e (csTls u) ?c2") (auto simp: Let_def)
  have c: "?c = applyConcern u c3" using eq u r c3 by (simp add: Let_def)
  note keep = applyTls_keeps [OF c3]
  show thesis
    by (rule that [OF u]) (use c keep in \<open>simp_all add: applyConcern_def applyLimits_def applyBasics_def emptyOptions_def Let_def\<close>)
qed

text \<open>
  C29. Options taken from a connection string contradict each other in one case only: when the
  string is accepted and its certificates can be read, \<open>Validate\<close> refuses the options exactly if the
  string asks for load balancing and says that the connection is not direct, a pair the parser of
  the string accepts; and a write concern of the string never asks an unacknowledged write to be
  journaled.
\<close>

theorem uri_options_valid:
  assumes "coError (ApplyURI e uri emptyOptions) = None"
  shows "(validateOptions (ApplyURI e uri emptyOptions) \<noteq> None \<longleftrightarrow>
    coBalanced (ApplyURI e uri emptyOptions) = Some True \<and> coDirect (ApplyURI e uri emptyOptions) = Some False)
    \<and> (\<forall>w. coWriteConcern (ApplyURI e uri emptyOptions) = Some w \<longrightarrow> validWriteConcern w)"
proof -
  let ?c = "ApplyURI e uri emptyOptions"
  from assms obtain u where p: "ParseAndValidate (mongoEnv.truncate e) uri = Inr u" and f: "coHosts ?c = csHosts u"
    "coScheme ?c = Some (csScheme u)"
    "coDirect ?c = over (tpDirect (csTopology u)) (map_option (\<lambda>m. m = SingleConnect) (tpConnect (csTopology u)))"
    "coBalanced ?c = tpBalanced (csTopology u)" "coReplicaSet ?c = nonEmpty (tpReplicaSet (csTopology u))"
    "coWriteConcern ?c = writeConcernOf (csConcern u)"
    by (rule ApplyURI_fields)
  note s = accepted_sound [OF p]
  have "coDirect ?c = Some True \<Longrightarrow> askedDirect u"
    using f(3) by (auto simp: askedDirect_def over_def split: option.splits)
  then have direct: "coDirect ?c = Some True \<Longrightarrow> length (coHosts ?c) = 1 \<and> coScheme ?c = Some ''mongodb'' \<and> coBalanced ?c \<noteq> Some True"
    using s f by simp
  have balanced: "coBalanced ?c = Some True \<Longrightarrow> length (coHosts ?c) = 1 \<and> coReplicaSet ?c = None"
    using s f by (simp add: nonEmpty_def)
  have "\<not> (ccNumberSet (csConcern u) \<and> ccNumber (csConcern u) = 0 \<and> ccJournal (csConcern u) = Some True)" using s by blast
  then have "validWriteConcern w" if "coWriteConcern ?c = Some w" for w
    using that f(6) by (auto simp: writeConcernOf_def validWriteConcern_def split: if_splits)
  moreover have "validateOptions ?c \<noteq> None \<longleftrightarrow> coBalanced ?c = Some True \<and> coDirect ?c = Some False"
  proof (cases "coDirect ?c = Some True")
    case True
    with direct assms show ?thesis by (simp add: validateOptions_def)
  next
    case False
    then have "coDirect ?c = None \<or> coDirect ?c = Some False" by (cases "coDirect ?c") auto
    with balanced assms show ?thesis by (auto simp: validateOptions_def)
  qed
  ultimately show ?thesis by blast
qed

section \<open>The client of the server\<close>

text \<open>The options that \<open>intializeMongoOnlineClient\<close> connects with.\<close>

definition clientOptionsOf :: "driverEnv \<Rightarrow> dbConfig \<Rightarrow> clientOptions" where
  "clientOptionsOf e c = SetMaxPoolSize 50 (ApplyURI e (mongoURI c) emptyOptions)"

text \<open>A configuration whose host and port are plain and whose credentials hold no mark of the string.\<close>

definition readableConfig :: "dbConfig \<Rightarrow> bool" where
  "readableConfig c \<longleftrightarrow> hostText (Host c) \<and> (\<exists>n. Port c = dec n \<and> 1 \<le> n \<and> n \<le> 65535)
     \<and> list_all (\<lambda>x. x \<notin> set ''@:/'') (User c) \<and> list_all (\<lambda>x. x \<notin> set ''@:/'') (Pass c)
     \<and> list_all (\<lambda>x. x \<noteq> CHR ''?'') (Database c)"

definition userCredential :: "string \<Rightarrow> string \<Rightarrow> string \<Rightarrow> credential" where
  "userCredential user pass db = \<lparr>crMechanism = '''', crProperties = None, crSource = (if db = '''' then ''admin'' else db),
     crUsername = user, crPassword = pass, crPasswordSet = True\<rparr>"

lemma mongoURI_read:
  assumes "readableConfig c" and "queryUnescape (User c) = Some user" and "queryUnescape (Pass c) = Some pass"
    and "queryUnescape (Database c) = Some db" and "user \<noteq> ''''"
  shows "ParseAndValidate e (mongoURI c) = Inr (plainConn user pass (Host c @ '':'' @ Port c) db)"
proof -
  obtain n where n: "Port c = dec n" "1 \<le> n" "n \<le> 65535" using assms(1) by (auto simp: readableConfig_def)
  have "parseConn e (''mongodb://'' @ User c @ '':'' @ Pass c @ ''@'' @ (Host c @ '':'' @ dec n) @ ''/'' @ Database c) =
      Inr (plainConn user pass (Host c @ '':'' @ dec n) db)"
    using assms(1) by (intro parse_plain assms(2-4) n(2,3)) (simp_all add: readableConfig_def)
  then show ?thesis using plainConn_valid [OF assms(5)] n(1) by (simp add: mongoURI_def ParseAndValidate_def)
qed

lemma plain_steps:
  "applyBasics (plainConn user pass h db) emptyOptions =
     emptyOptions\<lparr>coScheme := Some ''mongodb'', coHosts := [h], coAuth := Some (userCredential user pass db)\<rparr>"
  "readPrefOf low (csConcern (plainConn user pass h db)) = Inr None"
  "applyLimits (plainConn user pass h db) c = c"
  "applyTls e (csTls (plainConn user pass h db)) c = Inr c"
  "applyConcern (plainConn user pass h db) c = c"
proof -
  note conn = plainConn_def noConnString_def credentials_def
  show "applyBasics (plainConn user pass h db) emptyOptions =
     emptyOptions\<lparr>coScheme := Some ''mongodb'', coHosts := [h], coAuth := Some (userCredential user pass db)\<rparr>"
    by (simp add: conn applyBasics_def nonEmpty_def hasAuthParameters_def credentialOf_def userCredential_def userName_def
        passWord_def emptyOptions_def Let_def)
  show "readPrefOf low (csConcern (plainConn user pass h db)) = Inr None" by (simp add: conn readPrefOf_def)
  show "applyLimits (plainConn user pass h db) c = c" by (simp add: conn applyLimits_def nonEmpty_def)
  show "applyTls e (csTls (plainConn user pass h db)) c = Inr c" by (simp add: conn applyTls_def)
  show "applyConcern (plainConn user pass h db) c = c" by (simp add: conn applyConcern_def writeConcernOf_def)
qed

lemma config_options:
  assumes "readableConfig c" and "queryUnescape (User c) = Some user" and "queryUnescape (Pass c) = Some pass"
    and "queryUnescape (Database c) = Some db" and "user \<noteq> ''''"
  shows "clientOptionsOf e c = emptyOptions\<lparr>coScheme := Some ''mongodb'', coHosts := [Host c @ '':'' @ Port c],
      coAuth := Some (userCredential user pass db), coMaxPool := Some 50\<rparr> \<and> validateOptions (clientOptionsOf e c) = None"
proof -
  have a: "ApplyURI e (mongoURI c) emptyOptions = emptyOptions\<lparr>coScheme := Some ''mongodb'', coHosts := [Host c @ '':'' @ Port c],
      coAuth := Some (userCredential user pass db)\<rparr>"
    using mongoURI_read [OF assms, of "mongoEnv.truncate e"]
    by (simp add: ApplyURI_def emptyOptions_error plain_steps Let_def)
  have v: "validateOptions (emptyOptions\<lparr>coScheme := Some ''mongodb'', coHosts := [h], coAuth := x, coMaxPool := y\<rparr>) = None" for h x y
    by (simp add: validateOptions_def emptyOptions_def)
  from a v show ?thesis by (simp only: clientOptionsOf_def SetMaxPoolSize_def)
qed

text \<open>
  What the database client connects with: for a readable configuration the client has the one
  host and port, the user, password and database of the file with their percent signs decoded and
  their plus signs turned into blanks, fifty connections, and nothing else set. Only credentials
  without these two characters arrive as they are written.
\<close>

theorem config_credentials:
  assumes "readableConfig c" and "queryUnescape (User c) = Some user" and "queryUnescape (Pass c) = Some pass"
    and "queryUnescape (Database c) = Some db" and "user \<noteq> ''''"
  shows "clientOptionsOf e c = emptyOptions\<lparr>coScheme := Some ''mongodb'', coHosts := [Host c @ '':'' @ Port c],
      coAuth := Some (userCredential user pass db), coMaxPool := Some 50\<rparr>
    \<and> validateOptions (clientOptionsOf e c) = None
    \<and> (list_all (\<lambda>x. x \<noteq> CHR ''%'' \<and> x \<noteq> CHR ''+'') (Pass c) \<longrightarrow> pass = Pass c)"
  using config_options [OF assms, of e] queryUnescape_plain [of "Pass c"] assms(3) by (metis option.inject)

text \<open>A mark in the password.\<close>

lemma parseUser_marked:
  assumes "list_all (\<lambda>x. x \<notin> set ''@:/'') U" and "CHR ''@'' \<notin> set P" and "CHR '':'' \<in> set P \<or> CHR ''/'' \<in> set P"
  shows "\<exists>err. parseUser (U @ '':'' @ P @ ''@'' @ R) u = Inl err"
proof -
  have c: "CHR ''@'' \<notin> set (U @ CHR '':'' # P)" "CHR '':'' \<notin> set U" using assms(1,2) by (auto simp: list_all_iff)
  have "splitTwo (CHR ''@'') ((U @ CHR '':'' # P) @ CHR ''@'' # R) = [U @ CHR '':'' # P, R]" by (rule splitTwo_split [OF c(1)])
  moreover have "splitTwo (CHR '':'') (U @ CHR '':'' # P) = [U, P]" by (rule splitTwo_split [OF c(2)])
  ultimately show ?thesis using assms(3) by (auto simp: parseUser_def split: option.split)
qed

lemma marked_refused:
  assumes "list_all (\<lambda>x. x \<notin> set ''@:/'') (User c)" and "CHR ''@'' \<notin> set (Pass c)"
    and "CHR '':'' \<in> set (Pass c) \<or> CHR ''/'' \<in> set (Pass c)"
  shows "validateOptions (clientOptionsOf d c) \<noteq> None"
proof -
  obtain err where "parseConn (mongoEnv.truncate d) (mongoURI c) = Inl err"
    using parseUser_marked [OF assms, of "Host c @ '':'' @ Port c @ ''/'' @ Database c" "noConnString\<lparr>csScheme := ''mongodb''\<rparr>"]
      parseScheme_mongodb [of "User c @ '':'' @ Pass c @ ''@'' @ Host c @ '':'' @ Port c @ ''/'' @ Database c"]
    by (auto simp: parseConn_def mongoURI_def)
  then have "ParseAndValidate (mongoEnv.truncate d) (mongoURI c) = Inl (''error parsing uri: '' @ err)"
    by (simp add: ParseAndValidate_def)
  then show ?thesis by (simp add: clientOptionsOf_def ApplyURI_def SetMaxPoolSize_def validateOptions_def emptyOptions_def)
qed

text \<open>The time of the option \<open>wtimeout\<close> alone never reaches the write concern.\<close>

lemma wtimeout_dropped:
  "int n \<le> maxInt \<Longrightarrow> wtimeoutValue key (dec n) noConnString = Inr u \<Longrightarrow> ccTimeout (csConcern u) = millis (int n) \<and> writeConcernOf (csConcern u) = None"
  using wtimeout_unflagged [of n key] by (auto simp: inConcern_def noConnString_def writeConcernOf_def)

subsection \<open>Witnesses\<close>

definition sampleDriver :: driverEnv where
  "sampleDriver = \<lparr>lookupSRV = (\<lambda>_. None), lookupTXT = (\<lambda>_. []), lowerUnicode = id, caFile = (\<lambda>_. None),
     keyPairFile = (\<lambda>_ _. Inr ''''), keyPairFiles = (\<lambda>_ _ _. Inr '''')\<rparr>"

definition sampleDb :: "string \<Rightarrow> dbConfig" where
  "sampleDb pass = \<lparr>Host = ''db'', Port = dec 27017, User = ''neo'', Pass = pass, Database = ''fura'', DBName = ''''\<rparr>"

lemma sampleDb_readable: "readableConfig (sampleDb ''p+w'')"
  by (auto simp: readableConfig_def sampleDb_def sample_host intro!: exI [of _ "27017 :: nat"])

theorem config_credentials_witness:
  "coAuth (clientOptionsOf sampleDriver (sampleDb ''p+w'')) = Some (userCredential ''neo'' ''p w'' ''fura'')"
proof -
  have "queryUnescape (User (sampleDb ''p+w'')) = Some ''neo''" "queryUnescape (Pass (sampleDb ''p+w'')) = Some ''p w''"
    "queryUnescape (Database (sampleDb ''p+w'')) = Some ''fura''" by (simp_all add: sampleDb_def)
  from config_credentials [OF sampleDb_readable this, of sampleDriver] show ?thesis by simp
qed

theorem uri_options_valid_witness:
  "validateOptions (ApplyURI sampleDriver (mongoURI (sampleDb ''p+w'')) emptyOptions) \<noteq> None \<longleftrightarrow>
    coBalanced (ApplyURI sampleDriver (mongoURI (sampleDb ''p+w'')) emptyOptions) = Some True
    \<and> coDirect (ApplyURI sampleDriver (mongoURI (sampleDb ''p+w'')) emptyOptions) = Some False"
proof -
  have "ParseAndValidate (mongoEnv.truncate sampleDriver) (mongoURI (sampleDb ''p+w'')) =
      Inr (plainConn ''neo'' ''p w'' (Host (sampleDb ''p+w'') @ '':'' @ Port (sampleDb ''p+w'')) ''fura'')"
    by (rule mongoURI_read [OF sampleDb_readable]) (simp_all add: sampleDb_def)
  then have "coError (ApplyURI sampleDriver (mongoURI (sampleDb ''p+w'')) emptyOptions) = None"
    by (simp add: ApplyURI_def emptyOptions_error plain_steps Let_def)
  then show ?thesis by (rule uri_options_valid [THEN conjunct1])
qed

end
