(* ===== verification/ServerSelect.thy ===== *)
theory ServerSelect
  imports SdamInv MongoClient
begin

text \<open>
  The choice of a server for an operation: the selectors of \<open>mongo/description/server_selector.go\<close>
  and how \<open>x/mongo/driver/topology/topology.go\<close> and \<open>mongo/collection.go\<close> use them. A selector
  filters the candidates, or fails.
\<close>

section \<open>Selectors\<close>

type_synonym 'a selector = "'a topologyDesc_scheme \<Rightarrow> serverDesc list \<Rightarrow> string + serverDesc list"

primrec compositeSelect :: "'a selector list \<Rightarrow> 'a selector" where
  "compositeSelect [] t cs = Inr cs"
| "compositeSelect (sel # sels) t cs = (case sel t cs of Inl err \<Rightarrow> Inl err | Inr cs' \<Rightarrow> compositeSelect sels t cs')"

text \<open>The smallest round trip time among the candidates that have one.\<close>

definition fastestRtt :: "serverDesc list \<Rightarrow> int" where
  "fastestRtt cs = foldl (\<lambda>m c. case sdRtt c of None \<Rightarrow> m | Some r \<Rightarrow> if r < m then r else m) maxInt cs"

definition withinRtt :: "int \<Rightarrow> serverDesc \<Rightarrow> bool" where
  "withinRtt most c = (case sdRtt c of None \<Rightarrow> False | Some r \<Rightarrow> r \<le> most)"

definition latencySelect :: "int \<Rightarrow> 'a selector" where
  "latencySelect latency t cs =
     (if latency < 0 then Inr cs
      else if tdKind t = LoadBalanced then Inr cs
      else if length cs \<le> 1 then Inr cs
      else
        let least = fastestRtt cs in
        if least = maxInt then Inr cs
        else Inr (filter (withinRtt (wrap64 (least + latency))) cs))"

definition writeSelect :: "'a selector" where
  "writeSelect t cs =
     (case tdKind t of
        Single \<Rightarrow> Inr cs
      | LoadBalanced \<Rightarrow> Inr cs
      | _ \<Rightarrow> Inr (filter (\<lambda>c. sdKind c \<in> {Mongos, RSPrimary, Standalone}) cs))"

section \<open>Read preferences\<close>

definition maxStalenessSupported :: "(int \<times> int) option \<Rightarrow> string option" where
  "maxStalenessSupported wire =
     (case wire of
        None \<Rightarrow> None
      | Some (least, most) \<Rightarrow> if most < 5 then Some ''max staleness is only supported for servers 3.4 or newer'' else None)"

definition selectByKind :: "serverDesc list \<Rightarrow> serverKind \<Rightarrow> serverDesc list" where
  "selectByKind cs kind = filter (\<lambda>c. sdKind c = kind) cs"

definition containsAll :: "(string \<times> string) list \<Rightarrow> (string \<times> string) list \<Rightarrow> bool" where
  "containsAll ts other = list_all (\<lambda>t. t \<in> set ts) other"

text \<open>The candidates with the first tag set that any of them has.\<close>

primrec tagSetsFrom :: "serverDesc list \<Rightarrow> (string \<times> string) list list \<Rightarrow> serverDesc list" where
  "tagSetsFrom cs [] = []"
| "tagSetsFrom cs (ts # rest) =
     (if ts = [] then cs
      else
        let found = filter (\<lambda>c. sdTags c \<noteq> [] \<and> containsAll (sdTags c) ts) cs in
        if found \<noteq> [] then found else tagSetsFrom cs rest)"

definition selectByTagSet :: "serverDesc list \<Rightarrow> (string \<times> string) list list \<Rightarrow> serverDesc list" where
  "selectByTagSet cs tagSets = (if tagSets = [] then cs else tagSetsFrom cs tagSets)"

text \<open>\<open>time.Time.Sub\<close> keeps to the range of a duration; sums of durations wrap.\<close>

definition subTime :: "int \<Rightarrow> int \<Rightarrow> int" where
  "subTime a b = clampInt (a - b)"

definition latestWrite :: "serverDesc list \<Rightarrow> int" where
  "latestWrite cs = foldl (\<lambda>b c. if b < sdWritten c then sdWritten c else b) (sdWritten (hd cs)) (tl cs)"

definition staleness :: "serverDesc list \<Rightarrow> serverDesc list \<Rightarrow> serverDesc \<Rightarrow> int" where
  "staleness primaries secondaries s =
     (case primaries of
        [] \<Rightarrow> wrap64 (subTime (latestWrite secondaries) (sdWritten s) + sdHeartbeat s)
      | p # _ \<Rightarrow>
          wrap64 (wrap64 (subTime (sdUpdated s) (sdWritten s) - subTime (sdUpdated p) (sdWritten p)) + sdHeartbeat s))"

definition selectSecondaries :: "readPref \<Rightarrow> serverDesc list \<Rightarrow> serverDesc list" where
  "selectSecondaries rp cs =
     (let secondaries = selectByKind cs RSSecondary in
      if secondaries = [] then []
      else
        (case rpStaleness rp of
           None \<Rightarrow> secondaries
         | Some most \<Rightarrow>
             filter (\<lambda>s. staleness (selectByKind cs RSPrimary) secondaries s \<le> most) secondaries))"

definition verifyMaxStaleness :: "readPref \<Rightarrow> 'a topologyDesc_scheme \<Rightarrow> string option" where
  "verifyMaxStaleness rp t =
     (case rpStaleness rp of
        None \<Rightarrow> None
      | Some most \<Rightarrow>
          if most < 90000000000 then Some ''max staleness must be greater than or equal to 90s''
          else
            (case tdServers t of
               [] \<Rightarrow> None
             | s # _ \<Rightarrow>
                 if most < wrap64 (sdHeartbeat s + 10000000000)
                 then Some ''max staleness must be greater than or equal to the heartbeat interval plus idle write period''
                 else None))"

definition selectForMode :: "readPref \<Rightarrow> serverDesc list \<Rightarrow> serverDesc list" where
  "selectForMode rp cs =
     (let primaries = selectByKind cs RSPrimary; secondaries = selectSecondaries rp cs in
      case rpMode rp of
        Primary \<Rightarrow> primaries
      | PrimaryPreferred \<Rightarrow> if primaries = [] then selectByTagSet secondaries (rpTagSets rp) else primaries
      | SecondaryPreferred \<Rightarrow>
          (let selected = selectByTagSet secondaries (rpTagSets rp) in if selected \<noteq> [] then selected else primaries)
      | Secondary \<Rightarrow> selectByTagSet secondaries (rpTagSets rp)
      | Nearest \<Rightarrow> selectByTagSet (primaries @ secondaries) (rpTagSets rp))"

definition selectForReplicaSet :: "readPref \<Rightarrow> 'a selector" where
  "selectForReplicaSet rp t cs =
     (case verifyMaxStaleness rp t of Some err \<Rightarrow> Inl err | None \<Rightarrow> Inr (selectForMode rp cs))"

primrec staleSupport :: "serverDesc list \<Rightarrow> string option" where
  "staleSupport [] = None"
| "staleSupport (c # cs) =
     (case (if sdKind c \<noteq> Unknown then maxStalenessSupported (sdWire c) else None) of
        Some err \<Rightarrow> Some err
      | None \<Rightarrow> staleSupport cs)"

definition readPrefSelect :: "readPref \<Rightarrow> 'a selector" where
  "readPrefSelect rp t cs =
     (if tdKind t = LoadBalanced then Inr cs
      else
        (case (if rpStaleness rp \<noteq> None then staleSupport cs else None) of
           Some err \<Rightarrow> Inl err
         | None \<Rightarrow>
             (case tdKind t of
                Single \<Rightarrow> Inr cs
              | ReplicaSetNoPrimary \<Rightarrow> selectForReplicaSet rp t cs
              | ReplicaSetWithPrimary \<Rightarrow> selectForReplicaSet rp t cs
              | Sharded \<Rightarrow> Inr (selectByKind cs Mongos)
              | _ \<Rightarrow> Inr [])))"

section \<open>The selection of a client\<close>

text \<open>\<open>selectServerFromDescription\<close>: servers of no known kind are no candidates.\<close>

definition selectServers :: "'a selector \<Rightarrow> 'a topologyDesc_scheme \<Rightarrow> string + serverDesc list" where
  "selectServers sel t =
     (case tdCompat t of
        Some err \<Rightarrow> Inl err
      | None \<Rightarrow>
          if tdKind t = LoadBalanced then Inr (tdServers t)
          else sel t (filter (\<lambda>s. sdKind s \<noteq> Unknown) (tdServers t)))"

text \<open>The selectors of a collection, for a read preference and a local threshold.\<close>

definition readSelector :: "readPref \<Rightarrow> int \<Rightarrow> 'a selector" where
  "readSelector rp threshold = compositeSelect [readPrefSelect rp, latencySelect threshold]"

definition writeSelector :: "int \<Rightarrow> 'a selector" where
  "writeSelector threshold = compositeSelect [writeSelect, latencySelect threshold]"

definition primaryRead :: readPref where
  "primaryRead = \<lparr>rpMode = Primary, rpTagSets = [], rpStaleness = None\<rparr>"

section \<open>The latency window\<close>

lemma fastest_foldl:
  "(\<forall>c\<in>set cs. \<forall>r. sdRtt c = Some r \<longrightarrow> m' \<le> r) \<and> m' \<le> m
    \<and> (m' = m \<or> (\<exists>c\<in>set cs. sdRtt c = Some m'))"
  if "m' = foldl (\<lambda>m c. case sdRtt c of None \<Rightarrow> m | Some r \<Rightarrow> if r < m then r else m) m cs"
  using that
proof (induction cs arbitrary: m)
  case (Cons c cs)
  let ?m = "case sdRtt c of None \<Rightarrow> m | Some r \<Rightarrow> if r < m then r else m"
  have "m' = foldl (\<lambda>m c. case sdRtt c of None \<Rightarrow> m | Some r \<Rightarrow> if r < m then r else m) ?m cs" using Cons.prems by simp
  from Cons.IH [OF this] show ?case by (cases "sdRtt c") (auto split: if_splits)
qed simp

lemma fastest_least: "c \<in> set cs \<Longrightarrow> sdRtt c = Some r \<Longrightarrow> fastestRtt cs \<le> r"
  using fastest_foldl [OF fastestRtt_def] by blast

lemma fastest_among: "fastestRtt cs \<noteq> maxInt \<Longrightarrow> \<exists>c\<in>set cs. sdRtt c = Some (fastestRtt cs)"
  using fastest_foldl [OF fastestRtt_def] by blast

text \<open>
  C36. The latency window around the smallest round trip time of the candidates neither loses nor
  invents servers: while the smallest round trip time
  plus the threshold is a duration, what is left of some candidates is never empty, it is among
  them, it holds every fastest candidate, and what was dropped was not measured or is further
  than the threshold from the fastest. What is left was measured and is within the threshold of
  the fastest, unless there was nothing to choose: a negative threshold, a load balancer, a single
  candidate or no measured one.
\<close>

theorem latency_window:
  assumes "latencySelect latency t cs = Inr rs" and "cs \<noteq> []" and "minInt \<le> fastestRtt cs"
    and "fastestRtt cs + latency \<le> maxInt \<or> fastestRtt cs = maxInt"
  shows "(\<forall>c\<in>set cs. \<forall>r. sdRtt c = Some r \<longrightarrow> fastestRtt cs \<le> r)
    \<and> (fastestRtt cs = maxInt \<or> (\<exists>c\<in>set cs. sdRtt c = Some (fastestRtt cs)))
    \<and> rs \<noteq> [] \<and> set rs \<subseteq> set cs \<and> (\<forall>c\<in>set cs. sdRtt c = Some (fastestRtt cs) \<longrightarrow> c \<in> set rs)
    \<and> (\<forall>c\<in>set cs - set rs. case sdRtt c of None \<Rightarrow> True | Some r \<Rightarrow> fastestRtt cs + latency < r)
    \<and> (if latency < 0 \<or> tdKind t = LoadBalanced \<or> length cs = 1 \<or> fastestRtt cs = maxInt then rs = cs
       else \<forall>c\<in>set rs. \<exists>r. sdRtt c = Some r \<and> fastestRtt cs \<le> r \<and> r \<le> fastestRtt cs + latency)"
proof (cases "latency < 0 \<or> tdKind t = LoadBalanced \<or> length cs \<le> 1 \<or> fastestRtt cs = maxInt")
  case True
  then have "rs = cs" using assms(1) by (auto simp: latencySelect_def Let_def split: if_splits)
  moreover have "latency < 0 \<or> tdKind t = LoadBalanced \<or> length cs = 1 \<or> fastestRtt cs = maxInt"
    using True assms(2) by (cases cs) auto
  ultimately show ?thesis using assms(2) fastest_least [of _ cs] fastest_among [of cs] by auto
next
  case False
  then have w: "wrap64 (fastestRtt cs + latency) = fastestRtt cs + latency"
    using assms(3,4) by (intro wrap64_small) auto
  then have rs: "rs = filter (withinRtt (fastestRtt cs + latency)) cs"
    using assms(1) False by (auto simp: latencySelect_def Let_def)
  obtain c where c: "c \<in> set cs" "sdRtt c = Some (fastestRtt cs)" using fastest_among False by blast
  have keep: "withinRtt (fastestRtt cs + latency) d" if "sdRtt d = Some (fastestRtt cs)" for d
    using that False by (simp add: withinRtt_def)
  with c have "c \<in> set rs" by (simp add: rs)
  then have "rs \<noteq> []" by auto
  moreover have "case sdRtt d of None \<Rightarrow> True | Some r \<Rightarrow> fastestRtt cs + latency < r" if "d \<in> set cs - set rs" for d
    using that by (auto simp: rs withinRtt_def split: option.split)
  moreover have "\<forall>d\<in>set cs. sdRtt d = Some (fastestRtt cs) \<longrightarrow> d \<in> set rs" "set rs \<subseteq> set cs"
    using keep by (auto simp: rs)
  moreover have "\<exists>r. sdRtt d = Some r \<and> fastestRtt cs \<le> r \<and> r \<le> fastestRtt cs + latency" if "d \<in> set rs" for d
    using that fastest_least [of d cs] by (auto simp: rs withinRtt_def split: option.splits)
  ultimately show ?thesis using False fastest_least [of _ cs] fastest_among [of cs] by auto
qed

text \<open>A larger threshold wraps around and nothing is left, and the parser accepts such a threshold.\<close>

lemma latency_window_empty:
  "latencySelect (millis 9223372036854) newFSM
     [(newDefaultServer ''a'')\<lparr>sdRtt := Some 1000000\<rparr>, (newDefaultServer ''b'')\<lparr>sdRtt := Some 2000000\<rparr>] = Inr []"
  by (simp add: latencySelect_def newFSM_def newDefaultServer_def newServerFromError_def fastestRtt_def maxInt_def millis_def
      wrap64_def withinRtt_def signed_take_bit_int_eq_self_iff)


section \<open>Read preferences are obeyed\<close>

definition taggedBy :: "(string \<times> string) list list \<Rightarrow> serverDesc \<Rightarrow> bool" where
  "taggedBy tagSets c \<longleftrightarrow> tagSets = [] \<or> (\<exists>ts\<in>set tagSets. set ts \<subseteq> set (sdTags c))"

lemma tagSetsFrom_sound: "c \<in> set (tagSetsFrom cs sets) \<Longrightarrow> c \<in> set cs \<and> (\<exists>ts\<in>set sets. set ts \<subseteq> set (sdTags c))"
  by (induction sets) (auto simp: Let_def containsAll_def list_all_iff split: if_splits)

lemma selectByTagSet_sound: "c \<in> set (selectByTagSet cs sets) \<Longrightarrow> c \<in> set cs \<and> taggedBy sets c"
  using tagSetsFrom_sound [of c cs sets] by (auto simp: selectByTagSet_def taggedBy_def split: if_splits)

lemma selectSecondaries_sound: "c \<in> set (selectSecondaries rp cs) \<Longrightarrow> c \<in> set cs \<and> sdKind c = RSSecondary"
  by (auto simp: selectSecondaries_def selectByKind_def Let_def split: if_splits option.splits)

lemma tagSetsFrom_complete:
  "\<exists>ts\<in>set sets. \<exists>c\<in>set cs. ts = [] \<or> sdTags c \<noteq> [] \<and> containsAll (sdTags c) ts \<Longrightarrow> tagSetsFrom cs sets \<noteq> []"
proof (induction sets)
  case (Cons ts sets)
  show ?case
  proof (cases "ts = [] \<or> filter (\<lambda>c. sdTags c \<noteq> [] \<and> containsAll (sdTags c) ts) cs \<noteq> []")
    case True
    with Cons.prems show ?thesis by (auto simp: Let_def)
  next
    case False
    with Cons have "tagSetsFrom cs sets \<noteq> []" by (auto simp: filter_empty_conv)
    with False show ?thesis by (simp add: Let_def)
  qed
qed simp

text \<open>
  A read preference is obeyed in a replica set: only listed primaries and secondaries are
  chosen; the mode primary gives primaries only, secondary only secondaries with one of the tag
  sets, primaryPreferred a secondary only when there is no primary and secondaryPreferred a primary
  only when no secondary suits, and nearest asks the tags of the primary too.
\<close>

theorem read_preference_obeyed:
  assumes "readPrefSelect rp t cs = Inr rs" and "tdKind t = ReplicaSetNoPrimary \<or> tdKind t = ReplicaSetWithPrimary"
    and "c \<in> set rs"
  shows "c \<in> set cs \<and> (sdKind c = RSPrimary \<or> sdKind c = RSSecondary)
    \<and> (sdKind c = RSPrimary \<longrightarrow> rpMode rp \<noteq> Secondary
         \<and> (rpMode rp = SecondaryPreferred \<longrightarrow> selectByTagSet (selectSecondaries rp cs) (rpTagSets rp) = [])
         \<and> (rpMode rp = Nearest \<longrightarrow> taggedBy (rpTagSets rp) c))
    \<and> (sdKind c = RSSecondary \<longrightarrow> rpMode rp \<noteq> Primary \<and> taggedBy (rpTagSets rp) c
         \<and> (rpMode rp = PrimaryPreferred \<longrightarrow> (\<forall>p\<in>set cs. sdKind p \<noteq> RSPrimary)))"
proof -
  have rs: "c \<in> set (selectForMode rp cs)"
    using assms by (auto simp: readPrefSelect_def selectForReplicaSet_def split: option.splits if_splits)
  have p: "x \<in> set cs \<and> sdKind x = RSPrimary" if "x \<in> set (selectByKind cs RSPrimary)" for x
    using that by (simp add: selectByKind_def)
  have s: "x \<in> set cs \<and> sdKind x = RSSecondary \<and> taggedBy (rpTagSets rp) x"
    if "x \<in> set (selectByTagSet (selectSecondaries rp cs) (rpTagSets rp))" for x
    using selectByTagSet_sound [OF that] selectSecondaries_sound [of x rp cs] by blast
  show ?thesis
  proof (cases "rpMode rp")
    case Primary
    with rs p [of c] show ?thesis by (simp add: selectForMode_def Let_def)
  next
    case PrimaryPreferred
    show ?thesis
    proof (cases "selectByKind cs RSPrimary = []")
      case True
      then have "\<forall>p\<in>set cs. sdKind p \<noteq> RSPrimary" by (simp add: selectByKind_def filter_empty_conv)
      with True PrimaryPreferred rs s [of c] show ?thesis by (simp add: selectForMode_def Let_def)
    next
      case False
      with PrimaryPreferred rs p [of c] show ?thesis by (simp add: selectForMode_def Let_def)
    qed
  next
    case Secondary
    with rs s [of c] show ?thesis by (simp add: selectForMode_def Let_def)
  next
    case SecondaryPreferred
    with rs s [of c] p [of c] show ?thesis by (auto simp: selectForMode_def Let_def split: if_splits)
  next
    case Nearest
    then have "c \<in> set (selectByKind cs RSPrimary @ selectSecondaries rp cs) \<and> taggedBy (rpTagSets rp) c"
      using rs selectByTagSet_sound [of c "selectByKind cs RSPrimary @ selectSecondaries rp cs" "rpTagSets rp"]
      by (simp add: selectForMode_def Let_def)
    with Nearest p [of c] selectSecondaries_sound [of c rp cs] show ?thesis by auto
  qed
qed

section \<open>The contract of a selector\<close>

text \<open>What \<open>ServerSelector\<close> asks of its implementations: a selector filters the candidates.\<close>

locale server_selector =
  fixes select :: "'a selector"
  assumes subset: "select t cs = Inr rs \<Longrightarrow> set rs \<subseteq> set cs"
begin

lemma selected_listed: "selectServers select t = Inr rs \<Longrightarrow> set rs \<subseteq> set (tdServers t)"
  using subset [of t "filter (\<lambda>s. sdKind s \<noteq> Unknown) (tdServers t)" rs]
  by (auto simp: selectServers_def split: option.splits if_splits)

lemma selected_known:
  "selectServers select t = Inr rs \<Longrightarrow> tdKind t \<noteq> LoadBalanced \<Longrightarrow> s \<in> set rs \<Longrightarrow> sdKind s \<noteq> Unknown"
  using subset [of t "filter (\<lambda>s. sdKind s \<noteq> Unknown) (tdServers t)" rs]
  by (auto simp: selectServers_def split: option.splits)

end

text \<open>Two selectors, one after the other, are one.\<close>

locale two_selectors = fst: server_selector first + snd: server_selector second
  for first :: "'a selector" and second :: "'a selector"
begin

lemma both_subset: "compositeSelect [first, second] t cs = Inr rs \<Longrightarrow> set rs \<subseteq> set cs"
  using fst.subset [of t cs] snd.subset [of t _ rs] by (auto split: sum.splits dest: subset_trans)

sublocale server_selector "compositeSelect [first, second]"
  by unfold_locales (rule both_subset)

end

lemma latencySelect_subset: "latencySelect l t cs = Inr rs \<Longrightarrow> set rs \<subseteq> set cs"
  by (auto simp: latencySelect_def Let_def split: if_splits)

lemma writeSelect_subset: "writeSelect t cs = Inr rs \<Longrightarrow> set rs \<subseteq> set cs"
  by (auto simp: writeSelect_def split: topologyKind.splits)

lemma selectForMode_subset: "set (selectForMode rp cs) \<subseteq> set cs"
proof -
  have t: "set (selectByTagSet xs sets) \<subseteq> set xs" for xs sets by (rule subsetI) (simp add: selectByTagSet_sound)
  have s: "set (selectSecondaries rp cs) \<subseteq> set cs" by (rule subsetI) (simp add: selectSecondaries_sound)
  have p: "set (selectByKind cs RSPrimary) \<subseteq> set cs" by (simp add: selectByKind_def)
  have "set (selectByKind cs RSPrimary @ selectSecondaries rp cs) \<subseteq> set cs" using p s by simp
  note all = p subset_trans [OF t s] subset_trans [OF t this]
  show ?thesis unfolding selectForMode_def Let_def by (cases "rpMode rp") (use all in simp_all)
qed

lemma readPrefSelect_subset: "readPrefSelect rp t cs = Inr rs \<Longrightarrow> set rs \<subseteq> set cs"
  using selectForMode_subset [of rp cs]
  by (auto simp: readPrefSelect_def selectForReplicaSet_def selectByKind_def split: topologyKind.splits if_splits option.splits)

interpretation latency: server_selector "latencySelect l" for l
  by unfold_locales (rule latencySelect_subset)

interpretation reads: two_selectors "readPrefSelect rp" "latencySelect l" for rp l
  by unfold_locales (rule readPrefSelect_subset)

interpretation writes: two_selectors writeSelect "latencySelect l" for l
  by unfold_locales (rule writeSelect_subset)

text \<open>What a collection selects is listed and of a known kind.\<close>

lemma selection_listed:
  "selectServers (readSelector rp l) t = Inr rs \<Longrightarrow> set rs \<subseteq> set (tdServers t)"
  "selectServers (writeSelector l) t = Inr vs \<Longrightarrow> set vs \<subseteq> set (tdServers t)"
  unfolding readSelector_def writeSelector_def by (rule reads.selected_listed, assumption) (rule writes.selected_listed)

lemma selection_known:
  "selectServers (readSelector rp l) t = Inr rs \<Longrightarrow> tdKind t \<noteq> LoadBalanced \<Longrightarrow> s \<in> set rs \<Longrightarrow> sdKind s \<noteq> Unknown"
  "selectServers (writeSelector l) t = Inr vs \<Longrightarrow> tdKind t \<noteq> LoadBalanced \<Longrightarrow> s \<in> set vs \<Longrightarrow> sdKind s \<noteq> Unknown"
  unfolding readSelector_def writeSelector_def by (rule reads.selected_known, assumption+) (rule writes.selected_known)

section \<open>Where a client reads and writes\<close>

lemma latencySelect_one: "length cs \<le> 1 \<Longrightarrow> latencySelect l t cs = Inr cs"
  by (simp add: latencySelect_def)

lemma primaryRead_select:
  "readPrefSelect primaryRead t cs =
    (case tdKind t of
       LoadBalanced \<Rightarrow> Inr cs | Single \<Rightarrow> Inr cs
     | ReplicaSetNoPrimary \<Rightarrow> Inr (selectByKind cs RSPrimary)
     | ReplicaSetWithPrimary \<Rightarrow> Inr (selectByKind cs RSPrimary)
     | Sharded \<Rightarrow> Inr (selectByKind cs Mongos)
     | _ \<Rightarrow> Inr [])"
  by (cases "tdKind t")
    (simp_all add: readPrefSelect_def primaryRead_def selectForReplicaSet_def verifyMaxStaleness_def selectForMode_def Let_def)

lemma same_selection:
  assumes "sdamInv low f" and "cs = filter (\<lambda>s. sdKind s \<noteq> Unknown) (tdServers f)"
  shows "readPrefSelect primaryRead f cs = writeSelect f cs"
proof -
  have f: "filter (\<lambda>c. sdKind c \<in> {Mongos, RSPrimary, Standalone}) cs = filter (\<lambda>c. sdKind c = k) cs"
    if "\<forall>c\<in>set (tdServers f). sdKind c \<in> {Mongos, RSPrimary, Standalone} \<longrightarrow> sdKind c = k" "k \<in> {Mongos, RSPrimary, Standalone}" for k
    using that assms(2) by (intro filter_cong) auto
  have r: "\<forall>c\<in>set (tdServers f). sdKind c \<in> {Mongos, RSPrimary, Standalone} \<longrightarrow> sdKind c = RSPrimary" if "replicaInv low f"
    using that by (auto simp: replicaInv_def replicaServers_def memberOf_def)
  show ?thesis
  proof (cases "tdKind f")
    case UnknownTopology
    then have "\<forall>c\<in>set cs. sdKind c = RSGhost" using assms by (auto simp: sdamInv_def)
    with UnknownTopology show ?thesis by (auto simp: primaryRead_select writeSelect_def filter_empty_conv)
  next
    case Sharded
    then have "\<forall>c\<in>set (tdServers f). sdKind c \<in> {Mongos, RSPrimary, Standalone} \<longrightarrow> sdKind c = Mongos"
      using assms by (auto simp: sdamInv_def)
    with Sharded f [of Mongos] show ?thesis by (simp add: primaryRead_select writeSelect_def selectByKind_def)
  next
    case ReplicaSetNoPrimary
    with assms(1) r f [of RSPrimary] show ?thesis by (simp add: sdamInv_def primaryRead_select writeSelect_def selectByKind_def)
  next
    case ReplicaSetWithPrimary
    with assms(1) r f [of RSPrimary] show ?thesis by (simp add: sdamInv_def primaryRead_select writeSelect_def selectByKind_def)
  qed (use assms(1) in \<open>simp_all add: primaryRead_select writeSelect_def sdamInv_def\<close>)
qed

lemma one_primary_list:
  assumes "distinct xs" and "p \<in> set xs" and "P p" and only: "\<And>q. q \<in> set xs \<Longrightarrow> P q \<Longrightarrow> q = p"
  shows "filter P xs = [p]"
proof -
  obtain ys zs where xs: "xs = ys @ p # zs" using split_list [OF assms(2)] by metis
  have "\<not> P q" if "q \<in> set ys \<or> q \<in> set zs" for q
  proof
    assume "P q"
    with that only [of q] have "q = p" by (simp add: xs)
    with that assms(1) show False by (simp add: xs)
  qed
  then have "filter P ys = []" "filter P zs = []" by (simp_all add: filter_empty_conv)
  with assms(3) show ?thesis by (simp add: xs)
qed

lemma reads_follow_inv:
  assumes i: "sdamInv low f" and "tdCompat f = None"
  shows "selectServers (readSelector primaryRead threshold) f = selectServers (writeSelector threshold) f
    \<and> (tdKind f = ReplicaSetWithPrimary \<longrightarrow>
        (\<exists>p\<in>set (tdServers f). sdKind p = RSPrimary \<and> selectServers (writeSelector threshold) f = Inr [p]))
    \<and> (tdKind f \<in> {ReplicaSetNoPrimary, UnknownTopology} \<longrightarrow> selectServers (writeSelector threshold) f = Inr [])"
proof -
  let ?cs = "filter (\<lambda>s. sdKind s \<noteq> Unknown) (tdServers f)"
  have same: "readPrefSelect primaryRead f ?cs = writeSelect f ?cs" by (rule same_selection [OF i refl])
  have lb: "tdKind f \<noteq> LoadBalanced" using i by (auto simp: sdamInv_def)
  have eq: "selectServers (readSelector primaryRead threshold) f = selectServers (writeSelector threshold) f"
    using assms(2) lb same by (simp add: selectServers_def readSelector_def writeSelector_def)
  have sel: "selectServers (writeSelector threshold) f = Inr rs" if "writeSelect f ?cs = Inr rs" "length rs \<le> 1" for rs
    using assms(2) lb that(1) by (simp add: selectServers_def writeSelector_def latencySelect_one [OF that(2)])
  have w: "writeSelect f ?cs = Inr (filter (\<lambda>s. sdKind s = RSPrimary) (tdServers f))"
    if "tdKind f \<in> {ReplicaSetWithPrimary, ReplicaSetNoPrimary}"
  proof -
    have "filter (\<lambda>s. sdKind s = RSPrimary) ?cs = filter (\<lambda>s. sdKind s = RSPrimary) (tdServers f)"
      by (simp add: filter_filter) (intro filter_cong, auto)
    then show ?thesis using that same [symmetric] by (auto simp: primaryRead_select selectByKind_def)
  qed
  have one: "\<exists>p\<in>set (tdServers f). sdKind p = RSPrimary \<and> selectServers (writeSelector threshold) f = Inr [p]"
    if k: "tdKind f = ReplicaSetWithPrimary"
  proof -
    have "distinct (tdServers f)" using i by (auto simp: sdamInv_def wellAddressed_def addresses_def distinct_map)
    moreover have r: "replicaInv low f" "hasPrimary f" using i k by (simp_all add: sdamInv_def)
    from r(2) obtain p where p: "p \<in> set (tdServers f)" "sdKind p = RSPrimary" by (auto simp: hasPrimary_def)
    moreover have "q = p" if "q \<in> set (tdServers f)" "sdKind q = RSPrimary" for q
      using r(1) p that unfolding replicaInv_def replicaServers_def by metis
    ultimately have "filter (\<lambda>s. sdKind s = RSPrimary) (tdServers f) = [p]" by (rule one_primary_list)
    with w k have "writeSelect f ?cs = Inr [p]" by simp
    with p show ?thesis using sel [of "[p]"] by auto
  qed
  have none: "selectServers (writeSelector threshold) f = Inr []" if k: "tdKind f \<in> {ReplicaSetNoPrimary, UnknownTopology}"
  proof (cases "tdKind f = ReplicaSetNoPrimary")
    case True
    with i have "\<not> hasPrimary f" by (simp add: sdamInv_def)
    then have "filter (\<lambda>s. sdKind s = RSPrimary) (tdServers f) = []" by (simp add: hasPrimary_def filter_empty_conv)
    with w True show ?thesis using sel [of "[]"] by simp
  next
    case False
    with k have "tdKind f = UnknownTopology" by simp
    with same have "writeSelect f ?cs = Inr []" by (simp add: primaryRead_select)
    then show ?thesis using sel by simp
  qed
  show ?thesis using eq one none by blast
qed

subsection \<open>Witnesses\<close>

definition sampleMembers :: "serverDesc list" where
  "sampleMembers = [oldPrimary\<lparr>sdRtt := Some 1000000\<rparr>, (sampleMember RSSecondary ''b:1'' nilObjectID 1)\<lparr>sdRtt := Some 90000000\<rparr>]"

theorem latency_window_witness:
  "set [oldPrimary\<lparr>sdRtt := Some 1000000\<rparr>] \<subseteq> set sampleMembers"
proof -
  have "latencySelect 15000000 newFSM sampleMembers = Inr [oldPrimary\<lparr>sdRtt := Some 1000000\<rparr>]" by code_simp
  moreover have "sampleMembers \<noteq> []" "minInt \<le> fastestRtt sampleMembers"
    "fastestRtt sampleMembers + 15000000 \<le> maxInt \<or> fastestRtt sampleMembers = maxInt" by code_simp+
  ultimately show ?thesis using latency_window [of 15000000 newFSM sampleMembers] by blast
qed

theorem read_preference_obeyed_witness:
  "sdKind (sampleMembers ! 1) = RSSecondary \<and> taggedBy [] (sampleMembers ! 1)"
proof -
  let ?rp = "\<lparr>rpMode = Secondary, rpTagSets = [], rpStaleness = None\<rparr>"
  have s: "readPrefSelect ?rp (newFSM\<lparr>tdKind := ReplicaSetWithPrimary\<rparr>) sampleMembers = Inr [sampleMembers ! 1]"
    "sdKind (sampleMembers ! 1) = RSSecondary" by code_simp+
  from read_preference_obeyed [OF s(1), of "sampleMembers ! 1"] s(2) show ?thesis by simp
qed

end
