(* ===== verification/TopologyRun.thy ===== *)
theory TopologyRun
  imports ServerSelect "HOL-Library.Word"
begin

text \<open>
  The deployment as the client keeps it, \<open>x/mongo/driver/topology/topology.go\<close>: the machine of
  \<open>Sdam\<close>, one monitored server for each address, and the description handed to the selection.
  \<open>Connect\<close> starts it and \<open>apply\<close> takes what a monitor reports, under a lock. Whether a
  server object can be made is the parameter \<open>connects\<close>. A selection that finds no server subscribes:
  its channel, which has room for one description, is filled by each report. Events are left out.
\<close>

section \<open>Versions of a reply\<close>

definition compareToIncoming :: "topologyVersion option \<Rightarrow> topologyVersion option \<Rightarrow> int" where
  "compareToIncoming tv response =
     (case (tv, response) of
        (Some a, Some b) \<Rightarrow>
          if tvProcess a \<noteq> tvProcess b then -1
          else if tvCounter a = tvCounter b then 0
          else if tvCounter a < tvCounter b then -1
          else 1
      | _ \<Rightarrow> -1)"

section \<open>Differences of two descriptions\<close>

text \<open>The loop over the new servers: what is not among the old addresses is added, and taken off them otherwise.\<close>

primrec diffNew :: "(string \<Rightarrow> string) \<Rightarrow> serverDesc list \<Rightarrow> string set \<Rightarrow> serverDesc list \<times> string set" where
  "diffNew low [] old = ([], old)"
| "diffNew low (s # ss) old =
     (if canonical low (sdAddr s) \<in> old then diffNew low ss (old - {canonical low (sdAddr s)})
      else let (added, left) = diffNew low ss old in (s # added, left))"

definition diffTopology :: "(string \<Rightarrow> string) \<Rightarrow> serverDesc list \<Rightarrow> serverDesc list \<Rightarrow> serverDesc list \<times> serverDesc list" where
  "diffTopology low old new =
     (let (added, left) = diffNew low new (set (map (\<lambda>s. canonical low (sdAddr s)) old))
      in (added, filter (\<lambda>s. canonical low (sdAddr s) \<in> left) old))"

section \<open>The deployment\<close>

record deployment =
  dpFsm :: fsm
  dpServers :: "string set"
  dpClosed :: bool
  dpDesc :: topologyDesc
  dpSubs :: "64 word \<rightharpoonup> topologyDesc option"
  dpNext :: "64 word"
  dpSubsClosed :: bool
  dpUp :: bool

text \<open>
  The fields of the code: \<open>fsm\<close>, the keys of \<open>servers\<close>, \<open>serversClosed\<close>, \<open>desc\<close>, \<open>subscribers\<close>
  with what waits in the channel of each, \<open>currentSubscriberID\<close>, \<open>subscriptionsClosed\<close>, and whether
  \<open>connectionstate\<close> is \<open>connected\<close>.
\<close>

definition connectServer :: "(string \<Rightarrow> bool) \<Rightarrow> string \<Rightarrow> string set \<Rightarrow> string set" where
  "connectServer connects addr servers = (if connects addr then insert addr servers else servers)"

text \<open>
  \<open>Connect\<close>; the first server that cannot be made is its error. The first description names the kind,
  the servers and the session timeout only. A load-balanced client keeps the one server, which
  nobody watches.
\<close>

definition connectedWith :: "fsm \<Rightarrow> string set \<Rightarrow> topologyDesc \<Rightarrow> deployment" where
  "connectedWith f servers desc =
     \<lparr>dpFsm = f, dpServers = servers, dpClosed = False, dpDesc = desc, dpSubs = Map.empty, dpNext = 0,
      dpSubsClosed = False, dpUp = True\<rparr>"

definition firstDesc :: "fsm \<Rightarrow> topologyDesc" where
  "firstDesc f = (topologyDesc.truncate newFSM)\<lparr>tdKind := tdKind f, tdServers := tdServers f, tdTimeout := tdTimeout f\<rparr>"

definition connectTopology :: "(string \<Rightarrow> string) \<Rightarrow> (string \<Rightarrow> bool) \<Rightarrow> string \<Rightarrow> bool \<Rightarrow> bool \<Rightarrow> string list \<Rightarrow> deployment option" where
  "connectTopology low connects name direct balanced seeds =
     (let f = startFsm low name direct seeds in
      if balanced then
        (let a = canonical low (hd seeds);
             g = f\<lparr>tdKind := LoadBalanced, tdServers := [(newDefaultServer a)\<lparr>sdKind := LoadBalancer\<rparr>]\<rparr>
         in if connects a
            then Some (connectedWith g {a} (topologyDesc.truncate g))
            else None)
      else if list_all (\<lambda>a. connects (canonical low a)) seeds
      then Some (connectedWith f (set (map (canonical low) seeds)) (firstDesc f))
      else None)"

text \<open>A description for the channels: each is drained, then filled. \<open>apply\<close> ends with it.\<close>

definition publish :: "topologyDesc \<Rightarrow> deployment \<Rightarrow> deployment" where
  "publish t d = d\<lparr>dpSubs := (\<lambda>ch. map_option (\<lambda>_. Some t) (dpSubs d ch))\<rparr>"

definition topologyApply :: "(string \<Rightarrow> string) \<Rightarrow> (string \<Rightarrow> bool) \<Rightarrow> serverDesc \<Rightarrow> deployment \<Rightarrow> serverDesc \<times> deployment" where
  "topologyApply low connects s d =
     (case findServer low (dpFsm d) (sdAddr s) of
        None \<Rightarrow> (s, d)
      | Some i \<Rightarrow>
          if dpClosed d then (s, d)
          else
            let old = tdServers (dpFsm d) ! i in
            if compareToIncoming (sdVersion old) (sdVersion s) > 0 then (old, d)
            else
              let (s', f) = fsmApply low s (dpFsm d);
                  (added, removed) = diffTopology low (tdServers (dpFsm d)) (tdServers f);
                  kept = dpServers d - set (map sdAddr removed)
              in (s', publish (topologyDesc.truncate f)
                       (d\<lparr>dpFsm := f, dpServers := fold (connectServer connects) (map sdAddr added) kept,
                          dpDesc := topologyDesc.truncate f\<rparr>)))"

primrec runTopology :: "(string \<Rightarrow> string) \<Rightarrow> (string \<Rightarrow> bool) \<Rightarrow> serverDesc list \<Rightarrow> deployment \<Rightarrow> deployment" where
  "runTopology low connects [] d = d"
| "runTopology low connects (s # ss) d = runTopology low connects ss (snd (topologyApply low connects s d))"

text \<open>
  \<open>Subscribe\<close> with the description it loaded before it took the lock, \<open>Unsubscribe\<close>, a selection that
  takes what waits in its channel (\<open>None\<close> when it has to wait), and \<open>Disconnect\<close>, for a client
  that does not poll SRV records.
\<close>

definition topologySubscribe :: "topologyDesc \<Rightarrow> deployment \<Rightarrow> string + 64 word \<times> deployment" where
  "topologySubscribe loaded d =
     (if \<not> dpUp d then Inl ''cannot subscribe to Topology that is not connected''
      else if dpSubsClosed d then Inl ''cannot subscribe after closeConnection''
      else Inr (dpNext d, d\<lparr>dpSubs := (dpSubs d)(dpNext d \<mapsto> Some loaded), dpNext := dpNext d + 1\<rparr>))"

definition topologyUnsubscribe :: "64 word \<Rightarrow> deployment \<Rightarrow> deployment" where
  "topologyUnsubscribe ch d = (if dpSubsClosed d then d else d\<lparr>dpSubs := (dpSubs d)(ch := None)\<rparr>)"

definition takeUpdate :: "64 word \<Rightarrow> deployment \<Rightarrow> (topologyDesc \<times> deployment) option" where
  "takeUpdate ch d =
     (case dpSubs d ch of
        Some (Some t) \<Rightarrow> Some (t, d\<lparr>dpSubs := (dpSubs d)(ch \<mapsto> None)\<rparr>)
      | _ \<Rightarrow> None)"

definition topologyDisconnect :: "deployment \<Rightarrow> string + deployment" where
  "topologyDisconnect d =
     (if \<not> dpUp d then Inl ''topology is closed''
      else Inr (d\<lparr>dpClosed := True, dpSubs := Map.empty, dpSubsClosed := True,
                 dpDesc := topologyDesc.truncate newFSM, dpUp := False\<rparr>))"

text \<open>What happens to a connected deployment: reports of the monitors, and selections that wait.\<close>

datatype topologyEvent = Report serverDesc | Subscribed topologyDesc | Unsubscribed "64 word" | Taken "64 word"

fun topologyStep :: "(string \<Rightarrow> string) \<Rightarrow> (string \<Rightarrow> bool) \<Rightarrow> topologyEvent \<Rightarrow> deployment \<Rightarrow> deployment" where
  "topologyStep low connects (Report s) d = snd (topologyApply low connects s d)"
| "topologyStep low connects (Subscribed loaded) d = (case topologySubscribe loaded d of Inl err \<Rightarrow> d | Inr (ch, d') \<Rightarrow> d')"
| "topologyStep low connects (Unsubscribed ch) d = topologyUnsubscribe ch d"
| "topologyStep low connects (Taken ch) d = (case takeUpdate ch d of None \<Rightarrow> d | Some (t, d') \<Rightarrow> d')"

definition topologySteps :: "(string \<Rightarrow> string) \<Rightarrow> (string \<Rightarrow> bool) \<Rightarrow> topologyEvent list \<Rightarrow> deployment \<Rightarrow> deployment" where
  "topologySteps low connects evs d = fold (topologyStep low connects) evs d"

definition goodEvent :: "(string \<Rightarrow> string) \<Rightarrow> topologyEvent \<Rightarrow> bool" where
  "goodEvent low ev = (case ev of Report s \<Rightarrow> goodDesc low s | _ \<Rightarrow> True)"

section \<open>The monitored servers are those of the description\<close>

lemma set_steps:
  "a \<notin> A \<Longrightarrow> a \<in> B \<Longrightarrow> A - (B - {a}) = insert a A - B"
  "B - {a} - A = B - insert a A"
  by blast+

lemma diffNew_settled:
  assumes "\<forall>s\<in>set ss. settled low (sdAddr s)" and "distinct (map sdAddr ss)"
  shows "set (map sdAddr (fst (diffNew low ss old))) = sdAddr ` set ss - old
    \<and> snd (diffNew low ss old) = old - sdAddr ` set ss"
  using assms
proof (induction ss arbitrary: old)
  case (Cons s ss)
  have c: "canonical low (sdAddr s) = sdAddr s" using Cons.prems(1) by (simp add: settled_def)
  have n: "sdAddr s \<notin> sdAddr ` set ss" using Cons.prems(2) by simp
  show ?case
  proof (cases "sdAddr s \<in> old")
    case True
    with Cons.IH [of "old - {sdAddr s}"] Cons.prems c set_steps(1) [OF n True] set_steps(2) [of old "sdAddr s" "sdAddr ` set ss"]
    show ?thesis by simp
  next
    case False
    with Cons.IH [of old] Cons.prems c n show ?thesis by (auto simp: split_beta)
  qed
qed simp

lemma fold_connect: "fold (connectServer connects) as servers = servers \<union> {a \<in> set as. connects a}"
  by (induction as arbitrary: servers) (auto simp: connectServer_def)

definition watched :: "(string \<Rightarrow> string) \<Rightarrow> (string \<Rightarrow> bool) \<Rightarrow> deployment \<Rightarrow> bool" where
  "watched low connects d \<longleftrightarrow> sdamInv low (dpFsm d) \<and> dpServers d \<subseteq> set (addresses (dpFsm d))
     \<and> ((\<forall>a. connects a) \<longrightarrow> dpServers d = set (addresses (dpFsm d)))
     \<and> tdKind (dpDesc d) = tdKind (dpFsm d) \<and> tdServers (dpDesc d) = tdServers (dpFsm d)
     \<and> tdCompat (dpDesc d) = tdCompat (dpFsm d) \<and> \<not> dpClosed d"

lemma truncate_fields:
  "tdKind (topologyDesc.truncate f) = tdKind f" "tdServers (topologyDesc.truncate f) = tdServers f"
  "tdCompat (topologyDesc.truncate f) = tdCompat f"
  by (simp_all add: topologyDesc.truncate_def)

lemma wellAddressed_settled: "wellAddressed low f \<Longrightarrow> s \<in> set (tdServers f) \<Longrightarrow> settled low (sdAddr s)"
  by (auto simp: wellAddressed_def addresses_def list_all_iff)

lemma diffTopology_addresses:
  assumes "wellAddressed low f" and "wellAddressed low g"
  shows "sdAddr ` set (fst (diffTopology low (tdServers f) (tdServers g))) = set (addresses g) - set (addresses f)"
    and "sdAddr ` set (snd (diffTopology low (tdServers f) (tdServers g))) = set (addresses f) - set (addresses g)"
proof -
  have c: "map (\<lambda>s. canonical low (sdAddr s)) (tdServers f) = map sdAddr (tdServers f)"
    using wellAddressed_settled [OF assms(1)] by (intro map_cong) (simp_all add: settled_def)
  have d: "distinct (map sdAddr (tdServers g))" "\<forall>s\<in>set (tdServers g). settled low (sdAddr s)"
    using assms(2) wellAddressed_settled [OF assms(2)] by (simp_all add: wellAddressed_def addresses_def)
  note n = diffNew_settled [OF d(2,1), of "set (map sdAddr (tdServers f))"]
  show "sdAddr ` set (fst (diffTopology low (tdServers f) (tdServers g))) = set (addresses g) - set (addresses f)"
    using n by (auto simp: diffTopology_def c split_beta addresses_def)
  have k: "canonical low (sdAddr s) = sdAddr s" if "s \<in> set (tdServers f)" for s
    using wellAddressed_settled [OF assms(1) that] by (simp add: settled_def)
  have "snd (diffTopology low (tdServers f) (tdServers g)) =
      filter (\<lambda>s. canonical low (sdAddr s) \<in> set (map sdAddr (tdServers f)) - sdAddr ` set (tdServers g)) (tdServers f)"
    using n by (simp only: diffTopology_def c Let_def split_beta snd_conv)
  also have "\<dots> = filter (\<lambda>s. sdAddr s \<notin> set (addresses g)) (tdServers f)"
    by (intro filter_cong refl) (simp add: k addresses_def)
  finally have "snd (diffTopology low (tdServers f) (tdServers g)) = filter (\<lambda>s. sdAddr s \<notin> set (addresses g)) (tdServers f)" .
  then show "sdAddr ` set (snd (diffTopology low (tdServers f) (tdServers g))) = set (addresses f) - set (addresses g)"
    by (auto simp: addresses_def)
qed

lemma topologyApply_watched:
  assumes "watched low connects d" and "goodDesc low s"
  shows "watched low connects (snd (topologyApply low connects s d))"
proof -
  let ?f = "dpFsm d" and ?g = "snd (fsmApply low s (dpFsm d))"
  let ?t = "diffTopology low (tdServers ?f) (tdServers ?g)"
  have i: "sdamInv low ?f" and w: "dpServers d \<subseteq> set (addresses ?f)" "(\<forall>a. connects a) \<longrightarrow> dpServers d = set (addresses ?f)"
    using assms(1) by (simp_all add: watched_def)
  have j: "sdamInv low ?g" by (rule fsmApply_inv [OF i assms(2)])
  have wa: "wellAddressed low ?f" "wellAddressed low ?g" using i j by (simp_all add: sdamInv_def)
  note diff = diffTopology_addresses [OF wa]
  let ?s = "fold (connectServer connects) (map sdAddr (fst ?t)) (dpServers d - set (map sdAddr (snd ?t)))"
  have s: "?s = (dpServers d - (set (addresses ?f) - set (addresses ?g))) \<union> {a \<in> set (addresses ?g) - set (addresses ?f). connects a}"
    using diff by (simp add: fold_connect)
  have "?s \<subseteq> set (addresses ?g)" "(\<forall>a. connects a) \<longrightarrow> ?s = set (addresses ?g)" unfolding s using w by auto
  then show ?thesis
    using assms(1) j
    by (auto simp: watched_def topologyApply_def Let_def split_beta publish_def truncate_fields split: option.split)
qed

lemma startFsm_addresses: "addresses (startFsm low name direct seeds) = map (canonical low) seeds"
  by (simp add: addresses_def startFsm_def)

lemma connectTopology_watched:
  "goodSeeds low direct seeds \<Longrightarrow> connectTopology low connects name direct False seeds = Some d \<Longrightarrow> watched low connects d"
  using startFsm_inv [of low direct seeds name]
  by (auto simp: connectTopology_def connectedWith_def firstDesc_def topologyDesc.truncate_def newFSM_def watched_def Let_def
      startFsm_addresses startFsm_def [THEN arg_cong, of tdCompat] split: if_splits)

lemma runTopology_watched:
  "watched low connects d \<Longrightarrow> list_all (goodDesc low) ss \<Longrightarrow> watched low connects (runTopology low connects ss d)"
  by (induction ss arbitrary: d) (simp_all add: topologyApply_watched)

lemma topologyStep_watched:
  assumes "watched low connects d" and "goodEvent low ev"
  shows "watched low connects (topologyStep low connects ev d)"
proof (cases ev)
  case (Report s)
  with assms show ?thesis by (simp add: goodEvent_def topologyApply_watched)
qed (use assms(1) in \<open>auto simp: topologySubscribe_def topologyUnsubscribe_def takeUpdate_def watched_def
       split: option.splits\<close>)

lemma topologySteps_watched:
  "watched low connects d \<Longrightarrow> list_all (goodEvent low) evs \<Longrightarrow> watched low connects (topologySteps low connects evs d)"
  unfolding topologySteps_def by (induction evs arbitrary: d) (simp_all add: topologyStep_watched)

lemma apply_departed:
  assumes "settled low (sdAddr s)" and "sdAddr s \<notin> set (addresses (dpFsm d))"
  shows "topologyApply low connects s d = (s, d)"
proof -
  have "findServer low (dpFsm d) (sdAddr s) = None" using assms by (simp add: findServer_None settled_def)
  then show ?thesis by (simp add: topologyApply_def)
qed

text \<open>The entry of a listed address is found, because no address is listed twice.\<close>

lemma findServer_entry:
  assumes "wellAddressed low f" and "s \<in> set (tdServers f)"
  obtains i where "findServer low f (sdAddr s) = Some i" and "tdServers f ! i = s"
proof (cases "findServer low f (sdAddr s)")
  case None
  then show thesis
    using assms wellAddressed_settled [OF assms] by (simp add: findServer_None settled_def addresses_def)
next
  case (Some i)
  then have i: "i < length (tdServers f)" "sdAddr (tdServers f ! i) = sdAddr s"
    using wellAddressed_settled [OF assms] by (auto simp: findServer_def settled_def dest: indexOf_Some)
  obtain j where j: "j < length (tdServers f)" "tdServers f ! j = s" using assms(2) by (auto simp: in_set_conv_nth)
  have "distinct (map sdAddr (tdServers f))" using assms(1) by (simp add: wellAddressed_def addresses_def)
  with i j have "i = j" by (auto simp: distinct_conv_nth)
  with Some j(2) show thesis using that by blast
qed

lemma apply_listed:
  assumes "watched low connects d" and "old \<in> set (tdServers (dpFsm d))" and "sdAddr s = sdAddr old"
  shows "topologyApply low connects s d =
     (if compareToIncoming (sdVersion old) (sdVersion s) > 0 then (old, d)
      else topologyApply low connects s d)"
    and "compareToIncoming (sdVersion old) (sdVersion s) \<le> 0 \<Longrightarrow>
      dpDesc (snd (topologyApply low connects s d)) = topologyDesc.truncate (snd (fsmApply low s (dpFsm d)))
      \<and> dpSubs (snd (topologyApply low connects s d)) =
          (\<lambda>ch. map_option (\<lambda>_. Some (topologyDesc.truncate (snd (fsmApply low s (dpFsm d))))) (dpSubs d ch))"
proof -
  have "wellAddressed low (dpFsm d)" and up: "\<not> dpClosed d" using assms(1) by (simp_all add: watched_def sdamInv_def)
  from findServer_entry [OF this(1) assms(2)]
  obtain i where i: "findServer low (dpFsm d) (sdAddr s) = Some i" "tdServers (dpFsm d) ! i = old"
    using assms(3) by metis
  show "topologyApply low connects s d =
     (if compareToIncoming (sdVersion old) (sdVersion s) > 0 then (old, d)
      else topologyApply low connects s d)"
    using i up by (simp add: topologyApply_def)
  show "dpDesc (snd (topologyApply low connects s d)) = topologyDesc.truncate (snd (fsmApply low s (dpFsm d)))
      \<and> dpSubs (snd (topologyApply low connects s d)) =
          (\<lambda>ch. map_option (\<lambda>_. Some (topologyDesc.truncate (snd (fsmApply low s (dpFsm d))))) (dpSubs d ch))"
    if "compareToIncoming (sdVersion old) (sdVersion s) \<le> 0"
    using i up that by (simp add: topologyApply_def Let_def split_beta publish_def)
qed

text \<open>
  C33. The client watches the servers of its description and no others. After \<open>Connect\<close>, without a
  load balancer, and any reports, subscriptions and selections that took what waits for them, there
  is no monitor for an address that is not listed, and one for each listed address while server
  objects can be made. A report then of a server that is not listed any more changes nothing, nor
  does one that is older than the listed one; any other makes the machine take its step, and the
  new description of the machine is the current one and waits in the channel of every selection
  that subscribed.
\<close>

theorem monitors_follow_description:
  assumes "goodSeeds low direct seeds" and "connectTopology low connects name direct False seeds = Some d"
    and "list_all (goodEvent low) evs" and "goodDesc low s"
  shows "let D = topologySteps low connects evs d; (s', D') = topologyApply low connects s D in
    dpServers D \<subseteq> set (addresses (dpDesc D))
    \<and> ((\<forall>a. connects a) \<longrightarrow> dpServers D = set (addresses (dpDesc D)))
    \<and> (sdAddr s \<notin> set (addresses (dpDesc D)) \<longrightarrow> (s', D') = (s, D))
    \<and> (\<forall>old\<in>set (tdServers (dpDesc D)). sdAddr s = sdAddr old \<longrightarrow>
        (if compareToIncoming (sdVersion old) (sdVersion s) > 0 then (s', D') = (old, D)
         else dpDesc D' = topologyDesc.truncate (snd (fsmApply low s (dpFsm D)))
           \<and> dom (dpSubs D') = dom (dpSubs D) \<and> (\<forall>ch\<in>dom (dpSubs D). dpSubs D' ch = Some (Some (dpDesc D')))))"
proof -
  let ?D = "topologySteps low connects evs d"
  have w: "watched low connects ?D"
    by (rule topologySteps_watched [OF connectTopology_watched [OF assms(1,2)] assms(3)])
  then have a: "addresses (dpDesc ?D) = addresses (dpFsm ?D)" and t: "tdServers (dpDesc ?D) = tdServers (dpFsm ?D)"
    by (simp_all add: watched_def addresses_def)
  obtain s' D' where x: "topologyApply low connects s ?D = (s', D')" by fastforce
  have gone: "(s', D') = (s, ?D)" if "sdAddr s \<notin> set (addresses (dpFsm ?D))"
    using apply_departed [of low s ?D connects] assms(4) that x by (simp add: goodDesc_def)
  have listed: "if compareToIncoming (sdVersion old) (sdVersion s) > 0 then (s', D') = (old, ?D)
       else dpDesc D' = topologyDesc.truncate (snd (fsmApply low s (dpFsm ?D)))
         \<and> dom (dpSubs D') = dom (dpSubs ?D) \<and> (\<forall>ch\<in>dom (dpSubs ?D). dpSubs D' ch = Some (Some (dpDesc D')))"
    if "old \<in> set (tdServers (dpFsm ?D))" "sdAddr s = sdAddr old" for old
  proof (cases "compareToIncoming (sdVersion old) (sdVersion s) > 0")
    case True
    with apply_listed(1) [OF w that] x show ?thesis by simp
  next
    case False
    then have c: "compareToIncoming (sdVersion old) (sdVersion s) \<le> 0" by simp
    from apply_listed(2) [OF w that c] x
    have D: "dpDesc D' = topologyDesc.truncate (snd (fsmApply low s (dpFsm ?D)))"
      "dpSubs D' = (\<lambda>ch. map_option (\<lambda>_. Some (dpDesc D')) (dpSubs ?D ch))" by simp_all
    have "dom (dpSubs D') = dom (dpSubs ?D)" "\<forall>ch\<in>dom (dpSubs ?D). dpSubs D' ch = Some (Some (dpDesc D'))"
      by (subst D(2); auto)+
    with False D(1) show ?thesis by simp
  qed
  have servers: "dpServers ?D \<subseteq> set (addresses (dpFsm ?D))" "(\<forall>a. connects a) \<longrightarrow> dpServers ?D = set (addresses (dpFsm ?D))"
    using w by (simp_all add: watched_def)
  show ?thesis
    unfolding Let_def x prod.case a t
    by (intro conjI servers impI ballI gone listed)
qed

text \<open>A reply that is older than the one listed, of the same process, changes nothing.\<close>

lemma old_reply_ignored:
  assumes "findServer low (dpFsm d) (sdAddr s) = Some i" and "\<not> dpClosed d"
    and "sdVersion (tdServers (dpFsm d) ! i) = Some a" and "sdVersion s = Some b"
    and "tvProcess a = tvProcess b" and "tvCounter b < tvCounter a"
  shows "topologyApply low connects s d = (tdServers (dpFsm d) ! i, d)"
  using assms by (simp add: topologyApply_def compareToIncoming_def)

section \<open>Where the client reads and writes\<close>

text \<open>A selection reads the kind, the servers and the compatibility of a description.\<close>

lemma select_agree:
  assumes "tdKind t = tdKind f" and "tdServers t = tdServers f"
  shows "latencySelect l t cs = latencySelect l f cs" and "writeSelect t cs = writeSelect f cs"
    and "readPrefSelect rp t cs = readPrefSelect rp f cs"
  unfolding latencySelect_def writeSelect_def readPrefSelect_def selectForReplicaSet_def verifyMaxStaleness_def assms
  by (rule refl)+

lemma selectServers_agree:
  assumes "tdKind t = tdKind f" and "tdServers t = tdServers f" and "tdCompat t = tdCompat f"
  shows "selectServers (readSelector rp l) t = selectServers (readSelector rp l) f"
    and "selectServers (writeSelector l) t = selectServers (writeSelector l) f"
  unfolding selectServers_def readSelector_def writeSelector_def compositeSelect.simps
    select_agree [OF assms(1,2)] assms
  by (rule refl)+

lemma watched_reads:
  assumes "watched low connects d" and "list_all (goodDesc low) ss"
    and "tdCompat (dpDesc (runTopology low connects ss d)) = None"
  shows "selectServers (readSelector primaryRead threshold) (dpDesc (runTopology low connects ss d))
      = selectServers (writeSelector threshold) (dpDesc (runTopology low connects ss d))
    \<and> (tdKind (dpDesc (runTopology low connects ss d)) = ReplicaSetWithPrimary \<longrightarrow>
        (\<exists>p\<in>set (tdServers (dpDesc (runTopology low connects ss d))). sdKind p = RSPrimary
          \<and> selectServers (writeSelector threshold) (dpDesc (runTopology low connects ss d)) = Inr [p]))
    \<and> (tdKind (dpDesc (runTopology low connects ss d)) \<in> {ReplicaSetNoPrimary, UnknownTopology} \<longrightarrow>
        selectServers (writeSelector threshold) (dpDesc (runTopology low connects ss d)) = Inr [])"
proof -
  have w: "watched low connects (runTopology low connects ss d)" by (rule runTopology_watched [OF assms(1,2)])
  then have d: "tdKind (dpDesc (runTopology low connects ss d)) = tdKind (dpFsm (runTopology low connects ss d))"
      "tdServers (dpDesc (runTopology low connects ss d)) = tdServers (dpFsm (runTopology low connects ss d))"
      "tdCompat (dpDesc (runTopology low connects ss d)) = tdCompat (dpFsm (runTopology low connects ss d))"
    and i: "sdamInv low (dpFsm (runTopology low connects ss d))" by (simp_all add: watched_def)
  have "tdCompat (dpFsm (runTopology low connects ss d)) = None" using assms(3) d(3) by simp
  from reads_follow_inv [OF i this] show ?thesis unfolding selectServers_agree [OF d] d .
qed

text \<open>
  C34. Reads with the default preference and writes go to the same servers, in every description the
  client comes to have without a load balancer: in a replica set to the one primary, and to nobody
  while there is none or the kind of the deployment is not known yet.
\<close>

theorem reads_follow_writes:
  assumes "goodSeeds low direct seeds" and "connectTopology low connects name direct False seeds = Some d"
    and "list_all (goodDesc low) ss" and "tdCompat (dpDesc (runTopology low connects ss d)) = None"
  shows "selectServers (readSelector primaryRead threshold) (dpDesc (runTopology low connects ss d))
      = selectServers (writeSelector threshold) (dpDesc (runTopology low connects ss d))
    \<and> (tdKind (dpDesc (runTopology low connects ss d)) = ReplicaSetWithPrimary \<longrightarrow>
        (\<exists>p\<in>set (tdServers (dpDesc (runTopology low connects ss d))). sdKind p = RSPrimary
          \<and> selectServers (writeSelector threshold) (dpDesc (runTopology low connects ss d)) = Inr [p]))
    \<and> (tdKind (dpDesc (runTopology low connects ss d)) \<in> {ReplicaSetNoPrimary, UnknownTopology} \<longrightarrow>
        selectServers (writeSelector threshold) (dpDesc (runTopology low connects ss d)) = Inr [])"
  by (rule watched_reads [OF connectTopology_watched [OF assms(1,2)] assms(3,4)])

subsection \<open>Witnesses\<close>

lemma sample_connect:
  "\<exists>d. connectTopology id (\<lambda>_. True) '''' False False [''a:1''] = Some d
    \<and> tdCompat (dpDesc (runTopology id (\<lambda>_. True) [oldPrimary] d)) = None
    \<and> tdKind (dpDesc (runTopology id (\<lambda>_. True) [oldPrimary] d)) = ReplicaSetWithPrimary"
proof -
  let ?d = "the (connectTopology id (\<lambda>_. True) '''' False False [''a:1''])"
  have "connectTopology id (\<lambda>_. True) '''' False False [''a:1''] = Some ?d" by (simp add: connectTopology_def Let_def)
  moreover have "tdCompat (dpDesc (runTopology id (\<lambda>_. True) [oldPrimary] ?d)) = None"
    "tdKind (dpDesc (runTopology id (\<lambda>_. True) [oldPrimary] ?d)) = ReplicaSetWithPrimary" by code_simp+
  ultimately show ?thesis by blast
qed

theorem monitors_follow_description_witness:
  "\<exists>d. connectTopology id (\<lambda>_. True) '''' False False [''a:1''] = Some d
    \<and> dpSubs (snd (topologyApply id (\<lambda>_. True) oldPrimary (topologySteps id (\<lambda>_. True) [Subscribed (dpDesc d)] d))) 0
        = Some (Some (dpDesc (snd (topologyApply id (\<lambda>_. True) oldPrimary (topologySteps id (\<lambda>_. True) [Subscribed (dpDesc d)] d)))))"
proof -
  let ?d = "the (connectTopology id (\<lambda>_. True) '''' False False [''a:1''])"
  let ?D = "topologySteps id (\<lambda>_. True) [Subscribed (dpDesc ?d)] ?d"
  have d: "connectTopology id (\<lambda>_. True) '''' False False [''a:1''] = Some ?d" by (simp add: connectTopology_def Let_def)
  have old: "tdServers (dpDesc ?D) = [newDefaultServer ''a:1'']" "sdAddr oldPrimary = sdAddr (newDefaultServer ''a:1'')"
    "\<not> compareToIncoming (sdVersion (newDefaultServer ''a:1'')) (sdVersion oldPrimary) > 0" "dpSubs ?D 0 \<noteq> None" by code_simp+
  obtain s' D' where x: "topologyApply id (\<lambda>_. True) oldPrimary ?D = (s', D')" by fastforce
  have "list_all (goodEvent id) [Subscribed (dpDesc ?d)]" by (simp add: goodEvent_def)
  from monitors_follow_description [OF sample_seeds d this sample_good(1), unfolded Let_def x prod.case] old
  have "\<forall>ch\<in>dom (dpSubs ?D). dpSubs D' ch = Some (Some (dpDesc D'))" by simp
  moreover have "0 \<in> dom (dpSubs ?D)" using old(4) by (simp only: domIff not_False_eq_True)
  ultimately have "dpSubs D' 0 = Some (Some (dpDesc D'))" by (rule bspec)
  with x have "dpSubs (snd (topologyApply id (\<lambda>_. True) oldPrimary ?D)) 0
        = Some (Some (dpDesc (snd (topologyApply id (\<lambda>_. True) oldPrimary ?D))))" by (simp only: snd_conv)
  with d show ?thesis by blast
qed

theorem reads_follow_writes_witness:
  "\<exists>d p. connectTopology id (\<lambda>_. True) '''' False False [''a:1''] = Some d \<and> sdKind p = RSPrimary
    \<and> selectServers (readSelector primaryRead 15000000) (dpDesc (runTopology id (\<lambda>_. True) [oldPrimary] d)) = Inr [p]
    \<and> selectServers (writeSelector 15000000) (dpDesc (runTopology id (\<lambda>_. True) [oldPrimary] d)) = Inr [p]"
proof -
  obtain d where d: "connectTopology id (\<lambda>_. True) '''' False False [''a:1''] = Some d"
    "tdCompat (dpDesc (runTopology id (\<lambda>_. True) [oldPrimary] d)) = None"
    "tdKind (dpDesc (runTopology id (\<lambda>_. True) [oldPrimary] d)) = ReplicaSetWithPrimary" using sample_connect by blast
  have g: "list_all (goodDesc id) [oldPrimary]" using sample_good by simp
  from reads_follow_writes [OF sample_seeds d(1) g d(2), of 15000000] d show ?thesis by auto
qed

end
