(* ===== verification/Addresses.thy ===== *)
theory Addresses
  imports Sdam MongoClient
begin

text \<open>
  Addresses in practice: a host name of ASCII bytes without the marks of addresses, and perhaps a
  port. Their canonical form (\<open>Address.String\<close> of \<open>mongo/address\<close>) is its own canonical form, which
  is not so for every text.
\<close>

lemma lowerByte_ascii: "ord c < 128 \<Longrightarrow> ord (lowerByte c) < 128"
proof (cases "is_upper c")
  case True
  then show ?thesis using of_char_lowerByte [OF True] by (simp add: is_upper_def)
qed (simp add: lowerByte_def)

lemma lowerByte_twice: "lowerByte (lowerByte c) = lowerByte c"
proof (cases "is_upper c")
  case True
  then have "\<not> is_upper (lowerByte c)" using lowerByte_lower [OF True] by (auto simp: is_lower_def is_upper_def)
  then show ?thesis by (simp add: lowerByte_def)
qed (simp add: lowerByte_def)

lemma lowerByte_plain: "c \<notin> set '':[]'' \<Longrightarrow> lowerByte c \<notin> set '':[]''"
proof (cases "is_upper c")
  case True
  then have "is_lower (lowerByte c)" by (rule lowerByte_lower)
  then show ?thesis by (auto simp: is_lower_def)
qed (simp add: lowerByte_def)

lemma lowerByte_digit: "is_digit c \<Longrightarrow> lowerByte c = c"
  by (simp add: lowerByte_def is_upper_def is_digit_def)

definition asciiHost :: "string \<Rightarrow> bool" where
  "asciiHost h \<longleftrightarrow> hostText h \<and> list_all (\<lambda>c. ord c < 128) h"

lemma asciiHost_lower_facts:
  assumes "asciiHost h"
  shows "toLower h \<noteq> ''''" and "list_all (\<lambda>c. c \<notin> set '':[]'') (toLower h)" and "list_all (\<lambda>c. ord c < 128) h"
  using assms lowerByte_plain by (auto simp: asciiHost_def hostText_def list_all_iff toLower_def)

lemma canonical_port:
  assumes "asciiHost h" and "list_all is_digit p" and "p \<noteq> ''''"
  shows "canonical low (h @ '':'' @ p) = toLower h @ '':'' @ p"
proof -
  note h = asciiHost_lower_facts [OF assms(1)]
  have l: "toLower p = p" unfolding toLower_def
    using assms(2) by (intro map_idI) (simp add: list_all_iff lowerByte_digit)
  have a: "list_all (\<lambda>c. ord c < 128) (h @ '':'' @ p)"
    using h(3) assms(2) by (auto simp: list_all_iff is_digit_def)
  have s: "ToLower low (h @ '':'' @ p) = toLower h @ '':'' @ p"
    using a l by (simp add: ToLower_def toLower_def lowerByte_def is_upper_def)
  have sp: "splitHostPort (toLower h @ '':'' @ p) = HostPort (toLower h) p"
  proof -
    have "list_all (\<lambda>c. c \<notin> set '':[]'') p" using assms(2) by (auto simp: list_all_iff is_digit_def)
    from splitHostPort_plain [OF h(2) this h(1)] show ?thesis by simp
  qed
  have "last p \<in> set p" using assms(3) by simp
  then have "is_digit (last p)" using assms(2) by (simp add: list_all_iff)
  then have "last (h @ '':'' @ p) \<noteq> CHR ''k''" using assms(3) by (auto simp: is_digit_def)
  moreover have "last (x @ ''sock'') = CHR ''k''" for x by simp
  ultimately have "\<not> hasSuffix (h @ '':'' @ p) ''sock''" unfolding hasSuffix_iff by metis
  then show ?thesis unfolding canonical_def s Let_def noPortIn_def sp by simp
qed

lemma asciiHost_lower: "asciiHost h \<Longrightarrow> toLower (toLower h) = toLower h"
  by (simp add: toLower_def lowerByte_twice)

lemma asciiHost_lower_ascii: "asciiHost h \<Longrightarrow> asciiHost (toLower h)"
proof -
  assume a: "asciiHost h"
  have "lowerByte c \<notin> set ''%+@:/?,[]''" if "c \<notin> set ''%+@:/?,[]''" for c
  proof (cases "is_upper c")
    case True
    then have "is_lower (lowerByte c)" by (rule lowerByte_lower)
    then show ?thesis by (auto simp: is_lower_def)
  qed (use that in \<open>simp add: lowerByte_def\<close>)
  with a lowerByte_ascii show ?thesis by (auto simp: asciiHost_def hostText_def toLower_def list_all_iff)
qed

lemma toLower_sock: "hasSuffix h ''sock'' \<Longrightarrow> hasSuffix (toLower h) ''sock''"
  by (auto simp: hasSuffix_iff toLower_def lowerByte_def is_upper_def)

text \<open>A name alone gets the default port, unless it ends like a socket.\<close>

lemma canonical_name:
  assumes "asciiHost h"
  shows "canonical low h = (if hasSuffix h ''sock'' then toLower h else toLower h @ '':27017'')"
proof -
  note h = asciiHost_lower_facts [OF assms]
  have "ToLower low h = toLower h" using h(3) by (simp add: ToLower_def)
  moreover have "CHR '':'' \<notin> set (toLower h)" using h(2) by (auto simp: list_all_iff)
  then have "noPortIn (toLower h)" by (simp add: noPortIn_def splitHostPort_def)
  ultimately show ?thesis using h(1) by (simp add: canonical_def Let_def)
qed

definition plainAddress :: "string \<Rightarrow> bool" where
  "plainAddress a \<longleftrightarrow> asciiHost (takeWhile (\<lambda>c. c \<noteq> CHR '':'') a)
     \<and> (case dropWhile (\<lambda>c. c \<noteq> CHR '':'') a of [] \<Rightarrow> True | c # p \<Rightarrow> p \<noteq> '''' \<and> list_all is_digit p)"

lemma settled_port:
  assumes "asciiHost h" and "list_all is_digit p" and "p \<noteq> ''''"
  shows "settled low (toLower h @ '':'' @ p)"
  using canonical_port [OF asciiHost_lower_ascii [OF assms(1)] assms(2,3)] asciiHost_lower [OF assms(1)]
  by (simp add: settled_def)

lemma plainAddress_settled:
  assumes "plainAddress a"
  shows "settled low (canonical low a)"
proof -
  let ?h = "takeWhile (\<lambda>c. c \<noteq> CHR '':'') a"
  have h: "asciiHost ?h" using assms by (simp add: plainAddress_def)
  show ?thesis
  proof (cases "dropWhile (\<lambda>c. c \<noteq> CHR '':'') a")
    case Nil
    then have a: "?h = a" using takeWhile_dropWhile_id [of "\<lambda>c. c \<noteq> CHR '':''" a] by simp
    show ?thesis
    proof (cases "hasSuffix a ''sock''")
      case True
      with h a have "canonical low a = toLower a" "canonical low (toLower a) = toLower (toLower a)"
        using canonical_name [of a] canonical_name [OF asciiHost_lower_ascii, of a] toLower_sock [of a] by simp_all
      with h a show ?thesis by (simp add: settled_def asciiHost_lower)
    next
      case False
      with h a have "canonical low a = toLower a @ '':'' @ ''27017''" using canonical_name [of a] by simp
      with h a show ?thesis using settled_port [of a "''27017''"] by (simp add: is_digit_def)
    qed
  next
    case (Cons c p)
    have "c = CHR '':''" using hd_dropWhile [of "\<lambda>c. c \<noteq> CHR '':''" a] Cons by simp
    then have a: "a = ?h @ '':'' @ p" using takeWhile_dropWhile_id [of "\<lambda>c. c \<noteq> CHR '':''" a] Cons by simp
    have p: "list_all is_digit p" "p \<noteq> ''''" using assms Cons by (simp_all add: plainAddress_def)
    have "canonical low a = toLower ?h @ '':'' @ p" using canonical_port [OF h p, of low] a by simp
    with settled_port [OF h p] show ?thesis by simp
  qed
qed

text \<open>Not every text has a canonical form that is one.\<close>

lemma canonical_not_settled: "canonical low ''[a]b'' = ''[a]b:27017'' \<and> \<not> settled low ''[a]b:27017''"
  by (simp add: settled_def canonical_def ToLower_def toLower_def lowerByte_def is_upper_def noPortIn_def splitHostPort_def
      Let_def hasSuffix_iff beforeLast_def afterLast_def)

end
