(* ===== verification/Hello.thy ===== *)
theory Hello
  imports TopologyRun Addresses
begin

text \<open>
  How a monitor turns the reply of a server into a description: \<open>NewServer\<close> of
  \<open>mongo/description/server.go\<close> and \<open>NewTopologyVersion\<close>. The bytes of the reply are taken as
  read; a document knows whether they end properly. Conversions of floating-point numbers are
  parameters.
\<close>

section \<open>Values\<close>

datatype bson =
    BDouble string | BString string | BDocument "(string \<times> bson) list" bool | BArray "bson list" bool
  | BObjectID string | BBool bool | BDateTime int | BInt32 int | BInt64 int | BOther










section \<open>The elements of a reply\<close>




















section \<open>\<open>NewServer\<close>\<close>




section \<open>What a description holds\<close>


















subsection \<open>Witness\<close>




end
