(* ===== verification/MongoConnect.thy ===== *)
theory MongoConnect
  imports TopologyRun Addresses
begin

text \<open>
  \<open>mongo.Connect\<close>: \<open>MergeClientOptions\<close> of \<open>mongo/options/clientoptions.go\<close>, \<open>NewClient\<close> and
  \<open>configure\<close> of \<open>mongo/client.go\<close> with the defaults of the package \<open>topology\<close>, the choice of
  the authenticator in \<open>x/mongo/driver/auth\<close>, and the start of the deployment. Then what the
  server of this repository connects with, and how its configuration can end it.
\<close>

section \<open>Authenticators\<close>

record cred =
  cdSource :: string
  cdUsername :: string
  cdPassword :: string
  cdPasswordSet :: bool
  cdProps :: "(string \<times> string) list option"

text \<open>
  \<open>CreateAuthenticator\<close> with the registered constructors, built without GSSAPI: the error of the
  constructor, or none. \<open>SASLprep\<close> of the package \<open>stringprep\<close> is a parameter.
\<close>

definition scramSha256Error :: "(string \<Rightarrow> string option) \<Rightarrow> cred \<Rightarrow> string option" where
  "scramSha256Error prep c =
     (case prep (cdPassword c) of None \<Rightarrow> Some ''error SASLprepping password'' | Some _ \<Rightarrow> None)"

definition authenticatorError :: "(string \<Rightarrow> string option) \<Rightarrow> string \<Rightarrow> cred \<Rightarrow> string option" where
  "authenticatorError prep name c =
     (if name = '''' then map_option (\<lambda>e. ''failed to create internal authenticator: '' @ e) (scramSha256Error prep c)
      else if name = ''SCRAM-SHA-256'' then scramSha256Error prep c
      else if name = ''SCRAM-SHA-1'' \<or> name = ''MONGODB-CR'' \<or> name = ''PLAIN'' \<or> name = ''MONGODB-X509'' then None
      else if name = ''GSSAPI'' then Some ''GSSAPI support not enabled during build (-tags gssapi)''
      else if name = ''MONGODB-AWS'' then
        (if cdSource c \<noteq> '''' \<and> cdSource c \<noteq> ''$external''
         then Some ''MONGODB-AWS source must be empty or $external'' else None)
      else Some (''unknown authenticator: '' @ name))"

section \<open>\<open>MergeClientOptions\<close>\<close>

definition mergeTwo :: "clientOptions \<Rightarrow> clientOptions \<Rightarrow> clientOptions" where
  "mergeTwo c opt =
     \<lparr>coAppName = over (coAppName opt) (coAppName c), coAuth = over (coAuth opt) (coAuth c),
      coDirect = over (coDirect opt) (coDirect c), coConnectTimeout = over (coConnectTimeout opt) (coConnectTimeout c),
      coCompressors = (if coCompressors opt \<noteq> [] then coCompressors opt else coCompressors c),
      coZlib = over (coZlib opt) (coZlib c), coZstd = over (coZstd opt) (coZstd c),
      coHeartbeat = over (coHeartbeat opt) (coHeartbeat c),
      coHosts = (if coHosts opt \<noteq> [] then coHosts opt else coHosts c),
      coBalanced = over (coBalanced opt) (coBalanced c), coLocalThreshold = over (coLocalThreshold opt) (coLocalThreshold c),
      coMaxIdle = over (coMaxIdle opt) (coMaxIdle c), coMaxPool = over (coMaxPool opt) (coMaxPool c),
      coMinPool = over (coMinPool opt) (coMinPool c), coReadConcern = over (coReadConcern opt) (coReadConcern c),
      coReadPref = over (coReadPref opt) (coReadPref c), coRetryWrites = over (coRetryWrites opt) (coRetryWrites c),
      coRetryReads = over (coRetryReads opt) (coRetryReads c), coReplicaSet = over (coReplicaSet opt) (coReplicaSet c),
      coSelection = over (coSelection opt) (coSelection c), coSocket = over (coSocket opt) (coSocket c),
      coTls = over (coTls opt) (coTls c), coWriteConcern = over (coWriteConcern opt) (coWriteConcern c),
      coNoOCSP = over (coNoOCSP opt) (coNoOCSP c), coError = over (coError opt) (coError c),
      coScheme = over (coScheme opt) (coScheme c)\<rparr>"

definition mergeClientOptions :: "clientOptions list \<Rightarrow> clientOptions" where
  "mergeClientOptions opts = foldl mergeTwo emptyOptions opts"

lemma mergeClientOptions_one: "mergeClientOptions [c] = c"
  by (simp add: mergeClientOptions_def mergeTwo_def emptyOptions_def)

section \<open>\<open>configure\<close>\<close>

text \<open>
  The settings of a client, of its deployment, its servers and its connections, with the defaults
  of \<open>configure\<close>, \<open>newConfig\<close>, \<open>newServerConfig\<close> and \<open>newConnectionConfig\<close>.
\<close>

record clientConfig =
  ccfAuth :: "(string \<times> cred) option"
  ccfDBUser :: string
  ccfThreshold :: int
  ccfReadConcern :: "string option"
  ccfReadPref :: readPref
  ccfWriteConcern :: "writeConcern option"
  ccfRetryWrites :: bool
  ccfRetryReads :: bool
  ccfSeeds :: "string list"
  ccfSingle :: bool
  ccfReplicaSet :: string
  ccfSelection :: int
  ccfBalanced :: bool
  ccfAppName :: string
  ccfHeartbeatInterval :: int
  ccfHeartbeatTimeout :: int
  ccfMaxConns :: "64 word"
  ccfMinConns :: "64 word"
  ccfConnectTimeout :: int
  ccfIdleTimeout :: int
  ccfSocketTimeout :: int
  ccfCompressors :: "string list"
  ccfZlib :: "int option"
  ccfZstd :: "int option"
  ccfTls :: "tlsConfig option"
  ccfNoOCSP :: bool

definition orElse :: "'a option \<Rightarrow> 'a \<Rightarrow> 'a" where
  "orElse x d = (case x of None \<Rightarrow> d | Some v \<Rightarrow> v)"

definition credOf :: "credential \<Rightarrow> cred" where
  "credOf a =
     \<lparr>cdSource =
        (if crSource a \<noteq> '''' then crSource a
         else if toUpper (crMechanism a) \<in> {''MONGODB-X509'', ''GSSAPI'', ''PLAIN''} then ''$external'' else ''admin''),
      cdUsername = crUsername a, cdPassword = crPassword a, cdPasswordSet = crPasswordSet a, cdProps = crProperties a\<rparr>"

definition configured :: "clientOptions \<Rightarrow> clientConfig" where
  "configured c =
     (let auth = map_option (\<lambda>a. (crMechanism a, credOf a)) (coAuth c) in
      \<lparr>ccfAuth = auth,
       ccfDBUser = (case auth of
            None \<Rightarrow> ''''
          | Some (mechanism, cr) \<Rightarrow> if mechanism = '''' then cdSource cr @ ''.'' @ cdUsername cr else ''''),
       ccfThreshold = orElse (coLocalThreshold c) 15000000, ccfReadConcern = coReadConcern c,
       ccfReadPref = orElse (coReadPref c) primaryRead, ccfWriteConcern = coWriteConcern c,
       ccfRetryWrites = orElse (coRetryWrites c) True, ccfRetryReads = orElse (coRetryReads c) True,
       ccfSeeds = (if coHosts c \<noteq> [] then coHosts c else [''localhost:27017'']),
       ccfSingle = (coDirect c = Some True), ccfReplicaSet = orElse (coReplicaSet c) '''',
       ccfSelection = orElse (coSelection c) 30000000000, ccfBalanced = (coBalanced c = Some True),
       ccfAppName = orElse (coAppName c) '''',
       ccfHeartbeatInterval = orElse (coHeartbeat c) 10000000000,
       ccfHeartbeatTimeout = orElse (coConnectTimeout c) 10000000000,
       ccfMaxConns = orElse (coMaxPool c) 100, ccfMinConns = orElse (coMinPool c) 0,
       ccfConnectTimeout = orElse (coConnectTimeout c) 30000000000, ccfIdleTimeout = orElse (coMaxIdle c) 0,
       ccfSocketTimeout = orElse (coSocket c) 0, ccfCompressors = coCompressors c,
       ccfZlib = (if ''zlib'' \<in> set (coCompressors c) then coZlib c else None),
       ccfZstd = (if ''zstd'' \<in> set (coCompressors c) then coZstd c else None),
       ccfTls = coTls c, ccfNoOCSP = (coNoOCSP c = Some True)\<rparr>)"

definition configure :: "(string \<Rightarrow> string option) \<Rightarrow> clientOptions \<Rightarrow> string + clientConfig" where
  "configure prep c =
     (case validateOptions c of
        Some err \<Rightarrow> Inl err
      | None \<Rightarrow>
          (case coAuth c of
             None \<Rightarrow> Inr (configured c)
           | Some a \<Rightarrow>
               (case authenticatorError prep (crMechanism a) (credOf a) of
                  Some err \<Rightarrow> Inl err
                | None \<Rightarrow> Inr (configured c))))"

text \<open>\<open>NewClient\<close> and \<open>Connect\<close>, which does not wait for any server.\<close>

definition newClient :: "(string \<Rightarrow> string option) \<Rightarrow> clientOptions list \<Rightarrow> string + clientConfig" where
  "newClient prep opts = configure prep (mergeClientOptions opts)"

definition mongoConnect ::
    "(string \<Rightarrow> string option) \<Rightarrow> (string \<Rightarrow> string) \<Rightarrow> (string \<Rightarrow> bool) \<Rightarrow> clientOptions list \<Rightarrow> string + clientConfig \<times> deployment" where
  "mongoConnect prep low connects opts =
     (case newClient prep opts of
        Inl err \<Rightarrow> Inl err
      | Inr c \<Rightarrow>
          (case connectTopology low connects (ccfReplicaSet c) (ccfSingle c) (ccfBalanced c) (ccfSeeds c) of
             None \<Rightarrow> Inl ''server cannot be made''
           | Some d \<Rightarrow> Inr (c, d)))"

text \<open>
  The parser compares the mechanism without regard to case, the table of the authenticators with
  it: a mechanism in lower case is accepted and then unknown.
\<close>

lemma lower_mechanism_refused:
  "validateAuth low (inAuth (\<lambda>a. a\<lparr>auMechanism := ''scram-sha-1'', auUsername := Some ''u'', auPassword := Some ''p''\<rparr>) noConnString) = None
    \<and> authenticatorError prep ''scram-sha-1'' c = Some ''unknown authenticator: scram-sha-1''"
  by (simp add: validateAuth_def authenticatorError_def inAuth_def noConnString_def ToLower_def needsBoth_def userName_def
      passWord_def Let_def, simp add: toLower_def lowerByte_def is_upper_def)

section \<open>The client of the server\<close>

text \<open>
  C35. What the server of this repository connects with: for a readable configuration with a plain
  host \<open>mongo.Connect\<close> makes a client with the one seed, the default authenticator for the user,
  password and database of the file, fifty connections and the defaults of the driver, and whatever
  the database then reports, the lookups of contracts go to the same server as the inserts.
\<close>

theorem server_database_client:
  assumes "readableConfig c" and "asciiHost (Host c)" and "queryUnescape (User c) = Some user"
    and "queryUnescape (Pass c) = Some pass" and "queryUnescape (Database c) = Some db" and "user \<noteq> ''''"
    and "prep pass \<noteq> None" and "connects (toLower (Host c) @ '':'' @ Port c)"
  shows "\<exists>cfg d. mongoConnect prep low connects [clientOptionsOf e c] = Inr (cfg, d)
    \<and> ccfSeeds cfg = [Host c @ '':'' @ Port c] \<and> dpServers d = {toLower (Host c) @ '':'' @ Port c}
    \<and> ccfAuth cfg = Some ('''', \<lparr>cdSource = (if db = '''' then ''admin'' else db), cdUsername = user, cdPassword = pass,
        cdPasswordSet = True, cdProps = None\<rparr>)
    \<and> ccfMaxConns cfg = 50 \<and> ccfReadPref cfg = primaryRead \<and> ccfRetryWrites cfg
    \<and> (\<forall>ss. list_all (goodDesc low) ss \<and> tdCompat (dpDesc (runTopology low connects ss d)) = None \<longrightarrow>
        selectServers (readSelector (ccfReadPref cfg) (ccfThreshold cfg)) (dpDesc (runTopology low connects ss d))
        = selectServers (writeSelector (ccfThreshold cfg)) (dpDesc (runTopology low connects ss d)))"
proof -
  obtain n where n: "Port c = dec n" using assms(1) by (auto simp: readableConfig_def)
  let ?h = "Host c @ '':'' @ Port c"
  let ?a = "toLower (Host c) @ '':'' @ Port c"
  let ?o = "emptyOptions\<lparr>coScheme := Some ''mongodb'', coHosts := [?h], coAuth := Some (userCredential user pass db), coMaxPool := Some 50\<rparr>"
  have o: "clientOptionsOf e c = ?o" "validateOptions ?o = None"
    using config_options [OF assms(1,3-6), of e] by metis+
  have ca: "canonical low ?h = ?a" "canonical low ?a = ?a"
    using canonical_port [OF assms(2), of "Port c" low] canonical_port [OF asciiHost_lower_ascii [OF assms(2)], of "Port c" low]
      asciiHost_lower [OF assms(2)] dec_digits [of n] dec_nonempty [of n] by (simp_all add: n)
  have g: "goodSeeds low False [?h]" using ca by (simp add: goodSeeds_def settled_def)
  obtain d where d: "connectTopology low connects '''' False False [?h] = Some d" and s: "dpServers d = {?a}"
    using assms(8) ca(1) by (simp add: connectTopology_def connectedWith_def Let_def)
  obtain p where p: "prep pass = Some p" using assms(7) by blast
  have cr: "coAuth ?o = Some (userCredential user pass db)" by simp
  have ok: "authenticatorError prep (crMechanism (userCredential user pass db)) (credOf (userCredential user pass db)) = None"
    by (simp add: userCredential_def authenticatorError_def scramSha256Error_def credOf_def p)
  have cfg: "newClient prep [clientOptionsOf e c] = Inr (configured ?o)"
    unfolding newClient_def mergeClientOptions_one o(1) configure_def o(2) cr by (simp add: ok)
  have f: "ccfReplicaSet (configured ?o) = ''''" "\<not> ccfSingle (configured ?o)" "\<not> ccfBalanced (configured ?o)"
    "ccfSeeds (configured ?o) = [?h]" "ccfMaxConns (configured ?o) = 50" "ccfReadPref (configured ?o) = primaryRead"
    "ccfRetryWrites (configured ?o)"
    "ccfAuth (configured ?o) = Some ('''', \<lparr>cdSource = (if db = '''' then ''admin'' else db), cdUsername = user,
       cdPassword = pass, cdPasswordSet = True, cdProps = None\<rparr>)"
    by (simp_all add: configured_def emptyOptions_def orElse_def userCredential_def credOf_def Let_def)
  have m: "mongoConnect prep low connects [clientOptionsOf e c] = Inr (configured ?o, d)"
    using d f(1-4) by (simp add: mongoConnect_def cfg)
  have r: "selectServers (readSelector primaryRead (ccfThreshold (configured ?o))) (dpDesc (runTopology low connects ss d))
      = selectServers (writeSelector (ccfThreshold (configured ?o))) (dpDesc (runTopology low connects ss d))"
    if "list_all (goodDesc low) ss" "tdCompat (dpDesc (runTopology low connects ss d)) = None" for ss
    using watched_reads [OF connectTopology_watched [OF g d] that] by blast
  show ?thesis
    by (intro exI [of _ "configured ?o"] exI [of _ d] conjI m f s allI impI) (use r f(6) in auto)
qed

text \<open>The database is reached in the model of a request exactly when the driver makes a client.\<close>

definition connectsWith :: "env \<Rightarrow> (string \<Rightarrow> string option) \<Rightarrow> (string \<Rightarrow> bool) \<Rightarrow> driverEnv \<Rightarrow> bool" where
  "connectsWith e prep connects d \<longleftrightarrow>
     (\<forall>uri. env_connect e uri \<longleftrightarrow>
        (\<exists>r. mongoConnect prep (lowerUnicode d) connects [SetMaxPoolSize 50 (ApplyURI d uri emptyOptions)] = Inr r))"

lemma refused_options: "validateOptions c \<noteq> None \<Longrightarrow> \<exists>err. mongoConnect prep low connects [c] = Inl err"
  by (auto simp: mongoConnect_def newClient_def mergeClientOptions_one configure_def)

text \<open>
  C30. The configuration is put into the connection string unescaped: when the user has no at sign,
  colon or slash, and the password has no at sign but a colon or a slash, the driver refuses the
  string, and \<open>intializeMongoOnlineClient\<close> ends the server, for every state it runs in. (With an
  at sign in the password the string can pass and name another host.)
\<close>

theorem marked_password_ends_server:
  assumes "connectsWith e prep connects d" and "list_all (\<lambda>x. x \<notin> set ''@:/'') (User (networkConfig (env_RUNTIME e) cfg))"
    and "CHR ''@'' \<notin> set (Pass (networkConfig (env_RUNTIME e) cfg))"
    and "CHR '':'' \<in> set (Pass (networkConfig (env_RUNTIME e) cfg)) \<or> CHR ''/'' \<in> set (Pass (networkConfig (env_RUNTIME e) cfg))"
  shows "intializeMongoOnlineClient e cfg w = (Fatal ''momgo connect error'', w)"
proof -
  let ?c = "networkConfig (env_RUNTIME e) cfg"
  have "validateOptions (SetMaxPoolSize 50 (ApplyURI d (mongoURI ?c) emptyOptions)) \<noteq> None"
    using marked_refused [OF assms(2-4), of d] by (simp add: clientOptionsOf_def)
  from refused_options [OF this, of prep "lowerUnicode d" connects] have "\<not> env_connect e (mongoURI ?c)"
    using assms(1) by (auto simp: connectsWith_def)
  then show ?thesis by (simp add: intializeMongoOnlineClient_def Let_def fatal_def)
qed

subsection \<open>Witnesses\<close>

definition checkedEnv :: env where
  "checkedEnv = sample_env\<lparr>env_connect :=
     (\<lambda>uri. \<exists>r. mongoConnect Some id (\<lambda>_. True) [SetMaxPoolSize 50 (ApplyURI sampleDriver uri emptyOptions)] = Inr r)\<rparr>"

definition slashConfig :: Config where
  "slashConfig = \<lparr>Database_main = sampleDb ''p/w'', Database_test = sampleDb ''p/w'', Database_testmagnet = sampleDb ''p/w''\<rparr>"

theorem marked_password_ends_server_witness:
  "intializeMongoOnlineClient checkedEnv slashConfig sample_world = (Fatal ''momgo connect error'', sample_world)"
proof -
  have c: "networkConfig (env_RUNTIME checkedEnv) slashConfig = sampleDb ''p/w''"
    by (simp add: networkConfig_def slashConfig_def)
  have "connectsWith checkedEnv Some (\<lambda>_. True) sampleDriver" by (simp add: connectsWith_def checkedEnv_def sampleDriver_def)
  then show ?thesis by (rule marked_password_ends_server) (simp_all add: c, simp_all add: sampleDb_def)
qed

theorem server_database_client_witness:
  "\<exists>cfg d. mongoConnect Some id (\<lambda>_. True) [clientOptionsOf sampleDriver (sampleDb ''p+w'')] = Inr (cfg, d)
    \<and> ccfSeeds cfg = [''db:'' @ dec 27017]"
proof -
  have h: "Host (sampleDb ''p+w'') = ''db''" "Port (sampleDb ''p+w'') = dec 27017" by (simp_all add: sampleDb_def)
  have a: "asciiHost (Host (sampleDb ''p+w''))" using sample_host by (simp add: asciiHost_def h)
  have u: "queryUnescape (User (sampleDb ''p+w'')) = Some ''neo''" "queryUnescape (Pass (sampleDb ''p+w'')) = Some ''p w''"
    "queryUnescape (Database (sampleDb ''p+w'')) = Some ''fura''" by (simp_all add: sampleDb_def)
  from server_database_client [OF sampleDb_readable a u, of Some "\<lambda>_. True" id sampleDriver] h show ?thesis by auto
qed

end
